(* ===== verification/Jk_Prelude.thy ===== *)
theory Jk_Prelude
  imports Main "HOL-Library.Word" "HOL-Library.Signed_Division" "HOL-Library.List_Lexorder" "HOL-Library.Char_ord"
begin

text \<open>
  Shared material of the development: the names of the machine types, Go's fixed-width
  arithmetic on \<open>int\<close>, error chains as \<open>errors.Is\<close> reads them, generic facts on
  association lists and serial runs, and the locales that lift a one-step fact of a state
  machine to all its runs.
\<close>

section \<open>Machine types\<close>

type_synonym u8 = "8 word"
type_synonym u16 = "16 word"
type_synonym u32 = "32 word"
type_synonym u64 = "64 word"
type_synonym bytes = "u8 list"

text \<open>
  \<open>time.Time\<close> is the number of nanoseconds since Go's zero time (January 1 of year 1),
  so the zero value is \<open>0\<close> and \<open>IsZero\<close> is equality with it. \<open>time.Duration\<close> is
  an \<open>int64\<close> number of nanoseconds, kept as an \<open>int\<close> whose sums and products are
  wrapped by \<open>i64\<close> where the code computes them.
\<close>

type_synonym time = int
type_synonym duration = int

named_theorems bounds_intros "introduction rules for range facts"
named_theorems frame_simps "fields that an operation leaves unchanged"

section \<open>Go's int64 arithmetic\<close>

definition i64 :: "int \<Rightarrow> int" where
  "i64 x = (x + 2 ^ 63) mod 2 ^ 64 - 2 ^ 63"

lemma i64_id [simp]: "- (2 ^ 63) \<le> x \<Longrightarrow> x < 2 ^ 63 \<Longrightarrow> i64 x = x"
  by (simp add: i64_def)

lemma i64_range [bounds_intros]: "- (2 ^ 63) \<le> i64 x" "i64 x < 2 ^ 63"
proof -
  have "0 \<le> (x + 2 ^ 63) mod 2 ^ 64" "(x + 2 ^ 63) mod 2 ^ 64 < 2 ^ 64" by simp_all
  then show "- (2 ^ 63) \<le> i64 x" "i64 x < 2 ^ 63" by (simp_all add: i64_def)
qed

text \<open>\<open>Time.Sub\<close> saturates at the ends of the duration range.\<close>

definition time_sub :: "time \<Rightarrow> time \<Rightarrow> duration" where
  "time_sub a b = max (- (2 ^ 63)) (min (2 ^ 63 - 1) (a - b))"

lemma time_sub_nonneg_iff [simp]: "0 \<le> time_sub a b \<longleftrightarrow> b \<le> a"
  by (simp add: time_sub_def) linarith

lemma time_sub_le_iff: "m < 2 ^ 63 - 1 \<Longrightarrow> 0 \<le> m \<Longrightarrow> time_sub a b \<le> m \<longleftrightarrow> a - b \<le> m"
  by (simp add: time_sub_def) linarith

text \<open>Durations of the source's constants, in nanoseconds.\<close>

abbreviation nanos_per_milli :: int where "nanos_per_milli \<equiv> 1000000"
abbreviation millis :: "int \<Rightarrow> duration" where "millis n \<equiv> n * nanos_per_milli"
abbreviation seconds :: "int \<Rightarrow> duration" where "seconds n \<equiv> n * 1000000000"
abbreviation minutes :: "int \<Rightarrow> duration" where "minutes n \<equiv> n * 60000000000"
abbreviation hours :: "int \<Rightarrow> duration" where "hours n \<equiv> n * 3600000000000"

section \<open>Error chains\<close>

text \<open>
  A Go error is the list of the sentinels its chain wraps: \<open>errors.Is\<close> is membership,
  \<open>fmt.Errorf("%w: %w", a, b)\<close> and \<open>errors.Join(a, b)\<close> append the chains. The message
  text, which no decision of the code reads, is not kept. \<open>None\<close> is the nil error.
\<close>

abbreviation (input) errors_is :: "'e list \<Rightarrow> 'e \<Rightarrow> bool" where
  "errors_is chain e \<equiv> e \<in> set chain"

definition errors_join :: "'e list option \<Rightarrow> 'e list option \<Rightarrow> 'e list option" where
  "errors_join a b =
     (case a of None \<Rightarrow> b
      | Some x \<Rightarrow> (case b of None \<Rightarrow> Some x | Some y \<Rightarrow> Some (x @ y)))"

lemma errors_join_None [simp]:
  "errors_join None b = b" "errors_join a None = a"
  "errors_join a b = None \<longleftrightarrow> a = None \<and> b = None"
  by (auto simp: errors_join_def split: option.splits)

lemma errors_join_Some [simp]: "\<exists>y. errors_join a (Some x) = Some y"
  by (cases a) (simp_all add: errors_join_def)

section \<open>Association lists\<close>

lemma map_of_filter_key:
  "map_of (filter (\<lambda>p. P (fst p)) xs) k = (if P k then map_of xs k else None)"
  by (induction xs) auto

lemma distinct_map_of_mem:
  "distinct (map fst xs) \<Longrightarrow> (k, v) \<in> set xs \<longleftrightarrow> map_of xs k = Some v"
  by (rule map_of_eq_Some_iff [symmetric])

lemma map_of_map_val: "map_of (map (\<lambda>(k, v). (k, f k v)) xs) k = map_option (f k) (map_of xs k)"
  by (induction xs) auto

lemma list_all_map_of: "list_all (\<lambda>(k, v). P k v) xs \<Longrightarrow> map_of xs k = Some v \<Longrightarrow> P k v"
  by (auto simp: list_all_iff dest: map_of_SomeD)

section \<open>Runs of a state machine\<close>

text \<open>
  A component with operations is a function \<open>step s op\<close>; a run is a list of operations.
  The locales below are the contract a component's step lemma provides and what every client
  gets from it: facts about all runs.
\<close>

locale guarded_machine =
  fixes step :: "'s \<Rightarrow> 'op \<Rightarrow> 's" and inv :: "'s \<Rightarrow> bool"
  assumes step_inv: "inv s \<Longrightarrow> inv (step s e)"
begin

lemma run_inv: "inv s \<Longrightarrow> inv (foldl step s es)"
  by (induction es arbitrary: s) (simp_all add: step_inv)

end

text \<open>A quantity that never goes back, such as a generation counter.\<close>

locale ranked_machine = guarded_machine step inv
  for step :: "'s \<Rightarrow> 'op \<Rightarrow> 's" and inv :: "'s \<Rightarrow> bool" +
  fixes rank :: "'s \<Rightarrow> 'r :: preorder"
  assumes step_rank: "inv s \<Longrightarrow> rank s \<le> rank (step s e)"
begin

lemma run_rank: "inv s \<Longrightarrow> rank s \<le> rank (foldl step s es)"
proof (induction es arbitrary: s)
  case Nil
  show ?case by simp
next
  case (Cons e es)
  have "rank s \<le> rank (step s e)" using Cons.prems by (rule step_rank)
  also have "\<dots> \<le> rank (foldl step (step s e) es)"
    using step_inv [OF Cons.prems] by (rule Cons.IH)
  finally show ?case by simp
qed

end

text \<open>A predicate that, once it holds, no operation undoes.\<close>

locale latched_machine = guarded_machine step inv
  for step :: "'s \<Rightarrow> 'op \<Rightarrow> 's" and inv :: "'s \<Rightarrow> bool" +
  fixes latched :: "'s \<Rightarrow> bool"
  assumes step_latched: "inv s \<Longrightarrow> latched s \<Longrightarrow> latched (step s e)"
begin

lemma run_latched: "inv s \<Longrightarrow> latched s \<Longrightarrow> latched (foldl step s es)"
  by (induction es arbitrary: s) (simp_all add: step_inv step_latched)

end

end
