(* ===== verification/Domain.thy ===== *)
theory Domain
  imports Jk_Prelude
begin

text \<open>
  \<open>internal/domain\<close>: the effect classes every package shares, and the configured device.
  A Go string type is the datatype of its declared constants plus one constructor for any other
  string value.
\<close>

datatype effect_class =
    EffectObserve | EffectInput | EffectPower | EffectMedia | EffectAdmin | EffectIrreversible
  | EffectOther string

text \<open>The \<open>case\<close> list that accepts every declared effect class.\<close>

definition known_effect :: "effect_class \<Rightarrow> bool" where
  "known_effect e = (case e of EffectOther _ \<Rightarrow> False | _ \<Rightarrow> True)"

lemma known_effect_simps [simp]:
  "known_effect EffectObserve" "known_effect EffectInput" "known_effect EffectPower"
  "known_effect EffectMedia" "known_effect EffectAdmin" "known_effect EffectIrreversible"
  "\<not> known_effect (EffectOther s)"
  by (simp_all add: known_effect_def)

type_synonym device_id = string

end
