(* ===== verification/Inventory.thy ===== *)
theory Inventory
  imports Domain "HOL-Library.Multiset"
begin

text \<open>
  \<open>internal/inventory\<close>: the static metadata of the MCP tools. \<open>catalog_new\<close> is
  \<open>New\<close> (inventory.go), \<open>static_definitions\<close> and the tool constructors are static.go.
  A catalog is the association list of its map, in insertion order; \<open>catalog_all\<close> sorts by
  toolset and name with the comparator of \<open>All\<close>, which the \<open>linorder\<close> instance of
  \<open>tool_key\<close> shows to be a total order.
\<close>

section \<open>Tool definitions\<close>

datatype retry_policy = RetryBoundedRead | RetryNeverAfterSend | RetryOther string
datatype receipt_semantics = ReceiptObservation | ReceiptOperation | ReceiptOther string

record tool_definition =
  td_name :: string
  td_toolset :: string
  td_effect :: effect_class
  td_read_only :: bool
  td_destructive :: bool
  td_idempotent :: bool
  td_open_world :: bool
  td_device_scoped :: bool
  td_capability :: string
  td_input_schema :: string
  td_output_schema :: string
  td_retry :: retry_policy
  td_receipt :: receipt_semantics

datatype tool_error =
    ToolFieldsRequired | ToolUnknownEffect | ToolReadOnlyReceipt | ToolWriteReceipt
  | ToolReadOnlyRetry | ToolWriteRetry | ToolEffectReadOnly

text \<open>\<open>ToolDefinition.validate\<close>: the list of joined errors, empty for nil.\<close>

definition validate_tool :: "tool_definition \<Rightarrow> tool_error list" where
  "validate_tool d =
     (if td_name d = [] \<or> td_toolset d = [] \<or> td_input_schema d = [] \<or> td_output_schema d = []
      then [ToolFieldsRequired] else [])
     @ (if known_effect (td_effect d) then [] else [ToolUnknownEffect])
     @ (if td_read_only d \<and> td_receipt d \<noteq> ReceiptObservation then [ToolReadOnlyReceipt] else [])
     @ (if \<not> td_read_only d \<and> td_receipt d \<noteq> ReceiptOperation then [ToolWriteReceipt] else [])
     @ (if td_read_only d \<and> td_retry d \<noteq> RetryBoundedRead then [ToolReadOnlyRetry] else [])
     @ (if \<not> td_read_only d \<and> td_retry d \<noteq> RetryNeverAfterSend then [ToolWriteRetry] else [])
     @ (if td_effect d \<noteq> EffectObserve \<and> td_read_only d then [ToolEffectReadOnly] else [])"

definition tool_ok :: "tool_definition \<Rightarrow> bool" where
  "tool_ok d \<longleftrightarrow>
     td_name d \<noteq> [] \<and> td_toolset d \<noteq> [] \<and> td_input_schema d \<noteq> [] \<and> td_output_schema d \<noteq> [] \<and>
     known_effect (td_effect d) \<and>
     (if td_read_only d
      then td_receipt d = ReceiptObservation \<and> td_retry d = RetryBoundedRead \<and>
           td_effect d = EffectObserve
      else td_receipt d = ReceiptOperation \<and> td_retry d = RetryNeverAfterSend)"

lemma validate_tool_iff [simp]: "validate_tool d = [] \<longleftrightarrow> tool_ok d"
  by (auto simp: validate_tool_def tool_ok_def)

section \<open>The catalog\<close>

type_synonym catalog = "(string \<times> tool_definition) list"

datatype catalog_error = InvalidTool string "tool_error list" | DuplicateTool string

text \<open>
  The loop of \<open>New\<close>: an invalid or duplicate definition is reported and skipped, so the
  accumulator holds the map built so far and the errors collected so far.
\<close>

fun catalog_add :: "tool_definition list \<Rightarrow> catalog \<Rightarrow> catalog_error list \<Rightarrow> catalog \<times> catalog_error list" where
  "catalog_add [] tools errs = (tools, errs)"
| "catalog_add (d # ds) tools errs =
     (if validate_tool d \<noteq> [] then catalog_add ds tools (errs @ [InvalidTool (td_name d) (validate_tool d)])
      else if map_of tools (td_name d) \<noteq> None then catalog_add ds tools (errs @ [DuplicateTool (td_name d)])
      else catalog_add ds (tools @ [(td_name d, d)]) errs)"

definition catalog_new :: "tool_definition list \<Rightarrow> catalog_error list + catalog" where
  "catalog_new ds =
     (case catalog_add ds [] [] of (tools, errs) \<Rightarrow> if errs = [] then Inr tools else Inl errs)"

definition catalog_get :: "catalog \<Rightarrow> string \<Rightarrow> tool_definition option" where
  "catalog_get c name = map_of c name"

section \<open>Sorting by toolset and name\<close>

text \<open>\<open>compare\<close> and the comparator of \<open>All\<close>.\<close>

definition compare_strings :: "string \<Rightarrow> string \<Rightarrow> int" where
  "compare_strings a b = (if a < b then -1 else if b < a then 1 else 0)"

datatype tool_key = ToolKey (tk_toolset: string) (tk_name: string)

definition compare_tools :: "tool_key \<Rightarrow> tool_key \<Rightarrow> int" where
  "compare_tools a b =
     (if tk_toolset a = tk_toolset b then compare_strings (tk_name a) (tk_name b)
      else compare_strings (tk_toolset a) (tk_toolset b))"

lemma compare_strings_le [simp]: "compare_strings a b \<le> 0 \<longleftrightarrow> a \<le> b"
  and compare_strings_less [simp]: "compare_strings a b < 0 \<longleftrightarrow> a < b"
  by (auto simp: compare_strings_def)

text \<open>The comparator is a total order, which \<open>slices.SortFunc\<close> requires of it.\<close>

instantiation tool_key :: linorder
begin

definition less_eq_tool_key :: "tool_key \<Rightarrow> tool_key \<Rightarrow> bool" where
  "less_eq_tool_key a b \<longleftrightarrow> compare_tools a b \<le> 0"

definition less_tool_key :: "tool_key \<Rightarrow> tool_key \<Rightarrow> bool" where
  "less_tool_key a b \<longleftrightarrow> compare_tools a b < 0"

instance
proof
  fix x y z :: tool_key
  show "(x < y) = (x \<le> y \<and> \<not> y \<le> x)"
    by (cases x; cases y) (auto simp: less_eq_tool_key_def less_tool_key_def compare_tools_def)
  show "x \<le> x"
    by (simp add: less_eq_tool_key_def compare_tools_def)
  show "x \<le> y \<Longrightarrow> y \<le> z \<Longrightarrow> x \<le> z"
    by (cases x; cases y; cases z)
      (auto simp: less_eq_tool_key_def compare_tools_def split: if_splits)
  show "x \<le> y \<Longrightarrow> y \<le> x \<Longrightarrow> x = y"
    by (cases x; cases y)
      (auto simp: less_eq_tool_key_def compare_tools_def split: if_splits)
  show "x \<le> y \<or> y \<le> x"
    by (cases x; cases y) (auto simp: less_eq_tool_key_def compare_tools_def)
qed

end

definition tool_key_of :: "tool_definition \<Rightarrow> tool_key" where
  "tool_key_of d = ToolKey (td_toolset d) (td_name d)"

definition catalog_all :: "catalog \<Rightarrow> tool_definition list" where
  "catalog_all c = sort_key tool_key_of (map snd c)"

section \<open>The static inventory\<close>

definition observe_tool_for :: "string \<Rightarrow> string \<Rightarrow> bool \<Rightarrow> string \<Rightarrow> string \<Rightarrow> string \<Rightarrow> tool_definition" where
  "observe_tool_for name toolset scoped inp outp capability =
     \<lparr>td_name = name, td_toolset = toolset, td_effect = EffectObserve,
      td_read_only = True, td_destructive = False, td_idempotent = True, td_open_world = False,
      td_device_scoped = scoped, td_capability = capability,
      td_input_schema = inp, td_output_schema = outp,
      td_retry = RetryBoundedRead, td_receipt = ReceiptObservation\<rparr>"

definition observe_tool :: "string \<Rightarrow> bool \<Rightarrow> string \<Rightarrow> string \<Rightarrow> tool_definition" where
  "observe_tool name scoped inp outp = observe_tool_for name ''observe'' scoped inp outp []"

definition video_read_tool :: "string \<Rightarrow> string \<Rightarrow> string \<Rightarrow> tool_definition" where
  "video_read_tool name inp outp =
     \<lparr>td_name = name, td_toolset = ''video'', td_effect = EffectObserve,
      td_read_only = True, td_destructive = False, td_idempotent = True, td_open_world = False,
      td_device_scoped = True, td_capability = ''video'',
      td_input_schema = inp, td_output_schema = outp,
      td_retry = RetryBoundedRead, td_receipt = ReceiptObservation\<rparr>"

definition video_control_tool :: "string \<Rightarrow> bool \<Rightarrow> string \<Rightarrow> string \<Rightarrow> tool_definition" where
  "video_control_tool name destructive inp outp =
     \<lparr>td_name = name, td_toolset = ''video'', td_effect = EffectObserve,
      td_read_only = False, td_destructive = destructive, td_idempotent = False, td_open_world = False,
      td_device_scoped = True, td_capability = ''video'',
      td_input_schema = inp, td_output_schema = outp,
      td_retry = RetryNeverAfterSend, td_receipt = ReceiptOperation\<rparr>"

definition write_tool ::
    "string \<Rightarrow> string \<Rightarrow> effect_class \<Rightarrow> bool \<Rightarrow> string \<Rightarrow> string \<Rightarrow> string \<Rightarrow> tool_definition" where
  "write_tool name toolset effect destructive inp outp capability =
     \<lparr>td_name = name, td_toolset = toolset, td_effect = effect,
      td_read_only = False, td_destructive = destructive, td_idempotent = False, td_open_world = False,
      td_device_scoped = True, td_capability = capability,
      td_input_schema = inp, td_output_schema = outp,
      td_retry = RetryNeverAfterSend, td_receipt = ReceiptOperation\<rparr>"

text \<open>The two setup writers are struct literals: the fields they leave out are Go's zero values.\<close>

definition setup_write_tool :: "string \<Rightarrow> string \<Rightarrow> string \<Rightarrow> tool_definition" where
  "setup_write_tool name inp outp =
     \<lparr>td_name = name, td_toolset = ''setup'', td_effect = EffectAdmin,
      td_read_only = False, td_destructive = False, td_idempotent = False, td_open_world = False,
      td_device_scoped = False, td_capability = [],
      td_input_schema = inp, td_output_schema = outp,
      td_retry = RetryNeverAfterSend, td_receipt = ReceiptOperation\<rparr>"

definition static_definitions :: "tool_definition list" where
  "static_definitions =
    [setup_write_tool ''jetkvm_setup'' ''setup_input'' ''setup_progress'',
     observe_tool_for ''jetkvm_setup_status'' ''setup'' False ''setup_status_input'' ''setup_progress'' [],
     observe_tool_for ''jetkvm_get_config'' ''setup'' False ''get_config_input'' ''settings_output'' [],
     setup_write_tool ''jetkvm_update_config'' ''settings_patch'' ''setup_progress'',
     observe_tool ''jetkvm_list_devices'' False ''list_devices_input'' ''device_list_output'',
     observe_tool ''jetkvm_get_status'' True ''device_input'' ''device_status_output'',
     observe_tool ''jetkvm_get_capabilities'' True ''capabilities_input'' ''capabilities_output'',
     observe_tool ''jetkvm_get_operation'' True ''operation_input'' ''operation_receipt_output'',
     video_control_tool ''jetkvm_open_control'' True ''open_control_input'' ''control_output'',
     video_read_tool ''jetkvm_get_control'' ''control_input'' ''control_output'',
     video_control_tool ''jetkvm_close_control'' False ''control_input'' ''operation_receipt_output'',
     video_read_tool ''jetkvm_observe'' ''observe_input'' ''observation_output'',
     video_read_tool ''jetkvm_capture_screen'' ''capture_input'' ''observation_output'',
     video_read_tool ''jetkvm_wait_for_signal'' ''wait_signal_input'' ''observation_output'',
     write_tool ''jetkvm_key_press'' ''input'' EffectInput False ''key_press_input'' ''operation_receipt_output'' ''hid'',
     write_tool ''jetkvm_key_combo'' ''input'' EffectInput False ''key_combo_input'' ''operation_receipt_output'' ''hid'',
     write_tool ''jetkvm_type_text'' ''input'' EffectInput False ''type_text_input'' ''operation_receipt_output'' ''hid'',
     write_tool ''jetkvm_pointer_click'' ''input'' EffectInput False ''pointer_click_input'' ''operation_receipt_output'' ''pointer'',
     write_tool ''jetkvm_pointer_move'' ''input'' EffectInput False ''pointer_move_input'' ''action_batch_output'' ''pointer'',
     write_tool ''jetkvm_pointer_double_click'' ''input'' EffectInput False ''pointer_double_click_input'' ''action_batch_output'' ''pointer'',
     write_tool ''jetkvm_pointer_drag'' ''input'' EffectInput False ''pointer_drag_input'' ''action_batch_output'' ''pointer'',
     write_tool ''jetkvm_pointer_scroll'' ''input'' EffectInput False ''pointer_scroll_input'' ''action_batch_output'' ''pointer'',
     write_tool ''jetkvm_release_input'' ''input'' EffectInput False ''release_input_input'' ''operation_receipt_output'' ''hid'',
     write_tool ''jetkvm_run_actions'' ''input'' EffectInput False ''run_actions_input'' ''action_batch_output'' ''hid'',
     observe_tool_for ''jetkvm_get_power_state'' ''power'' True ''device_input'' ''power_state_output'' ''atx'',
     write_tool ''jetkvm_power_action'' ''power'' EffectPower True ''power_action_input'' ''operation_receipt_output'' ''atx'',
     write_tool ''jetkvm_wake'' ''power'' EffectPower False ''wake_input'' ''operation_receipt_output'' ''wol'']"

text \<open>\<open>Static\<close>: the catalog, or \<open>None\<close> for the panic on an invalid static table.\<close>

definition static_catalog :: "catalog option" where
  "static_catalog = (case catalog_new static_definitions of Inl _ \<Rightarrow> None | Inr c \<Rightarrow> Some c)"

section \<open>What New accepts\<close>

definition catalog_wf :: "catalog \<Rightarrow> bool" where
  "catalog_wf c \<longleftrightarrow> distinct (map fst c) \<and> list_all (\<lambda>(n, d). n = td_name d \<and> tool_ok d) c"

lemma catalog_add_errs: "snd (catalog_add ds tools errs) = [] \<Longrightarrow> errs = []"
  by (induction ds tools errs rule: catalog_add.induct) (auto split: if_splits)

lemma catalog_add_ok:
  assumes "snd (catalog_add ds tools errs) = []"
  shows "errs = [] \<and> list_all tool_ok ds \<and> distinct (map td_name ds) \<and>
    set (map td_name ds) \<inter> fst ` set tools = {} \<and>
    fst (catalog_add ds tools errs) = tools @ map (\<lambda>d. (td_name d, d)) ds"
  using assms
proof (induction ds tools errs rule: catalog_add.induct)
  case (1 tools errs)
  then show ?case by simp
next
  case (2 d ds tools errs)
  show ?case
  proof (cases "tool_ok d \<and> map_of tools (td_name d) = None")
    case True
    then show ?thesis using 2 by (auto simp: map_of_eq_None_iff)
  next
    case False
    then have "\<exists>e. catalog_add (d # ds) tools errs = catalog_add ds tools (errs @ [e])" by auto
    then obtain e where "snd (catalog_add ds tools (errs @ [e])) = []" using 2(4) by metis
    from catalog_add_errs [OF this] show ?thesis by simp
  qed
qed

lemma catalog_add_complete:
  assumes "list_all tool_ok ds" "distinct (map td_name ds)" "set (map td_name ds) \<inter> fst ` set tools = {}"
  shows "catalog_add ds tools errs = (tools @ map (\<lambda>d. (td_name d, d)) ds, errs)"
  using assms
proof (induction ds arbitrary: tools)
  case Nil
  then show ?case by simp
next
  case (Cons d ds)
  have "map_of tools (td_name d) = None" using Cons.prems(3) by (auto simp: map_of_eq_None_iff)
  moreover have "catalog_add ds (tools @ [(td_name d, d)]) errs =
      ((tools @ [(td_name d, d)]) @ map (\<lambda>d. (td_name d, d)) ds, errs)"
    using Cons.prems by (intro Cons.IH) auto
  ultimately show ?case using Cons.prems by simp
qed

lemma catalog_new_iff:
  "catalog_new ds = Inr c \<longleftrightarrow>
     list_all tool_ok ds \<and> distinct (map td_name ds) \<and> c = map (\<lambda>d. (td_name d, d)) ds"
proof (cases "snd (catalog_add ds [] []) = []")
  case True
  with catalog_add_ok [OF True] show ?thesis
    by (auto simp: catalog_new_def split: prod.splits)
next
  case False
  moreover have "\<not> (list_all tool_ok ds \<and> distinct (map td_name ds))"
    using False catalog_add_complete [of ds "[]" "[]"] by auto
  ultimately show ?thesis by (auto simp: catalog_new_def split: prod.splits)
qed

lemma catalog_new_wf: "catalog_new ds = Inr c \<Longrightarrow> catalog_wf c"
  by (auto simp: catalog_new_iff catalog_wf_def comp_def list_all_iff)

lemma catalog_get_wf: "catalog_wf c \<Longrightarrow> catalog_get c n = Some d \<Longrightarrow> td_name d = n \<and> tool_ok d"
  by (auto simp: catalog_get_def catalog_wf_def list_all_iff dest!: map_of_SomeD)

lemma set_catalog_all [simp]: "set (catalog_all c) = snd ` set c"
  by (simp add: catalog_all_def)

lemma catalog_all_get: "catalog_wf c \<Longrightarrow> d \<in> set (catalog_all c) \<longleftrightarrow> catalog_get c (td_name d) = Some d"
  by (force simp: catalog_get_def catalog_wf_def list_all_iff dest: map_of_SomeD)

lemma catalog_wf_names: "catalog_wf c \<Longrightarrow> map td_name (map snd c) = map fst c"
  by (auto simp: catalog_wf_def list_all_iff)

lemma inj_tool_keys: "catalog_wf c \<Longrightarrow> inj_on tool_key_of (set (map snd c))"
proof -
  assume "catalog_wf c"
  then have "distinct (map td_name (map snd c))"
    using catalog_wf_names [of c] by (simp only: catalog_wf_def)
  then have "inj_on td_name (set (map snd c))" unfolding distinct_map by (rule conjunct2)
  then show ?thesis by (auto simp: inj_on_def tool_key_of_def)
qed

section \<open>The interface the policy uses\<close>

text \<open>
  The policy reads a catalog through \<open>Get\<close> and \<open>All\<close> only, and relies on the two
  agreeing and on every definition carrying its own name.
\<close>

locale tool_catalog =
  fixes get :: "'c \<Rightarrow> string \<Rightarrow> tool_definition option"
    and all :: "'c \<Rightarrow> tool_definition list"
    and cat_wf :: "'c \<Rightarrow> bool"
  assumes get_name: "cat_wf c \<Longrightarrow> get c n = Some d \<Longrightarrow> td_name d = n"
    and all_get: "cat_wf c \<Longrightarrow> d \<in> set (all c) \<longleftrightarrow> get c (td_name d) = Some d"
    and all_sorted: "sorted (map tool_key_of (all c))"
begin

lemma get_in_all: "cat_wf c \<Longrightarrow> get c n = Some d \<Longrightarrow> d \<in> set (all c)"
  using all_get [of c d] get_name [of c n d] by simp

lemma filter_all_iff:
  assumes "cat_wf c"
  shows "n \<in> td_name ` set (filter P (all c)) \<longleftrightarrow> (\<exists>d. get c n = Some d \<and> P d)"
proof
  assume "n \<in> td_name ` set (filter P (all c))"
  then obtain d where "d \<in> set (all c)" "P d" "n = td_name d" by auto
  then show "\<exists>d. get c n = Some d \<and> P d" using all_get [OF assms] by blast
next
  assume "\<exists>d. get c n = Some d \<and> P d"
  then obtain d where d: "get c n = Some d" "P d" by blast
  then show "n \<in> td_name ` set (filter P (all c))"
    using get_in_all [OF assms d(1)] get_name [OF assms d(1)] by force
qed

end

interpretation static_tools: tool_catalog catalog_get catalog_all catalog_wf
proof unfold_locales
  show "catalog_wf c \<Longrightarrow> catalog_get c n = Some d \<Longrightarrow> td_name d = n" for c n d
    by (simp add: catalog_get_wf)
  show "catalog_wf c \<Longrightarrow> d \<in> set (catalog_all c) \<longleftrightarrow> catalog_get c (td_name d) = Some d" for c d
    by (rule catalog_all_get)
  show "sorted (map tool_key_of (catalog_all c))" for c
    by (simp add: catalog_all_def)
qed

section \<open>Properties\<close>

text \<open>
  \<open>New\<close> accepts a table exactly when every definition is valid and the names are
  distinct, and then the catalog holds every definition under its own name; in every other
  case it returns an error and no catalog.
\<close>

theorem catalog_new_accepts:
  "catalog_new ds = Inr c \<longleftrightarrow>
     (list_all tool_ok ds \<and> distinct (map td_name ds) \<and> c = map (\<lambda>d. (td_name d, d)) ds)"
  by (rule catalog_new_iff)

text \<open>
  the result of \<open>All\<close> does not depend on the order in which Go iterates the map: any two
  enumerations of the same catalog give the same list.
\<close>

theorem catalog_all_deterministic:
  assumes "catalog_wf c" "catalog_wf c'" "mset (map snd c) = mset (map snd c')"
  shows "catalog_all c = catalog_all c'"
proof -
  note inj = inj_tool_keys [OF assms(1)]
  have "mset (sort_key tool_key_of (map snd c)) = mset (map snd c')" using assms(3) by simp
  then show ?thesis
    unfolding catalog_all_def
    using inj by (intro sort_key_inj_key_eq) auto
qed

text \<open>\<open>Static\<close> never panics: the built-in table passes \<open>New\<close>.\<close>

theorem static_catalog_ok:
  "static_catalog = Some (map (\<lambda>d. (td_name d, d)) static_definitions)"
  by code_simp

theorem catalog_all_deterministic_witness:
  "catalog_all [(''a'', observe_tool ''a'' True ''i'' ''o''), (''b'', observe_tool ''b'' True ''i'' ''o'')] =
     catalog_all [(''b'', observe_tool ''b'' True ''i'' ''o''), (''a'', observe_tool ''a'' True ''i'' ''o'')]"
  by (rule catalog_all_deterministic)
    (simp_all add: catalog_wf_def tool_ok_def observe_tool_def observe_tool_for_def)

end
