(* ===== verification/Config.thy ===== *)
theory Config
  imports Domain
begin

text \<open>
  \<open>internal/config\<close>: the deployment configuration, its validation (validate.go), its
  defaults (config.go) and the process-local narrowing (narrow.go). A joined error is the list
  of its members, empty for nil. The device map is the association list of its entries, in the
  order Go iterates them; nothing but the order of errors depends on it.
\<close>

section \<open>Data\<close>

record selection =
  sel_allow :: "string list"
  sel_deny :: "string list"

datatype transport_type = TransportStdio | TransportStreamableHTTP | TransportOther string

record transport_config =
  tc_type :: transport_type
  tc_http :: "string option"  \<comment> \<open>\<open>HTTPConfig.Listen\<close>, \<open>None\<close> for the nil pointer\<close>

datatype output_mode = OutputAuto | OutputJSON | OutputText | OutputOther string

datatype credential_provider =
  CredentialKeychain | CredentialEnvironment | CredentialNoPassword | CredentialOther string

record credential_config =
  cc_provider :: credential_provider
  cc_service :: string
  cc_account :: string
  cc_variable :: string

datatype tls_mode = TLSSystem | TLSPinned | TLSOther string

record tls_config =
  tls_mode_of :: tls_mode
  tls_spki :: string

record takeover_config =
  tk_allowed :: bool
  tk_require_confirmation :: bool

record session_config =
  sc_idle :: duration
  sc_absolute :: duration

record device_config =
  dc_device_id :: device_id
  dc_origin :: string
  dc_exposed :: bool
  dc_allow_plain_http :: bool
  dc_labels :: "(string \<times> string) list"
  dc_credentials :: credential_config
  dc_tls :: tls_config
  dc_permissions :: "string list"
  dc_takeover :: takeover_config
  dc_session :: session_config

record retention_config =
  rt_operation_receipts :: duration
  rt_security_audit :: duration
  rt_observation_metadata :: duration
  rt_screenshots :: duration

record config =
  cfg_version :: int
  cfg_transport :: transport_config
  cfg_output :: output_mode
  cfg_confirmation_required :: bool
  cfg_state_path :: string
  cfg_toolsets :: selection
  cfg_tools :: selection
  cfg_devices :: "(string \<times> device_config) list"
  cfg_retention :: retention_config

definition CurrentVersion :: int where "CurrentVersion = 1"

definition default_session :: session_config where
  "default_session = \<lparr>sc_idle = minutes 5, sc_absolute = minutes 30\<rparr>"

definition default_config :: config where
  "default_config =
     \<lparr>cfg_version = CurrentVersion,
      cfg_transport = \<lparr>tc_type = TransportStdio, tc_http = None\<rparr>,
      cfg_output = OutputAuto,
      cfg_confirmation_required = False,
      cfg_state_path = [],
      cfg_toolsets = \<lparr>sel_allow = [''observe'', ''video'', ''setup''], sel_deny = []\<rparr>,
      cfg_tools = \<lparr>sel_allow = [], sel_deny = []\<rparr>,
      cfg_devices = [],
      cfg_retention =
        \<lparr>rt_operation_receipts = hours (30 * 24), rt_security_audit = hours (90 * 24),
         rt_observation_metadata = hours 24, rt_screenshots = 0\<rparr>\<rparr>"

section \<open>The standard library's parsers\<close>

text \<open>
  \<open>net/url.Parse\<close>, \<open>net.SplitHostPort\<close>, \<open>net.ParseIP\<close>, \<open>filepath.IsAbs\<close> and
  \<open>strings.TrimSpace\<close> depend on the URL grammar, the host system or Unicode tables: they are
  arguments of the model, and every theorem holds for all of them. \<open>pf_parse_url\<close> is \<open>None\<close>
  when the parse fails, as the source then holds a nil URL.
\<close>

record url =
  url_scheme :: string
  url_host :: string
  url_has_user :: bool
  url_raw_query :: string
  url_fragment :: string
  url_path :: string

record platform =
  pf_parse_url :: "string \<Rightarrow> url option"
  pf_split_host :: "string \<Rightarrow> string option"
  pf_ip_loopback :: "string \<Rightarrow> bool option"
  pf_is_abs :: "string \<Rightarrow> bool"
  pf_trim_space :: "string \<Rightarrow> string"

definition is_hex_digit :: "char \<Rightarrow> bool" where
  "is_hex_digit c \<longleftrightarrow> c \<in> set ''0123456789abcdefABCDEF''"

text \<open>The number of bytes \<open>hex.DecodeString\<close> returns, \<open>None\<close> for its error.\<close>

definition hex_decoded_length :: "string \<Rightarrow> nat option" where
  "hex_decoded_length s =
     (if even (length s) \<and> list_all is_hex_digit s then Some (length s div 2) else None)"

section \<open>Validation\<close>

datatype config_error =
    VersionUnsupported
  | HTTPOnlyForStreamable | HTTPRequired | ListenNotHostPort | ListenNotLoopback | TransportUnsupported
  | OutputUnsupported
  | StatePathNotAbsolute
  | EmptyValue string string | UnknownValue string string string | DuplicateValue string string string
  | AliasEmpty | DeviceIDRequired string | OriginUnparsable string
  | OriginScheme string | OriginAuthority string | OriginPath string | PlainHTTPNotAllowed string
  | KeychainFields string | EnvironmentFields string | NoPasswordFields string | CredentialUnsupported string
  | TLSOnlyHTTPS string | SPKIRequiresPinned string | PinnedRequiresSPKI string | SPKIMalformed string
  | TLSUnsupported string
  | IdleNotPositive string | AbsoluteNotPositive string | IdleExceedsAbsolute string
  | RetentionNegative string
  | ProcessAllowExceeds string string | ProcessDeviceNotExposed string | ProcessDenyUnknown string
  | ProcessPermissionsUnknown string | ProcessPermissionExceeds string string
  | ProcessTakeoverUnknown string

definition knownToolsets :: "string list" where
  "knownToolsets = [''observe'', ''video'', ''input'', ''power'', ''media'', ''setup'']"

definition knownDevicePermissions :: "string list" where
  "knownDevicePermissions = [''observe'', ''video'', ''input'', ''power'', ''media'']"

definition validate_transport :: "platform \<Rightarrow> transport_config \<Rightarrow> config_error list" where
  "validate_transport pf c =
     (case tc_type c of
        TransportStdio \<Rightarrow> (if tc_http c \<noteq> None then [HTTPOnlyForStreamable] else [])
      | TransportStreamableHTTP \<Rightarrow>
          (case tc_http c of
             None \<Rightarrow> [HTTPRequired]
           | Some listen \<Rightarrow>
               (case pf_split_host pf listen of
                  None \<Rightarrow> [ListenNotHostPort]
                | Some host \<Rightarrow>
                    (if pf_ip_loopback pf host = Some True then [] else [ListenNotLoopback])))
      | TransportOther _ \<Rightarrow> [TransportUnsupported])"

definition validate_output :: "output_mode \<Rightarrow> config_error list" where
  "validate_output m =
     (if m \<noteq> OutputAuto \<and> m \<noteq> OutputJSON \<and> m \<noteq> OutputText then [OutputUnsupported] else [])"

text \<open>The loop of \<open>validateSelection\<close> over one of the two lists, with its \<open>seen\<close> set.\<close>

fun validate_values ::
    "string \<Rightarrow> string \<Rightarrow> string list option \<Rightarrow> string list \<Rightarrow> string list \<Rightarrow> config_error list" where
  "validate_values name kind known seen [] = []"
| "validate_values name kind known seen (v # vs) =
     (if v = [] then EmptyValue name kind # validate_values name kind known seen vs
      else (case known of None \<Rightarrow> []
            | Some ks \<Rightarrow> (if v \<in> set ks then [] else [UnknownValue name kind v]))
         @ (if v \<in> set seen
            then DuplicateValue name kind v # validate_values name kind known seen vs
            else validate_values name kind known (v # seen) vs))"

definition validate_selection :: "string \<Rightarrow> selection \<Rightarrow> string list option \<Rightarrow> config_error list" where
  "validate_selection name s known =
     validate_values name ''allow'' known [] (sel_allow s)
     @ validate_values name ''deny'' known [] (sel_deny s)"

definition validate_origin :: "string \<Rightarrow> url \<Rightarrow> bool \<Rightarrow> config_error list" where
  "validate_origin alias u allow_plain =
     (if url_scheme u \<noteq> ''http'' \<and> url_scheme u \<noteq> ''https'' then [OriginScheme alias]
      else if url_host u = [] \<or> url_has_user u \<or> url_raw_query u \<noteq> [] \<or> url_fragment u \<noteq> []
      then [OriginAuthority alias]
      else if url_path u \<noteq> [] \<and> url_path u \<noteq> ''/'' then [OriginPath alias]
      else if url_scheme u = ''http'' \<and> \<not> allow_plain then [PlainHTTPNotAllowed alias]
      else [])"

definition validate_credentials :: "string \<Rightarrow> credential_config \<Rightarrow> config_error list" where
  "validate_credentials alias c =
     (case cc_provider c of
        CredentialKeychain \<Rightarrow>
          (if cc_service c = [] \<or> cc_account c = [] \<or> cc_variable c \<noteq> [] then [KeychainFields alias] else [])
      | CredentialEnvironment \<Rightarrow>
          (if cc_variable c = [] \<or> cc_service c \<noteq> [] \<or> cc_account c \<noteq> [] then [EnvironmentFields alias] else [])
      | CredentialNoPassword \<Rightarrow>
          (if cc_service c \<noteq> [] \<or> cc_account c \<noteq> [] \<or> cc_variable c \<noteq> [] then [NoPasswordFields alias] else [])
      | CredentialOther _ \<Rightarrow> [CredentialUnsupported alias])"

definition validate_tls :: "string \<Rightarrow> tls_config \<Rightarrow> url option \<Rightarrow> config_error list" where
  "validate_tls alias c origin =
     (if (case origin of None \<Rightarrow> True | Some u \<Rightarrow> url_scheme u \<noteq> ''https'')
      then (if tls_mode_of c \<noteq> TLSOther [] \<or> tls_spki c \<noteq> [] then [TLSOnlyHTTPS alias] else [])
      else (case tls_mode_of c of
              TLSSystem \<Rightarrow> (if tls_spki c \<noteq> [] then [SPKIRequiresPinned alias] else [])
            | TLSPinned \<Rightarrow>
                (if tls_spki c = [] then [PinnedRequiresSPKI alias]
                 else if hex_decoded_length (tls_spki c) = Some 32 then [] else [SPKIMalformed alias])
            | TLSOther _ \<Rightarrow> [TLSUnsupported alias]))"

definition validate_session :: "string \<Rightarrow> session_config \<Rightarrow> config_error list" where
  "validate_session alias c =
     (if sc_idle c \<le> 0 then [IdleNotPositive alias]
      else if sc_absolute c \<le> 0 then [AbsoluteNotPositive alias]
      else if sc_idle c > sc_absolute c then [IdleExceedsAbsolute alias]
      else [])"

definition validate_retention :: "retention_config \<Rightarrow> config_error list" where
  "validate_retention c =
     map (\<lambda>(n, v). RetentionNegative n)
       (filter (\<lambda>(n, v). v < 0)
         [(''operation_receipts'', rt_operation_receipts c), (''security_audit'', rt_security_audit c),
          (''observation_metadata'', rt_observation_metadata c), (''screenshots'', rt_screenshots c)])"

definition validate_device :: "platform \<Rightarrow> string \<Rightarrow> device_config \<Rightarrow> config_error list" where
  "validate_device pf alias c =
     (let origin = pf_parse_url pf (dc_origin c) in
      (if pf_trim_space pf alias = [] then [AliasEmpty] else [])
      @ (if dc_device_id c = [] then [DeviceIDRequired alias] else [])
      @ (case origin of None \<Rightarrow> [OriginUnparsable alias]
         | Some u \<Rightarrow> validate_origin alias u (dc_allow_plain_http c))
      @ validate_selection (''device '' @ alias @ '' permissions'')
          \<lparr>sel_allow = dc_permissions c, sel_deny = []\<rparr> (Some knownDevicePermissions)
      @ validate_credentials alias (dc_credentials c)
      @ validate_tls alias (dc_tls c) origin
      @ validate_session alias (dc_session c))"

definition validate_config :: "platform \<Rightarrow> config \<Rightarrow> config_error list" where
  "validate_config pf c =
     (if cfg_version c \<noteq> CurrentVersion then [VersionUnsupported] else [])
     @ validate_transport pf (cfg_transport c)
     @ validate_output (cfg_output c)
     @ (if cfg_state_path c = [] \<or> \<not> pf_is_abs pf (cfg_state_path c) then [StatePathNotAbsolute] else [])
     @ validate_selection ''toolsets'' (cfg_toolsets c) (Some knownToolsets)
     @ validate_selection ''tools'' (cfg_tools c) None
     @ concat (map (\<lambda>(alias, d). validate_device pf alias d) (cfg_devices c))
     @ validate_retention (cfg_retention c)"

section \<open>What validation guarantees\<close>

lemma validate_values_iff:
  "validate_values name kind known seen vs = [] \<longleftrightarrow>
     [] \<notin> set vs \<and> distinct vs \<and> set vs \<inter> set seen = {} \<and>
     (case known of None \<Rightarrow> True | Some ks \<Rightarrow> set vs \<subseteq> set ks)"
  by (induction name kind known seen vs rule: validate_values.induct) (auto split: option.splits)

lemma validate_selection_iff:
  "validate_selection name s known = [] \<longleftrightarrow>
     [] \<notin> set (sel_allow s @ sel_deny s) \<and> distinct (sel_allow s) \<and> distinct (sel_deny s) \<and>
     (case known of None \<Rightarrow> True | Some ks \<Rightarrow> set (sel_allow s @ sel_deny s) \<subseteq> set ks)"
  by (auto simp: validate_selection_def validate_values_iff split: option.splits)

lemma validate_config_device:
  "validate_config pf c = [] \<Longrightarrow> (alias, d) \<in> set (cfg_devices c) \<Longrightarrow> validate_device pf alias d = []"
  by (auto simp: validate_config_def)

lemma validate_session_iff:
  "validate_session a c = [] \<longleftrightarrow> 0 < sc_idle c \<and> sc_idle c \<le> sc_absolute c"
  by (auto simp: validate_session_def)

lemma validate_retention_iff:
  "validate_retention c = [] \<longleftrightarrow>
     0 \<le> rt_operation_receipts c \<and> 0 \<le> rt_security_audit c \<and>
     0 \<le> rt_observation_metadata c \<and> 0 \<le> rt_screenshots c"
  by (auto simp: validate_retention_def)

section \<open>Narrowing\<close>

record process_constraints =
  pc_output :: "output_mode option"
  pc_toolsets_allow :: "string list"
  pc_toolsets_deny :: "string list"
  pc_tools_allow :: "string list"
  pc_tools_deny :: "string list"
  pc_devices_allow :: "string list"
  pc_devices_deny :: "string list"
  pc_device_permissions :: "(string \<times> string list) list"
  pc_disable_takeover :: "string list"

text \<open>The \<open>deny\<close> loop of \<open>narrowSelection\<close>: append what is not there yet.\<close>

fun add_missing :: "string list \<Rightarrow> string list \<Rightarrow> string list" where
  "add_missing acc [] = acc"
| "add_missing acc (v # vs) = add_missing (if v \<in> set acc then acc else acc @ [v]) vs"

definition narrow_selection ::
    "string \<Rightarrow> selection \<Rightarrow> string list \<Rightarrow> string list \<Rightarrow> selection \<times> config_error list" where
  "narrow_selection name base allow deny =
     (\<lparr>sel_allow = (if allow \<noteq> [] then allow else sel_allow base),
       sel_deny = add_missing (sel_deny base) deny\<rparr>,
      map (ProcessAllowExceeds name)
        (filter (\<lambda>v. (sel_allow base \<noteq> [] \<and> v \<notin> set (sel_allow base)) \<or> v \<in> set (sel_deny base)) allow))"

type_synonym devices = "(string \<times> device_config) list"

text \<open>\<open>narrowed.Devices[alias] = device\<close> for an alias the map holds.\<close>

definition update_device :: "string \<Rightarrow> (device_config \<Rightarrow> device_config) \<Rightarrow> devices \<Rightarrow> devices" where
  "update_device alias f ds = map (\<lambda>(a, d). if a = alias then (a, f d) else (a, d)) ds"

definition exposed_in :: "devices \<Rightarrow> string \<Rightarrow> bool" where
  "exposed_in ds alias = (case map_of ds alias of None \<Rightarrow> False | Some d \<Rightarrow> dc_exposed d)"

definition narrow_devices_allow :: "devices \<Rightarrow> string list \<Rightarrow> devices \<times> config_error list" where
  "narrow_devices_allow ds allow =
     (if allow = [] then (ds, [])
      else (let allowed = filter (exposed_in ds) allow in
        (map (\<lambda>(a, d). if a \<in> set allowed then (a, d) else (a, d\<lparr>dc_exposed := False\<rparr>)) ds,
         map ProcessDeviceNotExposed (filter (\<lambda>a. \<not> exposed_in ds a) allow))))"

fun narrow_devices_deny :: "devices \<Rightarrow> string list \<Rightarrow> devices \<times> config_error list" where
  "narrow_devices_deny ds [] = (ds, [])"
| "narrow_devices_deny ds (alias # rest) =
     (case map_of ds alias of
        None \<Rightarrow> (case narrow_devices_deny ds rest of (ds', es) \<Rightarrow> (ds', ProcessDenyUnknown alias # es))
      | Some _ \<Rightarrow> narrow_devices_deny (update_device alias (\<lambda>d. d\<lparr>dc_exposed := False\<rparr>) ds) rest)"

fun narrow_permissions :: "devices \<Rightarrow> (string \<times> string list) list \<Rightarrow> devices \<times> config_error list" where
  "narrow_permissions ds [] = (ds, [])"
| "narrow_permissions ds ((alias, perms) # rest) =
     (case map_of ds alias of
        None \<Rightarrow> (case narrow_permissions ds rest of (ds', es) \<Rightarrow> (ds', ProcessPermissionsUnknown alias # es))
      | Some device \<Rightarrow>
          (case narrow_permissions (update_device alias (\<lambda>d. d\<lparr>dc_permissions := perms\<rparr>) ds) rest of
             (ds', es) \<Rightarrow>
               (ds', map (ProcessPermissionExceeds alias)
                       (filter (\<lambda>p. p \<notin> set (dc_permissions device)) perms) @ es)))"

fun narrow_takeover :: "devices \<Rightarrow> string list \<Rightarrow> devices \<times> config_error list" where
  "narrow_takeover ds [] = (ds, [])"
| "narrow_takeover ds (alias # rest) =
     (case map_of ds alias of
        None \<Rightarrow> (case narrow_takeover ds rest of (ds', es) \<Rightarrow> (ds', ProcessTakeoverUnknown alias # es))
      | Some _ \<Rightarrow>
          narrow_takeover
            (update_device alias (\<lambda>d. d\<lparr>dc_takeover := (dc_takeover d)\<lparr>tk_allowed := False\<rparr>\<rparr>) ds) rest)"

definition config_narrow :: "platform \<Rightarrow> config \<Rightarrow> process_constraints \<Rightarrow> config_error list + config" where
  "config_narrow pf c k =
     (let out = (case pc_output k of None \<Rightarrow> cfg_output c | Some m \<Rightarrow> m);
          (toolsets, e1) = narrow_selection ''toolsets'' (cfg_toolsets c) (pc_toolsets_allow k) (pc_toolsets_deny k);
          (tools, e2) = narrow_selection ''tools'' (cfg_tools c) (pc_tools_allow k) (pc_tools_deny k);
          (ds1, e3) = narrow_devices_allow (cfg_devices c) (pc_devices_allow k);
          (ds2, e4) = narrow_devices_deny ds1 (pc_devices_deny k);
          (ds3, e5) = narrow_permissions ds2 (pc_device_permissions k);
          (ds4, e6) = narrow_takeover ds3 (pc_disable_takeover k);
          errs = e1 @ e2 @ e3 @ e4 @ e5 @ e6;
          narrowed = c\<lparr>cfg_output := out, cfg_toolsets := toolsets, cfg_tools := tools, cfg_devices := ds4\<rparr>
      in if errs \<noteq> [] then Inl errs
         else if validate_config pf narrowed \<noteq> [] then Inl (validate_config pf narrowed)
         else Inr narrowed)"

section \<open>Narrowing only removes\<close>

text \<open>What a selection lets through, as the policy reads it.\<close>

definition sel_permits :: "selection \<Rightarrow> string \<Rightarrow> bool" where
  "sel_permits s v \<longleftrightarrow> v \<notin> set (sel_deny s) \<and> (sel_allow s = [] \<or> v \<in> set (sel_allow s))"

lemma set_add_missing [simp]: "set (add_missing acc vs) = set acc \<union> set vs"
  by (induction acc vs rule: add_missing.induct) auto

lemma narrow_selection_permits:
  assumes "snd (narrow_selection name base allow deny) = []"
    and "sel_permits (fst (narrow_selection name base allow deny)) v"
  shows "sel_permits base v"
  using assms
  by (cases "allow = []") (auto simp: narrow_selection_def sel_permits_def filter_empty_conv)

text \<open>A device that grants no more than another one of the same identity.\<close>

definition device_narrower :: "device_config \<Rightarrow> device_config \<Rightarrow> bool" where
  "device_narrower d' d \<longleftrightarrow>
     dc_device_id d' = dc_device_id d \<and> dc_origin d' = dc_origin d \<and>
     dc_credentials d' = dc_credentials d \<and> dc_tls d' = dc_tls d \<and> dc_session d' = dc_session d \<and>
     (dc_exposed d' \<longrightarrow> dc_exposed d) \<and>
     set (dc_permissions d') \<subseteq> set (dc_permissions d) \<and>
     (tk_allowed (dc_takeover d') \<longrightarrow> tk_allowed (dc_takeover d)) \<and>
     tk_require_confirmation (dc_takeover d') = tk_require_confirmation (dc_takeover d)"

definition devices_narrower :: "devices \<Rightarrow> devices \<Rightarrow> bool" where
  "devices_narrower = list_all2 (\<lambda>(a', d') (a, d). a' = a \<and> device_narrower d' d)"

lemma device_narrower_refl [simp]: "device_narrower d d"
  by (simp add: device_narrower_def)

lemma device_narrower_trans: "device_narrower a b \<Longrightarrow> device_narrower b c \<Longrightarrow> device_narrower a c"
  by (auto simp: device_narrower_def)

lemma devices_narrower_refl [simp]: "devices_narrower ds ds"
  by (induction ds) (auto simp: devices_narrower_def)

lemma devices_narrower_trans:
  "devices_narrower xs ys \<Longrightarrow> devices_narrower ys zs \<Longrightarrow> devices_narrower xs zs"
  unfolding devices_narrower_def
  by (rule list_all2_trans) (auto intro: device_narrower_trans)

lemma devices_narrower_aliases: "devices_narrower xs ys \<Longrightarrow> map fst xs = map fst ys"
  unfolding devices_narrower_def by (induction rule: list_all2_induct) auto

lemma devices_narrower_mem:
  assumes "devices_narrower xs ys" "(a, d') \<in> set xs"
  shows "\<exists>d. (a, d) \<in> set ys \<and> device_narrower d' d"
  using assms unfolding devices_narrower_def by (induction rule: list_all2_induct) auto

lemma devices_narrower_map:
  "(\<And>a d. (a, d) \<in> set ds \<Longrightarrow> device_narrower (f a d) d) \<Longrightarrow>
     devices_narrower (map (\<lambda>(a, d). (a, f a d)) ds) ds"
  by (induction ds) (auto simp: devices_narrower_def)

lemma update_device_narrower:
  assumes "distinct (map fst ds)" "map_of ds alias = Some d" "device_narrower (f d) d"
  shows "devices_narrower (update_device alias f ds) ds"
proof -
  have "update_device alias f ds = map (\<lambda>(a, d). (a, if a = alias then f d else d)) ds"
    by (auto simp: update_device_def)
  moreover have "device_narrower (if a = alias then f d' else d') d'" if "(a, d') \<in> set ds" for a d'
  proof (cases "a = alias")
    case True
    then have "d' = d" using map_of_is_SomeI [OF assms(1) that] assms(2) by (metis option.inject)
    with True assms(3) show ?thesis by simp
  qed simp
  ultimately show ?thesis by (simp add: devices_narrower_map)
qed

lemma update_device_aliases [simp]: "map fst (update_device alias f ds) = map fst ds"
  by (auto simp: update_device_def)

lemma narrow_devices_allow_narrower: "devices_narrower (fst (narrow_devices_allow ds allow)) ds"
proof (cases "allow = []")
  case True
  then show ?thesis by (simp add: narrow_devices_allow_def)
next
  case False
  let ?f = "\<lambda>a d. if a \<in> set (filter (exposed_in ds) allow) then d else d\<lparr>dc_exposed := False\<rparr>"
  have "fst (narrow_devices_allow ds allow) = map (\<lambda>(a, d). (a, ?f a d)) ds"
    using False by (auto simp: narrow_devices_allow_def)
  moreover have "device_narrower (?f a d) d" for a d by (simp add: device_narrower_def)
  ultimately show ?thesis by (simp add: devices_narrower_map)
qed

lemma narrow_devices_deny_narrower:
  "distinct (map fst ds) \<Longrightarrow> devices_narrower (fst (narrow_devices_deny ds ks)) ds"
proof (induction ds ks rule: narrow_devices_deny.induct)
  case (1 ds)
  then show ?case by simp
next
  case (2 ds al rest)
  show ?case
  proof (cases "map_of ds al")
    case None
    with 2 show ?thesis by (auto split: prod.splits)
  next
    case (Some d)
    let ?u = "update_device al (\<lambda>d. d\<lparr>dc_exposed := False\<rparr>) ds"
    have "devices_narrower ?u ds"
      by (rule update_device_narrower [OF 2(3) Some]) (simp add: device_narrower_def)
    moreover have "devices_narrower (fst (narrow_devices_deny ?u rest)) ?u"
      using 2(2) [OF Some] 2(3) by simp
    ultimately show ?thesis using Some by (auto intro: devices_narrower_trans)
  qed
qed

lemma narrow_permissions_narrower:
  "distinct (map fst ds) \<Longrightarrow> snd (narrow_permissions ds ks) = [] \<Longrightarrow>
     devices_narrower (fst (narrow_permissions ds ks)) ds"
proof (induction ds ks rule: narrow_permissions.induct)
  case (1 ds)
  then show ?case by simp
next
  case (2 ds al perms rest)
  show ?case
  proof (cases "map_of ds al")
    case None
    with 2(4) show ?thesis by (simp split: prod.splits)
  next
    case (Some d)
    let ?u = "update_device al (\<lambda>d. d\<lparr>dc_permissions := perms\<rparr>) ds"
    have sub: "set perms \<subseteq> set (dc_permissions d)" and rest: "snd (narrow_permissions ?u rest) = []"
      using 2(4) Some by (auto simp: filter_empty_conv split: prod.splits)
    have "devices_narrower ?u ds"
      by (rule update_device_narrower [OF 2(3) Some]) (simp add: device_narrower_def sub)
    moreover have "devices_narrower (fst (narrow_permissions ?u rest)) ?u"
      using 2(2) [OF Some] 2(3) rest by simp
    ultimately show ?thesis
      using Some by (auto intro: devices_narrower_trans split: prod.splits)
  qed
qed

lemma narrow_takeover_narrower:
  "distinct (map fst ds) \<Longrightarrow> devices_narrower (fst (narrow_takeover ds ks)) ds"
proof (induction ds ks rule: narrow_takeover.induct)
  case (1 ds)
  then show ?case by simp
next
  case (2 ds al rest)
  show ?case
  proof (cases "map_of ds al")
    case None
    with 2 show ?thesis by (auto split: prod.splits)
  next
    case (Some d)
    let ?u = "update_device al (\<lambda>d. d\<lparr>dc_takeover := (dc_takeover d)\<lparr>tk_allowed := False\<rparr>\<rparr>) ds"
    have "devices_narrower ?u ds"
      by (rule update_device_narrower [OF 2(3) Some]) (simp add: device_narrower_def)
    moreover have "devices_narrower (fst (narrow_takeover ?u rest)) ?u"
      using 2(2) [OF Some] 2(3) by simp
    ultimately show ?thesis using Some by (auto intro: devices_narrower_trans)
  qed
qed

text \<open>Everything a successful narrowing establishes, in one fact for the policy's proofs.\<close>

lemma config_narrow_facts:
  assumes ok: "config_narrow pf c k = Inr c'" and dist: "distinct (map fst (cfg_devices c))"
  shows "devices_narrower (cfg_devices c') (cfg_devices c)"
    and "\<And>v. sel_permits (cfg_toolsets c') v \<Longrightarrow> sel_permits (cfg_toolsets c) v"
    and "\<And>v. sel_permits (cfg_tools c') v \<Longrightarrow> sel_permits (cfg_tools c) v"
    and "validate_config pf c' = []"
    and "cfg_confirmation_required c' = cfg_confirmation_required c"
proof -
  define ts where "ts = narrow_selection ''toolsets'' (cfg_toolsets c) (pc_toolsets_allow k) (pc_toolsets_deny k)"
  define tl where "tl = narrow_selection ''tools'' (cfg_tools c) (pc_tools_allow k) (pc_tools_deny k)"
  define d1 where "d1 = narrow_devices_allow (cfg_devices c) (pc_devices_allow k)"
  define d2 where "d2 = narrow_devices_deny (fst d1) (pc_devices_deny k)"
  define d3 where "d3 = narrow_permissions (fst d2) (pc_device_permissions k)"
  define d4 where "d4 = narrow_takeover (fst d3) (pc_disable_takeover k)"
  note defs = ts_def tl_def d1_def d2_def d3_def d4_def
  have errs: "snd ts = []" "snd tl = []" "snd d3 = []"
    and fields: "cfg_toolsets c' = fst ts" "cfg_tools c' = fst tl" "cfg_devices c' = fst d4"
      "validate_config pf c' = []" "cfg_confirmation_required c' = cfg_confirmation_required c"
    using ok unfolding defs config_narrow_def
    by (auto simp: Let_def split: prod.splits if_splits)
  have n1: "devices_narrower (fst d1) (cfg_devices c)"
    unfolding d1_def by (rule narrow_devices_allow_narrower)
  have a1: "distinct (map fst (fst d1))" using dist devices_narrower_aliases [OF n1] by simp
  have n2: "devices_narrower (fst d2) (fst d1)"
    unfolding d2_def by (rule narrow_devices_deny_narrower [OF a1])
  have a2: "distinct (map fst (fst d2))" using a1 devices_narrower_aliases [OF n2] by simp
  have n3: "devices_narrower (fst d3) (fst d2)"
    unfolding d3_def using errs(3) narrow_permissions_narrower [OF a2] by (simp add: d3_def)
  have a3: "distinct (map fst (fst d3))" using a2 devices_narrower_aliases [OF n3] by simp
  have "devices_narrower (fst d4) (fst d3)"
    unfolding d4_def by (rule narrow_takeover_narrower [OF a3])
  with n1 n2 n3 show "devices_narrower (cfg_devices c') (cfg_devices c)"
    unfolding fields by (meson devices_narrower_trans)
  show "\<And>v. sel_permits (cfg_toolsets c') v \<Longrightarrow> sel_permits (cfg_toolsets c) v"
    using errs(1) unfolding fields ts_def by (rule narrow_selection_permits)
  show "\<And>v. sel_permits (cfg_tools c') v \<Longrightarrow> sel_permits (cfg_tools c) v"
    using errs(2) unfolding fields tl_def by (rule narrow_selection_permits)
  show "validate_config pf c' = []" "cfg_confirmation_required c' = cfg_confirmation_required c"
    using fields by simp_all
qed

end
