(* ===== verification/Policy.thy ===== *)
theory Policy
  imports Inventory Config
begin

text \<open>
  \<open>internal/policy\<close>: the compiled policy and its single decision function. \<open>compile_policy\<close>
  is \<open>Compile\<close>, \<open>evaluate\<close> is \<open>Evaluate\<close>, \<open>policy_tools\<close> is \<open>Tools\<close>, and
  \<open>revision_payload\<close> is the structure \<open>computeRevision\<close> marshals and hashes. The digest
  of that structure (deterministic JSON, then SHA-256) is an argument, as is the platform's
  parsing; a Go set is a HOL set and the device map an association list keyed by device ID.
\<close>

section \<open>Data\<close>

datatype denial_reason =
    NotDenied | DeniedUnknownTool | DeniedDeploymentCeiling | DeniedRequestScope | DeniedDeviceRequired
  | DeniedDeviceNotExposed | DeniedDevicePermission | DeniedCapabilityUnavailable

record device_policy =
  dp_alias :: string
  dp_device_id :: device_id
  dp_permissions :: "string list"
  dp_takeover_allowed :: bool
  dp_takeover_confirmation :: bool

record scope =
  sp_toolsets_allow :: "string list"
  sp_toolsets_deny :: "string list"
  sp_tools_allow :: "string list"
  sp_tools_deny :: "string list"

record evaluation =
  ev_tool :: string
  ev_device :: device_id
  ev_scope :: scope
  ev_capabilities :: "string \<Rightarrow> bool"
  ev_check_capabilities :: bool

text \<open>
  The zero \<open>Tool\<close> and \<open>Device\<close> of a decision are \<open>None\<close>; the zero \<open>Reason\<close> of an
  allowed decision is \<open>NotDenied\<close>.
\<close>

record decision =
  de_allowed :: bool
  de_reason :: denial_reason
  de_tool :: "tool_definition option"
  de_device :: "device_policy option"

record compiled =
  co_catalog :: catalog
  co_toolsets_allow :: "string set"
  co_toolsets_deny :: "string set"
  co_tools_allow :: "string set"
  co_tools_deny :: "string set"
  co_devices :: "(device_id \<times> device_policy) list"
  co_revision :: string
  co_confirmation_required :: bool

datatype policy_error =
  PolicyConfig "config_error list" | UnknownConfiguredTool string | DuplicateExposedDevice device_id

section \<open>Selection\<close>

definition makeSet :: "string list \<Rightarrow> string set" where
  "makeSet values = set values"

definition selected ::
    "string \<Rightarrow> string \<Rightarrow> string set \<Rightarrow> string set \<Rightarrow> string set \<Rightarrow> string set \<Rightarrow> bool" where
  "selected toolset tool toolsets_allow toolsets_deny tools_allow tools_deny =
     (if toolset \<in> toolsets_deny then False
      else if tool \<in> tools_deny then False
      else if toolsets_allow \<noteq> {} \<and> toolset \<notin> toolsets_allow then False
      else if tools_allow \<noteq> {} \<and> tool \<notin> tools_allow then False
      else True)"

lemma selected_permits:
  "selected ts t (set (sel_allow a)) (set (sel_deny a)) (set (sel_allow b)) (set (sel_deny b)) \<longleftrightarrow>
     sel_permits a ts \<and> sel_permits b t"
  by (auto simp: selected_def sel_permits_def)

section \<open>Revision\<close>

record payload =
  pl_confirmation_required :: bool
  pl_catalog :: "tool_definition list"
  pl_toolsets_allow :: "string list"
  pl_toolsets_deny :: "string list"
  pl_tools_allow :: "string list"
  pl_tools_deny :: "string list"
  pl_devices :: "device_policy list"

text \<open>
  \<open>slices.Sort(payload.Devices[index].Permissions)\<close> sorts in place: the slices are shared
  with the compiled device map, so the compiled policy holds them sorted too.
\<close>

definition sort_permissions :: "device_policy \<Rightarrow> device_policy" where
  "sort_permissions d = d\<lparr>dp_permissions := sort (dp_permissions d)\<rparr>"

definition revision_payload :: "compiled \<Rightarrow> payload" where
  "revision_payload c =
     \<lparr>pl_confirmation_required = co_confirmation_required c,
      pl_catalog = catalog_all (co_catalog c),
      pl_toolsets_allow = sorted_list_of_set (co_toolsets_allow c),
      pl_toolsets_deny = sorted_list_of_set (co_toolsets_deny c),
      pl_tools_allow = sorted_list_of_set (co_tools_allow c),
      pl_tools_deny = sorted_list_of_set (co_tools_deny c),
      pl_devices = map sort_permissions (sort_key dp_device_id (map snd (co_devices c)))\<rparr>"

section \<open>Compilation\<close>

definition device_policy_of :: "string \<Rightarrow> device_config \<Rightarrow> device_policy" where
  "device_policy_of alias d =
     \<lparr>dp_alias = alias, dp_device_id = dc_device_id d, dp_permissions = dc_permissions d,
      dp_takeover_allowed = tk_allowed (dc_takeover d),
      dp_takeover_confirmation = tk_require_confirmation (dc_takeover d)\<rparr>"

text \<open>The loop over the configured devices: unexposed ones are skipped, duplicates reported.\<close>

fun compile_devices ::
    "devices \<Rightarrow> (device_id \<times> device_policy) list \<Rightarrow> policy_error list \<Rightarrow>
       (device_id \<times> device_policy) list \<times> policy_error list" where
  "compile_devices [] acc errs = (acc, errs)"
| "compile_devices ((alias, d) # rest) acc errs =
     (if \<not> dc_exposed d then compile_devices rest acc errs
      else if map_of acc (dc_device_id d) \<noteq> None
      then compile_devices rest acc (errs @ [DuplicateExposedDevice (dc_device_id d)])
      else compile_devices rest (acc @ [(dc_device_id d, device_policy_of alias d)]) errs)"

definition unknown_tools :: "config \<Rightarrow> catalog \<Rightarrow> policy_error list" where
  "unknown_tools c cat =
     map UnknownConfiguredTool
       (filter (\<lambda>n. catalog_get cat n = None) (sel_allow (cfg_tools c) @ sel_deny (cfg_tools c)))"

definition compile_policy ::
    "platform \<Rightarrow> (payload \<Rightarrow> string) \<Rightarrow> config \<Rightarrow> catalog \<Rightarrow> policy_error list + compiled" where
  "compile_policy pf digest c cat =
     (if validate_config pf c \<noteq> [] then Inl [PolicyConfig (validate_config pf c)]
      else
        (case compile_devices (cfg_devices c) [] [] of
           (devs, errs) \<Rightarrow>
             if unknown_tools c cat @ errs \<noteq> [] then Inl (unknown_tools c cat @ errs)
             else
               (let p = \<lparr>co_catalog = cat,
                         co_toolsets_allow = makeSet (sel_allow (cfg_toolsets c)),
                         co_toolsets_deny = makeSet (sel_deny (cfg_toolsets c)),
                         co_tools_allow = makeSet (sel_allow (cfg_tools c)),
                         co_tools_deny = makeSet (sel_deny (cfg_tools c)),
                         co_devices = devs,
                         co_revision = [],
                         co_confirmation_required = cfg_confirmation_required c\<rparr>
                in Inr (p\<lparr>co_devices := map (\<lambda>(k, d). (k, sort_permissions d)) devs,
                          co_revision := digest (revision_payload p)\<rparr>))))"

section \<open>Evaluation\<close>

definition evaluate :: "compiled \<Rightarrow> evaluation \<Rightarrow> decision" where
  "evaluate c e =
     (case catalog_get (co_catalog c) (ev_tool e) of
        None \<Rightarrow> \<lparr>de_allowed = False, de_reason = DeniedUnknownTool, de_tool = None, de_device = None\<rparr>
      | Some tool \<Rightarrow>
          (let deny = (\<lambda>r dev. \<lparr>de_allowed = False, de_reason = r, de_tool = Some tool, de_device = dev\<rparr>);
               allow = (\<lambda>dev. \<lparr>de_allowed = True, de_reason = NotDenied, de_tool = Some tool, de_device = dev\<rparr>)
           in
           if \<not> selected (td_toolset tool) (td_name tool)
                  (co_toolsets_allow c) (co_toolsets_deny c) (co_tools_allow c) (co_tools_deny c)
           then deny DeniedDeploymentCeiling None
           else if \<not> selected (td_toolset tool) (td_name tool)
                  (makeSet (sp_toolsets_allow (ev_scope e))) (makeSet (sp_toolsets_deny (ev_scope e)))
                  (makeSet (sp_tools_allow (ev_scope e))) (makeSet (sp_tools_deny (ev_scope e)))
           then deny DeniedRequestScope None
           else if \<not> td_device_scoped tool then allow None
           else if ev_device e = [] then
             (if list_ex (\<lambda>(_, d). td_toolset tool \<in> set (dp_permissions d)) (co_devices c)
              then allow None else deny DeniedDeviceRequired None)
           else
             (case map_of (co_devices c) (ev_device e) of
                None \<Rightarrow> deny DeniedDeviceNotExposed None
              | Some d \<Rightarrow>
                  if td_toolset tool \<notin> set (dp_permissions d) then deny DeniedDevicePermission (Some d)
                  else if ev_check_capabilities e \<and> td_capability tool \<noteq> [] \<and>
                          \<not> ev_capabilities e (td_capability tool)
                  then deny DeniedCapabilityUnavailable (Some d)
                  else allow (Some d))))"

definition discovery :: "string \<Rightarrow> scope \<Rightarrow> device_id \<Rightarrow> evaluation" where
  "discovery name s dev =
     \<lparr>ev_tool = name, ev_device = dev, ev_scope = s,
      ev_capabilities = (\<lambda>_. False), ev_check_capabilities = False\<rparr>"

definition policy_tools :: "compiled \<Rightarrow> scope \<Rightarrow> device_id \<Rightarrow> tool_definition list" where
  "policy_tools c s dev =
     filter (\<lambda>t. de_allowed (evaluate c (discovery (td_name t) s dev))) (catalog_all (co_catalog c))"

section \<open>The abstract specification of a decision\<close>

text \<open>
  What the code promises: the intersection of the deployment ceiling, the request's scope, the
  device's exposure and permissions, and runtime capability. \<open>permits\<close> states it as one
  conjunction, with no order of checks; \<open>evaluate_permits\<close> is the refinement.
\<close>

definition scope_permits :: "scope \<Rightarrow> tool_definition \<Rightarrow> bool" where
  "scope_permits s t \<longleftrightarrow>
     sel_permits \<lparr>sel_allow = sp_toolsets_allow s, sel_deny = sp_toolsets_deny s\<rparr> (td_toolset t) \<and>
     sel_permits \<lparr>sel_allow = sp_tools_allow s, sel_deny = sp_tools_deny s\<rparr> (td_name t)"

definition ceiling_permits :: "compiled \<Rightarrow> tool_definition \<Rightarrow> bool" where
  "ceiling_permits c t \<longleftrightarrow>
     td_toolset t \<notin> co_toolsets_deny c \<and> td_name t \<notin> co_tools_deny c \<and>
     (co_toolsets_allow c = {} \<or> td_toolset t \<in> co_toolsets_allow c) \<and>
     (co_tools_allow c = {} \<or> td_name t \<in> co_tools_allow c)"

definition device_permits :: "compiled \<Rightarrow> evaluation \<Rightarrow> tool_definition \<Rightarrow> bool" where
  "device_permits c e t \<longleftrightarrow>
     \<not> td_device_scoped t \<or>
     (ev_device e = [] \<and> (\<exists>(k, d) \<in> set (co_devices c). td_toolset t \<in> set (dp_permissions d))) \<or>
     (ev_device e \<noteq> [] \<and>
      (\<exists>d. map_of (co_devices c) (ev_device e) = Some d \<and> td_toolset t \<in> set (dp_permissions d) \<and>
        (ev_check_capabilities e \<and> td_capability t \<noteq> [] \<longrightarrow> ev_capabilities e (td_capability t))))"

definition permits :: "compiled \<Rightarrow> evaluation \<Rightarrow> bool" where
  "permits c e \<longleftrightarrow>
     (\<exists>t. catalog_get (co_catalog c) (ev_tool e) = Some t \<and>
          ceiling_permits c t \<and> scope_permits (ev_scope e) t \<and> device_permits c e t)"

lemma selected_ceiling:
  "selected (td_toolset t) (td_name t)
     (co_toolsets_allow c) (co_toolsets_deny c) (co_tools_allow c) (co_tools_deny c)
     \<longleftrightarrow> ceiling_permits c t"
  by (auto simp: selected_def ceiling_permits_def)

lemma selected_scope:
  "selected (td_toolset t) (td_name t)
     (makeSet (sp_toolsets_allow s)) (makeSet (sp_toolsets_deny s))
     (makeSet (sp_tools_allow s)) (makeSet (sp_tools_deny s))
     \<longleftrightarrow> scope_permits s t"
  by (auto simp: selected_def scope_permits_def sel_permits_def makeSet_def)

lemmas selected_simps = selected_ceiling selected_scope

lemma evaluate_permits: "de_allowed (evaluate c e) \<longleftrightarrow> permits c e"
  by (auto simp: evaluate_def permits_def device_permits_def selected_simps Let_def list_ex_iff
      split: option.splits if_splits)

section \<open>Facts of the compiled device map\<close>

lemma compile_devices_errs: "snd (compile_devices ds acc errs) = [] \<Longrightarrow> errs = []"
  by (induction ds acc errs rule: compile_devices.induct) (auto split: if_splits)

text \<open>With no error, the map has exactly the exposed devices, each under its own identity.\<close>

lemma compile_devices_distinct:
  "distinct (map fst acc) \<Longrightarrow> distinct (map fst (fst (compile_devices ds acc errs)))"
  by (induction ds acc errs rule: compile_devices.induct) (auto simp: map_of_eq_None_iff)

lemma compile_devices_ok:
  assumes "snd (compile_devices ds acc errs) = []"
  shows "fst (compile_devices ds acc errs) =
    acc @ map (\<lambda>(a, d). (dc_device_id d, device_policy_of a d)) (filter (\<lambda>q. dc_exposed (snd q)) ds)"
  using assms
proof (induction ds acc errs rule: compile_devices.induct)
  case (1 acc errs)
  then show ?case by simp
next
  case (2 al d rest acc errs)
  show ?case
  proof (cases "dc_exposed d \<and> map_of acc (dc_device_id d) \<noteq> None")
    case True
    then show ?thesis using 2(4) compile_devices_errs by fastforce
  next
    case False
    then show ?thesis using 2 by auto
  qed
qed

definition exposed_policies :: "devices \<Rightarrow> (device_id \<times> device_policy) list" where
  "exposed_policies ds =
     map (\<lambda>(a, d). (dc_device_id d, sort_permissions (device_policy_of a d)))
       (filter (\<lambda>q. dc_exposed (snd q)) ds)"

lemma compile_policy_facts:
  assumes "compile_policy pf digest c cat = Inr p"
  shows "co_catalog p = cat"
    and "co_toolsets_allow p = set (sel_allow (cfg_toolsets c))"
    and "co_toolsets_deny p = set (sel_deny (cfg_toolsets c))"
    and "co_tools_allow p = set (sel_allow (cfg_tools c))"
    and "co_tools_deny p = set (sel_deny (cfg_tools c))"
    and "co_devices p = exposed_policies (cfg_devices c)"
    and "distinct (map fst (co_devices p))"
    and "co_confirmation_required p = cfg_confirmation_required c"
    and "validate_config pf c = []"
    and "list_all (\<lambda>n. catalog_get cat n \<noteq> None) (sel_allow (cfg_tools c) @ sel_deny (cfg_tools c))"
proof -
  obtain devs errs where d: "compile_devices (cfg_devices c) [] [] = (devs, errs)" by fastforce
  have valid: "validate_config pf c = []" and e: "unknown_tools c cat @ errs = []"
    using assms d by (auto simp: compile_policy_def Let_def split: if_splits)
  note ok = compile_devices_ok [of "cfg_devices c" "[]" "[]"]
    compile_devices_distinct [of "[]" "cfg_devices c" "[]"]
  have devs: "devs = map (\<lambda>(a, d). (dc_device_id d, device_policy_of a d)) (filter (\<lambda>q. dc_exposed (snd q)) (cfg_devices c))"
    and dist: "distinct (map fst devs)"
    using ok d e by auto
  from valid e d assms
  have p: "co_catalog p = cat" "co_toolsets_allow p = set (sel_allow (cfg_toolsets c))"
      "co_toolsets_deny p = set (sel_deny (cfg_toolsets c))"
      "co_tools_allow p = set (sel_allow (cfg_tools c))"
      "co_tools_deny p = set (sel_deny (cfg_tools c))"
      "co_devices p = map (\<lambda>(k, d). (k, sort_permissions d)) devs"
      "co_confirmation_required p = cfg_confirmation_required c"
    by (auto simp: compile_policy_def Let_def makeSet_def)
  show "co_catalog p = cat" "co_toolsets_allow p = set (sel_allow (cfg_toolsets c))"
    "co_toolsets_deny p = set (sel_deny (cfg_toolsets c))"
    "co_tools_allow p = set (sel_allow (cfg_tools c))" "co_tools_deny p = set (sel_deny (cfg_tools c))"
    "co_confirmation_required p = cfg_confirmation_required c" "validate_config pf c = []"
    by (rule p valid)+
  show "co_devices p = exposed_policies (cfg_devices c)"
    unfolding p(6) devs exposed_policies_def by (simp add: comp_def case_prod_unfold)
  have "map fst (co_devices p) = map fst devs" unfolding p(6) by (induction devs) auto
  with dist show "distinct (map fst (co_devices p))" by simp
  show "list_all (\<lambda>n. catalog_get cat n \<noteq> None) (sel_allow (cfg_tools c) @ sel_deny (cfg_tools c))"
    using e by (auto simp: unknown_tools_def filter_empty_conv list_all_iff)
qed

lemma exposed_policies_mem:
  "(k, p) \<in> set (exposed_policies ds) \<longleftrightarrow>
     (\<exists>a d. (a, d) \<in> set ds \<and> dc_exposed d \<and> k = dc_device_id d \<and> p = sort_permissions (device_policy_of a d))"
  by (force simp: exposed_policies_def)

lemma exposed_policies_narrower:
  assumes "devices_narrower ds' ds" "(k, p') \<in> set (exposed_policies ds')"
  shows "\<exists>p. (k, p) \<in> set (exposed_policies ds) \<and> set (dp_permissions p') \<subseteq> set (dp_permissions p) \<and>
    (dp_takeover_allowed p' \<longrightarrow> dp_takeover_allowed p) \<and>
    dp_takeover_confirmation p' = dp_takeover_confirmation p \<and> dp_alias p' = dp_alias p"
proof -
  obtain a d' where d': "(a, d') \<in> set ds'" "dc_exposed d'" "k = dc_device_id d'"
      "p' = sort_permissions (device_policy_of a d')"
    using assms(2) by (auto simp: exposed_policies_mem)
  obtain d where d: "(a, d) \<in> set ds" "device_narrower d' d"
    using devices_narrower_mem [OF assms(1) d'(1)] by blast
  have "(k, sort_permissions (device_policy_of a d)) \<in> set (exposed_policies ds)"
    using d d' by (auto simp: exposed_policies_mem device_narrower_def)
  then show ?thesis
    using d(2) d'(4)
    by (intro exI conjI) (auto simp: sort_permissions_def device_policy_of_def device_narrower_def)
qed

section \<open>An example deployment\<close>

text \<open>
  One device behind an \<open>https\<close> origin with the \<open>observe\<close> and \<open>video\<close> permissions, a
  catalog of one device tool, and a platform whose parsers accept it.
\<close>

definition ex_platform :: platform where
  "ex_platform =
     \<lparr>pf_parse_url = (\<lambda>s. Some \<lparr>url_scheme = ''https'', url_host = s, url_has_user = False, url_raw_query = [],
                                 url_fragment = [], url_path = []\<rparr>),
      pf_split_host = (\<lambda>_. None), pf_ip_loopback = (\<lambda>_. None), pf_is_abs = (\<lambda>_. True), pf_trim_space = (\<lambda>s. s)\<rparr>"

definition ex_device :: device_config where
  "ex_device =
     \<lparr>dc_device_id = ''d1'', dc_origin = ''kvm'', dc_exposed = True, dc_allow_plain_http = False, dc_labels = [],
      dc_credentials = \<lparr>cc_provider = CredentialNoPassword, cc_service = [], cc_account = [], cc_variable = []\<rparr>,
      dc_tls = \<lparr>tls_mode_of = TLSSystem, tls_spki = []\<rparr>, dc_permissions = [''video'', ''observe''],
      dc_takeover = \<lparr>tk_allowed = False, tk_require_confirmation = True\<rparr>, dc_session = default_session\<rparr>"

definition ex_config :: config where
  "ex_config = default_config\<lparr>cfg_state_path := ''/s'', cfg_devices := [(''a'', ex_device)]\<rparr>"

definition ex_narrowed :: config where
  "ex_narrowed = ex_config\<lparr>cfg_toolsets := \<lparr>sel_allow = [''observe''], sel_deny = []\<rparr>\<rparr>"

definition ex_constraints :: process_constraints where
  "ex_constraints =
     \<lparr>pc_output = None, pc_toolsets_allow = [''observe''], pc_toolsets_deny = [], pc_tools_allow = [],
      pc_tools_deny = [], pc_devices_allow = [''a''], pc_devices_deny = [], pc_device_permissions = [],
      pc_disable_takeover = []\<rparr>"

definition ex_tool :: tool_definition where
  "ex_tool = observe_tool ''status'' True ''in'' ''out''"

definition ex_catalog :: catalog where
  "ex_catalog = [(''status'', ex_tool)]"

definition ex_call :: evaluation where
  "ex_call = discovery ''status'' \<lparr>sp_toolsets_allow = [], sp_toolsets_deny = [], sp_tools_allow = [], sp_tools_deny = []\<rparr> ''d1''"

lemmas ex_policy_defs = ex_platform_def ex_device_def ex_config_def ex_narrowed_def default_config_def
  CurrentVersion_def default_session_def

lemmas validation_defs = validate_config_def validate_transport_def validate_output_def validate_selection_def
  validate_device_def validate_origin_def validate_credentials_def validate_tls_def validate_session_def
  validate_retention_def knownToolsets_def knownDevicePermissions_def

lemma ex_valid: "validate_config ex_platform ex_config = []" "validate_config ex_platform ex_narrowed = []"
  by (simp_all add: validation_defs ex_policy_defs)

lemma ex_catalog_wf: "catalog_wf ex_catalog"
  by (simp add: catalog_wf_def ex_catalog_def ex_tool_def tool_ok_def observe_tool_def observe_tool_for_def)

lemma ex_narrow: "config_narrow ex_platform ex_config ex_constraints = Inr ex_narrowed"
proof -
  have "config_narrow ex_platform ex_config ex_constraints =
      (if validate_config ex_platform ex_narrowed \<noteq> [] then Inl (validate_config ex_platform ex_narrowed)
       else Inr ex_narrowed)"
    by (simp add: config_narrow_def narrow_selection_def narrow_devices_allow_def exposed_in_def
        ex_constraints_def ex_policy_defs)
  then show ?thesis using ex_valid by simp
qed

lemma ex_compiles:
  assumes "validate_config ex_platform c = []" "cfg_tools c = \<lparr>sel_allow = [], sel_deny = []\<rparr>"
    "cfg_devices c = [(''a'', ex_device)]"
  obtains p where "compile_policy ex_platform digest c ex_catalog = Inr p"
  using assms
  by (simp add: compile_policy_def unknown_tools_def ex_device_def)

lemma ex_allows:
  assumes "compile_policy ex_platform digest c ex_catalog = Inr p"
    and "cfg_tools c = \<lparr>sel_allow = [], sel_deny = []\<rparr>" "cfg_devices c = [(''a'', ex_device)]"
    and "sel_permits (cfg_toolsets c) ''observe''"
  shows "de_allowed (evaluate p ex_call)"
proof -
  note f = compile_policy_facts [OF assms(1)]
  show ?thesis
    using assms(2-4)
    by (simp add: evaluate_permits permits_def ceiling_permits_def scope_permits_def device_permits_def
        f exposed_policies_def sel_permits_def ex_call_def discovery_def catalog_get_def ex_catalog_def
        ex_tool_def observe_tool_def observe_tool_for_def ex_device_def device_policy_of_def sort_permissions_def)
qed

lemma ex_config_simps [simp]:
  "cfg_tools ex_config = \<lparr>sel_allow = [], sel_deny = []\<rparr>" "cfg_devices ex_config = [(''a'', ex_device)]"
  "cfg_tools ex_narrowed = \<lparr>sel_allow = [], sel_deny = []\<rparr>" "cfg_devices ex_narrowed = [(''a'', ex_device)]"
  "sel_permits (cfg_toolsets ex_config) ''observe''" "sel_permits (cfg_toolsets ex_narrowed) ''observe''"
  by (simp_all add: ex_config_def ex_narrowed_def default_config_def sel_permits_def)

section \<open>Properties\<close>

text \<open>
  C8: the decision function allows a call exactly when the deployment ceiling, the request
  scope, the device's exposure and permissions and (when asked) runtime capability all allow it:
  \<open>Evaluate\<close> implements the intersection, and deny always wins.
\<close>

theorem evaluate_refines_intersection: "de_allowed (evaluate c e) \<longleftrightarrow> permits c e"
  by (rule evaluate_permits)

text \<open>
  C7: process constraints never grant: whatever call the policy compiled from a narrowed
  configuration allows, the policy compiled from the deployment configuration allows too.
\<close>

theorem narrow_never_grants:
  assumes "distinct (map fst (cfg_devices c))"
    and "config_narrow pf c k = Inr c'"
    and "compile_policy pf digest c cat = Inr p"
    and "compile_policy pf digest c' cat = Inr p'"
    and "de_allowed (evaluate p' e)"
  shows "de_allowed (evaluate p e)"
proof -
  note n = config_narrow_facts [OF assms(2,1)]
  note f = compile_policy_facts [OF assms(3)] and f' = compile_policy_facts [OF assms(4)]
  obtain t where t: "catalog_get cat (ev_tool e) = Some t" "ceiling_permits p' t"
      "scope_permits (ev_scope e) t" "device_permits p' e t"
    using assms(5) f'(1) by (auto simp: evaluate_permits permits_def)
  have "ceiling_permits p t"
    using t(2) n(2) [of "td_toolset t"] n(3) [of "td_name t"]
    by (auto simp: ceiling_permits_def f f' sel_permits_def)
  moreover have "device_permits p e t"
  proof -
    have sub: "\<exists>q. (key, q) \<in> set (co_devices p) \<and> set (dp_permissions q') \<subseteq> set (dp_permissions q)"
      if "(key, q') \<in> set (co_devices p')" for key q'
      using exposed_policies_narrower [OF n(1), of key q'] that unfolding f f' by blast
    have at: "\<exists>q. map_of (co_devices p) key = Some q \<and> set (dp_permissions q') \<subseteq> set (dp_permissions q)"
      if "map_of (co_devices p') key = Some q'" for key q'
      using sub [OF map_of_SomeD [OF that]] map_of_is_SomeI [OF f(7)] by blast
    show ?thesis
      using t(4) unfolding device_permits_def by (auto dest!: sub at)
  qed
  ultimately show ?thesis using t f(1) by (auto simp: evaluate_permits permits_def)
qed

theorem narrow_never_grants_witness:
  "\<exists>p. compile_policy ex_platform (\<lambda>_. ''r'') ex_config ex_catalog = Inr p \<and> de_allowed (evaluate p ex_call)"
proof -
  obtain p p' where p: "compile_policy ex_platform (\<lambda>_. ''r'') ex_config ex_catalog = Inr p"
      "compile_policy ex_platform (\<lambda>_. ''r'') ex_narrowed ex_catalog = Inr p'"
    using ex_compiles [of ex_config] ex_compiles [of ex_narrowed] ex_valid by (metis ex_config_simps(1-4))
  have "de_allowed (evaluate p' ex_call)" by (rule ex_allows [OF p(2)]) simp_all
  with narrow_never_grants [OF _ ex_narrow p] p(1) show ?thesis by simp
qed

lemma policy_tools_iff:
  "catalog_wf (co_catalog c) \<Longrightarrow>
     n \<in> td_name ` set (policy_tools c s dev) \<longleftrightarrow> de_allowed (evaluate c (discovery n s dev))"
  unfolding policy_tools_def static_tools.filter_all_iff
  by (auto simp: evaluate_permits permits_def discovery_def catalog_get_wf)

text \<open>
  discovery and execution agree: \<open>Tools\<close> lists exactly the tools whose call passes the
  same decision with runtime capabilities unchecked.
\<close>

theorem tools_match_evaluate:
  assumes "catalog_wf (co_catalog c)"
  shows "n \<in> td_name ` set (policy_tools c s dev) \<longleftrightarrow> de_allowed (evaluate c (discovery n s dev))"
  using assms by (rule policy_tools_iff)

theorem tools_match_evaluate_witness:
  "\<exists>p. compile_policy ex_platform (\<lambda>_. ''r'') ex_config ex_catalog = Inr p \<and>
     ''status'' \<in> td_name ` set (policy_tools p (ev_scope ex_call) ''d1'')"
proof -
  obtain p where p: "compile_policy ex_platform (\<lambda>_. ''r'') ex_config ex_catalog = Inr p"
    using ex_compiles [of ex_config] ex_valid by (metis ex_config_simps(1,2))
  have "catalog_wf (co_catalog p)" using compile_policy_facts(1) [OF p] ex_catalog_wf by simp
  moreover have "de_allowed (evaluate p (discovery ''status'' (ev_scope ex_call) ''d1''))"
    using ex_allows [OF p] by (simp add: ex_call_def discovery_def)
  ultimately show ?thesis using tools_match_evaluate [of p "''status''"] p by blast
qed

text \<open>
  no call is executable that discovery hides: a tool some call may execute, on any device
  and with any capability evidence, is listed by \<open>Tools\<close> for the same scope.
\<close>

theorem executable_tools_are_discovered:
  assumes "catalog_wf (co_catalog c)" and "de_allowed (evaluate c e)"
  shows "ev_tool e \<in> td_name ` set (policy_tools c (ev_scope e) [])"
proof -
  have "de_allowed (evaluate c (discovery (ev_tool e) (ev_scope e) []))"
    using assms(2)
    by (auto simp: evaluate_permits permits_def device_permits_def discovery_def dest!: map_of_SomeD)
  then show ?thesis unfolding policy_tools_iff [OF assms(1)] .
qed

theorem executable_tools_are_discovered_witness:
  "\<exists>p. compile_policy ex_platform (\<lambda>_. ''r'') ex_config ex_catalog = Inr p \<and>
     ev_tool ex_call \<in> td_name ` set (policy_tools p (ev_scope ex_call) [])"
proof -
  obtain p where p: "compile_policy ex_platform (\<lambda>_. ''r'') ex_config ex_catalog = Inr p"
    using ex_compiles [of ex_config] ex_valid by (metis ex_config_simps(1,2))
  have "catalog_wf (co_catalog p)" using compile_policy_facts(1) [OF p] ex_catalog_wf by simp
  moreover have "de_allowed (evaluate p ex_call)" by (rule ex_allows [OF p]) simp_all
  ultimately show ?thesis using executable_tools_are_discovered p by blast
qed

section \<open>The revision covers the decision\<close>

lemma sort_permissions_idem [simp]: "sort_permissions (sort_permissions d) = sort_permissions d"
  by (simp add: sort_permissions_def sorted_sort_id)

lemma sort_key_map:
  assumes "\<And>x. f (g x) = f x"
  shows "sort_key f (map g xs) = map g (sort_key f xs)"
proof (induction xs)
  case (Cons x xs)
  have "insort_key f (g x) (map g ys) = map g (insort_key f x ys)" for ys
    by (induction ys) (simp_all add: assms)
  then show ?case using Cons by simp
qed simp

lemma sort_permissions_id [simp]: "dp_device_id (sort_permissions d) = dp_device_id d"
  by (simp add: sort_permissions_def)

text \<open>The shape every compiled policy has.\<close>

definition compiled_wf :: "compiled \<Rightarrow> bool" where
  "compiled_wf c \<longleftrightarrow>
     catalog_wf (co_catalog c) \<and>
     finite (co_toolsets_allow c) \<and> finite (co_toolsets_deny c) \<and>
     finite (co_tools_allow c) \<and> finite (co_tools_deny c) \<and>
     distinct (map fst (co_devices c)) \<and>
     list_all (\<lambda>(k, d). k = dp_device_id d \<and> sort_permissions d = d) (co_devices c)"

lemma compile_policy_wf:
  assumes "compile_policy pf digest c cat = Inr p" "catalog_wf cat"
  shows "compiled_wf p"
proof -
  note f = compile_policy_facts [OF assms(1)]
  have "list_all (\<lambda>(k, d). k = dp_device_id d \<and> sort_permissions d = d) (co_devices p)"
    unfolding f(6) by (auto simp: exposed_policies_def list_all_iff device_policy_of_def)
  then show ?thesis using f assms(2) by (simp add: compiled_wf_def)
qed

lemma sort_permissions_devices:
  "map sort_permissions (sort_key dp_device_id (map (\<lambda>q. sort_permissions (snd q)) ds)) =
     map sort_permissions (sort_key dp_device_id (map snd ds))"
proof -
  have "map (\<lambda>q. sort_permissions (snd q)) ds = map sort_permissions (map snd ds)" by simp
  then show ?thesis by (simp only: sort_key_map [of dp_device_id sort_permissions, OF sort_permissions_id]) simp
qed

lemma compile_policy_revision:
  "compile_policy pf digest c cat = Inr p \<Longrightarrow> co_revision p = digest (revision_payload p)"
  by (auto simp: compile_policy_def revision_payload_def Let_def comp_def case_prod_unfold
      sort_permissions_devices split: prod.splits if_splits)

lemma payload_devices:
  assumes "compiled_wf c"
  shows "map_of (co_devices c) k = Some d \<longleftrightarrow> d \<in> set (pl_devices (revision_payload c)) \<and> dp_device_id d = k"
proof -
  have mem: "(k, d) \<in> set (co_devices c) \<longleftrightarrow> map_of (co_devices c) k = Some d"
    using assms by (intro distinct_map_of_mem) (simp add: compiled_wf_def)
  have "set (pl_devices (revision_payload c)) = snd ` set (co_devices c)"
    using assms by (force simp: revision_payload_def compiled_wf_def list_all_iff image_image)
  moreover have "key = dp_device_id q" if "(key, q) \<in> set (co_devices c)" for key q
    using assms that by (auto simp: compiled_wf_def list_all_iff)
  ultimately show ?thesis
    unfolding mem [symmetric] using image_eqI [of d snd "(k, d)"] by auto
qed

lemma payload_catalog:
  assumes "compiled_wf c"
  shows "catalog_get (co_catalog c) n = Some t \<longleftrightarrow> t \<in> set (pl_catalog (revision_payload c)) \<and> td_name t = n"
  using assms catalog_all_get [of "co_catalog c" t] catalog_get_wf [of "co_catalog c" n t]
  by (auto simp: revision_payload_def compiled_wf_def simp del: set_catalog_all)

lemma same_payload_same_decision:
  assumes "compiled_wf p" "compiled_wf q" "revision_payload p = revision_payload q"
  shows "evaluate p e = evaluate q e" "co_confirmation_required p = co_confirmation_required q"
proof -
  have get: "catalog_get (co_catalog p) n = catalog_get (co_catalog q) n" for n
    using payload_catalog [OF assms(1), of n] payload_catalog [OF assms(2), of n] assms(3)
    by (metis option.exhaust)
  have dev: "map_of (co_devices p) k = map_of (co_devices q) k" for k
    using payload_devices [OF assms(1), of k] payload_devices [OF assms(2), of k] assms(3)
    by (metis option.exhaust)
  have mem: "set (co_devices p) = set (co_devices q)"
    using assms(1,2) dev by (intro map_of_inject_set [THEN iffD1]) (auto simp: compiled_wf_def)
  have "set (pl_toolsets_allow (revision_payload c)) = co_toolsets_allow c"
    "set (pl_toolsets_deny (revision_payload c)) = co_toolsets_deny c"
    "set (pl_tools_allow (revision_payload c)) = co_tools_allow c"
    "set (pl_tools_deny (revision_payload c)) = co_tools_deny c" if "compiled_wf c" for c
    using that by (simp_all add: revision_payload_def compiled_wf_def)
  note this [OF assms(1)] this [OF assms(2)]
  then have sets: "co_toolsets_allow p = co_toolsets_allow q" "co_toolsets_deny p = co_toolsets_deny q"
    "co_tools_allow p = co_tools_allow q" "co_tools_deny p = co_tools_deny q"
    unfolding assms(3) by simp_all
  have any: "list_ex P (co_devices p) = list_ex P (co_devices q)" for P
    by (simp add: list_ex_iff mem)
  show "evaluate p e = evaluate q e"
    unfolding evaluate_def get dev sets any ..
  show "co_confirmation_required p = co_confirmation_required q"
    using arg_cong [OF assms(3), of pl_confirmation_required] by (simp add: revision_payload_def)
qed

text \<open>
  the revision covers everything a decision reads: two compiled policies with the same
  revision (under a digest with no collision between their payloads) decide every call alike,
  reason and device included, and require confirmation alike. A proof bound to a revision cannot
  cross a policy change.
\<close>

theorem revision_determines_decisions:
  assumes "compile_policy pf digest c cat = Inr p" and "compile_policy pf' digest c' cat' = Inr q"
    and "catalog_wf cat" and "catalog_wf cat'"
    and "digest (revision_payload p) = digest (revision_payload q) \<Longrightarrow> revision_payload p = revision_payload q"
    and "co_revision p = co_revision q"
  shows "evaluate p e = evaluate q e \<and> co_confirmation_required p = co_confirmation_required q"
proof -
  have "revision_payload p = revision_payload q"
    using assms(5,6) compile_policy_revision [OF assms(1)] compile_policy_revision [OF assms(2)] by simp
  then show ?thesis
    using same_payload_same_decision [OF compile_policy_wf [OF assms(1,3)] compile_policy_wf [OF assms(2,4)]]
    by simp
qed

theorem revision_determines_decisions_witness:
  "\<exists>p q. compile_policy ex_platform (\<lambda>_. ''r'') ex_config ex_catalog = Inr p \<and>
     compile_policy ex_platform (\<lambda>_. ''r'') (ex_config\<lparr>cfg_output := OutputJSON\<rparr>) ex_catalog = Inr q \<and>
     evaluate p ex_call = evaluate q ex_call"
proof -
  let ?c = "ex_config\<lparr>cfg_output := OutputJSON\<rparr>"
  have valid: "validate_config ex_platform ?c = []" by (simp add: validation_defs ex_policy_defs)
  have c: "cfg_tools ?c = \<lparr>sel_allow = [], sel_deny = []\<rparr>" "cfg_devices ?c = [(''a'', ex_device)]" by simp_all
  obtain p where p: "compile_policy ex_platform (\<lambda>_. ''r'') ex_config ex_catalog = Inr p"
    by (rule ex_compiles [OF ex_valid(1) ex_config_simps(1,2)])
  obtain q where q: "compile_policy ex_platform (\<lambda>_. ''r'') ?c ex_catalog = Inr q"
    by (rule ex_compiles [OF valid c])
  note pq = p q
  note f = compile_policy_facts [OF pq(1)] and g = compile_policy_facts [OF pq(2)]
  have eqs: "co_catalog p = co_catalog q" "co_toolsets_allow p = co_toolsets_allow q"
    "co_toolsets_deny p = co_toolsets_deny q" "co_tools_allow p = co_tools_allow q"
    "co_tools_deny p = co_tools_deny q" "co_devices p = co_devices q"
    "co_confirmation_required p = co_confirmation_required q"
    unfolding f(1-6,8) g(1-6,8) by simp_all
  have "revision_payload p = revision_payload q" unfolding revision_payload_def eqs ..
  moreover have "co_revision p = co_revision q"
    unfolding compile_policy_revision [OF pq(1)] compile_policy_revision [OF pq(2)] ..
  ultimately show ?thesis using revision_determines_decisions [OF pq ex_catalog_wf ex_catalog_wf] pq by blast
qed

end
