(* ===== verification/Hid_Protocol.thy ===== *)
theory Hid_Protocol
  imports Jk_Prelude
begin

unbundle bit_operations_syntax

text \<open>
  \<open>internal/input/protocol.go\<close>: the HID-RPC v1 frames. A frame is the list of its bytes, a Go
  \<open>int\<close> argument an \<open>int\<close>, a button mask and a key usage a byte. Also the sentinel errors of
  package \<open>input\<close>, with the two context causes and the opaque errors its callbacks return.
\<close>

section \<open>Errors of package input\<close>

datatype input_error =
    ErrInvalidProtocolValue
  | ErrUnknownKey | ErrUnsupportedText
  | ErrInvalidAction | ErrObservationStale
  | ErrLeaseBusy | ErrStaleGeneration | ErrLeaseReleased | ErrInputUncertain | ErrNeutralization
  | ErrObservationMissing
  | ErrContextCanceled | ErrDeadlineExceeded
  | ErrKeepaliveMissed
  | ErrInvalidLimits | ErrManagerConfig | ErrCleanupTimeout
  | ErrRandom
  | ErrExternal nat

type_synonym input_errors = "input_error list"

section \<open>Frames\<close>

abbreviation (input) HIDRPCVersion :: u8 where "HIDRPCVersion \<equiv> 0x01"
abbreviation (input) messageHandshake :: u8 where "messageHandshake \<equiv> 0x01"
abbreviation (input) messageKeyboardReport :: u8 where "messageKeyboardReport \<equiv> 0x02"
abbreviation (input) messagePointerReport :: u8 where "messagePointerReport \<equiv> 0x03"
abbreviation (input) messageKeypressReport :: u8 where "messageKeypressReport \<equiv> 0x05"
abbreviation (input) messageMouseReport :: u8 where "messageMouseReport \<equiv> 0x06"
abbreviation (input) keyboardSlots :: nat where "keyboardSlots \<equiv> 6"
abbreviation (input) absoluteCoordinate :: int where "absoluteCoordinate \<equiv> 32767"
abbreviation (input) maxMouseButtons :: u8 where "maxMouseButtons \<equiv> 0x1f"

type_synonym button_mask = u8

definition handshake :: bytes where
  "handshake = [messageHandshake, HIDRPCVersion]"

definition parse_handshake :: "bytes \<Rightarrow> input_errors + u8" where
  "parse_handshake d =
     (if length d \<noteq> 2 \<or> d ! 0 \<noteq> messageHandshake \<or> d ! 1 = 0 \<or> d ! 1 > HIDRPCVersion
      then Inl [ErrInvalidProtocolValue] else Inr (d ! 1))"

definition keyboard_report :: "u8 \<Rightarrow> bytes \<Rightarrow> input_errors + bytes" where
  "keyboard_report modifier keys =
     (if length keys > keyboardSlots then Inl [ErrInvalidProtocolValue]
      else Inr (messageKeyboardReport # modifier # keys @ replicate (keyboardSlots - length keys) 0))"

definition keypress_report :: "u8 \<Rightarrow> bool \<Rightarrow> input_errors + bytes" where
  "keypress_report key pressed =
     (if key = 0 then Inl [ErrInvalidProtocolValue]
      else Inr [messageKeypressReport, key, if pressed then 1 else 0])"

text \<open>\<open>binary.BigEndian.PutUint32\<close> of \<open>uint32(v)\<close>.\<close>

definition put_be32 :: "u32 \<Rightarrow> bytes" where
  "put_be32 v = [ucast (drop_bit 24 v), ucast (drop_bit 16 v), ucast (drop_bit 8 v), ucast v]"

definition bad_buttons :: "button_mask \<Rightarrow> bool" where
  "bad_buttons b \<longleftrightarrow> b AND NOT maxMouseButtons \<noteq> 0"

definition pointer_report :: "int \<Rightarrow> int \<Rightarrow> button_mask \<Rightarrow> input_errors + bytes" where
  "pointer_report x y buttons =
     (if x < 0 \<or> x > absoluteCoordinate \<or> y < 0 \<or> y > absoluteCoordinate
      then Inl [ErrInvalidProtocolValue]
      else if bad_buttons buttons then Inl [ErrInvalidProtocolValue]
      else Inr (messagePointerReport # put_be32 (word_of_int x) @ put_be32 (word_of_int y) @ [buttons]))"

definition relative_mouse_report :: "int \<Rightarrow> int \<Rightarrow> button_mask \<Rightarrow> input_errors + bytes" where
  "relative_mouse_report dx dy buttons =
     (if dx < -128 \<or> dx > 127 \<or> dy < -128 \<or> dy > 127 then Inl [ErrInvalidProtocolValue]
      else if bad_buttons buttons then Inl [ErrInvalidProtocolValue]
      else Inr [messageMouseReport, word_of_int dx, word_of_int dy, buttons])"

section \<open>Reading frames back\<close>

text \<open>The number a big-endian field holds: the specification of \<open>put_be32\<close>.\<close>

definition be_value :: "bytes \<Rightarrow> int" where
  "be_value bs = foldl (\<lambda>acc b. acc * 256 + uint b) 0 bs"

lemma put_be32_length [simp]: "length (put_be32 v) = 4"
  by (simp add: put_be32_def)

lemma horner_256:
  fixes v :: int
  assumes "v = 256 * b + r0" "b = 256 * c + r1" "c = 256 * d + r2"
  shows "((d * 256 + r2) * 256 + r1) * 256 + r0 = v"
  using assms by simp

lemma digits_256:
  fixes v :: int
  shows "v = 256 * (v div 256) + v mod 256"
    and "v div 256 = 256 * (v div 65536) + v div 256 mod 256"
    and "v div 65536 = 256 * (v div 16777216) + v div 65536 mod 256"
proof -
  have d: "v div 65536 = v div 256 div 256" "v div 16777216 = v div 65536 div 256"
    using zdiv_zmult2_eq [of 256 v 256] zdiv_zmult2_eq [of 256 v 65536] by simp_all
  show "v = 256 * (v div 256) + v mod 256"
    "v div 256 = 256 * (v div 65536) + v div 256 mod 256"
    "v div 65536 = 256 * (v div 16777216) + v div 65536 mod 256"
    unfolding d(2) unfolding d(1) by (rule mult_div_mod_eq [symmetric])+
qed

lemma be_value_put_be32 [simp]: "be_value (put_be32 v) = uint v"
proof -
  have "uint (ucast w :: u8) = uint w mod 256" for w :: u32
    by (simp add: unsigned_ucast_eq take_bit_eq_mod)
  moreover have "uint (drop_bit n v) = uint v div 2 ^ n" for n
    using uint_lt2p [of v]
    by (simp only: unsigned_drop_bit_eq drop_bit_eq_div [where 'a = int]) (simp add: take_bit_eq_mod)
  ultimately have b: "uint (ucast (drop_bit n v) :: u8) = uint v div 2 ^ n mod 256" for n
    by simp
  moreover have "uint (ucast v :: u8) = uint v mod 256"
    using b [of 0] by simp
  ultimately have e: "be_value (put_be32 v) =
      ((uint v div 16777216 mod 256 * 256 + uint v div 65536 mod 256) * 256 + uint v div 256 mod 256) * 256
        + uint v mod 256"
    using b [of 24] b [of 16] b [of 8] by (simp add: be_value_def put_be32_def)
  have "0 \<le> uint v" "uint v < 4294967296" using uint_lt2p [of v] by simp_all
  then have "0 \<le> uint v div 16777216" "uint v div 16777216 < 256" by linarith+
  then have "uint v div 16777216 mod 256 = uint v div 16777216" by simp
  then show ?thesis unfolding e by (simp only:) (rule horner_256 [OF digits_256])
qed

lemma uint_word_of_coordinate: "0 \<le> x \<Longrightarrow> x \<le> absoluteCoordinate \<Longrightarrow> uint (word_of_int x :: u32) = x"
  by (simp add: uint_word_of_int)

lemma sint_word_of_delta: "-128 \<le> d \<Longrightarrow> d \<le> 127 \<Longrightarrow> sint (word_of_int d :: u8) = d"
  by (simp add: sint_sbintrunc' signed_take_bit_int_eq_self)

lemma keyboard_report_ok:
  "keyboard_report m ks = Inr f \<longleftrightarrow> length ks \<le> 6 \<and> f = 2 # m # ks @ replicate (6 - length ks) 0"
  by (auto simp: keyboard_report_def)

lemma pointer_report_ok:
  "pointer_report x y b = Inr f \<longleftrightarrow>
     0 \<le> x \<and> x \<le> absoluteCoordinate \<and> 0 \<le> y \<and> y \<le> absoluteCoordinate \<and> \<not> bad_buttons b \<and>
     f = 3 # put_be32 (word_of_int x) @ put_be32 (word_of_int y) @ [b]"
  by (auto simp: pointer_report_def)

lemma bad_buttons_0 [simp]: "\<not> bad_buttons 0"
  by (simp add: bad_buttons_def)

section \<open>Properties\<close>

text \<open>
  the handshake the code sends is one \<open>ParseHandshake\<close> accepts, and nothing else is
  accepted: the version is negotiated only from that exact two-byte frame.
\<close>

theorem handshake_roundtrip: "parse_handshake d = Inr v \<longleftrightarrow> d = handshake \<and> v = HIDRPCVersion"
proof -
  have "x \<noteq> 0 \<Longrightarrow> \<not> x > 1 \<Longrightarrow> x = 1" for x :: u8
    by unat_arith
  then show ?thesis
    by (auto simp: parse_handshake_def handshake_def length_Suc_conv numeral_2_eq_2)
qed

text \<open>
  an absolute pointer frame carries exactly what it was given: it has ten bytes and type 3,
  its two big-endian fields read back as the coordinates, which are within 0..32767, and its last
  byte is a five-bit button mask.
\<close>

theorem pointer_report_carries:
  assumes "pointer_report x y b = Inr f"
  shows "length f = 10 \<and> f ! 0 = messagePointerReport \<and> be_value (take 4 (drop 1 f)) = x \<and>
    be_value (take 4 (drop 5 f)) = y \<and> x \<in> {0..32767} \<and> y \<in> {0..32767} \<and>
    f ! 9 = b \<and> b AND NOT 0x1f = 0"
  using assms uint_word_of_coordinate
  by (auto simp: pointer_report_ok bad_buttons_def nth_append)

theorem pointer_report_carries_witness:
  "\<exists>f. pointer_report 1000 32767 3 = Inr f \<and> be_value (take 4 (drop 1 f)) = 1000"
proof -
  have "pointer_report 1000 32767 3 = Inr [3, 0, 0, 3, 232, 0, 0, 127, 255, 3]" by code_simp
  from this pointer_report_carries [OF this] show ?thesis by blast
qed

text \<open>
  a relative frame carries the signed deltas: reading its bytes as two's complement gives
  back the movement, over the whole range -128..127 it accepts.
\<close>

theorem relative_report_carries:
  assumes "relative_mouse_report dx dy b = Inr f"
  shows "length f = 4 \<and> sint (f ! 1) = dx \<and> sint (f ! 2) = dy \<and> f ! 3 = b"
  using assms sint_word_of_delta [of dx] sint_word_of_delta [of dy]
  by (auto simp: relative_mouse_report_def split: if_splits)

theorem relative_report_carries_witness:
  "\<exists>f. relative_mouse_report (-128) 5 0 = Inr f \<and> sint (f ! 1) = -128"
proof -
  have "relative_mouse_report (-128) 5 0 = Inr [6, 128, 5, 0]" by code_simp
  from this relative_report_carries [OF this] show ?thesis by blast
qed

end
