(* ===== verification/Keys.thy ===== *)
theory Keys
  imports Hid_Protocol
begin

text \<open>
  \<open>internal/input/keys.go\<close>: key names, the modifier and usage tables, key combinations and the
  US keyboard layout. A Go string is its list of bytes; \<open>decode_runes\<close> is what \<open>range\<close> over
  it yields (an ill-formed byte is U+FFFD). The maps are association lists, looked up with
  \<open>map_of\<close>; an assignment to a map puts its pair in front.
\<close>

section \<open>UTF-8 as the runtime reads it\<close>

type_synonym rune = nat

definition string_bytes :: "string \<Rightarrow> nat list" where
  "string_bytes s = map of_char s"

definition cont_byte :: "nat \<Rightarrow> bool" where
  "cont_byte b \<longleftrightarrow> 128 \<le> b \<and> b \<le> 191"

text \<open>
  \<open>utf8.DecodeRuneInString\<close> on a nonempty string: the rune and its width, \<open>None\<close> when the
  bytes start no well-formed sequence (overlong forms, surrogates, values over U+10FFFF and
  truncated sequences included).
\<close>

definition utf8_head :: "nat list \<Rightarrow> (rune \<times> nat) option" where
  "utf8_head s =
     (case s of
        [] \<Rightarrow> None
      | a # r \<Rightarrow>
          if a < 128 then Some (a, 1)
          else if 194 \<le> a \<and> a \<le> 223 then
            (case r of b # _ \<Rightarrow>
                if cont_byte b then Some ((a - 192) * 64 + (b - 128), 2) else None
             | [] \<Rightarrow> None)
          else if 224 \<le> a \<and> a \<le> 239 then
            (case r of b # c # _ \<Rightarrow>
                if (if a = 224 then 160 \<le> b \<and> b \<le> 191
                    else if a = 237 then 128 \<le> b \<and> b \<le> 159
                    else cont_byte b) \<and> cont_byte c
                then Some ((a - 224) * 4096 + (b - 128) * 64 + (c - 128), 3) else None
             | _ \<Rightarrow> None)
          else if 240 \<le> a \<and> a \<le> 244 then
            (case r of b # c # d # _ \<Rightarrow>
                if (if a = 240 then 144 \<le> b \<and> b \<le> 191
                    else if a = 244 then 128 \<le> b \<and> b \<le> 143
                    else cont_byte b) \<and> cont_byte c \<and> cont_byte d
                then Some ((a - 240) * 262144 + (b - 128) * 4096 + (c - 128) * 64 + (d - 128), 4)
                else None
             | _ \<Rightarrow> None)
          else None)"

fun decode_runes :: "nat list \<Rightarrow> rune list" where
  "decode_runes [] = []"
| "decode_runes (b # s) =
     (case utf8_head (b # s) of
        Some (r, w) \<Rightarrow> r # decode_runes (drop (w - 1) s)
      | None \<Rightarrow> 65533 # decode_runes s)"

fun utf8_valid :: "nat list \<Rightarrow> bool" where
  "utf8_valid [] = True"
| "utf8_valid (b # s) =
     (case utf8_head (b # s) of
        Some (r, w) \<Rightarrow> utf8_valid (drop (w - 1) s)
      | None \<Rightarrow> False)"

section \<open>Key names\<close>

text \<open>\<open>unicode.IsSpace\<close>.\<close>

definition is_space :: "rune \<Rightarrow> bool" where
  "is_space r \<longleftrightarrow>
     r \<in> {9, 10, 11, 12, 13, 32, 133, 160, 5760, 8232, 8233, 8239, 8287, 12288} \<or>
     (8192 \<le> r \<and> r \<le> 8202)"

text \<open>
  \<open>unicode.ToUpper\<close>, as far as a lookup in the tables can tell: the ASCII letters, and the two
  runes outside ASCII whose upper case is an ASCII letter (dotless i and long s). Every other rune
  outside ASCII keeps an upper case outside ASCII, which is in no table and is no separator, so
  it is left alone here.
\<close>

definition to_upper :: "rune \<Rightarrow> rune" where
  "to_upper r =
     (if 97 \<le> r \<and> r \<le> 122 then r - 32
      else if r = 0x131 then 73
      else if r = 0x17F then 83
      else r)"

definition trim_space :: "rune list \<Rightarrow> rune list" where
  "trim_space rs = rev (dropWhile is_space (rev (dropWhile is_space rs)))"

definition normalizeKeyName :: "string \<Rightarrow> rune list" where
  "normalizeKeyName name =
     filter (\<lambda>r. r \<notin> {45, 95, 32}) (map to_upper (trim_space (decode_runes (string_bytes name))))"

section \<open>Tables\<close>

definition modifier_usages :: "(string \<times> u8) list" where
  "modifier_usages =
    [(''CTRL'', 0x01), (''CONTROL'', 0x01), (''CTRLLEFT'', 0x01), (''CONTROLLEFT'', 0x01),
     (''SHIFT'', 0x02), (''SHIFTLEFT'', 0x02), (''ALT'', 0x04), (''ALTLEFT'', 0x04),
     (''META'', 0x08), (''SUPER'', 0x08), (''COMMAND'', 0x08), (''CMD'', 0x08),
     (''METALEFT'', 0x08), (''SUPERLEFT'', 0x08), (''CONTROLRIGHT'', 0x10), (''CTRLRIGHT'', 0x10),
     (''SHIFTRIGHT'', 0x20), (''ALTRIGHT'', 0x40), (''ALTGR'', 0x40), (''METARIGHT'', 0x80),
     (''SUPERRIGHT'', 0x80), (''COMMANDRIGHT'', 0x80)]"

definition named_keys :: "(string \<times> u8) list" where
  "named_keys =
    [(''ENTER'', 0x28), (''RETURN'', 0x28), (''ESCAPE'', 0x29), (''ESC'', 0x29),
     (''BACKSPACE'', 0x2a), (''TAB'', 0x2b), (''SPACE'', 0x2c),
     (''MINUS'', 0x2d), (''EQUAL'', 0x2e), (''BRACKETLEFT'', 0x2f), (''BRACKETRIGHT'', 0x30),
     (''BACKSLASH'', 0x31), (''SEMICOLON'', 0x33), (''QUOTE'', 0x34), (''BACKQUOTE'', 0x35),
     (''COMMA'', 0x36), (''PERIOD'', 0x37), (''SLASH'', 0x38), (''CAPSLOCK'', 0x39),
     (''PRINTSCREEN'', 0x46), (''SCROLLLOCK'', 0x47), (''PAUSE'', 0x48), (''INSERT'', 0x49),
     (''HOME'', 0x4a), (''PAGEUP'', 0x4b), (''DELETE'', 0x4c), (''END'', 0x4d),
     (''PAGEDOWN'', 0x4e), (''ARROWRIGHT'', 0x4f), (''RIGHT'', 0x4f), (''ARROWLEFT'', 0x50),
     (''LEFT'', 0x50), (''ARROWDOWN'', 0x51), (''DOWN'', 0x51), (''ARROWUP'', 0x52), (''UP'', 0x52),
     (''NUMLOCK'', 0x53), (''NUMPADDIVIDE'', 0x54), (''NUMPADMULTIPLY'', 0x55),
     (''NUMPADSUBTRACT'', 0x56), (''NUMPADADD'', 0x57), (''NUMPADENTER'', 0x58),
     (''NUMPADDECIMAL'', 0x63), (''APPLICATION'', 0x65), (''CONTEXTMENU'', 0x65)]"

text \<open>\<open>fmt.Sprintf("%d", n)\<close>.\<close>

fun decimal :: "nat \<Rightarrow> string" where
  "decimal n = (if n < 10 then [char_of (48 + n)] else decimal (n div 10) @ [char_of (48 + n mod 10)])"

declare decimal.simps [simp del]

definition letter_keys :: "nat \<Rightarrow> (string \<times> u8) list" where
  "letter_keys index =
     (let usage = 0x04 + of_nat index; letter = [char_of (65 + index)]
      in [(''KEY'' @ letter, usage), (letter, usage)])"

definition digit_keys :: "nat \<Rightarrow> (string \<times> u8) list" where
  "digit_keys digit =
     (let usage = (if digit \<noteq> 0 then of_nat (0x1d + digit) else 0x27); name = decimal digit
      in [(''DIGIT'' @ name, usage), (name, usage)])"

definition function_keys :: "nat \<Rightarrow> (string \<times> u8) list" where
  "function_keys index =
     [(''F'' @ decimal (index + 1), if index \<ge> 12 then of_nat (0x68 + index - 12) else of_nat (0x3a + index))]"

definition numpad_keys :: "nat \<Rightarrow> (string \<times> u8) list" where
  "numpad_keys digit =
     [(''NUMPAD'' @ decimal digit, if digit \<noteq> 0 then of_nat (0x58 + digit) else 0x62)]"

definition buildKeyUsages :: "(string \<times> u8) list" where
  "buildKeyUsages =
     foldl (\<lambda>m i. numpad_keys i @ m)
       (foldl (\<lambda>m i. function_keys i @ m)
         (foldl (\<lambda>m i. digit_keys i @ m)
           (foldl (\<lambda>m i. letter_keys i @ m) named_keys [0..<26])
           [0..<10])
         [0..<24])
       [0..<10]"

text \<open>A lookup with a normalized name.\<close>

definition lookup_name :: "(string \<times> u8) list \<Rightarrow> rune list \<Rightarrow> u8 option" where
  "lookup_name table n = map_of (map (\<lambda>(k, v). (string_bytes k, v)) table) n"

section \<open>Key combinations\<close>

text \<open>The loop of \<open>CompileKeyCombo\<close>; the key set it keeps is the set of the keys appended so far.\<close>

fun combo_loop :: "string list \<Rightarrow> u8 \<Rightarrow> bytes \<Rightarrow> input_errors + (u8 \<times> bytes)" where
  "combo_loop [] seen_modifiers keys = Inr (seen_modifiers, keys)"
| "combo_loop (name # names) seen_modifiers keys =
     (let normalized = normalizeKeyName name
      in if normalized = [] then Inl [ErrUnknownKey]
         else
           (case lookup_name modifier_usages normalized of
              Some flag \<Rightarrow>
                if seen_modifiers AND flag \<noteq> 0 then Inl [ErrUnknownKey]
                else combo_loop names (seen_modifiers OR flag) keys
            | None \<Rightarrow>
                (case lookup_name buildKeyUsages normalized of
                   None \<Rightarrow> Inl [ErrUnknownKey]
                 | Some usage \<Rightarrow>
                     if usage \<in> set keys then Inl [ErrUnknownKey]
                     else combo_loop names seen_modifiers (keys @ [usage]))))"

definition compileKeyCombo :: "string list \<Rightarrow> input_errors + (u8 \<times> bytes)" where
  "compileKeyCombo names =
     (if names = [] then Inl [ErrUnknownKey]
      else
        (case combo_loop names 0 [] of
           Inl e \<Rightarrow> Inl e
         | Inr (seen_modifiers, keys) \<Rightarrow>
             if length keys > keyboardSlots then Inl [ErrUnknownKey]
             else if seen_modifiers = 0 \<and> keys = [] then Inl [ErrUnknownKey]
             else Inr (seen_modifiers, keys)))"

section \<open>Text\<close>

record keystroke =
  ks_modifier :: u8
  ks_key :: u8

abbreviation (input) MaxTextRunes :: nat where "MaxTextRunes \<equiv> 4096"

abbreviation (input) stroke :: "u8 \<Rightarrow> u8 \<Rightarrow> keystroke" where
  "stroke m k \<equiv> \<lparr>ks_modifier = m, ks_key = k\<rparr>"

definition us_punctuation :: "(rune \<times> keystroke) list" where
  "us_punctuation =
    [(32, stroke 0 0x2c), (45, stroke 0 0x2d), (95, stroke 2 0x2d),
     (61, stroke 0 0x2e), (43, stroke 2 0x2e), (91, stroke 0 0x2f),
     (123, stroke 2 0x2f), (93, stroke 0 0x30), (125, stroke 2 0x30),
     (92, stroke 0 0x31), (124, stroke 2 0x31), (59, stroke 0 0x33),
     (58, stroke 2 0x33), (39, stroke 0 0x34), (34, stroke 2 0x34),
     (96, stroke 0 0x35), (126, stroke 2 0x35), (44, stroke 0 0x36),
     (60, stroke 2 0x36), (46, stroke 0 0x37), (62, stroke 2 0x37),
     (47, stroke 0 0x38), (63, stroke 2 0x38), (33, stroke 2 0x1e),
     (64, stroke 2 0x1f), (35, stroke 2 0x20),
     (36, stroke 2 0x21), (37, stroke 2 0x22),
     (94, stroke 2 0x23), (38, stroke 2 0x24),
     (42, stroke 2 0x25), (40, stroke 2 0x26),
     (41, stroke 2 0x27)]"

definition us_rune :: "rune \<Rightarrow> keystroke option" where
  "us_rune r =
     (if 97 \<le> r \<and> r \<le> 122 then Some (stroke 0 (of_nat (0x04 + r - 97)))
      else if 65 \<le> r \<and> r \<le> 90 then Some (stroke 2 (of_nat (0x04 + r - 65)))
      else if 49 \<le> r \<and> r \<le> 57 then Some (stroke 0 (of_nat (0x1e + r - 49)))
      else if r = 48 then Some (stroke 0 0x27)
      else map_of us_punctuation r)"

fun text_loop :: "rune list \<Rightarrow> input_errors + keystroke list" where
  "text_loop [] = Inr []"
| "text_loop (r # rs) =
     (case us_rune r of
        None \<Rightarrow> Inl [ErrUnsupportedText]
      | Some k \<Rightarrow> (case text_loop rs of Inl e \<Rightarrow> Inl e | Inr ks \<Rightarrow> Inr (k # ks)))"

definition compileText :: "string \<Rightarrow> input_errors + keystroke list" where
  "compileText s =
     (if \<not> utf8_valid (string_bytes s) then Inl [ErrUnsupportedText]
      else
        (let count = length (decode_runes (string_bytes s))
         in if count = 0 \<or> count > MaxTextRunes then Inl [ErrUnsupportedText]
            else text_loop (decode_runes (string_bytes s))))"

section \<open>What the tables hold\<close>

lemma modifier_bits:
  "list_all (\<lambda>x. list_all (\<lambda>y. (x AND y \<noteq> 0) = (x = y)) (map snd modifier_usages)) (map snd modifier_usages)"
  by code_simp

lemma usages_nonzero: "list_all (\<lambda>u. u \<noteq> 0) (map snd buildKeyUsages)"
  by code_simp

lemma lookup_name_mem: "lookup_name t n = Some v \<Longrightarrow> v \<in> set (map snd t)"
  by (force simp: lookup_name_def dest: map_of_SomeD)

lemma modifier_overlap:
  "lookup_name modifier_usages n = Some x \<Longrightarrow> lookup_name modifier_usages n' = Some y \<Longrightarrow>
     (x AND y = 0) = (x \<noteq> y)"
  using modifier_bits by (auto simp only: list_all_iff dest!: lookup_name_mem)

lemma modifier_nonzero: "lookup_name modifier_usages n = Some x \<Longrightarrow> x \<noteq> 0"
  using modifier_overlap [of n x n x] by auto

section \<open>The combinations that compile\<close>

definition name_modifier :: "string \<Rightarrow> u8 option" where
  "name_modifier n = lookup_name modifier_usages (normalizeKeyName n)"

definition name_key :: "string \<Rightarrow> u8 option" where
  "name_key n = (if name_modifier n = None then lookup_name buildKeyUsages (normalizeKeyName n) else None)"

definition name_known :: "string \<Rightarrow> bool" where
  "name_known n \<longleftrightarrow> normalizeKeyName n \<noteq> [] \<and> (name_modifier n \<noteq> None \<or> name_key n \<noteq> None)"

definition combo_modifiers :: "string list \<Rightarrow> u8 list" where
  "combo_modifiers names = List.map_filter name_modifier names"

definition combo_keys :: "string list \<Rightarrow> bytes" where
  "combo_keys names = List.map_filter name_key names"

definition or_all :: "u8 list \<Rightarrow> u8" where
  "or_all ms = foldl (OR) 0 ms"

lemma combo_simps [simp]:
  "combo_modifiers [] = []" "combo_keys [] = []"
  "combo_modifiers (n # ns) = (case name_modifier n of None \<Rightarrow> combo_modifiers ns | Some x \<Rightarrow> x # combo_modifiers ns)"
  "combo_keys (n # ns) = (case name_key n of None \<Rightarrow> combo_keys ns | Some x \<Rightarrow> x # combo_keys ns)"
  by (simp_all add: combo_modifiers_def combo_keys_def List.map_filter_def split: option.splits)

lemma combo_modifiers_mem: "x \<in> set (combo_modifiers ns) \<Longrightarrow> \<exists>n. name_modifier n = Some x"
  by (induction ns) (auto split: option.splits)

lemma or_all_snoc [simp]: "or_all [] = 0" "or_all (ms @ [m]) = or_all ms OR m"
  by (simp_all add: or_all_def)

lemma or_all_overlap: "or_all ms AND x = 0 \<longleftrightarrow> list_all (\<lambda>m. m AND x = 0) ms"
  by (induction ms rule: rev_induct) (auto simp: bit.conj_disj_distrib2 bit_eq_iff bit_simps)

text \<open>The loop, from any state it can be in, against the lists it stands for.\<close>

lemma combo_loop_iff:
  assumes "list_all (\<lambda>m. \<exists>n. name_modifier n = Some m) ms"
  shows "combo_loop ns (or_all ms) ks = Inr r \<longleftrightarrow>
    list_all name_known ns \<and>
    distinct (combo_modifiers ns) \<and> set ms \<inter> set (combo_modifiers ns) = {} \<and>
    distinct (combo_keys ns) \<and> set ks \<inter> set (combo_keys ns) = {} \<and>
    r = (or_all (ms @ combo_modifiers ns), ks @ combo_keys ns)"
  using assms
proof (induction ns arbitrary: ms ks)
  case Nil
  then show ?case by auto
next
  case (Cons n ns)
  show ?case
  proof (cases "name_modifier n")
    case (Some x)
    have over: "or_all ms AND x \<noteq> 0 \<longleftrightarrow> x \<in> set ms"
    proof -
      have "m AND x = 0 \<longleftrightarrow> m \<noteq> x" if "m \<in> set ms" for m
        using Cons.prems Some that modifier_overlap
        unfolding list_all_iff name_modifier_def by blast
      then show ?thesis unfolding or_all_overlap list_all_iff by blast
    qed
    have step: "combo_loop ns (or_all (ms @ [x])) ks = Inr r \<longleftrightarrow>
        list_all name_known ns \<and>
        distinct (combo_modifiers ns) \<and> set (ms @ [x]) \<inter> set (combo_modifiers ns) = {} \<and>
        distinct (combo_keys ns) \<and> set ks \<inter> set (combo_keys ns) = {} \<and>
        r = (or_all ((ms @ [x]) @ combo_modifiers ns), ks @ combo_keys ns)"
      using Cons.prems Some by (intro Cons.IH) auto
    have "combo_loop (n # ns) (or_all ms) ks = Inr r \<longleftrightarrow>
        normalizeKeyName n \<noteq> [] \<and> x \<notin> set ms \<and> combo_loop ns (or_all (ms @ [x])) ks = Inr r"
      using Some over by (auto simp: name_modifier_def Let_def)
    moreover have "name_known n \<longleftrightarrow> normalizeKeyName n \<noteq> []" "name_key n = None"
      using Some by (auto simp: name_known_def name_key_def)
    ultimately show ?thesis
      unfolding step using Some by (auto simp del: combo_loop.simps)
  next
    case None
    show ?thesis
    proof (cases "name_key n")
      case (Some k)
      have "combo_loop (n # ns) (or_all ms) ks = Inr r \<longleftrightarrow>
          normalizeKeyName n \<noteq> [] \<and> k \<notin> set ks \<and> combo_loop ns (or_all ms) (ks @ [k]) = Inr r"
        using None Some by (auto simp: name_modifier_def name_key_def Let_def)
      moreover have "name_known n \<longleftrightarrow> normalizeKeyName n \<noteq> []"
        using Some by (auto simp: name_known_def)
      ultimately show ?thesis
        using None Some Cons.IH [OF Cons.prems, of "ks @ [k]"]
        by (auto simp del: combo_loop.simps)
    next
      case None': None
      have "combo_loop (n # ns) (or_all ms) ks \<noteq> Inr r"
        using None None' by (auto simp: name_modifier_def name_key_def Let_def)
      moreover have "\<not> name_known n"
        using None None' by (simp add: name_known_def)
      ultimately show ?thesis by (simp del: combo_loop.simps)
    qed
  qed
qed

lemma combo_nonempty: "ns \<noteq> [] \<Longrightarrow> list_all name_known ns \<Longrightarrow> combo_modifiers ns \<noteq> [] \<or> combo_keys ns \<noteq> []"
  by (cases ns) (auto simp: name_known_def split: option.splits)

lemma or_all_zero: "or_all ms = 0 \<longleftrightarrow> list_all (\<lambda>m. m = 0) ms"
  by (induction ms rule: rev_induct) (auto simp: or_eq_0_iff)

lemma combo_not_zero:
  assumes "ns \<noteq> []" "list_all name_known ns"
  shows "or_all (combo_modifiers ns) \<noteq> 0 \<or> combo_keys ns \<noteq> []"
proof (cases "combo_modifiers ns = []")
  case False
  then obtain x where "x \<in> set (combo_modifiers ns)" by (cases "combo_modifiers ns") auto
  moreover from this have "x \<noteq> 0"
    using combo_modifiers_mem modifier_nonzero by (force simp: name_modifier_def)
  ultimately show ?thesis by (auto simp: or_all_zero list_all_iff)
qed (use combo_nonempty [OF assms] in simp)

lemma compileKeyCombo_iff:
  "compileKeyCombo ns = Inr (m, ks) \<longleftrightarrow>
     ns \<noteq> [] \<and> list_all name_known ns \<and> distinct (combo_modifiers ns) \<and> distinct (combo_keys ns) \<and>
     length (combo_keys ns) \<le> keyboardSlots \<and> m = or_all (combo_modifiers ns) \<and> ks = combo_keys ns"
proof -
  have "combo_loop ns 0 [] = Inr r \<longleftrightarrow> list_all name_known ns \<and> distinct (combo_modifiers ns) \<and>
      distinct (combo_keys ns) \<and> r = (or_all (combo_modifiers ns), combo_keys ns)" for r
    using combo_loop_iff [of "[]" ns "[]" r] by simp
  then show ?thesis
    using combo_not_zero [of ns]
    by (auto simp: compileKeyCombo_def split: sum.splits if_splits)
qed

text \<open>A compiled combination always fits a keyboard report.\<close>

lemma compileKeyCombo_fits:
  "compileKeyCombo ns = Inr (m, ks) \<Longrightarrow> length ks \<le> 6 \<and> \<not> (m = 0 \<and> ks = [])"
  using combo_not_zero [of ns] by (auto simp: compileKeyCombo_iff)

section \<open>The texts that compile\<close>

definition printable :: "rune \<Rightarrow> bool" where
  "printable r \<longleftrightarrow> 32 \<le> r \<and> r \<le> 126"

lemma us_rune_small: "list_all (\<lambda>r. (us_rune r \<noteq> None) = printable r) [0..<127]"
  by code_simp

lemma us_rune_printable: "us_rune r \<noteq> None \<longleftrightarrow> printable r"
proof (cases "r < 127")
  case True
  then show ?thesis using us_rune_small by (auto simp: list_all_iff)
next
  case False
  then show ?thesis by (simp add: us_rune_def us_punctuation_def printable_def)
qed

lemma us_rune_distinct: "distinct (map us_rune [32..<127])"
  by code_simp

lemma us_rune_inj:
  assumes "us_rune r = Some k" "us_rune r' = Some k"
  shows "r = r'"
proof -
  have "printable r" "printable r'" using assms us_rune_printable by auto
  then have "r \<in> {32..<127}" "r' \<in> {32..<127}" by (auto simp: printable_def)
  moreover have "inj_on us_rune {32..<127}"
    using us_rune_distinct unfolding distinct_map set_upt by (rule conjunct2)
  ultimately show ?thesis using assms by (metis inj_onD)
qed

lemma text_loop_iff: "text_loop rs = Inr ks \<longleftrightarrow> map us_rune rs = map Some ks"
proof (induction rs arbitrary: ks)
  case (Cons r rs)
  show ?case
    using Cons.IH [of "tl ks"] by (cases "us_rune r"; cases "text_loop rs"; cases ks) auto
qed auto

lemma utf8_head_ascii: "b < 128 \<Longrightarrow> utf8_head (b # s) = Some (b, 1)"
  by (simp add: utf8_head_def)

lemma utf8_head_multi: "utf8_head (b # s) = Some (r, w) \<Longrightarrow> \<not> b < 128 \<Longrightarrow> 128 \<le> r"
  by (auto simp: utf8_head_def cont_byte_def split: list.splits if_splits)

lemma ascii_decodes: "list_all (\<lambda>b. b < 128) s \<Longrightarrow> utf8_valid s \<and> decode_runes s = s"
  by (induction s) (simp_all add: utf8_head_ascii)

lemma ascii_only: "utf8_valid s \<Longrightarrow> list_all (\<lambda>r. r < 128) (decode_runes s) \<Longrightarrow> list_all (\<lambda>b. b < 128) s"
proof (induction s)
  case (Cons b s)
  then obtain r w where h: "utf8_head (b # s) = Some (r, w)" by (auto split: option.splits)
  then have "b < 128" using Cons.prems utf8_head_multi [OF h] by auto
  then show ?case using Cons by (simp add: utf8_head_ascii)
qed simp

lemma typed_printable: "map us_rune rs = map Some ks \<Longrightarrow> list_all printable rs"
  using us_rune_printable by (induction rs arbitrary: ks) (auto simp: map_eq_Cons_conv)

lemma printable_ascii: "list_all printable rs \<Longrightarrow> list_all (\<lambda>r. r < 128) rs"
  by (auto simp: list_all_iff printable_def)

lemma compileText_iff:
  "compileText s = Inr ks \<longleftrightarrow>
     list_all printable (string_bytes s) \<and> s \<noteq> [] \<and> length s \<le> MaxTextRunes \<and>
     map us_rune (string_bytes s) = map Some ks"
proof -
  have len: "length (string_bytes s) = length s" by (simp add: string_bytes_def)
  have "compileText s = Inr ks \<longleftrightarrow>
      utf8_valid (string_bytes s) \<and> length (decode_runes (string_bytes s)) \<in> {1..4096} \<and>
      map us_rune (decode_runes (string_bytes s)) = map Some ks"
    unfolding compileText_def Let_def by (auto simp: text_loop_iff Suc_le_eq)
  moreover have "decode_runes (string_bytes s) = string_bytes s"
    if "utf8_valid (string_bytes s)" "map us_rune (decode_runes (string_bytes s)) = map Some ks"
    using ascii_only [OF that(1) printable_ascii [OF typed_printable [OF that(2)]]] ascii_decodes by blast
  moreover have "utf8_valid (string_bytes s) \<and> decode_runes (string_bytes s) = string_bytes s"
    if "list_all printable (string_bytes s)"
    using ascii_decodes [OF printable_ascii [OF that]] .
  moreover have "1 \<le> length s \<longleftrightarrow> s \<noteq> []" by (cases s) auto
  ultimately show ?thesis using typed_printable len by (metis atLeastAtMost_iff)
qed

section \<open>Properties\<close>

text \<open>
  \<open>CompileKeyCombo\<close> accepts exactly the non-empty combinations of known names with no
  repeated modifier, no repeated key and at most six keys; the result is the union of the modifier
  bits and the keys in the order they were named.
\<close>

theorem key_combo_spec:
  "compileKeyCombo ns = Inr (m, ks) \<longleftrightarrow>
     ns \<noteq> [] \<and> list_all name_known ns \<and> distinct (combo_modifiers ns) \<and> distinct (combo_keys ns) \<and>
     length (combo_keys ns) \<le> keyboardSlots \<and> m = or_all (combo_modifiers ns) \<and> ks = combo_keys ns"
  by (rule compileKeyCombo_iff)

text \<open>
  \<open>CompileText\<close> accepts exactly the texts of 1 to 4096 printable ASCII characters (whatever
  bytes it is given), and then yields one keystroke per character, none dropped or added.
\<close>

theorem compile_text_spec:
  "compileText s = Inr ks \<longleftrightarrow>
     list_all printable (string_bytes s) \<and> s \<noteq> [] \<and> length s \<le> MaxTextRunes \<and>
     map us_rune (string_bytes s) = map Some ks"
  by (rule compileText_iff)

text \<open>
  typing loses nothing: two texts with the same keystrokes are the same text, so what the
  keyboard reports say determines what was asked to be typed.
\<close>

theorem compile_text_injective:
  assumes "compileText s = Inr ks" and "compileText s' = Inr ks"
  shows "s = s'"
proof -
  have "string_bytes s = string_bytes s'"
  proof (rule nth_equalityI)
    from assms have m: "map us_rune (string_bytes s) = map Some ks" "map us_rune (string_bytes s') = map Some ks"
      by (simp_all add: compileText_iff)
    then show l: "length (string_bytes s) = length (string_bytes s')" by (metis length_map)
    fix i assume i: "i < length (string_bytes s)"
    with m have "us_rune (string_bytes s ! i) = Some (ks ! i)" "us_rune (string_bytes s' ! i) = Some (ks ! i)"
      using l by (metis length_map nth_map)+
    then show "string_bytes s ! i = string_bytes s' ! i" by (rule us_rune_inj)
  qed
  moreover have "inj (of_char :: char \<Rightarrow> nat)" by (rule injI) simp
  ultimately show ?thesis by (simp add: string_bytes_def inj_map_eq_map)
qed

theorem compile_text_injective_witness: "{s. compileText s = compileText ''Hi''} = {''Hi''}"
proof -
  have "map us_rune (string_bytes ''Hi'') = map Some [stroke 2 0x0b, stroke 0 0x0c]"
    by (simp add: us_rune_def string_bytes_def)
  then have "compileText ''Hi'' = Inr [stroke 2 0x0b, stroke 0 0x0c]"
    unfolding compileText_iff by (simp add: string_bytes_def printable_def)
  then show ?thesis using compile_text_injective by auto
qed

end
