(* ===== verification/Actions.thy ===== *)
theory Actions
  imports Keys
begin

text \<open>
  \<open>internal/input/actions.go\<close>: the closed union of input actions and the compiler that turns a
  batch into commands before anything is sent. \<open>compile_action\<close> is \<open>compileAction\<close>,
  \<open>compile_batch\<close> is \<open>compileBatch\<close> with its loop \<open>batch_loop\<close>. A nil
  \<open>*ObservationBinding\<close> is \<open>None\<close>; the sums and products of durations and of \<open>int64\<close>
  coordinates wrap with \<open>i64\<close>.
\<close>

section \<open>Data\<close>

datatype action_type =
    ActionMove | ActionClick | ActionDoubleClick | ActionDrag | ActionScroll | ActionKeypress
  | ActionKeyHold | ActionTypeText | ActionWait | ActionScreenshot | ActionOther string

text \<open>The empty string, the zero \<open>Button\<close>, is \<open>ButtonOther []\<close>.\<close>

datatype button = ButtonLeft | ButtonRight | ButtonMiddle | ButtonBack | ButtonForward | ButtonOther string

record point =
  pt_x :: int
  pt_y :: int

abbreviation (input) origin :: point where "origin \<equiv> \<lparr>pt_x = 0, pt_y = 0\<rparr>"

record action =
  ac_type :: action_type
  ac_x :: int
  ac_y :: int
  ac_button :: button
  ac_path :: "point list"
  ac_delta_x :: int
  ac_delta_y :: int
  ac_keys :: "string list"
  ac_text :: string
  ac_duration :: duration

record observation_binding =
  ob_id :: string
  ob_generation :: u64
  ob_width :: int
  ob_height :: int
  ob_captured_at :: time

record batch =
  ba_observation :: "observation_binding option"
  ba_actions :: "action list"

record compiled_action =
  ca_type :: action_type
  ca_point :: point
  ca_button :: button_mask
  ca_path :: "point list"
  ca_delta_x :: int
  ca_delta_y :: int
  ca_keys :: bytes
  ca_modifier :: u8
  ca_text :: "keystroke list"
  ca_duration :: duration
  ca_observation_expires :: time

record limits =
  li_key_hold :: duration
  li_inter_key :: duration
  li_double_click_delay :: duration
  li_max_actions :: int
  li_max_batch_duration :: duration
  li_max_wait_duration :: duration
  li_max_total_wait :: duration
  li_max_observation_age :: duration

abbreviation (input) MaxKeyHoldDuration :: duration where "MaxKeyHoldDuration \<equiv> seconds 12"
abbreviation (input) MaxActions :: int where "MaxActions \<equiv> 16"
abbreviation (input) MaxBatchDuration :: duration where "MaxBatchDuration \<equiv> seconds 15"
abbreviation (input) MaxWaitDuration :: duration where "MaxWaitDuration \<equiv> seconds 5"
abbreviation (input) MaxTotalWait :: duration where "MaxTotalWait \<equiv> seconds 10"

definition default_limits :: limits where
  "default_limits =
     \<lparr>li_key_hold = millis 20, li_inter_key = millis 20, li_double_click_delay = millis 100,
      li_max_actions = MaxActions, li_max_batch_duration = MaxBatchDuration,
      li_max_wait_duration = MaxWaitDuration, li_max_total_wait = MaxTotalWait,
      li_max_observation_age = seconds 30\<rparr>"

section \<open>Field validation\<close>

definition validate_fields :: "action \<Rightarrow> input_errors option" where
  "validate_fields a =
     (let point = ac_x a \<noteq> 0 \<or> ac_y a \<noteq> 0;
          has_button = ac_button a \<noteq> ButtonOther [];
          has_path = ac_path a \<noteq> [];
          has_delta = ac_delta_x a \<noteq> 0 \<or> ac_delta_y a \<noteq> 0;
          has_keys = ac_keys a \<noteq> [];
          has_text = ac_text a \<noteq> [];
          has_duration = ac_duration a \<noteq> 0;
          check = (\<lambda>invalid. if invalid then Some [ErrInvalidAction] else None)
      in
      (case ac_type a of
         ActionMove \<Rightarrow> check (has_button \<or> has_path \<or> has_delta \<or> has_keys \<or> has_text \<or> has_duration)
       | ActionClick \<Rightarrow> check (has_path \<or> has_delta \<or> has_keys \<or> has_text \<or> has_duration)
       | ActionDoubleClick \<Rightarrow> check (has_path \<or> has_delta \<or> has_keys \<or> has_text \<or> has_duration)
       | ActionDrag \<Rightarrow> check (point \<or> has_delta \<or> has_keys \<or> has_text \<or> has_duration)
       | ActionScroll \<Rightarrow> check (point \<or> has_button \<or> has_path \<or> has_keys \<or> has_text \<or> has_duration)
       | ActionKeyHold \<Rightarrow>
           check (point \<or> has_button \<or> has_path \<or> has_delta \<or> has_text \<or> \<not> has_keys \<or> \<not> has_duration)
       | ActionKeypress \<Rightarrow> check (point \<or> has_button \<or> has_path \<or> has_delta \<or> has_text \<or> has_duration)
       | ActionTypeText \<Rightarrow> check (point \<or> has_button \<or> has_path \<or> has_delta \<or> has_keys \<or> has_duration)
       | ActionWait \<Rightarrow> check (point \<or> has_button \<or> has_path \<or> has_delta \<or> has_keys \<or> has_text)
       | ActionScreenshot \<Rightarrow>
           check (point \<or> has_button \<or> has_path \<or> has_delta \<or> has_keys \<or> has_text \<or> has_duration)
       | ActionOther _ \<Rightarrow> Some [ErrInvalidAction]))"

section \<open>Coordinates and buttons\<close>

definition scaleCoordinate :: "int \<Rightarrow> int \<Rightarrow> int" where
  "scaleCoordinate v extent =
     (if extent = 1 then 0
      else i64 (i64 (v * absoluteCoordinate) + (extent - 1) sdiv 2) sdiv (extent - 1))"

definition bindPoint ::
    "point \<Rightarrow> observation_binding option \<Rightarrow> u64 \<Rightarrow> time \<Rightarrow> duration \<Rightarrow> input_errors + point" where
  "bindPoint p binding generation now max_age =
     (case binding of
        None \<Rightarrow> Inl [ErrInvalidAction]
      | Some b \<Rightarrow>
          if ob_id b = [] \<or> ob_width b \<le> 0 \<or> ob_height b \<le> 0 \<or> ob_captured_at b = 0
          then Inl [ErrInvalidAction]
          else if ob_generation b \<noteq> generation then Inl [ErrStaleGeneration]
          else if time_sub now (ob_captured_at b) < 0 \<or> time_sub now (ob_captured_at b) > max_age
          then Inl [ErrInvalidAction, ErrObservationStale]
          else if pt_x p < 0 \<or> pt_x p \<ge> ob_width b \<or> pt_y p < 0 \<or> pt_y p \<ge> ob_height b
          then Inl [ErrInvalidAction]
          else Inr \<lparr>pt_x = scaleCoordinate (pt_x p) (ob_width b), pt_y = scaleCoordinate (pt_y p) (ob_height b)\<rparr>)"

definition buttonMask :: "button \<Rightarrow> input_errors + button_mask" where
  "buttonMask b =
     (case b of
        ButtonLeft \<Rightarrow> Inr 1
      | ButtonRight \<Rightarrow> Inr 2
      | ButtonMiddle \<Rightarrow> Inr 4
      | ButtonBack \<Rightarrow> Inr 8
      | ButtonForward \<Rightarrow> Inr 16
      | ButtonOther s \<Rightarrow> if s = [] then Inr 1 else Inl [ErrInvalidAction])"

section \<open>Compilation\<close>

text \<open>The loop that binds the points of a drag.\<close>

fun bind_path ::
    "point list \<Rightarrow> observation_binding option \<Rightarrow> u64 \<Rightarrow> time \<Rightarrow> duration \<Rightarrow> input_errors + point list" where
  "bind_path [] binding generation now max_age = Inr []"
| "bind_path (p # ps) binding generation now max_age =
     (case bindPoint p binding generation now max_age of
        Inl e \<Rightarrow> Inl e
      | Inr q \<Rightarrow>
          (case bind_path ps binding generation now max_age of Inl e \<Rightarrow> Inl e | Inr qs \<Rightarrow> Inr (q # qs)))"

definition blank_item :: "action \<Rightarrow> compiled_action" where
  "blank_item a =
     \<lparr>ca_type = ac_type a, ca_point = \<lparr>pt_x = ac_x a, pt_y = ac_y a\<rparr>, ca_button = 0, ca_path = [],
      ca_delta_x = 0, ca_delta_y = 0, ca_keys = [], ca_modifier = 0, ca_text = [], ca_duration = 0,
      ca_observation_expires = 0\<rparr>"

definition binding_expires :: "observation_binding option \<Rightarrow> limits \<Rightarrow> time" where
  "binding_expires binding li =
     (case binding of None \<Rightarrow> 0 | Some b \<Rightarrow> ob_captured_at b + li_max_observation_age li)"

definition compile_click ::
    "action \<Rightarrow> limits \<Rightarrow> observation_binding option \<Rightarrow> u64 \<Rightarrow> time \<Rightarrow> input_errors + (compiled_action \<times> duration)" where
  "compile_click a li binding generation now =
     (case bindPoint (ca_point (blank_item a)) binding generation now (li_max_observation_age li) of
        Inl e \<Rightarrow> Inl e
      | Inr p \<Rightarrow>
          (case buttonMask (ac_button a) of
             Inl e \<Rightarrow> Inl e
           | Inr b \<Rightarrow>
               Inr ((blank_item a)\<lparr>ca_point := p, ca_button := b,
                                   ca_observation_expires := binding_expires binding li\<rparr>,
                    if ac_type a = ActionDoubleClick then li_double_click_delay li else 0)))"

definition compile_drag ::
    "action \<Rightarrow> limits \<Rightarrow> observation_binding option \<Rightarrow> u64 \<Rightarrow> time \<Rightarrow> input_errors + (compiled_action \<times> duration)" where
  "compile_drag a li binding generation now =
     (if length (ac_path a) < 2 \<or> length (ac_path a) > 64 then Inl [ErrInvalidAction]
      else
        (case bind_path (ac_path a) binding generation now (li_max_observation_age li) of
           Inl e \<Rightarrow> Inl e
         | Inr path \<Rightarrow>
             (case buttonMask (ac_button a) of
                Inl e \<Rightarrow> Inl e
              | Inr b \<Rightarrow> Inr ((blank_item a)\<lparr>ca_path := path, ca_button := b\<rparr>, 0))))"

definition compile_keys :: "action \<Rightarrow> limits \<Rightarrow> input_errors + (compiled_action \<times> duration)" where
  "compile_keys a li =
     (case compileKeyCombo (ac_keys a) of
        Inl e \<Rightarrow> Inl e
      | Inr (m, ks) \<Rightarrow>
          (let item = (blank_item a)\<lparr>ca_modifier := m, ca_keys := ks\<rparr>
           in if ac_type a = ActionKeyHold then
                (if ac_duration a \<le> 0 \<or> ac_duration a > MaxKeyHoldDuration then Inl [ErrInvalidAction]
                 else Inr (item\<lparr>ca_duration := ac_duration a\<rparr>, i64 (ac_duration a + li_inter_key li)))
              else Inr (item, i64 (li_key_hold li + li_inter_key li))))"

definition int8 :: "int \<Rightarrow> int" where
  "int8 d = signed_take_bit 7 d"

definition compileAction ::
    "action \<Rightarrow> limits \<Rightarrow> observation_binding option \<Rightarrow> u64 \<Rightarrow> time \<Rightarrow> input_errors + (compiled_action \<times> duration)" where
  "compileAction a li binding generation now =
     (case validate_fields a of
        Some e \<Rightarrow> Inl e
      | None \<Rightarrow>
          (case ac_type a of
             ActionMove \<Rightarrow>
               (case bindPoint (ca_point (blank_item a)) binding generation now (li_max_observation_age li) of
                  Inl e \<Rightarrow> Inl e
                | Inr p \<Rightarrow> Inr ((blank_item a)\<lparr>ca_point := p, ca_observation_expires := binding_expires binding li\<rparr>, 0))
           | ActionClick \<Rightarrow> compile_click a li binding generation now
           | ActionDoubleClick \<Rightarrow> compile_click a li binding generation now
           | ActionDrag \<Rightarrow> compile_drag a li binding generation now
           | ActionScroll \<Rightarrow>
               if ac_delta_x a < -127 \<or> ac_delta_x a > 127 \<or> ac_delta_y a < -127 \<or> ac_delta_y a > 127 \<or>
                  ac_delta_x a = 0 \<and> ac_delta_y a = 0
               then Inl [ErrInvalidAction]
               else Inr ((blank_item a)\<lparr>ca_delta_x := int8 (ac_delta_x a), ca_delta_y := int8 (ac_delta_y a)\<rparr>, 0)
           | ActionKeypress \<Rightarrow> compile_keys a li
           | ActionKeyHold \<Rightarrow> compile_keys a li
           | ActionTypeText \<Rightarrow>
               (case compileText (ac_text a) of
                  Inl e \<Rightarrow> Inl e
                | Inr ks \<Rightarrow>
                    Inr ((blank_item a)\<lparr>ca_text := ks\<rparr>,
                         i64 (int (length ks) * i64 (li_key_hold li + li_inter_key li))))
           | ActionWait \<Rightarrow>
               if ac_duration a \<le> 0 \<or> ac_duration a > li_max_wait_duration li then Inl [ErrInvalidAction]
               else Inr ((blank_item a)\<lparr>ca_duration := ac_duration a\<rparr>, ac_duration a)
           | ActionScreenshot \<Rightarrow> Inr (blank_item a, 0)
           | ActionOther _ \<Rightarrow> Inl [ErrInvalidAction]))"

text \<open>
  The loop of \<open>compileBatch\<close>: \<open>rest\<close> are the actions still to compile, so \<open>index\<close> is the
  last one exactly when \<open>rest\<close> has one element; \<open>count\<close> is the length of the batch.
\<close>

fun batch_loop ::
    "limits \<Rightarrow> observation_binding option \<Rightarrow> u64 \<Rightarrow> time \<Rightarrow> nat \<Rightarrow> nat \<Rightarrow> action list \<Rightarrow>
       duration \<Rightarrow> duration \<Rightarrow> input_errors + compiled_action list" where
  "batch_loop li binding generation now count index [] total_wait estimated = Inr []"
| "batch_loop li binding generation now count index (a # rest) total_wait estimated =
     (if ac_type a = ActionScreenshot \<and> count \<noteq> 1 \<and> index \<noteq> count - 1 then Inl [ErrInvalidAction]
      else
        (case compileAction a li binding generation now of
           Inl e \<Rightarrow> Inl e
         | Inr (item, cost) \<Rightarrow>
             (let wait = (if ac_type a = ActionWait then i64 (total_wait + ac_duration a) else total_wait);
                  spent = i64 (estimated + cost)
              in if ac_type a = ActionWait \<and> wait > li_max_total_wait li then Inl [ErrInvalidAction]
                 else if spent > li_max_batch_duration li then Inl [ErrInvalidAction]
                 else
                   (case batch_loop li binding generation now count (index + 1) rest wait spent of
                      Inl e \<Rightarrow> Inl e
                    | Inr items \<Rightarrow> Inr (item # items)))))"

definition compileBatch ::
    "batch \<Rightarrow> limits \<Rightarrow> u64 \<Rightarrow> time \<Rightarrow> input_errors + compiled_action list" where
  "compileBatch b li generation now =
     (if ba_actions b = [] \<or> int (length (ba_actions b)) > li_max_actions li then Inl [ErrInvalidAction]
      else batch_loop li (ba_observation b) generation now (length (ba_actions b)) 0 (ba_actions b) 0 0)"

definition validateLimits :: "limits \<Rightarrow> input_errors option" where
  "validateLimits li =
     (if li_key_hold li < 0 \<or> li_inter_key li < 0 \<or> li_double_click_delay li < 0 \<or>
         li_max_actions li \<le> 0 \<or> li_max_actions li > MaxActions \<or>
         li_max_batch_duration li \<le> 0 \<or> li_max_wait_duration li \<le> 0 \<or> li_max_total_wait li \<le> 0 \<or>
         li_max_wait_duration li > li_max_total_wait li \<or> li_max_total_wait li > li_max_batch_duration li \<or>
         li_max_observation_age li \<le> 0
      then Some [ErrInvalidLimits] else None)"

section \<open>Scaling\<close>

lemma sdiv_pos: "0 \<le> a \<Longrightarrow> 0 < b \<Longrightarrow> a sdiv b = a div (b :: int)"
  by (cases "a = 0") (simp_all add: signed_divide_int_def sgn_1_pos)

abbreviation (input) max_extent :: int where "max_extent \<equiv> 2 ^ 47"

lemma scale_exact:
  assumes "0 \<le> v" "v < e" "e \<le> max_extent"
  shows "scaleCoordinate v e = (if e = 1 then 0 else (v * 32767 + (e - 1) div 2) div (e - 1))"
proof (cases "e = 1")
  case False
  have "v * 32767 < 2 ^ 62" "0 \<le> (e - 1) div 2" "(e - 1) div 2 < 2 ^ 47" using assms by simp_all
  then have "i64 (v * 32767) = v * 32767" "i64 (v * 32767 + (e - 1) div 2) = v * 32767 + (e - 1) div 2"
    using assms(1) by simp_all
  then show ?thesis using assms False by (simp add: scaleCoordinate_def sdiv_pos)
qed (simp add: scaleCoordinate_def)

lemma scale_mono_aux:
  fixes a b d :: int
  assumes "0 < d" "a \<le> b"
  shows "(a * 32767 + d div 2) div d \<le> (b * 32767 + d div 2) div d"
  using assms by (intro zdiv_mono1) simp_all

lemma scale_top: "0 < d \<Longrightarrow> (d * 32767 + d div 2) div d = (32767 :: int)"
proof -
  assume d: "0 < d"
  then have "d div 2 div d = 0" by (intro div_pos_pos_trivial) simp_all
  with d show ?thesis by (simp add: div_mult_self4 add.commute [of _ "d div 2"])
qed

lemma scale_range:
  assumes "0 \<le> v" "v < e" "e \<le> max_extent"
  shows "0 \<le> scaleCoordinate v e" "scaleCoordinate v e \<le> 32767"
proof -
  show "0 \<le> scaleCoordinate v e"
    using assms unfolding scale_exact [OF assms] by (auto simp: pos_imp_zdiv_nonneg_iff)
  show "scaleCoordinate v e \<le> 32767"
    using assms scale_mono_aux [of "e - 1" v "e - 1"] scale_top [of "e - 1"]
    unfolding scale_exact [OF assms] by auto
qed

lemma scale_nearest:
  assumes "0 \<le> v" "v < e" "e \<le> max_extent" "e \<noteq> 1"
  shows "\<bar>2 * ((e - 1) * scaleCoordinate v e - v * 32767)\<bar> \<le> e - 1"
proof -
  define d where "d = e - 1"
  define n where "n = v * 32767 + d div 2"
  have d: "0 < d" using assms by (simp add: d_def)
  have "scaleCoordinate v e = n div d"
    using assms(4) unfolding scale_exact [OF assms(1-3)] by (simp add: n_def d_def)
  moreover have "d * (n div d) = n - n mod d" by (simp add: minus_mod_eq_mult_div)
  ultimately have "2 * (d * scaleCoordinate v e - v * 32767) = 2 * (d div 2) - 2 * (n mod d)"
    by (simp add: n_def)
  moreover have "0 \<le> n mod d" "n mod d < d" using d by simp_all
  moreover have "2 * (d div 2) \<le> d" "d \<le> 2 * (d div 2) + 1" by presburger+
  ultimately show ?thesis unfolding d_def [symmetric] by (simp only: abs_le_iff) linarith
qed

section \<open>What a compiled action is\<close>

definition coord_ok :: "point \<Rightarrow> bool" where
  "coord_ok p \<longleftrightarrow> 0 \<le> pt_x p \<and> pt_x p \<le> absoluteCoordinate \<and> 0 \<le> pt_y p \<and> pt_y p \<le> absoluteCoordinate"

definition item_ok :: "limits \<Rightarrow> compiled_action \<Rightarrow> bool" where
  "item_ok li i =
     (case ca_type i of
        ActionMove \<Rightarrow> coord_ok (ca_point i)
      | ActionClick \<Rightarrow> coord_ok (ca_point i) \<and> \<not> bad_buttons (ca_button i)
      | ActionDoubleClick \<Rightarrow> coord_ok (ca_point i) \<and> \<not> bad_buttons (ca_button i)
      | ActionDrag \<Rightarrow>
          2 \<le> length (ca_path i) \<and> length (ca_path i) \<le> 64 \<and> list_all coord_ok (ca_path i) \<and>
          \<not> bad_buttons (ca_button i)
      | ActionScroll \<Rightarrow>
          \<bar>ca_delta_x i\<bar> \<le> 127 \<and> \<bar>ca_delta_y i\<bar> \<le> 127 \<and> \<not> (ca_delta_x i = 0 \<and> ca_delta_y i = 0)
      | ActionKeypress \<Rightarrow> length (ca_keys i) \<le> 6
      | ActionKeyHold \<Rightarrow> length (ca_keys i) \<le> 6 \<and> 0 < ca_duration i \<and> ca_duration i \<le> MaxKeyHoldDuration
      | ActionTypeText \<Rightarrow> 1 \<le> length (ca_text i) \<and> length (ca_text i) \<le> MaxTextRunes
      | ActionWait \<Rightarrow> 0 < ca_duration i \<and> ca_duration i \<le> li_max_wait_duration li
      | ActionScreenshot \<Rightarrow> True
      | ActionOther _ \<Rightarrow> False)"

definition binding_small :: "observation_binding option \<Rightarrow> bool" where
  "binding_small binding =
     (case binding of None \<Rightarrow> True | Some b \<Rightarrow> ob_width b \<le> max_extent \<and> ob_height b \<le> max_extent)"

definition binding_fresh :: "observation_binding option \<Rightarrow> limits \<Rightarrow> u64 \<Rightarrow> time \<Rightarrow> bool" where
  "binding_fresh binding li generation now =
     (case binding of None \<Rightarrow> False
      | Some b \<Rightarrow> ob_generation b = generation \<and> ob_captured_at b \<le> now \<and>
          time_sub now (ob_captured_at b) \<le> li_max_observation_age li)"

lemma bindPoint_ok:
  assumes "bindPoint p binding g now age = Inr q" "binding_small binding"
  shows "coord_ok q"
  using assms scale_range
  by (auto simp: bindPoint_def coord_ok_def binding_small_def split: option.splits if_splits)

lemma bindPoint_fresh:
  assumes "bindPoint p binding g now (li_max_observation_age li) = Inr q"
  shows "binding_fresh binding li g now"
proof -
  obtain b where b: "binding = Some b" "ob_generation b = g" "\<not> time_sub now (ob_captured_at b) < 0"
      "time_sub now (ob_captured_at b) \<le> li_max_observation_age li"
    using assms by (auto simp: bindPoint_def split: option.splits if_splits)
  then show ?thesis by (simp add: binding_fresh_def not_less)
qed

lemma bind_path_ok:
  "bind_path ps binding g now age = Inr qs \<Longrightarrow>
     length qs = length ps \<and> list_all2 (\<lambda>p q. bindPoint p binding g now age = Inr q) ps qs"
  by (induction ps arbitrary: qs) (auto split: sum.splits)

lemma buttonMask_ok: "buttonMask b = Inr m \<Longrightarrow> \<not> bad_buttons m"
  by (auto simp: buttonMask_def bad_buttons_def split: button.splits if_splits)

definition coordinate_action :: "action_type \<Rightarrow> bool" where
  "coordinate_action t \<longleftrightarrow> t \<in> {ActionMove, ActionClick, ActionDoubleClick, ActionDrag}"

text \<open>The cost the compiler charges, without the wrap-around.\<close>

definition item_cost :: "limits \<Rightarrow> compiled_action \<Rightarrow> duration" where
  "item_cost li i =
     (case ca_type i of
        ActionDoubleClick \<Rightarrow> li_double_click_delay li
      | ActionKeypress \<Rightarrow> li_key_hold li + li_inter_key li
      | ActionKeyHold \<Rightarrow> ca_duration i + li_inter_key li
      | ActionTypeText \<Rightarrow> int (length (ca_text i)) * (li_key_hold li + li_inter_key li)
      | ActionWait \<Rightarrow> ca_duration i
      | _ \<Rightarrow> 0)"

lemma int8_id [simp]: "-128 \<le> d \<Longrightarrow> d \<le> 127 \<Longrightarrow> int8 d = d"
  by (simp add: int8_def signed_take_bit_int_eq_self)

lemma compileText_length: "compileText s = Inr ks \<Longrightarrow> 1 \<le> length ks \<and> length ks \<le> 4096"
proof -
  assume "compileText s = Inr ks"
  then have "map us_rune (string_bytes s) = map Some ks" "s \<noteq> []" "length s \<le> 4096"
    by (simp_all add: compileText_iff)
  moreover from this(1) have "length s = length ks" by (metis length_map string_bytes_def)
  ultimately show ?thesis by (cases ks) auto
qed

lemmas compile_splits = sum.splits option.splits if_splits prod.splits

lemma compileActionE:
  assumes "compileAction a li b g now = Inr (i, c)"
  obtains
    (move) p where "ac_type a = ActionMove"
      "bindPoint (ca_point (blank_item a)) b g now (li_max_observation_age li) = Inr p"
      "i = (blank_item a)\<lparr>ca_point := p, ca_observation_expires := binding_expires b li\<rparr>" "c = 0"
  | (click) p m where "ac_type a = ActionClick \<or> ac_type a = ActionDoubleClick"
      "bindPoint (ca_point (blank_item a)) b g now (li_max_observation_age li) = Inr p"
      "buttonMask (ac_button a) = Inr m"
      "i = (blank_item a)\<lparr>ca_point := p, ca_button := m, ca_observation_expires := binding_expires b li\<rparr>"
      "c = (if ac_type a = ActionDoubleClick then li_double_click_delay li else 0)"
  | (drag) path m where "ac_type a = ActionDrag" "2 \<le> length (ac_path a)" "length (ac_path a) \<le> 64"
      "bind_path (ac_path a) b g now (li_max_observation_age li) = Inr path"
      "buttonMask (ac_button a) = Inr m" "i = (blank_item a)\<lparr>ca_path := path, ca_button := m\<rparr>" "c = 0"
  | (scroll) "ac_type a = ActionScroll"
      "\<bar>ac_delta_x a\<bar> \<le> 127" "\<bar>ac_delta_y a\<bar> \<le> 127" "\<not> (ac_delta_x a = 0 \<and> ac_delta_y a = 0)"
      "i = (blank_item a)\<lparr>ca_delta_x := ac_delta_x a, ca_delta_y := ac_delta_y a\<rparr>" "c = 0"
  | (keypress) m ks where "ac_type a = ActionKeypress" "compileKeyCombo (ac_keys a) = Inr (m, ks)"
      "i = (blank_item a)\<lparr>ca_modifier := m, ca_keys := ks\<rparr>" "c = i64 (li_key_hold li + li_inter_key li)"
  | (keyhold) m ks where "ac_type a = ActionKeyHold" "compileKeyCombo (ac_keys a) = Inr (m, ks)"
      "0 < ac_duration a" "ac_duration a \<le> MaxKeyHoldDuration"
      "i = (blank_item a)\<lparr>ca_modifier := m, ca_keys := ks, ca_duration := ac_duration a\<rparr>"
      "c = i64 (ac_duration a + li_inter_key li)"
  | (type_text) ks where "ac_type a = ActionTypeText" "compileText (ac_text a) = Inr ks"
      "i = (blank_item a)\<lparr>ca_text := ks\<rparr>" "c = i64 (int (length ks) * i64 (li_key_hold li + li_inter_key li))"
  | (wait) "ac_type a = ActionWait" "0 < ac_duration a" "ac_duration a \<le> li_max_wait_duration li"
      "i = (blank_item a)\<lparr>ca_duration := ac_duration a\<rparr>" "c = ac_duration a"
  | (screenshot) "ac_type a = ActionScreenshot" "i = blank_item a" "c = 0"
proof (cases "ac_type a")
  case ActionMove
  from assms [unfolded compileAction_def ActionMove, simplified] ActionMove show ?thesis
    by (auto split: sum.splits option.splits intro: move)
next
  case ActionClick
  from assms [unfolded compileAction_def ActionClick, simplified] ActionClick show ?thesis
    by (auto simp: compile_click_def split: sum.splits option.splits intro: click)
next
  case ActionDoubleClick
  from assms [unfolded compileAction_def ActionDoubleClick, simplified] ActionDoubleClick show ?thesis
    by (auto simp: compile_click_def split: sum.splits option.splits intro: click)
next
  case ActionDrag
  from assms [unfolded compileAction_def ActionDrag, simplified] ActionDrag show ?thesis
    by (auto simp: compile_drag_def not_less split: sum.splits option.splits if_splits intro: drag)
next
  case ActionScroll
  from assms [unfolded compileAction_def ActionScroll, simplified] ActionScroll show ?thesis
    by (auto simp: not_less split: option.splits if_splits intro!: scroll)
next
  case ActionKeypress
  from assms [unfolded compileAction_def ActionKeypress, simplified] ActionKeypress show ?thesis
    by (auto simp: compile_keys_def Let_def split: sum.splits option.splits prod.splits intro: keypress)
next
  case ActionKeyHold
  from assms [unfolded compileAction_def ActionKeyHold, simplified] ActionKeyHold show ?thesis
    by (auto simp: compile_keys_def Let_def not_less not_le split: sum.splits option.splits prod.splits if_splits
        intro: keyhold)
next
  case ActionTypeText
  from assms [unfolded compileAction_def ActionTypeText, simplified] ActionTypeText show ?thesis
    by (auto split: sum.splits option.splits intro: type_text)
next
  case ActionWait
  from assms [unfolded compileAction_def ActionWait, simplified] ActionWait show ?thesis
    by (auto simp: not_less not_le split: option.splits if_splits intro: wait)
next
  case ActionScreenshot
  from assms [unfolded compileAction_def ActionScreenshot, simplified] ActionScreenshot show ?thesis
    by (auto split: option.splits intro: screenshot)
next
  case (ActionOther s)
  with assms show ?thesis unfolding compileAction_def ActionOther by (auto split: option.splits)
qed

lemma blank_item_simps [simp]:
  "ca_type (blank_item a) = ac_type a" "ca_duration (blank_item a) = 0" "ca_observation_expires (blank_item a) = 0"
  "ca_text (blank_item a) = []"
  by (simp_all add: blank_item_def)

lemma compileAction_type: "compileAction a li b g now = Inr (i, c) \<Longrightarrow> ca_type i = ac_type a"
  by (erule compileActionE) auto

lemma bind_path_coords:
  "bind_path ps b g now age = Inr qs \<Longrightarrow> binding_small b \<Longrightarrow> length qs = length ps \<and> list_all coord_ok qs"
  by (induction ps arbitrary: qs) (auto split: sum.splits dest: bindPoint_ok)

lemma compileAction_ok:
  assumes "compileAction a li b g now = Inr (i, c)" "binding_small b"
  shows "item_ok li i"
  using assms(1)
proof (cases rule: compileActionE)
  case (click p m)
  then show ?thesis using bindPoint_ok [OF _ assms(2)] buttonMask_ok by (auto simp: item_ok_def)
next
  case (drag path m)
  then show ?thesis using bind_path_coords [OF _ assms(2)] buttonMask_ok by (auto simp: item_ok_def)
next
  case (move p)
  then show ?thesis using bindPoint_ok [OF _ assms(2)] by (simp add: item_ok_def)
qed (auto simp: item_ok_def dest: compileKeyCombo_fits compileText_length)

lemma compileAction_fresh:
  assumes "compileAction a li b g now = Inr (i, c)" "coordinate_action (ac_type a)"
  shows "binding_fresh b li g now"
  using assms(1)
proof (cases rule: compileActionE)
  case (drag path m)
  then show ?thesis using bindPoint_fresh by (cases "ac_path a") (auto split: sum.splits)
qed (use assms(2) bindPoint_fresh in \<open>auto simp: coordinate_action_def\<close>)

lemma compileAction_expires:
  "compileAction a li b g now = Inr (i, c) \<Longrightarrow>
     ca_observation_expires i =
       (if ac_type a \<in> {ActionMove, ActionClick, ActionDoubleClick} then binding_expires b li else 0)"
  by (erule compileActionE) auto

section \<open>The budget of a batch\<close>

text \<open>Limits small enough that no sum of the compiler wraps; the defaults are far below.\<close>

definition limits_small :: "limits \<Rightarrow> bool" where
  "limits_small li \<longleftrightarrow>
     0 \<le> li_key_hold li \<and> li_key_hold li \<le> 2 ^ 40 \<and> 0 \<le> li_inter_key li \<and> li_inter_key li \<le> 2 ^ 40 \<and>
     0 \<le> li_double_click_delay li \<and> li_double_click_delay li \<le> 2 ^ 40 \<and>
     li_max_wait_duration li \<le> 2 ^ 60 \<and> li_max_total_wait li \<le> 2 ^ 60 \<and> li_max_batch_duration li \<le> 2 ^ 60 \<and>
     li_max_observation_age li \<le> 2 ^ 60"

lemma default_limits_small: "limits_small default_limits \<and> validateLimits default_limits = None"
  by code_simp

lemma text_cost:
  fixes n k :: int
  assumes "0 \<le> n" "n \<le> 4096" "0 \<le> k" "k \<le> 2 ^ 41"
  shows "i64 (n * i64 k) = n * k" "0 \<le> n * k" "n * k \<le> 2 ^ 60"
proof -
  have "n * k \<le> 4096 * 2 ^ 41" "0 \<le> n * k" using assms by (intro mult_mono mult_nonneg_nonneg; simp)+
  moreover from this have "i64 (n * k) = n * k" by (intro i64_id; simp)
  ultimately show "i64 (n * i64 k) = n * k" "0 \<le> n * k" "n * k \<le> 2 ^ 60" using assms by simp_all
qed

lemma compileAction_cost:
  assumes "compileAction a li b g now = Inr (i, c)" "limits_small li"
  shows "c = item_cost li i \<and> 0 \<le> c \<and> c \<le> 2 ^ 60"
  using assms(1)
proof (cases rule: compileActionE)
  case (type_text ks)
  then show ?thesis
    using assms(2) compileText_length [of "ac_text a" ks]
      text_cost [of "int (length ks)" "li_key_hold li + li_inter_key li"]
    by (simp add: item_cost_def limits_small_def)
qed (use assms(2) in \<open>auto simp: item_cost_def limits_small_def\<close>)

lemma batch_loop_items:
  "batch_loop li b g now n k acts w e = Inr items \<Longrightarrow>
     list_all2 (\<lambda>a i. \<exists>c. compileAction a li b g now = Inr (i, c)) acts items"
  by (induction li b g now n k acts w e arbitrary: items rule: batch_loop.induct)
    (auto simp: Let_def split: compile_splits)

lemma batch_loop_screenshot:
  "batch_loop li b g now n k acts w e = Inr items \<Longrightarrow> k + length acts = n \<Longrightarrow>
     list_all (\<lambda>a. ac_type a \<noteq> ActionScreenshot) (butlast acts)"
  by (induction li b g now n k acts w e arbitrary: items rule: batch_loop.induct)
    (auto simp: Let_def split: compile_splits)

lemma batch_loop_consE:
  assumes "batch_loop li b g now n k (a # rest) w e = Inr items"
  obtains i c js w' where "compileAction a li b g now = Inr (i, c)" "items = i # js"
    "w' = (if ac_type a = ActionWait then i64 (w + ac_duration a) else w)"
    "ac_type a = ActionWait \<longrightarrow> w' \<le> li_max_total_wait li"
    "i64 (e + c) \<le> li_max_batch_duration li"
    "batch_loop li b g now n (k + 1) rest w' (i64 (e + c)) = Inr js"
  using assms by (auto simp: Let_def not_less split: sum.splits if_splits prod.splits)

lemma batch_loop_cost:
  "batch_loop li b g now n k acts w e = Inr items \<Longrightarrow> limits_small li \<Longrightarrow>
     0 \<le> e \<Longrightarrow> e \<le> li_max_batch_duration li \<Longrightarrow> e + sum_list (map (item_cost li) items) \<le> li_max_batch_duration li"
proof (induction acts arbitrary: k w e items)
  case (Cons a rest)
  obtain i c js w' where c: "compileAction a li b g now = Inr (i, c)" and items: "items = i # js"
    and spent: "i64 (e + c) \<le> li_max_batch_duration li"
    and rec: "batch_loop li b g now n (k + 1) rest w' (i64 (e + c)) = Inr js"
    using batch_loop_consE [OF Cons.prems(1)] by metis
  note cost = compileAction_cost [OF c Cons.prems(2)]
  have e: "i64 (e + c) = e + c" using cost Cons.prems(2-4) by (intro i64_id) (simp_all add: limits_small_def)
  have "i64 (e + c) + sum_list (map (item_cost li) js) \<le> li_max_batch_duration li"
    using Cons.IH [OF rec Cons.prems(2) _ spent] cost e Cons.prems(3) by simp
  then show ?case using items cost e by simp
qed simp

text \<open>The time the wait actions of a batch take.\<close>

definition wait_time :: "compiled_action list \<Rightarrow> duration" where
  "wait_time items = sum_list (map ca_duration (filter (\<lambda>i. ca_type i = ActionWait) items))"

lemma wait_time_simps [simp]:
  "wait_time [] = 0"
  "wait_time (i # js) = (if ca_type i = ActionWait then ca_duration i else 0) + wait_time js"
  by (simp_all add: wait_time_def)

lemma batch_loop_wait:
  "batch_loop li b g now n k acts w e = Inr items \<Longrightarrow> limits_small li \<Longrightarrow>
     0 \<le> w \<Longrightarrow> w \<le> li_max_total_wait li \<Longrightarrow> w + wait_time items \<le> li_max_total_wait li"
proof (induction acts arbitrary: k w e items)
  case (Cons a rest)
  obtain i c js w' where c: "compileAction a li b g now = Inr (i, c)" and items: "items = i # js"
    and w': "w' = (if ac_type a = ActionWait then i64 (w + ac_duration a) else w)"
    and ok: "ac_type a = ActionWait \<longrightarrow> w' \<le> li_max_total_wait li"
    and rec: "batch_loop li b g now n (k + 1) rest w' (i64 (e + c)) = Inr js"
    using batch_loop_consE [OF Cons.prems(1)] by metis
  have d: "ac_type a = ActionWait \<Longrightarrow> ca_duration i = ac_duration a \<and> 0 < ac_duration a \<and> ac_duration a \<le> 2 ^ 60"
    using c Cons.prems(2) by (elim compileActionE) (auto simp: limits_small_def)
  then have sum: "w' = w + (if ac_type a = ActionWait then ca_duration i else 0)"
    using Cons.prems(2-4) by (auto simp: w' limits_small_def)
  have "w' + wait_time js \<le> li_max_total_wait li"
    using Cons.IH [OF rec Cons.prems(2)] ok sum d Cons.prems(3,4) by (cases "ac_type a = ActionWait") auto
  then show ?case using items sum compileAction_type [OF c] by simp
qed simp

section \<open>Facts of a compiled batch\<close>

lemma compileBatch_loop:
  assumes "compileBatch b li g now = Inr items"
  shows "batch_loop li (ba_observation b) g now (length (ba_actions b)) 0 (ba_actions b) 0 0 = Inr items"
    and "ba_actions b \<noteq> []" and "int (length (ba_actions b)) \<le> li_max_actions li"
  using assms by (auto simp: compileBatch_def split: if_splits)

lemma compileBatch_items:
  assumes "compileBatch b li g now = Inr items"
  shows "list_all2 (\<lambda>a i. \<exists>c. compileAction a li (ba_observation b) g now = Inr (i, c)) (ba_actions b) items"
  by (rule batch_loop_items [OF compileBatch_loop(1) [OF assms]])

lemma compileBatch_types: "compileBatch b li g now = Inr items \<Longrightarrow> map ca_type items = map ac_type (ba_actions b)"
proof -
  have "list_all2 (\<lambda>a i. \<exists>c. compileAction a li ob g now = Inr (i, c)) xs ys \<Longrightarrow>
      map ca_type ys = map ac_type xs" for xs ys ob
    by (induction rule: list_all2_induct) (auto dest: compileAction_type)
  then show "compileBatch b li g now = Inr items \<Longrightarrow> ?thesis" by (blast dest: compileBatch_items)
qed

lemma compileBatch_ok:
  assumes "compileBatch b li g now = Inr items" "binding_small (ba_observation b)"
  shows "list_all (item_ok li) items"
  using compileBatch_items [OF assms(1)] compileAction_ok [OF _ assms(2)]
  by (induction rule: list_all2_induct) auto

section \<open>Properties\<close>

text \<open>A batch on a 1920x1080 observation: a drag to the far corner, a chord, a wait and a screenshot.\<close>

definition ex_action :: "action_type \<Rightarrow> action" where
  "ex_action t =
     \<lparr>ac_type = t, ac_x = 0, ac_y = 0, ac_button = ButtonOther [], ac_path = [], ac_delta_x = 0,
      ac_delta_y = 0, ac_keys = [], ac_text = [], ac_duration = 0\<rparr>"

definition ex_binding :: observation_binding where
  "ex_binding =
     \<lparr>ob_id = ''frame'', ob_generation = 7, ob_width = 1920, ob_height = 1080, ob_captured_at = seconds 100\<rparr>"

definition ex_batch :: batch where
  "ex_batch =
     \<lparr>ba_observation = Some ex_binding,
      ba_actions =
        [(ex_action ActionDrag)\<lparr>ac_path := [origin, \<lparr>pt_x = 1919, pt_y = 1079\<rparr>]\<rparr>,
         (ex_action ActionKeypress)\<lparr>ac_keys := [''Ctrl'', '' alt'']\<rparr>,
         (ex_action ActionWait)\<lparr>ac_duration := seconds 5\<rparr>,
         ex_action ActionScreenshot]\<rparr>"

abbreviation (input) ex_items :: "compiled_action list" where
  "ex_items \<equiv>
     [(blank_item (ex_action ActionDrag))
        \<lparr>ca_path := [origin, \<lparr>pt_x = 32767, pt_y = 32767\<rparr>], ca_button := 1\<rparr>,
      (blank_item (ex_action ActionKeypress))\<lparr>ca_modifier := 5\<rparr>,
      (blank_item (ex_action ActionWait))\<lparr>ca_duration := seconds 5\<rparr>,
      blank_item (ex_action ActionScreenshot)]"

lemmas name_simps = normalizeKeyName_def string_bytes_def utf8_head_ascii trim_space_def is_space_def to_upper_def

lemma ex_chord: "compileKeyCombo [''Ctrl'', '' alt''] = Inr (5, [])"
proof -
  have "normalizeKeyName ''Ctrl'' = [67, 84, 82, 76]" "normalizeKeyName '' alt'' = [65, 76, 84]"
    by (simp_all add: name_simps)
  moreover have "lookup_name modifier_usages [67, 84, 82, 76] = Some 1"
    "lookup_name modifier_usages [65, 76, 84] = Some 4"
    by (simp_all add: lookup_name_def modifier_usages_def string_bytes_def)
  ultimately show ?thesis by (simp add: compileKeyCombo_def)
qed

lemmas ex_simps = ex_batch_def ex_action_def ex_binding_def ex_chord default_limits_def blank_item_def
  compileAction_def validate_fields_def compile_drag_def compile_keys_def bindPoint_def time_sub_def
  scale_exact buttonMask_def Let_def

lemma ex_batch_compiles: "compileBatch ex_batch default_limits 7 (seconds 110) = Inr ex_items"
  by (simp add: compileBatch_def ex_simps)

text \<open>
  a pixel of the bound frame becomes the nearest point of the HID range 0..32767: the scaled
  value is in range and off by at most half a step, so the first pixel is 0 and the last 32767.
\<close>

theorem scale_coordinate_nearest:
  assumes "0 \<le> v" and "v < extent" and "extent \<le> 2 ^ 47" and "extent \<noteq> 1"
  shows "scaleCoordinate v extent \<in> {0..32767} \<and>
    \<bar>2 * ((extent - 1) * scaleCoordinate v extent - v * 32767)\<bar> \<le> extent - 1"
  using scale_range [OF assms(1-3)] scale_nearest [OF assms] by simp

theorem scale_coordinate_nearest_witness: "scaleCoordinate 1919 1920 = 32767"
proof -
  have "scaleCoordinate 1919 1920 \<in> {0..32767} \<and>
      \<bar>2 * ((1920 - 1) * scaleCoordinate 1919 1920 - 1919 * 32767)\<bar> \<le> 1920 - 1"
    by (rule scale_coordinate_nearest) simp_all
  then show ?thesis by (simp add: abs_le_iff)
qed

text \<open>
  compilation is complete validation: every item of a compiled batch is one the transport
  accepts (coordinates in 0..32767, a five-bit button mask, at most six keys, deltas within a
  signed byte, a bounded hold), items and actions correspond one to one, their number is within the
  limit, and a screenshot can only be the last.
\<close>

theorem compiled_batch_sound:
  assumes "compileBatch b li g now = Inr items" and "binding_small (ba_observation b)"
  shows "list_all (item_ok li) items \<and> map ca_type items = map ac_type (ba_actions b) \<and>
    1 \<le> length items \<and> int (length items) \<le> li_max_actions li \<and>
    list_all (\<lambda>i. ca_type i \<noteq> ActionScreenshot) (butlast items)"
proof -
  note loop = compileBatch_loop [OF assms(1)]
  have types: "map ca_type items = map ac_type (ba_actions b)" using assms(1) by (rule compileBatch_types)
  then have len: "length items = length (ba_actions b)" by (metis length_map)
  have "map ca_type (butlast items) = map ac_type (butlast (ba_actions b))"
    using arg_cong [OF types, of butlast] by (simp add: map_butlast)
  moreover have "list_all (\<lambda>t. t \<noteq> ActionScreenshot) (map ac_type (butlast (ba_actions b)))"
    using batch_loop_screenshot [OF loop(1)] by (simp add: list.pred_map comp_def)
  ultimately have "list_all (\<lambda>t. t \<noteq> ActionScreenshot) (map ca_type (butlast items))" by simp
  then have "list_all (\<lambda>i. ca_type i \<noteq> ActionScreenshot) (butlast items)" by (simp add: list.pred_map comp_def)
  moreover have "1 \<le> length items" using loop(2) len by (cases "ba_actions b") auto
  ultimately show ?thesis using compileBatch_ok [OF assms] types len loop(3) by simp
qed

theorem compiled_batch_sound_witness: "list_all (item_ok default_limits) ex_items \<and> length ex_items = 4"
proof -
  have "binding_small (ba_observation ex_batch)" by code_simp
  from compiled_batch_sound [OF ex_batch_compiles this] show ?thesis by simp
qed

text \<open>
  the time budget is a real bound: under limits that pass \<open>validateLimits\<close> and are small
  enough for no sum to wrap, the exact cost of a compiled batch is within \<open>MaxBatchDuration\<close>
  and its waits within \<open>MaxTotalWait\<close>.
\<close>

theorem compiled_batch_bounded:
  assumes "compileBatch b li g now = Inr items" and "validateLimits li = None" and "limits_small li"
  shows "sum_list (map (item_cost li) items) \<le> li_max_batch_duration li \<and> wait_time items \<le> li_max_total_wait li"
proof -
  have "0 \<le> li_max_batch_duration li" "0 \<le> li_max_total_wait li"
    using assms(2) by (auto simp: validateLimits_def split: if_splits)
  then show ?thesis
    using batch_loop_cost [OF compileBatch_loop(1) [OF assms(1)] assms(3)]
      batch_loop_wait [OF compileBatch_loop(1) [OF assms(1)] assms(3)] by simp
qed

theorem compiled_batch_bounded_witness:
  "sum_list (map (item_cost default_limits) ex_items) \<le> seconds 15 \<and> wait_time ex_items \<le> seconds 10"
  using compiled_batch_bounded [OF ex_batch_compiles] default_limits_small by (simp add: default_limits_def)

text \<open>
  a coordinate action is compiled only against a fresh frame of the same control generation:
  the binding is present, its generation is the lease's and its age is within the limit.
\<close>

theorem coordinates_need_fresh_observation:
  assumes "compileBatch b li g now = Inr items" and "list_ex (\<lambda>i. coordinate_action (ca_type i)) items"
  shows "binding_fresh (ba_observation b) li g now"
  using compileBatch_items [OF assms(1)] assms(2)
  by (induction rule: list_all2_induct) (auto simp: compileAction_type dest: compileAction_fresh)

theorem coordinates_need_fresh_observation_witness:
  "binding_fresh (ba_observation ex_batch) default_limits 7 (seconds 110)"
  using coordinates_need_fresh_observation [OF ex_batch_compiles] by (simp add: coordinate_action_def ex_action_def)

text \<open>
  which items the executor checks again for staleness: a move or a click carries the instant
  its frame expires; a drag, though its path is bound to the frame too, carries none, so a drag
  after waits is sent however old the frame has become.
\<close>

theorem drag_carries_no_expiry:
  assumes "compileAction a li b g now = Inr (i, c)"
  shows "ca_observation_expires i =
    (if ac_type a \<in> {ActionMove, ActionClick, ActionDoubleClick} then binding_expires b li else 0)"
  using assms by (rule compileAction_expires)

theorem drag_carries_no_expiry_witness:
  "\<exists>i c. compileAction (hd (ba_actions ex_batch)) default_limits (Some ex_binding) 7 (seconds 110) = Inr (i, c) \<and>
     ca_observation_expires i = 0"
proof -
  have "compileAction (hd (ba_actions ex_batch)) default_limits (Some ex_binding) 7 (seconds 110) = Inr (hd ex_items, 0)"
    by (simp add: ex_simps)
  from drag_carries_no_expiry [OF this] this show ?thesis by (auto simp: ex_batch_def ex_action_def)
qed

end
