(* ===== verification/Lease.thy ===== *)
theory Lease
  imports Actions
begin

text \<open>
  \<open>internal/input/lease.go\<close>: the input manager and its single-use lease. A \<open>world\<close> is the
  manager, the log of transport calls and a counter of the points where the outside can be seen:
  every transport call, clock read, wait and every locked section whose outcome a concurrent
  \<open>Fence\<close> can change. The script \<open>env\<close> says, for every such point, whether a
  \<open>Fence\<close> of the current generation ran just before it and what the outside answered; the
  theorems hold for every script. \<open>Fence\<close> only sets the uncertain latch (and cancels the run,
  which the answers of later waits and sends cover), so the sections that do not read the latch
  commute with it and need no point of their own. The mutexes make each locked section one step.
\<close>

section \<open>Data\<close>

datatype reliability = Reliable | Motion

text \<open>The calls to \<open>HIDTransport\<close> and \<open>ScreenshotObserver\<close>, in the order they were made.\<close>

datatype wire =
    SendHID u64 reliability bytes
  | SendWheel u64 int int
  | Flush u64
  | Capture u64

record observation =
  os_id :: string
  os_generation :: u64

abbreviation (input) no_observation :: observation where
  "no_observation \<equiv> \<lparr>os_id = [], os_generation = 0\<rparr>"

record manager =
  mg_observer :: bool
  mg_generation :: u64
  mg_active :: bytes
  mg_active_cancel :: bool
  mg_lease_held :: bool
  mg_uncertain :: bool
  mg_limits :: limits
  mg_cleanup_timeout :: duration
  mg_last_pointer :: point

datatype input_state = StateReady | StateUncertain

text \<open>A lease with its token.\<close>

record lease =
  le_generation :: u64
  le_nonce :: bytes
  le_released :: bool

text \<open>
  The events of a key hold: the instants of the keepalive ticks that are served before it ends, and
  how it ends: the deadline timer (\<open>None\<close>) or the context (\<open>Some\<close> of its cause). The runtime's
  deadline timer bounds the number of ticks, so the schedule is finite.
\<close>

record hold_schedule =
  hs_ticks :: "time list"
  hs_end :: "input_errors option"

record reply =
  er_fence :: bool
  er_error :: "input_errors option"
  er_now :: time
  er_nonce :: bytes
  er_observation :: observation
  er_hold :: hold_schedule

type_synonym env = "nat \<Rightarrow> reply"

record world =
  w_manager :: manager
  w_tick :: nat
  w_wire :: "wire list"

section \<open>Construction\<close>

definition zero_limits :: limits where
  "zero_limits =
     \<lparr>li_key_hold = 0, li_inter_key = 0, li_double_click_delay = 0, li_max_actions = 0,
      li_max_batch_duration = 0, li_max_wait_duration = 0, li_max_total_wait = 0,
      li_max_observation_age = 0\<rparr>"

definition zero_nonce :: bytes where
  "zero_nonce = replicate 16 0"

definition newManager ::
    "bool \<Rightarrow> bool \<Rightarrow> u64 \<Rightarrow> limits \<Rightarrow> duration \<Rightarrow> input_errors + manager" where
  "newManager transport observer generation cfg_limits cfg_cleanup =
     (if \<not> transport \<or> generation = 0 then Inl [ErrManagerConfig]
      else
        (let li = (if cfg_limits = zero_limits then default_limits else cfg_limits)
         in (case validateLimits li of
               Some e \<Rightarrow> Inl e
             | None \<Rightarrow>
                 (let cleanup = (if cfg_cleanup = 0 then seconds 2 else cfg_cleanup)
                  in if cleanup < 0 then Inl [ErrCleanupTimeout]
                     else Inr
                       \<lparr>mg_observer = observer, mg_generation = generation, mg_active = zero_nonce,
                        mg_active_cancel = False, mg_lease_held = False, mg_uncertain = False,
                        mg_limits = li, mg_cleanup_timeout = cleanup, mg_last_pointer = origin\<rparr>))))"

definition manager_state :: "manager \<Rightarrow> input_state" where
  "manager_state m = (if mg_uncertain m then StateUncertain else StateReady)"

section \<open>Fencing\<close>

definition fence :: "u64 \<Rightarrow> manager \<Rightarrow> input_errors option \<times> manager" where
  "fence expected m =
     (if expected \<noteq> mg_generation m then (Some [ErrStaleGeneration], m)
      else (None, m\<lparr>mg_uncertain := True\<rparr>))"

definition mark_uncertain :: "world \<Rightarrow> world" where
  "mark_uncertain w = w\<lparr>w_manager := (w_manager w)\<lparr>mg_uncertain := True\<rparr>\<rparr>"

text \<open>One point where the outside acts: a possible \<open>Fence\<close>, then its answer.\<close>

definition tick :: "env \<Rightarrow> world \<Rightarrow> reply \<times> world" where
  "tick env w =
     (let r = env (w_tick w);
          m = w_manager w
      in (r, w\<lparr>w_tick := Suc (w_tick w),
               w_manager := (if er_fence r then snd (fence (mg_generation m) m) else m)\<rparr>))"

definition transport :: "env \<Rightarrow> wire \<Rightarrow> world \<Rightarrow> input_errors option \<times> world" where
  "transport env call w =
     (let (r, w1) = tick env w in (er_error r, w1\<lparr>w_wire := w_wire w1 @ [call]\<rparr>))"

section \<open>Leases\<close>

definition acquire :: "env \<Rightarrow> u64 \<Rightarrow> world \<Rightarrow> (input_errors + lease) \<times> world" where
  "acquire env expected w0 =
     (let (r, w) = tick env w0; m = w_manager w
      in if mg_uncertain m then (Inl [ErrInputUncertain], w)
         else if expected \<noteq> mg_generation m then (Inl [ErrStaleGeneration], w)
         else if mg_lease_held m then (Inl [ErrLeaseBusy], w)
         else
           (case er_error r of
              Some e \<Rightarrow> (Inl (ErrRandom # e), w)
            | None \<Rightarrow>
                (Inr \<lparr>le_generation = mg_generation m, le_nonce = er_nonce r, le_released = False\<rparr>,
                 w\<lparr>w_manager := m\<lparr>mg_active := er_nonce r, mg_lease_held := True\<rparr>\<rparr>)))"

definition token_error :: "lease \<Rightarrow> manager \<Rightarrow> input_errors option" where
  "token_error l m =
     (if mg_uncertain m then Some [ErrInputUncertain]
      else if \<not> mg_lease_held m \<or> le_generation l \<noteq> mg_generation m \<or> le_nonce l \<noteq> mg_active m
      then Some [ErrStaleGeneration]
      else None)"

definition validateToken :: "env \<Rightarrow> lease \<Rightarrow> world \<Rightarrow> input_errors option \<times> world" where
  "validateToken env l w0 = (let (r, w) = tick env w0 in (token_error l (w_manager w), w))"

definition ensureValid :: "env \<Rightarrow> lease \<Rightarrow> world \<Rightarrow> input_errors option \<times> world" where
  "ensureValid env l w =
     (if le_released l then (Some [ErrLeaseReleased], w) else validateToken env l w)"

definition setActiveCancel :: "env \<Rightarrow> lease \<Rightarrow> world \<Rightarrow> input_errors option \<times> world" where
  "setActiveCancel env l w0 =
     (let (r, w) = tick env w0; m = w_manager w
      in (case token_error l m of
            Some e \<Rightarrow> (Some e, w)
          | None \<Rightarrow> (None, w\<lparr>w_manager := m\<lparr>mg_active_cancel := True\<rparr>\<rparr>)))"

definition rememberPointer :: "point \<Rightarrow> world \<Rightarrow> world" where
  "rememberPointer p w = w\<lparr>w_manager := (w_manager w)\<lparr>mg_last_pointer := p\<rparr>\<rparr>"

definition beginRelease :: "lease \<Rightarrow> world \<Rightarrow> bool \<times> world" where
  "beginRelease l w =
     (let m = w_manager w
      in if \<not> mg_lease_held m \<or> le_nonce l \<noteq> mg_active m then (False, w)
         else (True, w\<lparr>w_manager := m\<lparr>mg_active := zero_nonce, mg_active_cancel := False\<rparr>\<rparr>))"

definition finishRelease :: "world \<Rightarrow> world" where
  "finishRelease w = w\<lparr>w_manager := (w_manager w)\<lparr>mg_lease_held := False\<rparr>\<rparr>"

section \<open>Neutralization\<close>

text \<open>A frame whose error is discarded: nil when there was one.\<close>

definition frame_of :: "input_errors + bytes \<Rightarrow> bytes" where
  "frame_of r = (case r of Inl _ \<Rightarrow> [] | Inr f \<Rightarrow> f)"

definition neutral_frames :: "point \<Rightarrow> bytes list" where
  "neutral_frames p =
     [frame_of (keyboard_report 0 []), frame_of (pointer_report (pt_x p) (pt_y p) 0),
      frame_of (relative_mouse_report 0 0 0)]"

definition neutral_calls :: "u64 \<Rightarrow> point \<Rightarrow> wire list" where
  "neutral_calls g p = map (SendHID g Reliable) (neutral_frames p) @ [Flush g]"

text \<open>Every call is made, whatever the earlier ones answered; the errors are joined.\<close>

fun send_all :: "env \<Rightarrow> wire list \<Rightarrow> world \<Rightarrow> input_errors list \<times> world" where
  "send_all env [] w = ([], w)"
| "send_all env (c # cs) w =
     (let (e, w1) = transport env c w; (es, w2) = send_all env cs w1
      in ((case e of None \<Rightarrow> es | Some x \<Rightarrow> x # es), w2))"

definition neutralize :: "env \<Rightarrow> u64 \<Rightarrow> world \<Rightarrow> input_errors option \<times> world" where
  "neutralize env g w =
     (let (errs, w1) = send_all env (neutral_calls g (mg_last_pointer (w_manager w))) w
      in (if errs = [] then None else Some (ErrNeutralization # concat errs), w1))"

section \<open>Reconciliation and generations\<close>

definition reconcile :: "env \<Rightarrow> u64 \<Rightarrow> world \<Rightarrow> input_errors option \<times> world" where
  "reconcile env expected w =
     (let m = w_manager w
      in if expected \<noteq> mg_generation m then (Some [ErrStaleGeneration], w)
         else if mg_lease_held m then (Some [ErrLeaseBusy], w)
         else
           (case neutralize env expected w of
              (Some e, w1) \<Rightarrow> (Some e, mark_uncertain w1)
            | (None, w1) \<Rightarrow> (None, w1\<lparr>w_manager := (w_manager w1)\<lparr>mg_uncertain := False\<rparr>\<rparr>)))"

definition advanceGeneration :: "env \<Rightarrow> u64 \<Rightarrow> world \<Rightarrow> input_errors option \<times> world" where
  "advanceGeneration env nxt w =
     (let m = w_manager w
      in if mg_lease_held m then (Some [ErrLeaseBusy], w)
         else if nxt \<le> mg_generation m then (Some [ErrStaleGeneration], w)
         else
           (case neutralize env (mg_generation m) w of
              (Some e, w1) \<Rightarrow> (Some e, mark_uncertain w1)
            | (None, w1) \<Rightarrow>
                (None, w1\<lparr>w_manager := (w_manager w1)\<lparr>mg_generation := nxt, mg_uncertain := False\<rparr>\<rparr>)))"

section \<open>Release\<close>

definition release :: "env \<Rightarrow> lease \<Rightarrow> world \<Rightarrow> input_errors option \<times> lease \<times> world" where
  "release env l w =
     (if le_released l then (None, l, w)
      else
        (let l' = l\<lparr>le_released := True\<rparr>
         in (case beginRelease l' w of
               (False, w1) \<Rightarrow> (Some [ErrLeaseReleased], l', w1)
             | (True, w1) \<Rightarrow>
                 (case neutralize env (le_generation l') w1 of
                    (Some e, w2) \<Rightarrow> (Some e, l', finishRelease (mark_uncertain w2))
                  | (None, w2) \<Rightarrow> (None, l', finishRelease w2)))))"

definition abandon :: "lease \<Rightarrow> world \<Rightarrow> lease \<times> world" where
  "abandon l w =
     (if le_released l then (l, w)
      else
        (let l' = l\<lparr>le_released := True\<rparr>
         in (case beginRelease l' w of
               (False, w1) \<Rightarrow> (l', w1)
             | (True, w1) \<Rightarrow> (l', finishRelease w1))))"

section \<open>What a point of the outside can change\<close>

text \<open>
  Between two points of one run the lease fields stay put: only the latch may be set and the last
  pointer move to another valid position.
\<close>

definition stays :: "world \<Rightarrow> world \<Rightarrow> bool" where
  "stays w w' \<longleftrightarrow>
     mg_observer (w_manager w') = mg_observer (w_manager w) \<and>
     mg_generation (w_manager w') = mg_generation (w_manager w) \<and>
     mg_active (w_manager w') = mg_active (w_manager w) \<and>
     mg_lease_held (w_manager w') = mg_lease_held (w_manager w) \<and>
     mg_limits (w_manager w') = mg_limits (w_manager w) \<and>
     (mg_uncertain (w_manager w) \<longrightarrow> mg_uncertain (w_manager w')) \<and>
     (coord_ok (mg_last_pointer (w_manager w)) \<longrightarrow> coord_ok (mg_last_pointer (w_manager w')))"

lemma stays_refl [simp]: "stays w w"
  by (simp add: stays_def)

lemma stays_trans: "stays w w1 \<Longrightarrow> stays w1 w2 \<Longrightarrow> stays w w2"
  by (auto simp: stays_def)

lemma fence_snd [simp]: "snd (fence (mg_generation m) m) = m\<lparr>mg_uncertain := True\<rparr>"
  by (simp add: fence_def)

lemma tick_result: "tick env w = (r, w') \<Longrightarrow>
    r = env (w_tick w) \<and> w_tick w' = Suc (w_tick w) \<and> w_wire w' = w_wire w \<and> stays w w' \<and>
    w_manager w' = (w_manager w)\<lparr>mg_uncertain := (er_fence r \<or> mg_uncertain (w_manager w))\<rparr>"
  by (auto simp: tick_def Let_def stays_def split: if_splits)

lemma transport_result: "transport env c w = (e, w') \<Longrightarrow>
    e = er_error (env (w_tick w)) \<and> w_wire w' = w_wire w @ [c] \<and> stays w w' \<and>
    w_manager w' = (w_manager w)\<lparr>mg_uncertain := (er_fence (env (w_tick w)) \<or> mg_uncertain (w_manager w))\<rparr>"
  by (auto simp: transport_def stays_def split: prod.splits dest!: tick_result)

lemma send_all_result:
  "send_all env cs w = (es, w') \<Longrightarrow>
     w_wire w' = w_wire w @ cs \<and> stays w w' \<and>
     (\<exists>u. w_manager w' = (w_manager w)\<lparr>mg_uncertain := u\<rparr> \<and> (mg_uncertain (w_manager w) \<longrightarrow> u))"
proof (induction cs arbitrary: w es w')
  case Nil
  then show ?case by (auto intro: exI [of _ "mg_uncertain (w_manager w)"])
next
  case (Cons c cs)
  obtain e w1 where t: "transport env c w = (e, w1)" by fastforce
  obtain es' w2 where r: "send_all env cs w1 = (es', w2)" by fastforce
  have "w' = w2" using Cons.prems t r by (auto split: option.splits)
  moreover note transport_result [OF t] Cons.IH [OF r]
  ultimately show ?case by (auto intro: stays_trans)
qed

lemma neutralize_result:
  assumes "neutralize env g w = (e, w')"
  shows "w_wire w' = w_wire w @ neutral_calls g (mg_last_pointer (w_manager w))" "stays w w'"
    "\<exists>u. w_manager w' = (w_manager w)\<lparr>mg_uncertain := u\<rparr> \<and> (mg_uncertain (w_manager w) \<longrightarrow> u)"
  using assms send_all_result by (auto simp: neutralize_def split: prod.splits)

text \<open>At a valid pointer position the neutral frames are all there: none of the discarded errors occurs.\<close>

lemma neutral_frames_valid:
  "coord_ok p \<Longrightarrow> neutral_frames p =
     [[2, 0, 0, 0, 0, 0, 0, 0],
      3 # put_be32 (word_of_int (pt_x p)) @ put_be32 (word_of_int (pt_y p)) @ [0],
      [6, 0, 0, 0]]"
  by (simp add: neutral_frames_def frame_of_def keyboard_report_def pointer_report_def coord_ok_def
      relative_mouse_report_def numeral_eq_Suc)

section \<open>Release\<close>

text \<open>The manager still holds the lease \<open>l\<close>, latch aside.\<close>

definition holds :: "lease \<Rightarrow> manager \<Rightarrow> bool" where
  "holds l m \<longleftrightarrow> \<not> le_released l \<and> mg_lease_held m \<and> le_generation l = mg_generation m \<and> le_nonce l = mg_active m"

lemma holds_stays: "holds l (w_manager w) \<Longrightarrow> stays w w' \<Longrightarrow> holds l (w_manager w')"
  by (simp add: holds_def stays_def)

lemma token_error_None: "token_error l m = None \<longleftrightarrow> \<not> mg_uncertain m \<and> mg_lease_held m \<and>
    le_generation l = mg_generation m \<and> le_nonce l = mg_active m"
  by (simp add: token_error_def)

lemma ensureValid_result:
  assumes "ensureValid env l w = (e, w')"
  shows "w_wire w' = w_wire w" "stays w w'" "e = None \<Longrightarrow> holds l (w_manager w') \<and> \<not> mg_uncertain (w_manager w')"
    "e = None \<Longrightarrow> holds l (w_manager w)"
  using assms
  by (auto simp: ensureValid_def validateToken_def holds_def token_error_None stays_def
      split: prod.splits if_splits dest!: tick_result)

text \<open>Releasing a held lease always makes the four neutral calls and always frees the lease.\<close>

lemma release_result:
  assumes "release env l w = (e, l', w')" "holds l (w_manager w)"
  shows "w_wire w' = w_wire w @ neutral_calls (le_generation l) (mg_last_pointer (w_manager w))"
    "\<not> mg_lease_held (w_manager w')" "le_released l'"
    "mg_generation (w_manager w') = mg_generation (w_manager w)"
    "mg_last_pointer (w_manager w') = mg_last_pointer (w_manager w)"
    "mg_limits (w_manager w') = mg_limits (w_manager w)"
    "mg_uncertain (w_manager w) \<Longrightarrow> mg_uncertain (w_manager w')"
    "e \<noteq> None \<Longrightarrow> mg_uncertain (w_manager w')"
proof -
  define w1 where "w1 = w\<lparr>w_manager := (w_manager w)\<lparr>mg_active := zero_nonce, mg_active_cancel := False\<rparr>\<rparr>"
  obtain e2 w2 where n: "neutralize env (le_generation l) w1 = (e2, w2)" by fastforce
  note nr = neutralize_result [OF n]
  have b: "beginRelease (l\<lparr>le_released := True\<rparr>) w = (True, w1)"
    using assms(2) by (simp add: beginRelease_def holds_def w1_def)
  have r: "e = e2" "l' = l\<lparr>le_released := True\<rparr>"
      "w' = finishRelease (if e2 = None then w2 else mark_uncertain w2)"
    using assms b n by (auto simp: release_def holds_def Let_def split: option.splits)
  show "w_wire w' = w_wire w @ neutral_calls (le_generation l) (mg_last_pointer (w_manager w))"
    "\<not> mg_lease_held (w_manager w')" "le_released l'"
    "mg_generation (w_manager w') = mg_generation (w_manager w)"
    "mg_last_pointer (w_manager w') = mg_last_pointer (w_manager w)"
    "mg_limits (w_manager w') = mg_limits (w_manager w)"
    "mg_uncertain (w_manager w) \<Longrightarrow> mg_uncertain (w_manager w')"
    "e \<noteq> None \<Longrightarrow> mg_uncertain (w_manager w')"
    using nr r by (auto simp: w1_def finishRelease_def mark_uncertain_def)
qed

lemma abandon_result:
  assumes "abandon l w = (l', w')" "holds l (w_manager w)"
  shows "w_wire w' = w_wire w" "\<not> mg_lease_held (w_manager w')" "le_released l'"
    "mg_generation (w_manager w') = mg_generation (w_manager w)"
    "mg_last_pointer (w_manager w') = mg_last_pointer (w_manager w)"
    "mg_uncertain (w_manager w') = mg_uncertain (w_manager w)"
    "mg_limits (w_manager w') = mg_limits (w_manager w)"
  using assms by (auto simp: abandon_def beginRelease_def finishRelease_def holds_def)

lemma acquire_result:
  assumes "acquire env g w = (Inr l, w')"
  shows "holds l (w_manager w')" "le_generation l = g" "\<not> mg_uncertain (w_manager w')"
    "w_wire w' = w_wire w" "mg_generation (w_manager w') = mg_generation (w_manager w)"
    "mg_last_pointer (w_manager w') = mg_last_pointer (w_manager w)"
    "mg_limits (w_manager w') = mg_limits (w_manager w)"
    "\<not> mg_lease_held (w_manager w)" "\<not> mg_uncertain (w_manager w)"
  using assms
  by (auto simp: acquire_def holds_def Let_def stays_def split: prod.splits if_splits option.splits dest!: tick_result)

lemma acquire_error:
  "acquire env g w = (Inl e, w') \<Longrightarrow> w_wire w' = w_wire w \<and> stays w w'"
  by (auto simp: acquire_def Let_def split: prod.splits if_splits option.splits dest!: tick_result)

end
