(* ===== verification/Executor.thy ===== *)
theory Executor
  imports Lease "HOL-Library.Sublist"
begin

text \<open>
  \<open>internal/input/executor.go\<close>: executing a compiled batch under a lease. A result of the source,
  \<open>(ActionStatus, Observation, error)\<close>, is a triple with the world after it; \<open>and_then\<close> is
  the early return \<open>if status, _, err := X; err != nil\<close>. \<open>run_actions\<close> is the lease's
  \<open>RunActions\<close> with its deferred release, \<open>manager_run_actions\<close> the manager's. A panic of
  the transport, which the deferred function re-raises after the release, is not modelled.
\<close>

section \<open>Receipts\<close>

datatype action_status = ActionNotStarted | ActionSendStarted | ActionAccepted | ActionFailed | ActionAmbiguous

text \<open>\<open>BatchNone\<close> is the empty string of a zero receipt.\<close>

datatype batch_status = BatchNone | BatchAccepted | BatchPartial | BatchFailed | BatchAmbiguous

datatype error_class =
    ClassCancelled | ClassDeadline | ClassGeneration | ClassCapability | ClassStale | ClassOther input_errors

record action_receipt =
  ar_index :: nat
  ar_type :: action_type
  ar_status :: action_status
  ar_error :: "error_class option"

record batch_receipt =
  br_generation :: u64
  br_status :: batch_status
  br_actions :: "action_receipt list"
  br_observation :: observation
  br_neutralized :: bool
  br_cleanup_failure :: bool

definition zero_receipt :: batch_receipt where
  "zero_receipt =
     \<lparr>br_generation = 0, br_status = BatchNone, br_actions = [], br_observation = no_observation,
      br_neutralized = False, br_cleanup_failure = False\<rparr>"

definition classifyActionError :: "input_errors \<Rightarrow> error_class" where
  "classifyActionError e =
     (if errors_is e ErrContextCanceled then ClassCancelled
      else if errors_is e ErrDeadlineExceeded then ClassDeadline
      else if errors_is e ErrStaleGeneration then ClassGeneration
      else if errors_is e ErrObservationMissing then ClassCapability
      else if errors_is e ErrObservationStale then ClassStale
      else ClassOther e)"

section \<open>Sending\<close>

type_synonym result = "action_status \<times> observation \<times> input_errors option"

definition and_then :: "result \<times> world \<Rightarrow> (world \<Rightarrow> result \<times> world) \<Rightarrow> result \<times> world" where
  "and_then x k =
     (case x of
        ((status, _, Some e), w) \<Rightarrow> ((status, no_observation, Some e), w)
      | ((_, _, None), w) \<Rightarrow> k w)"

text \<open>\<open>if err := X; err != nil { return status, Observation{}, err }\<close>.\<close>

definition or_fail :: "input_errors option \<times> world \<Rightarrow> action_status \<Rightarrow> (world \<Rightarrow> result \<times> world) \<Rightarrow> result \<times> world" where
  "or_fail x status k =
     (case x of
        (Some e, w) \<Rightarrow> ((status, no_observation, Some e), w)
      | (None, w) \<Rightarrow> k w)"

abbreviation (input) accept :: "world \<Rightarrow> result \<times> world" where
  "accept w \<equiv> ((ActionAccepted, no_observation, None), w)"

definition waitContext :: "env \<Rightarrow> duration \<Rightarrow> world \<Rightarrow> input_errors option \<times> world" where
  "waitContext env d w = (if d = 0 then (None, w) else (let (r, w1) = tick env w in (er_error r, w1)))"

definition send_hid :: "env \<Rightarrow> lease \<Rightarrow> reliability \<Rightarrow> bytes \<Rightarrow> world \<Rightarrow> input_errors option \<times> world" where
  "send_hid env l rel frame w =
     (case ensureValid env l w of
        (Some e, w1) \<Rightarrow> (Some e, w1)
      | (None, w1) \<Rightarrow> transport env (SendHID (le_generation l) rel frame) w1)"

definition sendPointer ::
    "env \<Rightarrow> lease \<Rightarrow> point \<Rightarrow> button_mask \<Rightarrow> reliability \<Rightarrow> world \<Rightarrow> result \<times> world" where
  "sendPointer env l p buttons rel w =
     (case pointer_report (pt_x p) (pt_y p) buttons of
        Inl e \<Rightarrow> ((ActionFailed, no_observation, Some e), w)
      | Inr frame \<Rightarrow>
          or_fail (send_hid env l rel frame w) ActionAmbiguous
            (\<lambda>w1. accept (rememberPointer p w1)))"

definition keypress :: "env \<Rightarrow> lease \<Rightarrow> u8 \<Rightarrow> bytes \<Rightarrow> world \<Rightarrow> result \<times> world" where
  "keypress env l modifier keys w =
     (case keyboard_report modifier keys of
        Inl e \<Rightarrow> ((ActionFailed, no_observation, Some e), w)
      | Inr pressed \<Rightarrow>
          (let li = mg_limits (w_manager w);
               released = frame_of (keyboard_report 0 [])
           in or_fail (send_hid env l Reliable pressed w) ActionAmbiguous
                (\<lambda>w. or_fail (waitContext env (li_key_hold li) w) ActionAmbiguous
                (\<lambda>w. or_fail (send_hid env l Reliable released w) ActionAmbiguous
                (\<lambda>w. or_fail (waitContext env (li_inter_key li) w) ActionAmbiguous
                (\<lambda>w. accept w))))))"

definition click :: "env \<Rightarrow> lease \<Rightarrow> point \<Rightarrow> button_mask \<Rightarrow> world \<Rightarrow> result \<times> world" where
  "click env l p button w =
     and_then (sendPointer env l p 0 Reliable w)
       (\<lambda>w. and_then (sendPointer env l p button Reliable w)
       (\<lambda>w. sendPointer env l p 0 Reliable w))"

fun drag_points :: "env \<Rightarrow> lease \<Rightarrow> button_mask \<Rightarrow> point list \<Rightarrow> world \<Rightarrow> result \<times> world" where
  "drag_points env l button [] w = accept w"
| "drag_points env l button (p # ps) w =
     and_then (sendPointer env l p button Reliable w) (\<lambda>w. drag_points env l button ps w)"

text \<open>The compiler only lets paths of 2 to 64 points through; the source indexes \<open>path[0]\<close>.\<close>

definition drag :: "env \<Rightarrow> lease \<Rightarrow> point list \<Rightarrow> button_mask \<Rightarrow> world \<Rightarrow> result \<times> world" where
  "drag env l path button w =
     and_then (sendPointer env l (hd path) 0 Reliable w)
       (\<lambda>w. and_then (drag_points env l button path w)
       (\<lambda>w. sendPointer env l (last path) 0 Reliable w))"

text \<open>The loop of \<open>keyhold\<close> over the schedule of its events.\<close>

fun hold_loop :: "env \<Rightarrow> lease \<Rightarrow> time \<Rightarrow> time list \<Rightarrow> input_errors option \<Rightarrow> world \<Rightarrow> result \<times> world" where
  "hold_loop env l previous [] ending w =
     (case ending of
        Some cause \<Rightarrow> ((ActionAmbiguous, no_observation, Some cause), w)
      | None \<Rightarrow>
          or_fail (send_hid env l Reliable (frame_of (keyboard_report 0 [])) w) ActionAmbiguous (\<lambda>w. accept w))"
| "hold_loop env l previous (now # ticks) ending w =
     (if time_sub now previous > millis 100
      then ((ActionAmbiguous, no_observation, Some [ErrKeepaliveMissed]), w)
      else
        or_fail (send_hid env l Reliable [0x09] w) ActionAmbiguous
          (\<lambda>w. hold_loop env l now ticks ending w))"

definition keyhold :: "env \<Rightarrow> lease \<Rightarrow> u8 \<Rightarrow> bytes \<Rightarrow> duration \<Rightarrow> world \<Rightarrow> result \<times> world" where
  "keyhold env l modifier keys duration w =
     (case keyboard_report modifier keys of
        Inl e \<Rightarrow> ((ActionFailed, no_observation, Some e), w)
      | Inr pressed \<Rightarrow>
          or_fail (send_hid env l Reliable pressed w) ActionAmbiguous
            (\<lambda>w. or_fail (transport env (Flush (le_generation l)) w) ActionAmbiguous
            (\<lambda>w. let (r, w1) = tick env w
                 in hold_loop env l (er_now r) (hs_ticks (er_hold r)) (hs_end (er_hold r)) w1)))"

fun type_strokes :: "env \<Rightarrow> lease \<Rightarrow> keystroke list \<Rightarrow> world \<Rightarrow> result \<times> world" where
  "type_strokes env l [] w = accept w"
| "type_strokes env l (k # ks) w =
     and_then (keypress env l (ks_modifier k) [ks_key k] w) (\<lambda>w. type_strokes env l ks w)"

section \<open>One action\<close>

definition observation_expired :: "env \<Rightarrow> compiled_action \<Rightarrow> world \<Rightarrow> bool \<times> world" where
  "observation_expired env a w =
     (if ca_observation_expires a = 0 then (False, w)
      else (let (r, w1) = tick env w in (er_now r > ca_observation_expires a, w1)))"

definition capture_screenshot :: "env \<Rightarrow> lease \<Rightarrow> world \<Rightarrow> result \<times> world" where
  "capture_screenshot env l w =
     (if \<not> mg_observer (w_manager w) then ((ActionFailed, no_observation, Some [ErrObservationMissing]), w)
      else
        (let (r, w0) = tick env w; w1 = w0\<lparr>w_wire := w_wire w0 @ [Capture (le_generation l)]\<rparr>;
             observation = er_observation r
         in (case er_error r of
               Some e \<Rightarrow> ((ActionFailed, no_observation, Some e), w1)
             | None \<Rightarrow>
                 if os_id observation = [] \<or> os_generation observation \<noteq> le_generation l
                 then ((ActionFailed, no_observation, Some [ErrStaleGeneration]), w1)
                 else ((ActionAccepted, observation, None), w1))))"

definition perform :: "env \<Rightarrow> lease \<Rightarrow> compiled_action \<Rightarrow> world \<Rightarrow> result \<times> world" where
  "perform env l a w =
     (case ca_type a of
        ActionMove \<Rightarrow> sendPointer env l (ca_point a) 0 Motion w
      | ActionClick \<Rightarrow> click env l (ca_point a) (ca_button a) w
      | ActionDoubleClick \<Rightarrow>
          and_then (click env l (ca_point a) (ca_button a) w)
            (\<lambda>w. or_fail (waitContext env (li_double_click_delay (mg_limits (w_manager w))) w) ActionAmbiguous
            (\<lambda>w. click env l (ca_point a) (ca_button a) w))
      | ActionDrag \<Rightarrow> drag env l (ca_path a) (ca_button a) w
      | ActionScroll \<Rightarrow>
          or_fail (ensureValid env l w) ActionFailed
            (\<lambda>w. or_fail (transport env (SendWheel (le_generation l) (ca_delta_y a) (ca_delta_x a)) w) ActionAmbiguous
            (\<lambda>w. accept w))
      | ActionKeyHold \<Rightarrow> keyhold env l (ca_modifier a) (ca_keys a) (ca_duration a) w
      | ActionKeypress \<Rightarrow> keypress env l (ca_modifier a) (ca_keys a) w
      | ActionTypeText \<Rightarrow> type_strokes env l (ca_text a) w
      | ActionWait \<Rightarrow> or_fail (waitContext env (ca_duration a) w) ActionFailed (\<lambda>w. accept w)
      | ActionScreenshot \<Rightarrow> capture_screenshot env l w
      | ActionOther _ \<Rightarrow> ((ActionFailed, no_observation, Some [ErrInvalidAction]), w))"

definition execute_action :: "env \<Rightarrow> lease \<Rightarrow> compiled_action \<Rightarrow> world \<Rightarrow> result \<times> world" where
  "execute_action env l a w =
     or_fail (ensureValid env l w) ActionFailed
       (\<lambda>w. case observation_expired env a w of
              (True, w1) \<Rightarrow> ((ActionFailed, no_observation, Some [ErrObservationStale]), w1)
            | (False, w1) \<Rightarrow> perform env l a w1)"

section \<open>A batch\<close>

fun initial_receipts :: "nat \<Rightarrow> compiled_action list \<Rightarrow> action_receipt list" where
  "initial_receipts i [] = []"
| "initial_receipts i (a # as) =
     \<lparr>ar_index = i, ar_type = ca_type a, ar_status = ActionNotStarted, ar_error = None\<rparr> # initial_receipts (i + 1) as"

definition set_status :: "nat \<Rightarrow> action_status \<Rightarrow> batch_receipt \<Rightarrow> batch_receipt" where
  "set_status i s r = r\<lparr>br_actions := (br_actions r)[i := (br_actions r ! i)\<lparr>ar_status := s\<rparr>]\<rparr>"

definition set_error :: "nat \<Rightarrow> error_class \<Rightarrow> batch_receipt \<Rightarrow> batch_receipt" where
  "set_error i c r = r\<lparr>br_actions := (br_actions r)[i := (br_actions r ! i)\<lparr>ar_error := Some c\<rparr>]\<rparr>"

definition reset_after :: "nat \<Rightarrow> batch_receipt \<Rightarrow> batch_receipt" where
  "reset_after i r =
     r\<lparr>br_actions := take (i + 1) (br_actions r) @
         map (\<lambda>x. x\<lparr>ar_status := ActionNotStarted\<rparr>) (drop (i + 1) (br_actions r))\<rparr>"

definition failed_status :: "action_status \<Rightarrow> nat \<Rightarrow> batch_status" where
  "failed_status s i =
     (if s = ActionAmbiguous then BatchAmbiguous else if i = 0 then BatchFailed else BatchPartial)"

fun run_loop ::
    "env \<Rightarrow> lease \<Rightarrow> nat \<Rightarrow> compiled_action list \<Rightarrow> batch_receipt \<Rightarrow> world \<Rightarrow>
       batch_receipt \<times> input_errors option \<times> world" where
  "run_loop env l i [] receipt w = (receipt, None, w)"
| "run_loop env l i (a # as) receipt w =
     (case execute_action env l a w of
        ((status, observation, err), w1) \<Rightarrow>
          (let r1 = set_status i status receipt;
               r2 = (if os_id observation \<noteq> [] then r1\<lparr>br_observation := observation\<rparr> else r1)
           in (case err of
                 None \<Rightarrow> run_loop env l (i + 1) as r2 w1
               | Some e \<Rightarrow>
                   ((reset_after i (set_error i (classifyActionError e) r2))\<lparr>br_status := failed_status status i\<rparr>,
                    Some e, w1))))"

text \<open>The deferred function: the release, and what it writes into the named results.\<close>

definition finish_run ::
    "env \<Rightarrow> lease \<Rightarrow> batch_receipt \<Rightarrow> input_errors option \<Rightarrow> world \<Rightarrow>
       batch_receipt \<times> input_errors option \<times> lease \<times> world" where
  "finish_run env l receipt err w =
     (case release env l w of
        (None, l1, w1) \<Rightarrow> (receipt\<lparr>br_neutralized := True\<rparr>, err, l1, w1)
      | (Some e, l1, w1) \<Rightarrow>
          (receipt\<lparr>br_cleanup_failure := True, br_status := BatchAmbiguous\<rparr>, errors_join err (Some e), l1, w1))"

definition run_actions ::
    "env \<Rightarrow> lease \<Rightarrow> batch \<Rightarrow> world \<Rightarrow> batch_receipt \<times> input_errors option \<times> lease \<times> world" where
  "run_actions env l b w0 =
     (case ensureValid env l w0 of
        (Some e, w) \<Rightarrow> (zero_receipt, Some e, l, w)
      | (None, w1) \<Rightarrow>
          (let (r, w2) = tick env w1
           in (case compileBatch b (mg_limits (w_manager w2)) (le_generation l) (er_now r) of
                 Inl e \<Rightarrow> (let (l1, w3) = abandon l w2 in (zero_receipt, Some e, l1, w3))
               | Inr items \<Rightarrow>
                   (let receipt = zero_receipt\<lparr>br_generation := le_generation l, br_status := BatchAccepted,
                                               br_actions := initial_receipts 0 items\<rparr>
                    in (case setActiveCancel env l w2 of
                          (Some e, w3) \<Rightarrow> finish_run env l receipt (Some e) w3
                        | (None, w3) \<Rightarrow>
                            (case run_loop env l 0 items receipt w3 of
                               (receipt1, err, w4) \<Rightarrow> finish_run env l receipt1 err w4))))))"

definition manager_run_actions ::
    "env \<Rightarrow> u64 \<Rightarrow> batch \<Rightarrow> world \<Rightarrow> batch_receipt \<times> input_errors option \<times> world" where
  "manager_run_actions env expected b w =
     (case acquire env expected w of
        (Inl e, w1) \<Rightarrow> (zero_receipt, Some e, w1)
      | (Inr l, w1) \<Rightarrow> (case run_actions env l b w1 of (receipt, err, _, w2) \<Rightarrow> (receipt, err, w2)))"

section \<open>The calls an action asks for\<close>

text \<open>
  The specification: the transport calls of each action, in order, at generation \<open>g\<close>.
  Keepalives of a key hold carry no state and are left out.
\<close>

definition is_keepalive :: "wire \<Rightarrow> bool" where
  "is_keepalive c = (case c of SendHID _ _ f \<Rightarrow> f = [0x09] | _ \<Rightarrow> False)"

definition pointer_call :: "u64 \<Rightarrow> reliability \<Rightarrow> point \<Rightarrow> button_mask \<Rightarrow> wire" where
  "pointer_call g rel p b = SendHID g rel (frame_of (pointer_report (pt_x p) (pt_y p) b))"

definition keyboard_call :: "u64 \<Rightarrow> u8 \<Rightarrow> bytes \<Rightarrow> wire" where
  "keyboard_call g m ks = SendHID g Reliable (frame_of (keyboard_report m ks))"

definition click_calls :: "u64 \<Rightarrow> point \<Rightarrow> button_mask \<Rightarrow> wire list" where
  "click_calls g p b = [pointer_call g Reliable p 0, pointer_call g Reliable p b, pointer_call g Reliable p 0]"

definition key_calls :: "u64 \<Rightarrow> u8 \<Rightarrow> bytes \<Rightarrow> wire list" where
  "key_calls g m ks = [keyboard_call g m ks, keyboard_call g 0 []]"

definition action_calls :: "u64 \<Rightarrow> compiled_action \<Rightarrow> wire list" where
  "action_calls g a =
     (case ca_type a of
        ActionMove \<Rightarrow> [pointer_call g Motion (ca_point a) 0]
      | ActionClick \<Rightarrow> click_calls g (ca_point a) (ca_button a)
      | ActionDoubleClick \<Rightarrow> click_calls g (ca_point a) (ca_button a) @ click_calls g (ca_point a) (ca_button a)
      | ActionDrag \<Rightarrow>
          pointer_call g Reliable (hd (ca_path a)) 0 #
          map (\<lambda>p. pointer_call g Reliable p (ca_button a)) (ca_path a) @
          [pointer_call g Reliable (last (ca_path a)) 0]
      | ActionScroll \<Rightarrow> [SendWheel g (ca_delta_y a) (ca_delta_x a)]
      | ActionKeypress \<Rightarrow> key_calls g (ca_modifier a) (ca_keys a)
      | ActionKeyHold \<Rightarrow> [keyboard_call g (ca_modifier a) (ca_keys a), Flush g, keyboard_call g 0 []]
      | ActionTypeText \<Rightarrow> concat (map (\<lambda>k. key_calls g (ks_modifier k) [ks_key k]) (ca_text a))
      | ActionWait \<Rightarrow> []
      | ActionScreenshot \<Rightarrow> [Capture g]
      | ActionOther _ \<Rightarrow> [])"

definition strip :: "wire list \<Rightarrow> wire list" where
  "strip cs = filter (\<lambda>c. \<not> is_keepalive c) cs"

definition batch_calls :: "u64 \<Rightarrow> compiled_action list \<Rightarrow> wire list" where
  "batch_calls g items = concat (map (action_calls g) items)"

lemma strip_simps [simp]: "strip [] = []" "strip (a @ b) = strip a @ strip b"
  "strip [SendHID g rel [9]] = []" "strip [Flush g] = [Flush g]" "strip [Capture g] = [Capture g]"
  "strip [SendWheel g x y] = [SendWheel g x y]"
  by (simp_all add: strip_def is_keepalive_def)

section \<open>Steps and what they send\<close>

text \<open>
  \<open>sends ideal w (e, w')\<close>: the step from \<open>w\<close> to \<open>w'\<close> made calls that are, keepalives
  aside, a prefix of \<open>ideal\<close>, all of them when it returns no error, and kept the lease.
\<close>

definition sends :: "wire list \<Rightarrow> world \<Rightarrow> input_errors option \<times> world \<Rightarrow> bool" where
  "sends ideal w x \<longleftrightarrow>
     (\<exists>sent. w_wire (snd x) = w_wire w @ sent \<and> prefix (strip sent) ideal \<and>
       (fst x = None \<longrightarrow> strip sent = ideal)) \<and> stays w (snd x)"

definition outcome :: "result \<times> world \<Rightarrow> input_errors option \<times> world" where
  "outcome x = (snd (snd (fst x)), snd x)"

lemma outcome_simps [simp]: "outcome ((s, ob, e), w) = (e, w)"
  by (simp add: outcome_def)

lemma sends_none: "sends [] w (e, w)"
  by (simp add: sends_def)

lemma sends_error: "sends ideal w (Some e, w)"
  by (simp add: sends_def)

lemma sends_silent: "w_wire w1 = w_wire w \<Longrightarrow> stays w w1 \<Longrightarrow> sends [] w (e, w1)"
  by (auto simp: sends_def)

lemma sends_then:
  assumes "sends i1 w (e, w1)" "e = None \<Longrightarrow> sends i2 w1 x" "e \<noteq> None \<Longrightarrow> x = (e, w1)"
  shows "sends (i1 @ i2) w x"
proof (cases e)
  case None
  then obtain s1 s2 where "w_wire w1 = w_wire w @ s1" "strip s1 = i1" "w_wire (snd x) = w_wire w1 @ s2"
      "prefix (strip s2) i2" "fst x = None \<longrightarrow> strip s2 = i2" "stays w w1" "stays w1 (snd x)"
    using assms by (auto simp: sends_def)
  then show ?thesis
    unfolding sends_def by (intro conjI exI [of _ "s1 @ s2"]) (auto intro: stays_trans)
next
  case (Some y)
  then show ?thesis using assms by (auto simp: sends_def intro: prefix_prefix)
qed

lemma sends_or_fail:
  assumes "sends i1 w x" "\<And>w1. x = (None, w1) \<Longrightarrow> sends i2 w1 (outcome (k w1))"
  shows "sends (i1 @ i2) w (outcome (or_fail x s k))"
proof -
  obtain e w1 where x: "x = (e, w1)" by fastforce
  show ?thesis
    by (rule sends_then [of _ _ e w1]) (use assms x in \<open>auto simp: or_fail_def split: option.splits\<close>)
qed

lemma sends_and_then:
  assumes "sends i1 w (outcome x)" "\<And>w1. outcome x = (None, w1) \<Longrightarrow> sends i2 w1 (outcome (k w1))"
  shows "sends (i1 @ i2) w (outcome (and_then x k))"
proof -
  obtain s ob e w1 where x: "x = ((s, ob, e), w1)" by (cases x) auto
  show ?thesis
    by (rule sends_then [of _ _ e w1]) (use assms x in \<open>auto simp: and_then_def split: option.splits\<close>)
qed

lemma sends_wait: "sends [] w (waitContext env d w)"
  by (auto simp: waitContext_def sends_none split: prod.splits intro!: sends_silent dest!: tick_result)

lemma sends_transport: "sends (strip [c]) w (transport env c w)"
proof -
  obtain e w1 where t: "transport env c w = (e, w1)" by fastforce
  then show ?thesis using transport_result [OF t] by (auto simp: sends_def intro: exI [of _ "[c]"])
qed

lemma sends_valid: "sends [] w (ensureValid env l w)"
proof -
  obtain e w1 where v: "ensureValid env l w = (e, w1)" by fastforce
  then show ?thesis using ensureValid_result(1,2) [OF v] by (auto intro: sends_silent)
qed

lemma sends_hid: "sends (strip [SendHID (le_generation l) rel f]) w (send_hid env l rel f w)"
proof -
  obtain e w1 where v: "ensureValid env l w = (e, w1)" by fastforce
  have "sends ([] @ strip [SendHID (le_generation l) rel f]) w (send_hid env l rel f w)"
    by (rule sends_then [of _ _ e w1])
      (use v sends_valid [of w env l] sends_transport in \<open>auto simp: send_hid_def split: option.splits\<close>)
  then show ?thesis by simp
qed

lemma strip_pointer [simp]:
  "pointer_report x y b = Inr f \<Longrightarrow> strip [SendHID g rel f] = [SendHID g rel f]"
  by (auto simp: strip_def is_keepalive_def pointer_report_ok)

lemma strip_keyboard [simp]:
  "keyboard_report m ks = Inr f \<Longrightarrow> strip [SendHID g rel f] = [SendHID g rel f]"
  by (auto simp: strip_def is_keepalive_def keyboard_report_ok)

lemma stays_rememberPointer: "coord_ok p \<Longrightarrow> stays w (rememberPointer p w)"
  by (simp add: stays_def rememberPointer_def)

lemma pointer_report_coord: "pointer_report (pt_x p) (pt_y p) b = Inr f \<Longrightarrow> coord_ok p"
  by (simp add: pointer_report_ok coord_ok_def)

lemma sends_pointer:
  "sends [pointer_call (le_generation l) rel p b] w (outcome (sendPointer env l p b rel w))"
proof (cases "pointer_report (pt_x p) (pt_y p) b")
  case (Inl e)
  then show ?thesis by (simp add: sendPointer_def sends_error)
next
  case (Inr f)
  have remember: "sends [] w1 (outcome (accept (rememberPointer p w1)))" for w1
    using stays_rememberPointer [OF pointer_report_coord [OF Inr]]
    by (auto simp: rememberPointer_def intro!: sends_silent)
  have "sends ([SendHID (le_generation l) rel f] @ []) w (outcome (sendPointer env l p b rel w))"
    unfolding sendPointer_def Inr sum.case
    using sends_hid [of l rel f w env] strip_pointer [OF Inr]
    by (intro sends_or_fail remember) simp
  then show ?thesis using Inr by (simp add: pointer_call_def frame_of_def)
qed

lemma sends_click: "sends (click_calls (le_generation l) p b) w (outcome (click env l p b w))"
  using sends_and_then [OF sends_pointer sends_and_then [OF sends_pointer sends_pointer]]
  by (simp add: click_def click_calls_def)

lemma keyboard_zero: "keyboard_report 0 [] = Inr [2, 0, 0, 0, 0, 0, 0, 0]"
  by (simp add: keyboard_report_def numeral_eq_Suc)

lemma sends_release_keys:
  "sends [keyboard_call (le_generation l) 0 []] w (send_hid env l Reliable (frame_of (keyboard_report 0 [])) w)"
  using sends_hid [of l Reliable "frame_of (keyboard_report 0 [])" w env] strip_keyboard [OF keyboard_zero]
  by (simp add: keyboard_call_def frame_of_def keyboard_zero)

lemma sends_keypress: "sends (key_calls (le_generation l) m ks) w (outcome (keypress env l m ks w))"
proof (cases "keyboard_report m ks")
  case (Inl e)
  then show ?thesis by (simp add: keypress_def sends_error)
next
  case (Inr f)
  have "sends ([SendHID (le_generation l) Reliable f] @ [] @ [keyboard_call (le_generation l) 0 []] @ [] @ []) w
      (outcome (keypress env l m ks w))"
    unfolding keypress_def Inr sum.case Let_def
    using sends_hid [of l Reliable f w env] strip_keyboard [OF Inr]
    by (intro sends_or_fail sends_wait sends_release_keys) (simp_all add: sends_none)
  then show ?thesis using Inr by (simp add: key_calls_def keyboard_call_def frame_of_def)
qed

lemma sends_drag_points:
  "sends (map (\<lambda>p. pointer_call (le_generation l) Reliable p b) ps) w (outcome (drag_points env l b ps w))"
proof (induction ps arbitrary: w)
  case (Cons p ps)
  show ?case using sends_and_then [OF sends_pointer Cons.IH] by simp
qed (simp add: sends_none)

lemma sends_type:
  "sends (concat (map (\<lambda>k. key_calls (le_generation l) (ks_modifier k) [ks_key k]) ks)) w
     (outcome (type_strokes env l ks w))"
proof (induction ks arbitrary: w)
  case (Cons k ks)
  show ?case using sends_and_then [OF sends_keypress Cons.IH] by simp
qed (simp add: sends_none)

lemma sends_hold_loop:
  "sends [keyboard_call (le_generation l) 0 []] w (outcome (hold_loop env l previous ticks ending w))"
proof (induction ticks arbitrary: previous w)
  case Nil
  have "sends ([keyboard_call (le_generation l) 0 []] @ []) w
      (outcome (or_fail (send_hid env l Reliable (frame_of (keyboard_report 0 [])) w) s (\<lambda>w. accept w)))" for s
    by (intro sends_or_fail sends_release_keys) (simp add: sends_none)
  then show ?case by (simp add: sends_error split: option.splits)
next
  case (Cons now ticks)
  have "sends ([] @ [keyboard_call (le_generation l) 0 []]) w
      (outcome (or_fail (send_hid env l Reliable [9] w) s (\<lambda>w. hold_loop env l now ticks ending w)))" for s
    using sends_hid [of l Reliable "[9]" w env] by (intro sends_or_fail Cons.IH) simp
  then show ?case by (simp add: sends_error)
qed

lemma sends_after_tick:
  assumes "tick env w = (r, w1)" "sends ideal w1 x"
  shows "sends ideal w x"
  using assms tick_result [OF assms(1)] sends_then [of "[]" w None w1 ideal x] by (auto intro: sends_silent)

lemma sends_keyhold:
  "sends [keyboard_call (le_generation l) m ks, Flush (le_generation l), keyboard_call (le_generation l) 0 []] w
     (outcome (keyhold env l m ks d w))"
proof (cases "keyboard_report m ks")
  case (Inl e)
  then show ?thesis by (simp add: keyhold_def sends_error)
next
  case (Inr f)
  have loop: "sends [keyboard_call (le_generation l) 0 []] w
      (outcome (let (r, w1) = tick env w
        in hold_loop env l (er_now r) (hs_ticks (er_hold r)) (hs_end (er_hold r)) w1))" for w
  proof -
    obtain r w1 where t: "tick env w = (r, w1)" by fastforce
    show ?thesis using sends_after_tick [OF t sends_hold_loop] by (simp add: t)
  qed
  have "sends ([SendHID (le_generation l) Reliable f] @ [Flush (le_generation l)] @ [keyboard_call (le_generation l) 0 []]) w
      (outcome (keyhold env l m ks d w))"
    unfolding keyhold_def Inr sum.case
    using sends_hid [of l Reliable f w env] strip_keyboard [OF Inr] sends_transport [of "Flush (le_generation l)"]
    by (intro sends_or_fail loop) simp_all
  then show ?thesis using Inr by (simp add: keyboard_call_def frame_of_def)
qed

lemma sends_capture: "sends [Capture (le_generation l)] w (outcome (capture_screenshot env l w))"
proof (cases "mg_observer (w_manager w)")
  case True
  obtain r w0 where t: "tick env w = (r, w0)" by fastforce
  define w1 where "w1 = w0\<lparr>w_wire := w_wire w0 @ [Capture (le_generation l)]\<rparr>"
  have "w_wire w1 = w_wire w @ [Capture (le_generation l)]" "stays w w1"
    using tick_result [OF t] by (simp_all add: w1_def stays_def)
  then have "sends [Capture (le_generation l)] w (e, w1)" for e
    by (auto simp: sends_def intro!: exI [of _ "[Capture (le_generation l)]"])
  then show ?thesis
    using True t by (simp add: capture_screenshot_def w1_def [symmetric] Let_def split: option.splits)
qed (simp add: capture_screenshot_def sends_error)

lemma sends_drag:
  "sends (pointer_call (le_generation l) Reliable (hd path) 0 #
      map (\<lambda>p. pointer_call (le_generation l) Reliable p b) path @
      [pointer_call (le_generation l) Reliable (last path) 0]) w (outcome (drag env l path b w))"
  using sends_and_then [OF sends_pointer sends_and_then [OF sends_drag_points sends_pointer]]
  by (simp add: drag_def)

lemma sends_scroll:
  "sends [SendWheel (le_generation l) dy dx] w
     (outcome (or_fail (ensureValid env l w) ActionFailed
       (\<lambda>w. or_fail (transport env (SendWheel (le_generation l) dy dx) w) ActionAmbiguous (\<lambda>w. accept w))))"
proof -
  have "sends ([] @ [SendWheel (le_generation l) dy dx] @ []) w
     (outcome (or_fail (ensureValid env l w) ActionFailed
       (\<lambda>w. or_fail (transport env (SendWheel (le_generation l) dy dx) w) ActionAmbiguous (\<lambda>w. accept w))))"
    using sends_transport [of "SendWheel (le_generation l) dy dx"]
    by (intro sends_or_fail sends_valid) (simp_all add: sends_none)
  then show ?thesis by simp
qed

lemma sends_double_click:
  "sends (click_calls (le_generation l) p b @ click_calls (le_generation l) p b) w
     (outcome (and_then (click env l p b w)
       (\<lambda>w. or_fail (waitContext env (d w) w) ActionAmbiguous (\<lambda>w. click env l p b w))))"
proof -
  have "sends (click_calls (le_generation l) p b @ [] @ click_calls (le_generation l) p b) w
     (outcome (and_then (click env l p b w)
       (\<lambda>w. or_fail (waitContext env (d w) w) ActionAmbiguous (\<lambda>w. click env l p b w))))"
    by (intro sends_and_then sends_click sends_or_fail sends_wait)
  then show ?thesis by simp
qed

lemma sends_pause: "sends [] w (outcome (or_fail (waitContext env d w) s (\<lambda>w. accept w)))"
proof -
  have "sends ([] @ []) w (outcome (or_fail (waitContext env d w) s (\<lambda>w. accept w)))"
    by (intro sends_or_fail sends_wait) (simp add: sends_none)
  then show ?thesis by simp
qed

lemma sends_perform: "sends (action_calls (le_generation l) a) w (outcome (perform env l a w))"
  using sends_pointer sends_click sends_double_click sends_drag sends_scroll sends_keypress sends_keyhold
    sends_type sends_pause sends_capture
  by (cases "ca_type a") (simp_all add: perform_def action_calls_def sends_none)

lemma sends_execute: "sends (action_calls (le_generation l) a) w (outcome (execute_action env l a w))"
proof -
  have "sends (action_calls (le_generation l) a) w (outcome
      (case observation_expired env a w of
         (True, w1) \<Rightarrow> ((ActionFailed, no_observation, Some [ErrObservationStale]), w1)
       | (False, w1) \<Rightarrow> perform env l a w1))" for w
  proof (cases "ca_observation_expires a = 0")
    case True
    then show ?thesis by (simp add: observation_expired_def sends_perform)
  next
    case False
    obtain r w1 where t: "tick env w = (r, w1)" by fastforce
    show ?thesis
      by (rule sends_after_tick [OF t]) (simp add: observation_expired_def False t sends_perform sends_error split: bool.splits)
  qed
  then have "sends ([] @ action_calls (le_generation l) a) w (outcome (execute_action env l a w))"
    unfolding execute_action_def by (intro sends_or_fail sends_valid)
  then show ?thesis by simp
qed

lemma sends_run_loop:
  "sends (batch_calls (le_generation l) items) w
     (case run_loop env l i items receipt w of (r, e, w') \<Rightarrow> (e, w'))"
proof (induction items arbitrary: i receipt w)
  case Nil
  then show ?case by (simp add: batch_calls_def sends_none)
next
  case (Cons a as)
  obtain s ob e w1 where x: "execute_action env l a w = ((s, ob, e), w1)"
    by (cases "execute_action env l a w") auto
  have "sends (action_calls (le_generation l) a @ batch_calls (le_generation l) as) w
      (case run_loop env l i (a # as) receipt w of (r, e, w') \<Rightarrow> (e, w'))"
    by (rule sends_then [of _ _ e w1])
      (use sends_execute [of l a w env] Cons.IH [of w1 "i + 1"] x in \<open>auto simp: Let_def split: option.splits\<close>)
  then show ?case by (simp add: batch_calls_def)
qed

section \<open>Statuses\<close>

text \<open>An action is accepted exactly when it returns no error, and otherwise failed or ambiguous.\<close>

definition graded :: "result \<times> world \<Rightarrow> bool" where
  "graded x \<longleftrightarrow>
     (case x of ((s, _, e), _) \<Rightarrow>
        (e = None \<longrightarrow> s = ActionAccepted) \<and> (e \<noteq> None \<longrightarrow> s = ActionFailed \<or> s = ActionAmbiguous))"

lemma graded_simps [simp]:
  "graded ((ActionAccepted, ob, None), w)" "graded ((ActionFailed, ob, Some e), w)"
  "graded ((ActionAmbiguous, ob, Some e), w)"
  by (simp_all add: graded_def)

lemma graded_or_fail:
  "s = ActionFailed \<or> s = ActionAmbiguous \<Longrightarrow> (\<And>w. graded (k w)) \<Longrightarrow> graded (or_fail x s k)"
  by (auto simp: or_fail_def split: prod.splits option.splits)

lemma graded_and_then: "graded x \<Longrightarrow> (\<And>w. graded (k w)) \<Longrightarrow> graded (and_then x k)"
  by (auto simp: and_then_def split: prod.splits option.splits) (auto simp: graded_def)

lemma graded_pointer: "graded (sendPointer env l p b rel w)"
  by (auto simp: sendPointer_def intro: graded_or_fail split: sum.splits)

lemma graded_click: "graded (click env l p b w)"
  unfolding click_def by (intro graded_and_then graded_pointer)

lemma graded_keypress: "graded (keypress env l m ks w)"
  by (auto simp: keypress_def Let_def intro!: graded_or_fail split: sum.splits)

lemma graded_type: "graded (type_strokes env l ks w)"
  by (induction ks arbitrary: w) (simp_all add: graded_and_then graded_keypress)

lemma graded_drag: "graded (drag env l path b w)"
proof -
  have "graded (drag_points env l b ps w)" for ps w
    by (induction ps arbitrary: w) (simp_all add: graded_and_then graded_pointer)
  then show ?thesis unfolding drag_def by (intro graded_and_then graded_pointer)
qed

lemma graded_hold_loop: "graded (hold_loop env l previous ticks ending w)"
  by (induction ticks arbitrary: previous w) (auto intro: graded_or_fail split: option.splits)

lemma graded_keyhold: "graded (keyhold env l m ks d w)"
  by (auto simp: keyhold_def Let_def graded_hold_loop intro!: graded_or_fail split: sum.splits prod.splits)

lemma graded_capture: "graded (capture_screenshot env l w)"
  by (auto simp: capture_screenshot_def Let_def split: prod.splits option.splits)

lemma graded_execute: "graded (execute_action env l a w)"
proof -
  have "graded (perform env l a w)" for w
    by (cases "ca_type a")
      (auto simp: perform_def graded_pointer graded_click graded_keypress graded_type graded_drag
        graded_keyhold graded_capture intro!: graded_or_fail graded_and_then)
  then show ?thesis
    by (auto simp: execute_action_def intro!: graded_or_fail split: prod.splits bool.splits)
qed

section \<open>Receipts of a run\<close>

lemma initial_receipts_map:
  "map ar_status (initial_receipts i items) = replicate (length items) ActionNotStarted"
  "map ar_type (initial_receipts i items) = map ca_type items"
  "length (initial_receipts i items) = length items"
  by (induction items arbitrary: i) simp_all

text \<open>
  The shape of the statuses of a receipt: \<open>i\<close> accepted actions; then, when the run stopped at
  action \<open>i\<close>, its status; then actions not started.
\<close>

definition stopped_at :: "nat \<Rightarrow> nat \<Rightarrow> action_status \<Rightarrow> action_status list" where
  "stopped_at n i s = replicate i ActionAccepted @ s # replicate (n - Suc i) ActionNotStarted"

lemma map_update_same: "(map f xs)[i := f (xs ! i)] = map f xs"
  by (metis length_map list_update_beyond list_update_id not_less nth_map)

lemma status_simps [simp]:
  "map ar_status (br_actions (set_status i s r)) = (map ar_status (br_actions r))[i := s]"
  "map ar_status (br_actions (set_error i c r)) = map ar_status (br_actions r)"
  "map ar_type (br_actions (set_status i s r)) = map ar_type (br_actions r)"
  "map ar_type (br_actions (set_error i c r)) = map ar_type (br_actions r)"
  "map ar_status (br_actions (reset_after i r)) =
     take (i + 1) (map ar_status (br_actions r)) @ map (\<lambda>_. ActionNotStarted) (drop (i + 1) (br_actions r))"
  "length (br_actions (set_status i s r)) = length (br_actions r)"
  "length (br_actions (set_error i c r)) = length (br_actions r)"
  "br_status (set_status i s r) = br_status r" "br_status (set_error i c r) = br_status r"
  "br_neutralized (set_status i s r) = br_neutralized r" "br_neutralized (set_error i c r) = br_neutralized r"
  "br_neutralized (reset_after i r) = br_neutralized r"
  by (simp_all add: set_status_def set_error_def reset_after_def map_update map_update_same take_map)

lemma type_simps [simp]: "map ar_type (br_actions (reset_after i r)) = map ar_type (br_actions r)"
proof -
  have "map ar_type (br_actions (reset_after i r)) =
      take (i + 1) (map ar_type (br_actions r)) @ drop (i + 1) (map ar_type (br_actions r))"
    by (simp add: reset_after_def take_map drop_map comp_def)
  then show ?thesis by simp
qed

text \<open>What the loop does to a receipt whose first \<open>i\<close> actions are accepted.\<close>

lemma run_loop_receipt:
  assumes "map ar_status (br_actions r) = replicate i ActionAccepted @ replicate (length items) ActionNotStarted"
    and "br_status r = BatchAccepted"
    and "run_loop env l i items r w = (r', e, w')"
  shows "map ar_type (br_actions r') = map ar_type (br_actions r) \<and> br_neutralized r' = br_neutralized r \<and>
    (e = None \<longrightarrow> br_status r' = BatchAccepted \<and>
       map ar_status (br_actions r') = replicate (i + length items) ActionAccepted) \<and>
    (e \<noteq> None \<longrightarrow> (\<exists>k s. k < i + length items \<and> (s = ActionFailed \<or> s = ActionAmbiguous) \<and>
       br_status r' = failed_status s k \<and>
       map ar_status (br_actions r') = stopped_at (i + length items) k s))"
  using assms
proof (induction items arbitrary: i r w)
  case (Cons a as)
  obtain s ob e1 w1 where x: "execute_action env l a w = ((s, ob, e1), w1)"
    by (cases "execute_action env l a w") auto
  have g: "(e1 = None \<longrightarrow> s = ActionAccepted) \<and> (e1 \<noteq> None \<longrightarrow> s = ActionFailed \<or> s = ActionAmbiguous)"
    using graded_execute [of env l a w] x by (simp add: graded_def)
  define r2 where "r2 = (if os_id ob \<noteq> [] then (set_status i s r)\<lparr>br_observation := ob\<rparr> else set_status i s r)"
  have r2: "map ar_type (br_actions r2) = map ar_type (br_actions r) \<and> br_neutralized r2 = br_neutralized r" "br_status r2 = BatchAccepted"
      "map ar_status (br_actions r2) = replicate i ActionAccepted @ s # replicate (length as) ActionNotStarted"
    using Cons.prems(1,2) by (auto simp: r2_def list_update_append)
  show ?case
  proof (cases e1)
    case None
    then have "map ar_status (br_actions r2) =
        replicate (i + 1) ActionAccepted @ replicate (length as) ActionNotStarted"
      using r2(3) g by (simp add: replicate_append_same [symmetric])
    moreover have "run_loop env l (i + 1) as r2 w1 = (r', e, w')"
      using Cons.prems(3) x None by (simp add: Let_def r2_def split: if_splits)
    ultimately show ?thesis using Cons.IH [of r2 "i + 1" w1] r2 by simp
  next
    case (Some y)
    then have r': "r' = (reset_after i (set_error i (classifyActionError y) r2))\<lparr>br_status := failed_status s i\<rparr>"
        "e = Some y"
      using Cons.prems(3) x by (auto simp: Let_def r2_def split: if_splits)
    have "length (br_actions r2) = i + 1 + length as" using arg_cong [OF r2(3), of length] by simp
    then have "map ar_status (br_actions r') = stopped_at (i + length (a # as)) i s"
      using r2(3) by (simp add: r'(1) stopped_at_def map_replicate_const)
    moreover have same: "map ar_type (br_actions r') = map ar_type (br_actions r)" "br_neutralized r' = br_neutralized r"
      using r2(1) by (simp_all add: r'(1))
    moreover have "s = ActionFailed \<or> s = ActionAmbiguous" "br_status r' = failed_status s i"
      using g Some by (simp_all add: r'(1))
    ultimately have "\<exists>k s. k < i + length (a # as) \<and> (s = ActionFailed \<or> s = ActionAmbiguous) \<and>
        br_status r' = failed_status s k \<and> map ar_status (br_actions r') = stopped_at (i + length (a # as)) k s"
      by (intro exI [of _ i] exI [of _ s]) simp
    then show ?thesis using same r'(2) by simp
  qed
qed simp

section \<open>Runs of the manager\<close>

text \<open>The pointer position the manager remembers is always one the protocol can send.\<close>

definition manager_inv :: "manager \<Rightarrow> bool" where
  "manager_inv m \<longleftrightarrow> coord_ok (mg_last_pointer m)"

text \<open>How a run that got past compilation goes: the calls it makes and the receipt it returns.\<close>

lemma run_actions_cases:
  assumes "run_actions env l b w = (r, e, l', w')" "holds l (w_manager w)"
  obtains
    (invalid) "r = zero_receipt" "e \<noteq> None" "l' = l" "w_wire w' = w_wire w" "stays w w'" "mg_uncertain (w_manager w')"
  | (rejected) "r = zero_receipt" "e \<noteq> None" "w_wire w' = w_wire w" "\<not> mg_lease_held (w_manager w')"
      "le_released l'" "mg_generation (w_manager w') = mg_generation (w_manager w)"
      "manager_inv (w_manager w) \<longrightarrow> manager_inv (w_manager w')"
      "mg_uncertain (w_manager w) \<longrightarrow> mg_uncertain (w_manager w')"
  | (ran) now items r0 e0 w0 where
      "compileBatch b (mg_limits (w_manager w)) (le_generation l) now = Inr items"
      "sends (batch_calls (le_generation l) items) w (e0, w0)"
      "finish_run env l r0 e0 w0 = (r, e, l', w')"
      "br_status r0 \<noteq> BatchNone" "\<not> br_neutralized r0"
      "map ar_type (br_actions r0) = map ca_type items"
      "e0 = None \<longrightarrow> br_status r0 = BatchAccepted \<and>
         map ar_status (br_actions r0) = replicate (length items) ActionAccepted"
      "e0 \<noteq> None \<longrightarrow>
         (br_status r0 = BatchAccepted \<and> w_wire w0 = w_wire w \<and>
          map ar_status (br_actions r0) = replicate (length items) ActionNotStarted) \<or>
         (\<exists>k s. k < length items \<and> (s = ActionFailed \<or> s = ActionAmbiguous) \<and> br_status r0 = failed_status s k \<and>
            map ar_status (br_actions r0) = stopped_at (length items) k s)"
proof -
  obtain e1 w1 where v: "ensureValid env l w = (e1, w1)" by fastforce
  note vr = ensureValid_result [OF v]
  show ?thesis
  proof (cases e1)
    case (Some y)
    then have "r = zero_receipt" "e = Some y" "l' = l" "w' = w1" using assms(1) v by (auto simp: run_actions_def)
    moreover have "mg_uncertain (w_manager w1)"
      using v Some assms(2) holds_stays [OF assms(2) vr(2)]
      by (auto simp: ensureValid_def validateToken_def holds_def token_error_def split: prod.splits if_splits)
    ultimately show ?thesis using invalid vr by simp
  next
    case None
    obtain tr w2 where t: "tick env w1 = (tr, w2)" by fastforce
    note t2 = tick_result [OF t]
    have st2: "stays w w2" using vr(2) t2 stays_trans by blast
    have wire2: "w_wire w2 = w_wire w" using vr(1) t2 by simp
    have held2: "holds l (w_manager w2)" by (rule holds_stays [OF assms(2) st2])
    have lim: "mg_limits (w_manager w2) = mg_limits (w_manager w)" using st2 by (simp add: stays_def)
    show ?thesis
    proof (cases "compileBatch b (mg_limits (w_manager w)) (le_generation l) (er_now tr)")
      case (Inl y)
      obtain l3 w3 where a: "abandon l w2 = (l3, w3)" by fastforce
      have "r = zero_receipt" "e = Some y" "l' = l3" "w' = w3"
        using assms(1) v None t Inl lim a by (auto simp: run_actions_def)
      then show ?thesis
        using abandon_result [OF a held2] wire2 st2 by (intro rejected) (auto simp: stays_def manager_inv_def)
    next
      case (Inr items)
      define rc where "rc = zero_receipt\<lparr>br_generation := le_generation l, br_status := BatchAccepted,
          br_actions := initial_receipts 0 items\<rparr>"
      obtain e3 w3 where s: "setActiveCancel env l w2 = (e3, w3)" by fastforce
      have s3: "w_wire w3 = w_wire w2" "stays w2 w3"
        using s by (auto simp: setActiveCancel_def Let_def stays_def split: prod.splits option.splits dest!: tick_result)
      then have st3: "stays w w3" "w_wire w3 = w_wire w" using st2 wire2 stays_trans by auto
      show ?thesis
      proof (cases e3)
        case (Some y)
        then have "finish_run env l rc (Some y) w3 = (r, e, l', w')"
          using assms(1) v None t Inr lim s by (simp add: run_actions_def rc_def Let_def)
        moreover have "sends (batch_calls (le_generation l) items) w (Some y, w3)"
          using st3 by (simp add: sends_def)
        ultimately show ?thesis
          using ran [OF Inr] st3 by (auto simp: rc_def zero_receipt_def initial_receipts_map)
      next
        case None': None
        obtain r4 e4 w4 where loop: "run_loop env l 0 items rc w3 = (r4, e4, w4)" by (metis prod_cases3)
        have "finish_run env l r4 e4 w4 = (r, e, l', w')"
          using assms(1) v None t Inr lim s None' loop by (simp add: run_actions_def rc_def Let_def)
        moreover have "sends (batch_calls (le_generation l) items) w (e4, w4)"
        proof -
          have "sends ([] @ batch_calls (le_generation l) items) w (e4, w4)"
            by (rule sends_then [of _ _ None w3])
              (use st3 sends_run_loop [of l items w3 env 0 rc] loop in \<open>auto intro: sends_silent\<close>)
          then show ?thesis by simp
        qed
        moreover have "map ar_status (br_actions rc) = replicate 0 ActionAccepted @ replicate (length items) ActionNotStarted"
          "br_status rc = BatchAccepted"
          by (simp_all add: rc_def initial_receipts_map)
        note shape = run_loop_receipt [OF this loop]
        moreover have "br_status r4 \<noteq> BatchNone"
          using shape by (cases e4) (auto simp: failed_status_def split: if_splits)
        ultimately show ?thesis
          using ran [OF Inr] by (auto simp: rc_def zero_receipt_def initial_receipts_map)
      qed
    qed
  qed
qed

lemma finish_run_result:
  assumes "finish_run env l r0 e0 w0 = (r, e, l', w')" "holds l (w_manager w0)" "\<not> br_neutralized r0"
  shows "w_wire w' = w_wire w0 @ neutral_calls (le_generation l) (mg_last_pointer (w_manager w0))"
    "\<not> mg_lease_held (w_manager w')" "le_released l'"
    "mg_generation (w_manager w') = mg_generation (w_manager w0)"
    "mg_last_pointer (w_manager w') = mg_last_pointer (w_manager w0)"
    "mg_uncertain (w_manager w0) \<Longrightarrow> mg_uncertain (w_manager w')"
    "br_actions r = br_actions r0" "br_status r \<in> {br_status r0, BatchAmbiguous}"
    "br_neutralized r \<Longrightarrow> r = r0\<lparr>br_neutralized := True\<rparr> \<and> e = e0"
    "\<not> br_neutralized r \<Longrightarrow> e \<noteq> None \<and> br_status r = BatchAmbiguous \<and> mg_uncertain (w_manager w')"
proof -
  obtain e1 l1 w1 where rel: "release env l w0 = (e1, l1, w1)" by (metis prod_cases3)
  note rr = release_result [OF rel assms(2)]
  have "l' = l1" "w' = w1" using assms(1) rel by (auto simp: finish_run_def split: option.splits)
  then show "w_wire w' = w_wire w0 @ neutral_calls (le_generation l) (mg_last_pointer (w_manager w0))"
    "\<not> mg_lease_held (w_manager w')" "le_released l'"
    "mg_generation (w_manager w') = mg_generation (w_manager w0)"
    "mg_last_pointer (w_manager w') = mg_last_pointer (w_manager w0)"
    "mg_uncertain (w_manager w0) \<Longrightarrow> mg_uncertain (w_manager w')"
    using rr by simp_all
  show "br_actions r = br_actions r0" "br_status r \<in> {br_status r0, BatchAmbiguous}"
    "br_neutralized r \<Longrightarrow> r = r0\<lparr>br_neutralized := True\<rparr> \<and> e = e0"
    "\<not> br_neutralized r \<Longrightarrow> e \<noteq> None \<and> br_status r = BatchAmbiguous \<and> mg_uncertain (w_manager w')"
    using assms(1,3) rel rr(8) by (auto simp: finish_run_def split: option.splits)
qed

lemma run_actions_held:
  assumes "sends cs w (e0, w0)" "holds l (w_manager w)"
  shows "holds l (w_manager w0)" "manager_inv (w_manager w) \<Longrightarrow> manager_inv (w_manager w0)"
    "mg_generation (w_manager w0) = mg_generation (w_manager w)"
    "mg_uncertain (w_manager w) \<Longrightarrow> mg_uncertain (w_manager w0)"
  using assms holds_stays by (auto simp: sends_def stays_def manager_inv_def)

text \<open>The manager's run, in the cases of its lease's run.\<close>

lemma manager_run_cases:
  assumes "manager_run_actions env g b w = (r, e, w')"
  obtains
    (unsent) "r = zero_receipt" "e \<noteq> None" "w_wire w' = w_wire w"
  | (ran) l w1 now items r0 e0 w0 l' where
      "acquire env g w = (Inr l, w1)"
      "compileBatch b (mg_limits (w_manager w)) g now = Inr items"
      "sends (batch_calls g items) w1 (e0, w0)"
      "finish_run env l r0 e0 w0 = (r, e, l', w')"
      "br_status r0 \<noteq> BatchNone" "\<not> br_neutralized r0"
      "map ar_type (br_actions r0) = map ca_type items"
      "e0 = None \<longrightarrow> br_status r0 = BatchAccepted \<and>
         map ar_status (br_actions r0) = replicate (length items) ActionAccepted"
      "e0 \<noteq> None \<longrightarrow>
         (br_status r0 = BatchAccepted \<and> w_wire w0 = w_wire w1 \<and>
          map ar_status (br_actions r0) = replicate (length items) ActionNotStarted) \<or>
         (\<exists>k s. k < length items \<and> (s = ActionFailed \<or> s = ActionAmbiguous) \<and> br_status r0 = failed_status s k \<and>
            map ar_status (br_actions r0) = stopped_at (length items) k s)"
proof (cases "acquire env g w")
  case (Pair x w1)
  show ?thesis
  proof (cases x)
    case (Inl y)
    then show ?thesis
      using assms Pair acquire_error [of env g w y w1] by (intro unsent) (auto simp: manager_run_actions_def)
  next
    case (Inr l)
    note aq = acquire_result [OF Pair [unfolded Inr]]
    obtain l' where run: "run_actions env l b w1 = (r, e, l', w')"
      using assms Pair Inr by (auto simp: manager_run_actions_def split: prod.splits)
    from run aq(1) show ?thesis
    proof (cases rule: run_actions_cases)
      case invalid
      then show ?thesis using aq(4) by (intro unsent) auto
    next
      case rejected
      then show ?thesis using aq(4) by (intro unsent) auto
    next
      case (ran now items r0 e0 w0)
      then show ?thesis using that(2) [OF Pair [unfolded Inr]] aq by (simp only: aq(2,7)) blast
    qed
  qed
qed

lemma zero_receipt_status [simp]: "br_status zero_receipt = BatchNone"
  by (simp add: zero_receipt_def)

section \<open>A failed action was not sent\<close>

definition not_failed :: "result \<times> world \<Rightarrow> bool" where
  "not_failed x \<longleftrightarrow> fst (fst x) \<noteq> ActionFailed"

lemma not_failed_or_fail:
  "s = ActionAmbiguous \<Longrightarrow> (\<And>w. not_failed (k w)) \<Longrightarrow> not_failed (or_fail x s k)"
  by (auto simp: not_failed_def or_fail_def split: prod.splits option.splits)

lemma not_failed_and_then: "not_failed x \<Longrightarrow> (\<And>w. not_failed (k w)) \<Longrightarrow> not_failed (and_then x k)"
  by (auto simp: not_failed_def and_then_def split: prod.splits option.splits)

lemma not_failed_simps [simp]: "not_failed ((ActionAccepted, ob, e), w)" "not_failed ((ActionAmbiguous, ob, e), w)"
  by (simp_all add: not_failed_def)

lemma coord_report: "coord_ok p \<Longrightarrow> \<not> bad_buttons b \<Longrightarrow> \<exists>f. pointer_report (pt_x p) (pt_y p) b = Inr f"
  by (auto simp: coord_ok_def pointer_report_def)

lemma not_failed_pointer: "coord_ok p \<Longrightarrow> \<not> bad_buttons b \<Longrightarrow> not_failed (sendPointer env l p b rel w)"
  using coord_report [of p b] by (auto simp: sendPointer_def intro!: not_failed_or_fail)

lemma not_failed_click: "coord_ok p \<Longrightarrow> \<not> bad_buttons b \<Longrightarrow> not_failed (click env l p b w)"
  unfolding click_def by (intro not_failed_and_then not_failed_pointer) simp_all

lemma not_failed_drag:
  assumes "list_all coord_ok path" "2 \<le> length path" "\<not> bad_buttons b"
  shows "not_failed (drag env l path b w)"
proof -
  have "not_failed (drag_points env l b ps w)" if "list_all coord_ok ps" for ps w
    using that assms(3) by (induction ps arbitrary: w) (simp_all add: not_failed_and_then not_failed_pointer)
  moreover have "coord_ok (hd path)" "coord_ok (last path)"
    using assms(1,2) by (cases path; auto simp: list_all_iff)+
  ultimately show ?thesis
    unfolding drag_def using assms by (intro not_failed_and_then not_failed_pointer) simp_all
qed

lemma not_failed_keypress: "length ks \<le> 6 \<Longrightarrow> not_failed (keypress env l m ks w)"
  by (auto simp: keypress_def keyboard_report_def Let_def intro!: not_failed_or_fail)

lemma not_failed_type: "not_failed (type_strokes env l ks w)"
  by (induction ks arbitrary: w) (simp_all add: not_failed_and_then not_failed_keypress)

lemma not_failed_hold_loop: "not_failed (hold_loop env l previous ticks ending w)"
  by (induction ticks arbitrary: previous w) (auto intro: not_failed_or_fail split: option.splits)

lemma not_failed_keyhold: "length ks \<le> 6 \<Longrightarrow> not_failed (keyhold env l m ks d w)"
  by (auto simp: keyhold_def keyboard_report_def Let_def not_failed_hold_loop intro!: not_failed_or_fail split: prod.splits)

definition is_capture :: "wire \<Rightarrow> bool" where
  "is_capture c = (case c of Capture _ \<Rightarrow> True | _ \<Rightarrow> False)"

lemma perform_failed:
  assumes "perform env l a w = ((ActionFailed, ob, e), w')" "item_ok li a"
  shows "\<exists>sent. w_wire w' = w_wire w @ sent \<and> list_all is_capture sent"
proof -
  have "not_failed (perform env l a w)" if "ca_type a \<notin> {ActionScroll, ActionWait, ActionScreenshot}"
    using assms(2) that not_failed_drag [of "ca_path a" "ca_button a" env l w]
    by (cases "ca_type a")
      (auto simp: item_ok_def perform_def not_failed_pointer not_failed_click not_failed_keypress not_failed_type
        not_failed_keyhold intro!: not_failed_and_then not_failed_or_fail)
  then have "ca_type a \<in> {ActionScroll, ActionWait, ActionScreenshot}"
    using assms(1) by (auto simp: not_failed_def)
  then show ?thesis
    using assms(1)
    by (auto simp: perform_def or_fail_def waitContext_def capture_screenshot_def Let_def is_capture_def
        split: prod.splits option.splits if_splits dest!: tick_result ensureValid_result(1))
qed

lemma execute_failed:
  assumes "execute_action env l a w = ((ActionFailed, ob, e), w')" "item_ok li a"
  shows "\<exists>sent. w_wire w' = w_wire w @ sent \<and> list_all is_capture sent"
proof -
  obtain e1 w1 where v: "ensureValid env l w = (e1, w1)" by fastforce
  obtain x w2 where o: "observation_expired env a w1 = (x, w2)" by fastforce
  have "w_wire w2 = w_wire w"
    using ensureValid_result(1) [OF v] o by (auto simp: observation_expired_def split: if_splits prod.splits dest!: tick_result)
  then show ?thesis
    using assms(1) v o perform_failed [OF _ assms(2), of env l w2 ob e w'] ensureValid_result(1) [OF v]
    by (auto simp: execute_action_def or_fail_def split: option.splits bool.splits)
qed

section \<open>A run no one disturbs\<close>

text \<open>An outside that answers without errors, before any frame expires, and no fence.\<close>

definition quiet :: "env \<Rightarrow> u64 \<Rightarrow> time \<Rightarrow> bool" where
  "quiet env g t \<longleftrightarrow>
     (\<forall>n. \<not> er_fence (env n) \<and> er_error (env n) = None \<and> er_now (env n) = t \<and>
        er_hold (env n) = \<lparr>hs_ticks = [], hs_end = None\<rparr> \<and>
        os_id (er_observation (env n)) \<noteq> [] \<and> os_generation (er_observation (env n)) = g)"

definition ready :: "lease \<Rightarrow> world \<Rightarrow> bool" where
  "ready l w \<longleftrightarrow> holds l (w_manager w) \<and> \<not> mg_uncertain (w_manager w) \<and> mg_observer (w_manager w)"

text \<open>The step went through and left the lease usable.\<close>

definition goes :: "lease \<Rightarrow> input_errors option \<times> world \<Rightarrow> bool" where
  "goes l x \<longleftrightarrow> fst x = None \<and> ready l (snd x)"

lemma goes_accept [simp]: "goes l (outcome ((s, ob, None), w)) \<longleftrightarrow> ready l w" "goes l (e, w) \<longleftrightarrow> e = None \<and> ready l w"
  by (simp_all add: goes_def)

lemma goes_or_fail: "goes l x \<Longrightarrow> (\<And>w. ready l w \<Longrightarrow> goes l (outcome (k w))) \<Longrightarrow> goes l (outcome (or_fail x s k))"
  by (auto simp: goes_def or_fail_def split: prod.splits option.splits)

lemma goes_and_then:
  "goes l (outcome x) \<Longrightarrow> (\<And>w. ready l w \<Longrightarrow> goes l (outcome (k w))) \<Longrightarrow> goes l (outcome (and_then x k))"
  by (auto simp: goes_def outcome_def and_then_def split: prod.splits option.splits)

lemma quiet_env [simp]:
  assumes "quiet env g t"
  shows "\<not> er_fence (env n)" "er_error (env n) = None" "er_now (env n) = t"
    "er_hold (env n) = \<lparr>hs_ticks = [], hs_end = None\<rparr>"
    "os_id (er_observation (env n)) \<noteq> []" "os_generation (er_observation (env n)) = g"
  using assms by (simp_all add: quiet_def)

lemma quiet_tick: "quiet env g t \<Longrightarrow> tick env w = (env (w_tick w), w\<lparr>w_tick := Suc (w_tick w)\<rparr>)"
  by (simp add: tick_def Let_def)

lemma quiet_transport: "quiet env g t \<Longrightarrow> ready l w \<Longrightarrow> goes l (transport env c w)"
  by (simp add: transport_def quiet_tick ready_def)

lemma quiet_wait: "quiet env g t \<Longrightarrow> ready l w \<Longrightarrow> goes l (waitContext env d w)"
  by (simp add: waitContext_def quiet_tick ready_def)

lemma quiet_valid: "quiet env g t \<Longrightarrow> ready l w \<Longrightarrow> goes l (ensureValid env l w)"
  by (simp add: ensureValid_def validateToken_def quiet_tick ready_def holds_def token_error_None)

lemma quiet_hid: "quiet env g t \<Longrightarrow> ready l w \<Longrightarrow> goes l (send_hid env l rel f w)"
  using quiet_valid [of env g t l w] quiet_transport [of env g t]
  by (auto simp: send_hid_def goes_def split: prod.splits option.splits)

lemma quiet_pointer: "quiet env g t \<Longrightarrow> ready l w \<Longrightarrow> coord_ok p \<Longrightarrow> \<not> bad_buttons b \<Longrightarrow> goes l (outcome (sendPointer env l p b rel w))"
  using coord_report [of p b] stays_rememberPointer [of p]
  by (auto simp: sendPointer_def ready_def rememberPointer_def holds_def intro!: goes_or_fail quiet_hid [of env g t])

lemma quiet_click: "quiet env g t \<Longrightarrow> ready l w \<Longrightarrow> coord_ok p \<Longrightarrow> \<not> bad_buttons b \<Longrightarrow> goes l (outcome (click env l p b w))"
  unfolding click_def by (intro goes_and_then quiet_pointer [of env g t]) simp_all

lemma quiet_keypress: "quiet env g t \<Longrightarrow> ready l w \<Longrightarrow> length ks \<le> 6 \<Longrightarrow> goes l (outcome (keypress env l m ks w))"
  by (auto simp: keypress_def keyboard_report_def Let_def intro!: goes_or_fail quiet_hid [of env g t] quiet_wait [of env g t])

lemma quiet_type: "quiet env g t \<Longrightarrow> ready l w \<Longrightarrow> goes l (outcome (type_strokes env l ks w))"
  by (induction ks arbitrary: w) (simp_all add: goes_and_then quiet_keypress [of env g t])

lemma quiet_drag:
  assumes "quiet env g t" "ready l w" "list_all coord_ok path" "2 \<le> length path" "\<not> bad_buttons b"
  shows "goes l (outcome (drag env l path b w))"
proof -
  have "goes l (outcome (drag_points env l b ps w))" if "list_all coord_ok ps" "ready l w" for ps w
    using that assms(5) by (induction ps arbitrary: w) (simp_all add: goes_and_then quiet_pointer [OF assms(1)])
  moreover have "coord_ok (hd path)" "coord_ok (last path)" using assms(3,4) by (cases path; auto simp: list_all_iff)+
  ultimately show ?thesis
    unfolding drag_def using assms by (intro goes_and_then quiet_pointer [of env g t]) simp_all
qed

lemma quiet_keyhold: "quiet env g t \<Longrightarrow> ready l w \<Longrightarrow> length ks \<le> 6 \<Longrightarrow> goes l (outcome (keyhold env l m ks d w))"
  by (auto simp: keyhold_def keyboard_report_def Let_def quiet_tick ready_def
      intro!: goes_or_fail quiet_hid [of env g t, unfolded ready_def] quiet_transport [of env g t, unfolded ready_def])

lemma quiet_capture:
  "quiet env (le_generation l) t \<Longrightarrow> ready l w \<Longrightarrow> goes l (outcome (capture_screenshot env l w))"
  by (simp add: capture_screenshot_def quiet_tick Let_def ready_def)

lemma quiet_perform:
  assumes "quiet env (le_generation l) t" "ready l w" "item_ok li a"
  shows "goes l (outcome (perform env l a w))"
proof -
  note q = quiet_pointer [OF assms(1)] quiet_click [OF assms(1)] quiet_drag [OF assms(1)] quiet_keypress [OF assms(1)]
    quiet_keyhold [OF assms(1)] quiet_type [OF assms(1)] quiet_capture [OF assms(1)]
  note s = goes_or_fail goes_and_then quiet_wait [OF assms(1)] quiet_valid [OF assms(1)] quiet_transport [OF assms(1)]
  show ?thesis
    using assms(2,3) by (cases "ca_type a") (auto simp: perform_def item_ok_def intro!: q s)
qed

lemma quiet_execute:
  assumes "quiet env (le_generation l) t" "ready l w" "item_ok li a"
    and "ca_observation_expires a = 0 \<or> t \<le> ca_observation_expires a"
  shows "goes l (outcome (execute_action env l a w))"
proof -
  have "goes l (outcome (case observation_expired env a w of
      (True, w1) \<Rightarrow> ((ActionFailed, no_observation, Some [ErrObservationStale]), w1)
    | (False, w1) \<Rightarrow> perform env l a w1))" if "ready l w" for w
    using that assms(1,3,4) quiet_perform [OF assms(1) _ assms(3)]
    by (auto simp: observation_expired_def quiet_tick ready_def split: prod.splits bool.splits)
  then show ?thesis
    unfolding execute_action_def by (intro goes_or_fail quiet_valid [OF assms(1,2)])
qed

lemma quiet_run_loop:
  assumes "quiet env (le_generation l) t"
    and "list_all (\<lambda>a. item_ok li a \<and> (ca_observation_expires a = 0 \<or> t \<le> ca_observation_expires a)) items"
    and "ready l w"
  shows "goes l (case run_loop env l i items r w of (r', e, w') \<Rightarrow> (e, w'))"
  using assms(2,3)
proof (induction items arbitrary: i r w)
  case (Cons a as)
  obtain s ob e w1 where x: "execute_action env l a w = ((s, ob, e), w1)" by (cases "execute_action env l a w") auto
  have "goes l (e, w1)" using quiet_execute [OF assms(1) Cons.prems(2)] Cons.prems(1) x by fastforce
  then show ?case using Cons.IH [of w1] Cons.prems(1) x by (auto simp: Let_def)
qed simp

lemma quiet_neutralize:
  assumes "quiet env g t"
  shows "fst (neutralize env g' w) = None"
proof -
  have "fst (send_all env cs w) = []" for cs w
    using assms by (induction cs arbitrary: w) (auto simp: transport_def quiet_tick split: prod.splits)
  then show ?thesis by (auto simp: neutralize_def split: prod.splits) (metis fst_conv)
qed

lemma quiet_release:
  assumes "quiet env g t" "holds l (w_manager w)"
  shows "fst (release env l w) = None"
  using assms quiet_neutralize [OF assms(1)]
  by (auto simp: release_def beginRelease_def holds_def Let_def split: prod.splits option.splits) (metis fst_conv option.distinct(1))+

lemma compileBatch_expires:
  assumes "compileBatch b li g t = Inr items" "limits_small li"
  shows "list_all (\<lambda>a. ca_observation_expires a = 0 \<or> t \<le> ca_observation_expires a) items"
proof -
  have "ca_observation_expires i = 0 \<or> t \<le> ca_observation_expires i"
    if c: "compileAction a li (ba_observation b) g t = Inr (i, c)" for a i c
  proof (cases "ca_observation_expires i = 0")
    case False
    then have "binding_fresh (ba_observation b) li g t"
      using compileAction_expires [OF c] compileAction_fresh [OF c] by (auto simp: coordinate_action_def split: if_splits)
    then show ?thesis
      using compileAction_expires [OF c] False assms(2)
      by (auto simp: binding_fresh_def binding_expires_def limits_small_def time_sub_def min_def max_def
          split: option.splits if_splits)
  qed simp
  with compileBatch_items [OF assms(1)] show ?thesis by (induction rule: list_all2_induct) auto
qed

lemma quiet_manager_run:
  assumes "quiet env g t" "binding_small (ba_observation b)"
    and "compileBatch b (mg_limits (w_manager w)) g t = Inr items"
    and "mg_generation (w_manager w) = g" "\<not> mg_lease_held (w_manager w)" "\<not> mg_uncertain (w_manager w)"
    and "mg_observer (w_manager w)" "limits_small (mg_limits (w_manager w))"
  shows "fst (snd (manager_run_actions env g b w)) = None"
proof -
  note tick = quiet_tick [OF assms(1)]
  define l where "l = \<lparr>le_generation = g, le_nonce = er_nonce (env (w_tick w)), le_released = False\<rparr>"
  have lg: "le_generation l = g" by (simp add: l_def)
  note q = assms(1) [folded lg]
  obtain w1 where aq: "acquire env g w = (Inr l, w1)"
    using assms by (simp add: acquire_def tick l_def Let_def)
  note aqr = acquire_result [OF aq]
  have r1: "ready l w1"
    using aqr(1,3) assms(7) aq assms by (auto simp: ready_def acquire_def tick Let_def l_def)
  obtain w2 where v: "ensureValid env l w1 = (None, w2)" "ready l w2" "w_manager w2 = w_manager w1"
    using quiet_valid [OF q r1] r1
    by (auto simp: ensureValid_def validateToken_def tick ready_def holds_def token_error_None)
  have lim: "mg_limits (w_manager w2) = mg_limits (w_manager w)" using v(3) aqr(7) by simp
  define rc where "rc = zero_receipt\<lparr>br_generation := g, br_status := BatchAccepted,
      br_actions := initial_receipts 0 items\<rparr>"
  define w3 where "w3 = w2\<lparr>w_tick := Suc (w_tick w2)\<rparr>"
  obtain w4 where s: "setActiveCancel env l w3 = (None, w4)" "ready l w4"
  proof -
    have "token_error l (w_manager w2) = None" using v(2) by (simp add: token_error_None ready_def holds_def)
    then show ?thesis using v(2) that by (simp add: setActiveCancel_def tick Let_def ready_def holds_def w3_def)
  qed
  obtain r5 e5 w5 where loop: "run_loop env l 0 items rc w4 = (r5, e5, w5)" by (metis prod_cases3)
  have ok: "list_all (\<lambda>a. item_ok (mg_limits (w_manager w)) a \<and>
      (ca_observation_expires a = 0 \<or> t \<le> ca_observation_expires a)) items"
    using compileBatch_ok [OF assms(3,2)] compileBatch_expires [OF assms(3,8)] by (simp add: list_all_iff)
  have "e5 = None" "ready l w5" using quiet_run_loop [OF q ok s(2), of 0 rc] loop by simp_all
  moreover have "fst (release env l w5) = None" using quiet_release [OF assms(1)] calculation(2) by (simp add: ready_def)
  then have "fst (snd (finish_run env l r5 None w5)) = None"
    by (auto simp: finish_run_def split: prod.splits option.splits)
  moreover have "run_actions env l b w1 = finish_run env l r5 e5 w5"
    using v s loop assms(1,3) lim lg by (simp add: run_actions_def tick w3_def [symmetric] rc_def [symmetric])
  ultimately show ?thesis using aq by (auto simp: manager_run_actions_def split: prod.splits)
qed

section \<open>Operations on a manager\<close>

datatype client_op = OpAcquire u64 | OpRelease lease | OpRun u64 batch | OpFence u64

datatype manager_op = Client client_op | OpReconcile u64 | OpAdvance u64

definition client_step :: "env \<Rightarrow> world \<Rightarrow> client_op \<Rightarrow> world" where
  "client_step env w p =
     (case p of
        OpAcquire g \<Rightarrow> snd (acquire env g w)
      | OpRelease l \<Rightarrow> snd (snd (release env l w))
      | OpRun g b \<Rightarrow> snd (snd (manager_run_actions env g b w))
      | OpFence g \<Rightarrow> w\<lparr>w_manager := snd (fence g (w_manager w))\<rparr>)"

definition manager_step :: "env \<Rightarrow> world \<Rightarrow> manager_op \<Rightarrow> world" where
  "manager_step env w p =
     (case p of
        Client c \<Rightarrow> client_step env w c
      | OpReconcile g \<Rightarrow> snd (reconcile env g w)
      | OpAdvance g \<Rightarrow> snd (advanceGeneration env g w))"

text \<open>What no operation undoes, in one relation.\<close>

definition progress :: "world \<Rightarrow> world \<Rightarrow> bool" where
  "progress w w' \<longleftrightarrow>
     (manager_inv (w_manager w) \<longrightarrow> manager_inv (w_manager w')) \<and>
     mg_generation (w_manager w) \<le> mg_generation (w_manager w')"

lemma progress_stays: "stays w w' \<Longrightarrow> progress w w'"
  by (simp add: progress_def stays_def manager_inv_def)

lemma release_progress:
  assumes "release env l w = (e, l', w')"
  shows "progress w w' \<and> (mg_uncertain (w_manager w) \<longrightarrow> mg_uncertain (w_manager w'))"
proof -
  have "progress w1 (finishRelease w2) \<and> (mg_uncertain (w_manager w1) \<longrightarrow> mg_uncertain (w_manager (finishRelease w2)))"
    if "stays w1 w2" for w1 w2
    using that by (simp add: progress_def stays_def manager_inv_def finishRelease_def)
  moreover have "stays w1 (mark_uncertain w2)" if "stays w1 w2" for w1 w2
    using that by (simp add: stays_def mark_uncertain_def)
  moreover have "progress w w1 \<and> mg_uncertain (w_manager w1) = mg_uncertain (w_manager w)"
    if "beginRelease l'' w = (x, w1)" for l'' x w1
    using that by (auto simp: beginRelease_def progress_def manager_inv_def Let_def split: if_splits)
  ultimately show ?thesis
    using assms neutralize_result(2)
    by (auto simp: release_def Let_def progress_def split: if_splits prod.splits bool.splits option.splits) (meson order_trans)+
qed

lemma acquire_progress:
  assumes "acquire env g w = (x, w')"
  shows "progress w w' \<and> (mg_uncertain (w_manager w) \<longrightarrow> mg_uncertain (w_manager w'))"
  using assms
  by (auto simp: acquire_def Let_def progress_def manager_inv_def split: prod.splits if_splits option.splits
      dest!: tick_result)

lemma run_actions_progress:
  assumes "run_actions env l b w = (r, e, l', w')" "holds l (w_manager w)"
  shows "progress w w' \<and> (mg_uncertain (w_manager w) \<longrightarrow> mg_uncertain (w_manager w'))"
  using assms
proof (cases rule: run_actions_cases)
  case invalid
  then show ?thesis by (simp add: progress_stays)
next
  case rejected
  then show ?thesis by (simp add: progress_def)
next
  case (ran now items r0 e0 w0)
  note held = run_actions_held [OF ran(2) assms(2)]
  note fin = finish_run_result [OF ran(3) held(1) ran(5)]
  show ?thesis using held fin by (simp add: progress_def manager_inv_def)
qed

lemma manager_run_progress:
  assumes "manager_run_actions env g b w = (r, e, w')"
  shows "progress w w' \<and> (mg_uncertain (w_manager w) \<longrightarrow> mg_uncertain (w_manager w'))"
proof (cases "acquire env g w")
  case (Pair x w1)
  note aq = acquire_progress [OF Pair]
  show ?thesis
  proof (cases x)
    case (Inl y)
    then show ?thesis using assms Pair aq by (auto simp: manager_run_actions_def)
  next
    case (Inr l)
    obtain l' where "run_actions env l b w1 = (r, e, l', w')"
      using assms Pair Inr by (auto simp: manager_run_actions_def split: prod.splits)
    from run_actions_progress [OF this acquire_result(1) [OF Pair [unfolded Inr]]] aq
    show ?thesis by (auto simp: progress_def)
  qed
qed

lemma client_step_progress:
  "progress w (client_step env w p) \<and> (mg_uncertain (w_manager w) \<longrightarrow> mg_uncertain (w_manager (client_step env w p)))"
proof (cases p)
  case (OpAcquire g)
  then show ?thesis
    using acquire_progress [of env g w] by (cases "acquire env g w") (simp add: client_step_def)
next
  case (OpRelease l)
  then show ?thesis
    using release_progress [of env l w] by (cases "release env l w") (simp add: client_step_def)
next
  case (OpRun g b)
  then show ?thesis
    using manager_run_progress [of env g b w] by (cases "manager_run_actions env g b w") (simp add: client_step_def)
next
  case (OpFence g)
  then show ?thesis by (simp add: client_step_def fence_def progress_def manager_inv_def)
qed

lemma reconcile_progress: "progress w (snd (reconcile env g w))"
proof (cases "neutralize env g w")
  case (Pair e w1)
  then show ?thesis
    using neutralize_result(2) [OF Pair]
    by (auto simp: reconcile_def Let_def progress_def stays_def mark_uncertain_def manager_inv_def split: option.splits)
qed

lemma advance_progress: "progress w (snd (advanceGeneration env g w))"
proof (cases "neutralize env (mg_generation (w_manager w)) w")
  case (Pair e w1)
  then show ?thesis
    using neutralize_result(2) [OF Pair]
    by (auto simp: advanceGeneration_def Let_def progress_def stays_def mark_uncertain_def manager_inv_def not_le
        split: option.splits)
qed

lemma manager_step_progress: "progress w (manager_step env w p)"
  by (cases p) (simp_all add: manager_step_def client_step_progress reconcile_progress advance_progress)

interpretation manager_runs: ranked_machine "manager_step env" "\<lambda>w. manager_inv (w_manager w)" "\<lambda>w. mg_generation (w_manager w)"
  for env
  using manager_step_progress by unfold_locales (auto simp: progress_def)

interpretation client_runs: latched_machine "client_step env" "\<lambda>w. True" "\<lambda>w. mg_uncertain (w_manager w)"
  for env
  using client_step_progress by unfold_locales auto

lemma acquire_uncertain:
  assumes "mg_uncertain (w_manager w)"
  shows "fst (acquire env g w) = Inl [ErrInputUncertain]"
proof (cases "tick env w")
  case (Pair r w1)
  then show ?thesis using tick_result [OF Pair] assms by (auto simp: acquire_def stays_def)
qed

section \<open>Properties\<close>

text \<open>
  A manager on generation 7 with the default limits and an observer, and an outside that answers
  every call without error at one instant.
\<close>

definition ex_manager :: manager where
  "ex_manager =
     \<lparr>mg_observer = True, mg_generation = 7, mg_active = zero_nonce, mg_active_cancel = False,
      mg_lease_held = False, mg_uncertain = False, mg_limits = default_limits,
      mg_cleanup_timeout = seconds 2, mg_last_pointer = origin\<rparr>"

definition ex_world :: world where
  "ex_world = \<lparr>w_manager = ex_manager, w_tick = 0, w_wire = []\<rparr>"

definition ex_reply :: reply where
  "ex_reply =
     \<lparr>er_fence = False, er_error = None, er_now = seconds 110, er_nonce = [1],
      er_observation = \<lparr>os_id = ''shot'', os_generation = 7\<rparr>, er_hold = \<lparr>hs_ticks = [], hs_end = None\<rparr>\<rparr>"

definition ex_env :: env where
  "ex_env n = ex_reply"

text \<open>The same outside, with a fence at point \<open>k\<close>.\<close>

definition ex_fenced :: "nat \<Rightarrow> env" where
  "ex_fenced k n = (if n = k then ex_reply\<lparr>er_fence := True\<rparr> else ex_reply)"

lemma accepted_status:
  assumes "manager_run_actions env g b w = (r, None, w')"
  shows "br_status r \<noteq> BatchNone"
  using assms
proof (cases rule: manager_run_cases)
  case (ran l w1 now items r0 e0 w0 l')
  note held = run_actions_held [OF ran(3) acquire_result(1) [OF ran(1)]]
  from finish_run_result(8) [OF ran(4) held(1) ran(6)] ran(5) show ?thesis by auto
qed simp

lemmas ex_defs = ex_env_def ex_fenced_def ex_reply_def ex_world_def ex_manager_def

lemma ex_quiet: "quiet ex_env 7 (seconds 110)"
  by (simp add: quiet_def ex_defs)

lemma ex_world_limits [simp]: "mg_limits (w_manager ex_world) = default_limits"
  by (simp add: ex_defs)

lemma ex_runs: "\<exists>r w'. manager_run_actions ex_env 7 ex_batch ex_world = (r, None, w')"
proof -
  have "fst (snd (manager_run_actions ex_env 7 ex_batch ex_world)) = None"
    by (rule quiet_manager_run [OF ex_quiet])
      (use ex_batch_compiles default_limits_small in \<open>simp_all add: ex_batch_def binding_small_def ex_binding_def ex_defs\<close>)
  then show ?thesis by (metis prod.collapse)
qed

lemma ex_world_inv: "manager_inv (w_manager ex_world)"
  by (simp add: manager_inv_def coord_ok_def ex_defs)

text \<open>
  C3: whatever the outside does, a run that produces a receipt ends with the four neutralizing
  calls (keyboard up, pointer buttons up at the last known position, relative motion zero, flush)
  and the lease free; what it sent before them is, keepalives aside, a prefix of exactly the calls
  the compiled batch stands for, at the lease's generation.
\<close>

theorem run_always_neutralizes:
  assumes "manager_run_actions env g b w = (r, e, w')" and "br_status r \<noteq> BatchNone"
    and "manager_inv (w_manager w)"
  shows "\<exists>now items sent p. compileBatch b (mg_limits (w_manager w)) g now = Inr items \<and>
    prefix (strip sent) (batch_calls g items) \<and> coord_ok p \<and>
    w_wire w' = w_wire w @ sent @ neutral_calls g p \<and> \<not> mg_lease_held (w_manager w')"
  using assms(1)
proof (cases rule: manager_run_cases)
  case unsent
  then show ?thesis using assms(2) by simp
next
  case (ran l w1 now items r0 e0 w0 l')
  note aq = acquire_result [OF ran(1)]
  have inv1: "manager_inv (w_manager w1)" using assms(3) aq(6) by (simp add: manager_inv_def)
  note held = run_actions_held [OF ran(3) aq(1)]
  note fin = finish_run_result [OF ran(4) held(1) ran(6)]
  obtain sent where sent: "w_wire w0 = w_wire w1 @ sent" "prefix (strip sent) (batch_calls g items)"
    using ran(3) by (auto simp: sends_def)
  show ?thesis
    using ran(2) sent held(2) [OF inv1] fin(1,2) aq(2,4)
    by (intro exI [of _ now] exI [of _ items] exI [of _ sent] exI [of _ "mg_last_pointer (w_manager w0)"])
      (simp add: manager_inv_def)
qed

theorem run_always_neutralizes_witness:
  "\<exists>r e w' sent p. manager_run_actions ex_env 7 ex_batch ex_world = (r, e, w') \<and>
     w_wire w' = sent @ neutral_calls 7 p \<and> \<not> mg_lease_held (w_manager w')"
proof -
  obtain r w' where run: "manager_run_actions ex_env 7 ex_batch ex_world = (r, None, w')" using ex_runs by blast
  from run_always_neutralizes [OF run accepted_status [OF run] ex_world_inv] run show ?thesis
    by (auto simp: ex_world_def)
qed

text \<open>
  a run that returns no receipt (no lease, a fenced manager, a batch that does not compile)
  has sent nothing, and says so with an error.
\<close>

theorem rejected_run_sends_nothing:
  assumes "manager_run_actions env g b w = (r, e, w')" and "br_status r = BatchNone"
  shows "e \<noteq> None \<and> w_wire w' = w_wire w \<and> r = zero_receipt"
  using assms(1)
proof (cases rule: manager_run_cases)
  case unsent
  then show ?thesis by simp
next
  case (ran l w1 now items r0 e0 w0 l')
  note held = run_actions_held [OF ran(3) acquire_result(1) [OF ran(1)]]
  from finish_run_result(8) [OF ran(4) held(1) ran(6)] ran(5) assms(2) show ?thesis by auto
qed

theorem rejected_run_sends_nothing_witness:
  "\<exists>e w'. manager_run_actions ex_env 7 \<lparr>ba_observation = None, ba_actions = []\<rparr> ex_world = (zero_receipt, e, w') \<and>
     e \<noteq> None \<and> w_wire w' = []"
proof -
  obtain r e w' where run: "manager_run_actions ex_env 7 \<lparr>ba_observation = None, ba_actions = []\<rparr> ex_world = (r, e, w')"
    by (metis prod_cases3)
  then have "br_status r = BatchNone"
    by (auto simp: manager_run_actions_def acquire_def tick_def run_actions_def ensureValid_def validateToken_def
        token_error_def compileBatch_def ex_defs split: prod.splits)
  from rejected_run_sends_nothing [OF run this] run show ?thesis by (auto simp: ex_world_def)
qed

text \<open>
  C14: a nil error is a complete success: every action of the batch is accepted, every call it
  stands for was made, in order and nothing else but keepalives, and the neutral state was sent and
  confirmed.
\<close>

theorem accepted_run_is_complete:
  assumes "manager_run_actions env g b w = (r, None, w')"
  shows "\<exists>now items sent p. compileBatch b (mg_limits (w_manager w)) g now = Inr items \<and>
    strip sent = batch_calls g items \<and> w_wire w' = w_wire w @ sent @ neutral_calls g p \<and>
    br_status r = BatchAccepted \<and> br_neutralized r \<and>
    map ar_type (br_actions r) = map ac_type (ba_actions b) \<and>
    map ar_status (br_actions r) = replicate (length (ba_actions b)) ActionAccepted"
  using assms
proof (cases rule: manager_run_cases)
  case unsent
  then show ?thesis by simp
next
  case (ran l w1 now items r0 e0 w0 l')
  note aq = acquire_result [OF ran(1)]
  note held = run_actions_held [OF ran(3) aq(1)]
  note fin = finish_run_result [OF ran(4) held(1) ran(6)]
  have neutralized: "br_neutralized r" using fin(10) by blast
  with fin(9) have r: "r = r0\<lparr>br_neutralized := True\<rparr>" "e0 = None" by auto
  obtain sent where sent: "w_wire w0 = w_wire w1 @ sent" "strip sent = batch_calls g items"
    using ran(3) r(2) by (auto simp: sends_def)
  have types: "map ca_type items = map ac_type (ba_actions b)" using ran(2) by (rule compileBatch_types)
  then have "length items = length (ba_actions b)" by (metis length_map)
  then show ?thesis
    using ran(2,7,8) sent fin(1) aq(2,4) r types
    by (intro exI [of _ now] exI [of _ items] exI [of _ sent] exI [of _ "mg_last_pointer (w_manager w0)"]) simp
qed

theorem accepted_run_is_complete_witness:
  "\<exists>r w'. manager_run_actions ex_env 7 ex_batch ex_world = (r, None, w') \<and>
     map ar_status (br_actions r) = replicate 4 ActionAccepted"
proof -
  obtain r w' where run: "manager_run_actions ex_env 7 ex_batch ex_world = (r, None, w')" using ex_runs by blast
  have n: "length (ba_actions ex_batch) = 4" by (simp add: ex_batch_def)
  from accepted_run_is_complete [OF run] run show ?thesis unfolding n by blast
qed

text \<open>
  with an outside that answers without errors and no fence, a batch that compiles is carried
  out: the manager returns no error.
\<close>

theorem undisturbed_run_succeeds:
  assumes "quiet env g t" and "compileBatch b (mg_limits (w_manager w)) g t = Inr items"
    and "binding_small (ba_observation b)" and "limits_small (mg_limits (w_manager w))"
    and "mg_generation (w_manager w) = g" and "\<not> mg_lease_held (w_manager w)"
    and "\<not> mg_uncertain (w_manager w)" and "mg_observer (w_manager w)"
  shows "fst (snd (manager_run_actions env g b w)) = None"
  using assms(1,3,2,5-8,4) by (rule quiet_manager_run)

theorem undisturbed_run_succeeds_witness: "fst (snd (manager_run_actions ex_env 7 ex_batch ex_world)) = None"
  by (rule undisturbed_run_succeeds [OF ex_quiet])
    (use ex_batch_compiles default_limits_small in \<open>simp_all add: ex_batch_def binding_small_def ex_binding_def ex_defs\<close>)

text \<open>
  the statuses tell what may be retried: an action reported \<open>failed\<close> (not
  \<open>ambiguous\<close>) has made no call that changes the device, at most a screenshot capture.
\<close>

theorem failed_action_was_not_sent:
  assumes "execute_action env l a w = ((ActionFailed, ob, e), w')" and "item_ok li a"
  shows "\<exists>sent. w_wire w' = w_wire w @ sent \<and> list_all is_capture sent"
  using assms by (rule execute_failed)

theorem failed_action_was_not_sent_witness:
  "\<exists>ob e w'. execute_action ex_env \<lparr>le_generation = 6, le_nonce = [], le_released = False\<rparr>
       (blank_item (ex_action ActionScreenshot)) ex_world = ((ActionFailed, ob, e), w') \<and>
     (\<exists>sent. w_wire w' = sent \<and> list_all is_capture sent)"
proof -
  obtain w' where run: "execute_action ex_env \<lparr>le_generation = 6, le_nonce = [], le_released = False\<rparr>
       (blank_item (ex_action ActionScreenshot)) ex_world = ((ActionFailed, no_observation, Some [ErrStaleGeneration]), w')"
    by (simp add: execute_action_def ensureValid_def validateToken_def tick_def token_error_def or_fail_def ex_defs)
  have "item_ok default_limits (blank_item (ex_action ActionScreenshot))" by (simp add: item_ok_def ex_action_def)
  from failed_action_was_not_sent [OF run this] run show ?thesis by (auto simp: ex_world_def)
qed

text \<open>
  uncertainty latches: once the manager is uncertain no acquire, run, release or fence makes
  it ready again, and no lease is granted; only reconciliation or a new generation can.
\<close>

theorem uncertain_until_reconciled:
  assumes "mg_uncertain (w_manager w)"
  shows "mg_uncertain (w_manager (foldl (client_step env) w ops)) \<and>
    fst (acquire env g (foldl (client_step env) w ops)) = Inl [ErrInputUncertain]"
proof -
  have "mg_uncertain (w_manager (foldl (client_step env) w ops))"
    by (rule client_runs.run_latched) (simp_all add: assms)
  then show ?thesis by (simp add: acquire_uncertain)
qed

theorem uncertain_until_reconciled_witness:
  "mg_uncertain (w_manager (foldl (client_step ex_env) (mark_uncertain ex_world) [OpRun 7 ex_batch, OpFence 7]))"
  by (rule uncertain_until_reconciled [THEN conjunct1]) (simp add: mark_uncertain_def)

text \<open>
  the input generation never goes back over any sequence of operations, and the pointer position
  used to neutralize stays one the protocol can send.
\<close>

theorem generation_never_goes_back:
  assumes "manager_inv (w_manager w)"
  shows "mg_generation (w_manager w) \<le> mg_generation (w_manager (foldl (manager_step env) w ops)) \<and>
    manager_inv (w_manager (foldl (manager_step env) w ops))"
  using manager_runs.run_rank [of w env ops] manager_runs.run_inv [of w env ops] assms by simp

theorem generation_never_goes_back_witness:
  "7 \<le> mg_generation (w_manager (foldl (manager_step ex_env) ex_world [OpAdvance 9, Client (OpRun 9 ex_batch)]))"
  using generation_never_goes_back [OF ex_world_inv, of ex_env "[OpAdvance 9, Client (OpRun 9 ex_batch)]"]
  by (simp add: ex_world_def ex_manager_def)

text \<open>
  a fence between the acquisition of the lease and the first check of the run leaks it:
  \<open>RunActions\<close> returns without releasing the lease, and from then on neither
  \<open>Reconcile\<close> nor \<open>AdvanceGeneration\<close> can succeed, whatever the outside answers.
\<close>

theorem fence_after_acquire_leaks_lease:
  assumes "acquire env g w = (Inr l, w1)" and "er_fence (env (w_tick w1))"
  shows "\<exists>w'. manager_run_actions env g b w = (zero_receipt, Some [ErrInputUncertain], w') \<and>
    mg_lease_held (w_manager w') \<and>
    (\<forall>env2 g2. fst (reconcile env2 g2 w') \<noteq> None \<and> fst (advanceGeneration env2 g2 w') \<noteq> None)"
proof -
  note aq = acquire_result [OF assms(1)]
  obtain r w2 where t: "tick env w1 = (r, w2)" by fastforce
  have u: "mg_uncertain (w_manager w2)" "mg_lease_held (w_manager w2)"
    using tick_result [OF t] assms(2) aq(1) by (auto simp: holds_def)
  have "run_actions env l b w1 = (zero_receipt, Some [ErrInputUncertain], l, w2)"
    using t u aq(1) by (simp add: run_actions_def ensureValid_def validateToken_def token_error_def holds_def)
  then have "manager_run_actions env g b w = (zero_receipt, Some [ErrInputUncertain], w2)"
    using assms(1) by (simp add: manager_run_actions_def)
  then show ?thesis using u by (auto simp: reconcile_def advanceGeneration_def Let_def)
qed

theorem fence_after_acquire_leaks_lease_witness:
  "\<exists>w'. manager_run_actions (ex_fenced 1) 7 ex_batch ex_world = (zero_receipt, Some [ErrInputUncertain], w') \<and>
     mg_lease_held (w_manager w')"
proof -
  obtain l w1 where a: "acquire (ex_fenced 1) 7 ex_world = (Inr l, w1)" "er_fence (ex_fenced 1 (w_tick w1))"
    by (simp add: acquire_def tick_def ex_defs)
  from fence_after_acquire_leaks_lease [OF a] show ?thesis by blast
qed

text \<open>
  a fence just before the run registers its cancellation gives a receipt that contradicts its
  error: nothing was started, the error says the input state is uncertain, and the receipt still
  says \<open>accepted\<close> and neutralized.
\<close>

theorem unstarted_run_reports_accepted:
  "\<exists>r w'. manager_run_actions (ex_fenced 3) 7 ex_batch ex_world = (r, Some [ErrInputUncertain], w') \<and>
     br_status r = BatchAccepted \<and> br_neutralized r \<and>
     map ar_status (br_actions r) = replicate 4 ActionNotStarted"
proof -
  obtain items where "compileBatch ex_batch default_limits 7 110000000000 = Inr items" "length items = 4"
    using ex_batch_compiles by simp
  then show ?thesis
    by (simp add: manager_run_actions_def acquire_def tick_def run_actions_def ensureValid_def validateToken_def
        token_error_def setActiveCancel_def finish_run_def release_def beginRelease_def neutralize_def
        neutral_calls_def neutral_frames_def transport_def finishRelease_def initial_receipts_map fence_def
        Let_def ex_defs)
qed

text \<open>
  \<open>Reconcile\<close> succeeds only after all four neutralizing calls were confirmed, and then the
  manager is ready: also when a fence arrived between those calls, which it overwrites.
\<close>

theorem reconcile_overwrites_concurrent_fence:
  assumes "reconcile env g w = (None, w')"
  shows "\<not> mg_uncertain (w_manager w') \<and>
    w_wire w' = w_wire w @ neutral_calls g (mg_last_pointer (w_manager w))"
  using assms neutralize_result(1) by (auto simp: reconcile_def Let_def split: if_splits prod.splits option.splits)

theorem reconcile_overwrites_concurrent_fence_witness:
  "\<exists>w'. reconcile (ex_fenced 2) 7 ex_world = (None, w') \<and> \<not> mg_uncertain (w_manager w')"
proof -
  obtain w' where "reconcile (ex_fenced 2) 7 ex_world = (None, w')"
    by (simp add: reconcile_def neutralize_def neutral_calls_def neutral_frames_def transport_def tick_def ex_defs Let_def)
  from reconcile_overwrites_concurrent_fence [OF this] this show ?thesis by blast
qed

end
