(* ===== verification/Control_Actor.thy ===== *)
theory Control_Actor
  imports Domain
begin

text \<open>
  \<open>internal/control/actor.go\<close>: the per-device actor that owns a control session, its cross-process
  lock and its handle. The actor's goroutine runs one command at a time, so a command is a function on
  the actor's state; \<open>aw_calls\<close> logs the calls it makes to the locker, the session factory and
  the session. The script \<open>env\<close> answers every clock read, hid generation and external call, and
  says whether the caller's context was already cancelled; the theorems hold for every script.
  A caller that stops waiting (\<open>await\<close>) sees its context's cause instead of the command's
  result, the command's effect being the same; \<open>execute\<close> alone joins its command. \<open>early\<close> is what a caller read from
  \<open>draining\<close> before it submitted the command: it may be false though the flag is set by the time
  the command runs.
\<close>

section \<open>Data\<close>

datatype control_error =
    ErrInvalidConfig | ErrControlNotFound | ErrControlExpired | ErrGenerationMismatch | ErrControlBusy
  | ErrRegistryClosed | ErrCapabilityMissing | ErrExternal nat

type_synonym control_errors = "control_error list"

datatype transport_state = TransportRunning | TransportDraining | TransportClosed

datatype session_state =
    SessionAbsent | SessionOpening | SessionReady | SessionDraining | SessionClosing | SessionClosed | SessionUncertain

datatype handle_state = HandleReady | HandleDraining | HandleExpired | HandleClosed | HandleFenced

text \<open>The empty string, the zero \<open>Ownership\<close>, is \<open>OwnershipOther []\<close>.\<close>

datatype ownership = OwnershipOwned | OwnershipAttached | OwnershipOther string

type_synonym handle_id = string

record handle =
  hd_id :: handle_id
  hd_device :: device_id
  hd_generation :: u64
  hd_ownership :: ownership
  hd_capabilities :: "string list"
  hd_state :: handle_state
  hd_created :: time
  hd_last_used :: time
  hd_idle_expires :: time
  hd_absolute_expires :: time

record ref =
  rf_id :: handle_id
  rf_generation :: u64

record open_request =
  rq_device :: device_id
  rq_capabilities :: "string list"
  rq_ownership :: ownership
  rq_idle :: duration
  rq_absolute :: duration

text \<open>Sessions and locks are known by tokens the factory and the locker return.\<close>

record actor_state =
  as_session_state :: session_state
  as_session :: "nat option"
  as_lock :: "nat option"
  as_generation :: u64
  as_current :: "handle option"
  as_history :: "(handle_id \<times> handle) list"
  as_idle_timeout :: duration

datatype call =
    CallAcquire device_id
  | CallRelease nat
  | CallOpen device_id u64 "string list"
  | CallClose nat
  | CallDisconnect nat
  | CallExecute nat

record answer =
  an_cancelled :: "control_errors option"
  an_now :: time
  an_id :: handle_id
  an_error :: "control_errors option"
  an_token :: "nat option"

type_synonym control_env = "nat \<Rightarrow> answer"

record actor =
  aw_device :: device_id
  aw_state :: actor_state
  aw_draining :: bool
  aw_done :: bool
  aw_tick :: nat
  aw_calls :: "call list"

definition newActor :: "device_id \<Rightarrow> actor" where
  "newActor dev =
     \<lparr>aw_device = dev,
      aw_state =
        \<lparr>as_session_state = SessionAbsent, as_session = None, as_lock = None, as_generation = 0,
         as_current = None, as_history = [], as_idle_timeout = 0\<rparr>,
      aw_draining = False, aw_done = False, aw_tick = 0, aw_calls = []\<rparr>"

section \<open>The outside\<close>

definition ask :: "control_env \<Rightarrow> actor \<Rightarrow> answer \<times> actor" where
  "ask env a = (env (aw_tick a), a\<lparr>aw_tick := Suc (aw_tick a)\<rparr>)"

definition call_out :: "control_env \<Rightarrow> call \<Rightarrow> actor \<Rightarrow> answer \<times> actor" where
  "call_out env c a = (let (r, a1) = ask env a in (r, a1\<lparr>aw_calls := aw_calls a1 @ [c]\<rparr>))"

abbreviation upd :: "(actor_state \<Rightarrow> actor_state) \<Rightarrow> actor \<Rightarrow> actor" where
  "upd f a \<equiv> a\<lparr>aw_state := f (aw_state a)\<rparr>"

section \<open>Handles\<close>

definition hasCapabilities :: "string list \<Rightarrow> string list \<Rightarrow> bool" where
  "hasCapabilities available requested \<longleftrightarrow> list_all (\<lambda>c. c \<in> set available) requested"

definition validate_ref :: "ref \<Rightarrow> actor_state \<Rightarrow> control_errors + handle" where
  "validate_ref r s =
     (let missing =
        (case map_of (as_history s) (rf_id r) of
           None \<Rightarrow> Inl [ErrControlNotFound]
         | Some h \<Rightarrow>
             if hd_generation h \<noteq> rf_generation r then Inl [ErrGenerationMismatch]
             else if hd_state h = HandleExpired then Inl [ErrControlExpired]
             else if hd_state h = HandleFenced then Inl [ErrGenerationMismatch]
             else Inl [ErrControlNotFound])
      in (case as_current s of
            None \<Rightarrow> missing
          | Some h \<Rightarrow>
              if hd_id h \<noteq> rf_id r then missing
              else if hd_generation h \<noteq> rf_generation r then Inl [ErrGenerationMismatch]
              else if hd_state h = HandleExpired then Inl [ErrControlExpired]
              else if hd_state h \<noteq> HandleReady then Inl [ErrControlBusy]
              else Inr h))"

text \<open>\<open>touch\<close> on the current handle; the source dereferences it, so it is there.\<close>

definition touch :: "time \<Rightarrow> actor_state \<Rightarrow> actor_state" where
  "touch now s =
     s\<lparr>as_current := map_option (\<lambda>h.
         (let expiry = now + as_idle_timeout s
          in h\<lparr>hd_last_used := now,
               hd_idle_expires := (if expiry > hd_absolute_expires h then hd_absolute_expires h else expiry)\<rparr>))
       (as_current s)\<rparr>"

definition set_history :: "handle \<Rightarrow> actor_state \<Rightarrow> actor_state" where
  "set_history h s = s\<lparr>as_history := (hd_id h, h) # filter (\<lambda>p. fst p \<noteq> hd_id h) (as_history s)\<rparr>"

definition newHandleID :: "control_env \<Rightarrow> actor \<Rightarrow> (control_errors + handle_id) \<times> actor" where
  "newHandleID env a0 =
     (let (r, a) = ask env a0; hid = an_id r; s = aw_state a
      in if hid = [] then (Inl [ErrInvalidConfig], a)
         else if (case as_current s of None \<Rightarrow> False | Some h \<Rightarrow> hd_id h = hid) then (Inl [ErrInvalidConfig], a)
         else if map_of (as_history s) hid \<noteq> None then (Inl [ErrInvalidConfig], a)
         else (Inr hid, a))"

section \<open>Closing a session\<close>

definition releaseLock :: "control_env \<Rightarrow> actor \<Rightarrow> control_errors option \<times> actor" where
  "releaseLock env a =
     (case as_lock (aw_state a) of
        None \<Rightarrow> (None, a)
      | Some l \<Rightarrow>
          (let (r, a1) = call_out env (CallRelease l) a
           in (case an_error r of
                 None \<Rightarrow> (None, upd (\<lambda>s. s\<lparr>as_lock := None\<rparr>) a1)
               | Some e \<Rightarrow> (Some e, a1))))"

text \<open>The session of a handle \<open>h\<close>, closed when owned and disconnected when attached.\<close>

definition end_session :: "control_env \<Rightarrow> handle \<Rightarrow> actor \<Rightarrow> control_errors option \<times> actor" where
  "end_session env h a =
     (case as_session (aw_state a) of
        None \<Rightarrow> (None, a)
      | Some t \<Rightarrow>
          (let (r, a1) = call_out env (if hd_ownership h = OwnershipOwned then CallClose t else CallDisconnect t) a
           in (case an_error r of
                 None \<Rightarrow> (None, upd (\<lambda>s. s\<lparr>as_session := None\<rparr>) a1)
               | Some e \<Rightarrow> (Some e, a1))))"

definition closeSession ::
    "control_env \<Rightarrow> handle_state \<Rightarrow> handle \<Rightarrow> actor \<Rightarrow> (handle \<times> control_errors option) \<times> actor" where
  "closeSession env terminal h a =
     (case end_session env h (upd (\<lambda>s. s\<lparr>as_session_state := SessionClosing\<rparr>) a) of
        (Some e, a1) \<Rightarrow> ((h, Some e), upd (\<lambda>s. s\<lparr>as_session_state := SessionUncertain\<rparr>) a1)
      | (None, a1) \<Rightarrow>
          (case releaseLock env a1 of
             (Some e, a2) \<Rightarrow> ((h, Some e), upd (\<lambda>s. s\<lparr>as_session_state := SessionUncertain\<rparr>) a2)
           | (None, a2) \<Rightarrow>
               (let h' = h\<lparr>hd_state := terminal\<rparr>
                in ((h', None),
                    upd (\<lambda>s. (set_history h' s)\<lparr>as_current := None, as_session_state := SessionClosed\<rparr>) a2))))"

text \<open>The current handle is marked draining before its session is closed.\<close>

definition drain_current ::
    "control_env \<Rightarrow> handle_state \<Rightarrow> handle \<Rightarrow> actor \<Rightarrow> (handle \<times> control_errors option) \<times> actor" where
  "drain_current env terminal h a =
     (let h' = h\<lparr>hd_state := HandleDraining\<rparr>
      in closeSession env terminal h'
           (upd (\<lambda>s. s\<lparr>as_current := Some h', as_session_state := SessionDraining\<rparr>) a))"

definition expireIfNeeded :: "control_env \<Rightarrow> time \<Rightarrow> actor \<Rightarrow> actor" where
  "expireIfNeeded env now a0 =
     (let a = upd (\<lambda>s. s\<lparr>as_history := filter (\<lambda>p. now < hd_absolute_expires (snd p)) (as_history s)\<rparr>) a0
      in (case as_current (aw_state a) of
            None \<Rightarrow> a
          | Some h \<Rightarrow>
              if hd_state h \<noteq> HandleReady then a
              else if now < hd_idle_expires h \<and> now < hd_absolute_expires h then a
              else snd (drain_current env HandleExpired h a)))"

section \<open>Commands\<close>

text \<open>
  The answer at the head of a command carries its clock and whether its context is cancelled. The
  source calls \<open>Close\<close> on the session of a ready handle without a nil check; the invariant
  below shows that the session is there.
\<close>

definition open_fresh :: "control_env \<Rightarrow> open_request \<Rightarrow> time \<Rightarrow> actor \<Rightarrow> (control_errors + handle) \<times> actor" where
  "open_fresh env rq now a0 =
     (case newHandleID env a0 of
        (Inl e, a) \<Rightarrow> (Inl e, a)
      | (Inr hid, a) \<Rightarrow>
          (let dev = aw_device a;
               (rl, a1) = call_out env (CallAcquire dev) (upd (\<lambda>s. s\<lparr>as_session_state := SessionOpening\<rparr>) a);
               absent = upd (\<lambda>s. s\<lparr>as_session_state := SessionAbsent\<rparr>)
           in (case (an_error rl, an_token rl) of
                 (Some e, _) \<Rightarrow> (Inl e, absent a1)
               | (None, None) \<Rightarrow> (Inl [ErrInvalidConfig], absent a1)
               | (None, Some lock) \<Rightarrow>
                   (let generation = as_generation (aw_state a1) + 1;
                        (rs, a2) = call_out env (CallOpen dev generation (rq_capabilities rq)) a1;
                        fail = (\<lambda>e. (let (rr, a3) = call_out env (CallRelease lock) a2
                                     in (Inl (e @ (case an_error rr of None \<Rightarrow> [] | Some x \<Rightarrow> x)), absent a3)))
                    in (case (an_error rs, an_token rs) of
                          (Some e, _) \<Rightarrow> fail e
                        | (None, None) \<Rightarrow> fail [ErrInvalidConfig]
                        | (None, Some session) \<Rightarrow>
                            (let h = \<lparr>hd_id = hid, hd_device = dev, hd_generation = generation,
                                      hd_ownership = rq_ownership rq, hd_capabilities = rq_capabilities rq,
                                      hd_state = HandleReady, hd_created = now, hd_last_used = now,
                                      hd_idle_expires = now + rq_idle rq, hd_absolute_expires = now + rq_absolute rq\<rparr>
                             in (Inr h,
                                 upd (\<lambda>s. s\<lparr>as_generation := generation, as_lock := Some lock,
                                            as_session := Some session, as_session_state := SessionReady,
                                            as_current := Some h, as_idle_timeout := rq_idle rq\<rparr>) a2)))))))"

text \<open>Reusing the current handle: the lifetimes can only shrink.\<close>

definition open_shared :: "open_request \<Rightarrow> time \<Rightarrow> handle \<Rightarrow> actor_state \<Rightarrow> (control_errors + handle) \<times> actor_state" where
  "open_shared rq now h s =
     (if rq_ownership rq \<noteq> hd_ownership h \<or> \<not> hasCapabilities (hd_capabilities h) (rq_capabilities rq)
      then (Inl [ErrControlBusy], s)
      else
        (let requested = hd_created h + rq_absolute rq;
             h1 = (if requested < hd_absolute_expires h then h\<lparr>hd_absolute_expires := requested\<rparr> else h);
             s1 = touch now (s\<lparr>as_idle_timeout := min (as_idle_timeout s) (rq_idle rq), as_current := Some h1\<rparr>)
         in (case as_current s1 of Some h2 \<Rightarrow> (Inr h2, s1) | None \<Rightarrow> (Inl [ErrControlBusy], s1))))"

definition actor_open :: "control_env \<Rightarrow> bool \<Rightarrow> open_request \<Rightarrow> actor \<Rightarrow> (control_errors + handle) \<times> actor" where
  "actor_open env early rq a0 =
     (if early then (Inl [ErrControlBusy], a0)
      else if aw_done a0 then (Inl [ErrRegistryClosed], a0)
      else
        (let (r, a1) = ask env a0
         in (case an_cancelled r of
               Some e \<Rightarrow> (Inl e, a1)
             | None \<Rightarrow>
                 if aw_draining a1 then (Inl [ErrControlBusy], a1)
                 else
                   (let now = an_now r; a = expireIfNeeded env now a1
                    in (case as_current (aw_state a) of
                          Some h \<Rightarrow>
                            if hd_state h = HandleReady
                            then (let (res, s) = open_shared rq now h (aw_state a) in (res, a\<lparr>aw_state := s\<rparr>))
                            else open_fresh env rq now a
                        | None \<Rightarrow> open_fresh env rq now a)))))"

definition actor_snapshot ::
    "control_env \<Rightarrow> ref \<Rightarrow> bool \<Rightarrow> actor \<Rightarrow> (control_errors + handle) \<times> session_state \<times> actor" where
  "actor_snapshot env r touching a0 =
     (if aw_done a0 then (Inl [ErrRegistryClosed], SessionAbsent, a0)
      else
        (let (an, a1) = ask env a0; now = an_now an; a = expireIfNeeded env now a1
         in (case validate_ref r (aw_state a) of
               Inl e \<Rightarrow> (Inl e, as_session_state (aw_state a), a)
             | Inr h \<Rightarrow>
                 if touching \<and> hd_state h = HandleReady
                 then (let a2 = upd (touch now) a
                       in ((case as_current (aw_state a2) of Some h2 \<Rightarrow> Inr h2 | None \<Rightarrow> Inr h),
                           as_session_state (aw_state a2), a2))
                 else (Inr h, as_session_state (aw_state a), a))))"

text \<open>
  \<open>execute\<close> up to its callback: the session the callback is to run on. A caller whose context
  ends while it waits joins the callback all the same, and gets its context's cause joined to the result.
\<close>

definition actor_admit :: "control_env \<Rightarrow> bool \<Rightarrow> ref \<Rightarrow> string \<Rightarrow> actor \<Rightarrow> (control_errors + nat) \<times> actor" where
  "actor_admit env early r capability a0 =
     (if early then (Inl [ErrControlBusy], a0)
      else if aw_done a0 then (Inl [ErrRegistryClosed], a0)
      else
        (let (an, a1) = ask env a0
         in (case an_cancelled an of
               Some e \<Rightarrow> (Inl e, a1)
             | None \<Rightarrow>
                 if aw_draining a1 then (Inl [ErrControlBusy], a1)
                 else
                   (let a = expireIfNeeded env (an_now an) a1
                    in (case validate_ref r (aw_state a) of
                          Inl e \<Rightarrow> (Inl e, a)
                        | Inr h \<Rightarrow>
                            if \<not> hasCapabilities (hd_capabilities h) [capability] then (Inl [ErrCapabilityMissing], a)
                            else
                              (case as_session (aw_state a) of
                                 None \<Rightarrow> (Inl [ErrControlBusy], a)
                               | Some t \<Rightarrow>
                                   if as_session_state (aw_state a) \<noteq> SessionReady then (Inl [ErrControlBusy], a)
                                   else (Inr t, a)))))))"

definition actor_executed :: "control_env \<Rightarrow> nat \<Rightarrow> actor \<Rightarrow> control_errors option \<times> actor" where
  "actor_executed env t a =
     (let (ex, a2) = call_out env (CallExecute t) a;
          (clock, a3) = ask env a2
      in (an_error ex, upd (touch (an_now clock)) a3))"

definition actor_execute :: "control_env \<Rightarrow> bool \<Rightarrow> ref \<Rightarrow> string \<Rightarrow> actor \<Rightarrow> control_errors option \<times> actor" where
  "actor_execute env early r capability a0 =
     (case actor_admit env early r capability a0 of
        (Inl e, a) \<Rightarrow> (Some e, a)
      | (Inr t, a) \<Rightarrow> actor_executed env t a)"

text \<open>The second half of \<open>reconnect\<close>: a new session of the next generation under the lock still held.\<close>

definition reopen_session ::
    "control_env \<Rightarrow> handle_id \<Rightarrow> duration \<Rightarrow> duration \<Rightarrow> handle \<Rightarrow> actor \<Rightarrow> (control_errors + handle) \<times> actor" where
  "reopen_session env hid idle lifetime old a =
     (let generation = as_generation (aw_state a) + 1;
          (op, a1) = call_out env (CallOpen (aw_device a) generation (hd_capabilities old)) a;
          fail = (\<lambda>e. (let (le, a2) = releaseLock env (upd (\<lambda>s. s\<lparr>as_session_state := SessionClosed\<rparr>) a1)
                       in (Inl (e @ (case le of None \<Rightarrow> [] | Some x \<Rightarrow> x)), a2)))
      in (case (an_error op, an_token op) of
            (Some e, _) \<Rightarrow> fail e
          | (None, None) \<Rightarrow> fail [ErrInvalidConfig]
          | (None, Some session) \<Rightarrow>
              (let (clock, a2) = ask env a1; now = an_now clock;
                   fresh = \<lparr>hd_id = hid, hd_device = aw_device a2, hd_generation = generation,
                            hd_ownership = hd_ownership old, hd_capabilities = hd_capabilities old,
                            hd_state = HandleReady, hd_created = now, hd_last_used = now,
                            hd_idle_expires = now + idle, hd_absolute_expires = now + lifetime\<rparr>
               in (Inr fresh,
                   upd (\<lambda>s. s\<lparr>as_generation := generation, as_session := Some session,
                              as_session_state := SessionReady, as_current := Some fresh,
                              as_idle_timeout := idle\<rparr>) a2))))"

definition actor_reconnect :: "control_env \<Rightarrow> bool \<Rightarrow> ref \<Rightarrow> actor \<Rightarrow> (control_errors + handle) \<times> actor" where
  "actor_reconnect env early r a0 =
     (if early then (Inl [ErrControlBusy], a0)
      else if aw_done a0 then (Inl [ErrRegistryClosed], a0)
      else
        (let (an, a1) = ask env a0
         in (case an_cancelled an of
               Some e \<Rightarrow> (Inl e, a1)
             | None \<Rightarrow>
                 (case validate_ref r (aw_state a1) of
                    Inl e \<Rightarrow> (Inl e, a1)
                  | Inr h \<Rightarrow>
                      (case newHandleID env a1 of
                         (Inl e, a2) \<Rightarrow> (Inl e, a2)
                       | (Inr hid, a2) \<Rightarrow>
                           (let old = h\<lparr>hd_state := HandleFenced\<rparr>;
                                idle = as_idle_timeout (aw_state a2);
                                lifetime = time_sub (hd_absolute_expires old) (hd_created old);
                                a3 = upd (\<lambda>s. (set_history old s)\<lparr>as_current := None, as_session_state := SessionClosing\<rparr>) a2;
                                (cl, a4) = call_out env (CallClose (the (as_session (aw_state a3)))) a3
                            in (case an_error cl of
                                  Some e \<Rightarrow>
                                    (Inl e, upd (\<lambda>s. s\<lparr>as_session_state := SessionUncertain, as_current := Some old\<rparr>) a4)
                                | None \<Rightarrow>
                                    reopen_session env hid idle lifetime old
                                      (upd (\<lambda>s. s\<lparr>as_session := None, as_session_state := SessionOpening\<rparr>) a4))))))))"

definition actor_close :: "control_env \<Rightarrow> ref \<Rightarrow> handle_state \<Rightarrow> actor \<Rightarrow> (handle option \<times> control_errors option) \<times> actor" where
  "actor_close env r terminal a0 =
     (if aw_done a0 then ((None, Some [ErrRegistryClosed]), a0)
      else
        (let (an, a) = ask env a0
         in (case an_cancelled an of
               Some e \<Rightarrow> ((None, Some e), a)
             | None \<Rightarrow>
                 (case map_of (as_history (aw_state a)) (rf_id r) of
                    Some h \<Rightarrow>
                      if hd_generation h \<noteq> rf_generation r then ((None, Some [ErrGenerationMismatch]), a)
                      else ((Some h, None), a)
                  | None \<Rightarrow>
                      (case validate_ref r (aw_state a) of
                         Inl e \<Rightarrow> ((None, Some e), a)
                       | Inr h \<Rightarrow>
                           (case drain_current env terminal h a of
                              ((h', e), a') \<Rightarrow> ((Some h', e), a')))))))"

definition actor_expire :: "control_env \<Rightarrow> time \<Rightarrow> actor \<Rightarrow> actor" where
  "actor_expire env now a = (if aw_done a then a else expireIfNeeded env now a)"

definition actor_shutdown :: "control_env \<Rightarrow> actor \<Rightarrow> control_errors option \<times> actor" where
  "actor_shutdown env a =
     (if aw_done a then (Some [ErrRegistryClosed], a)
      else
        (case as_current (aw_state a) of
           None \<Rightarrow> (None, a\<lparr>aw_done := True\<rparr>)
         | Some h \<Rightarrow>
             (case drain_current env HandleClosed h a of
                ((h', e), a') \<Rightarrow> (e, a'\<lparr>aw_done := True\<rparr>))))"

definition beginDrain :: "actor \<Rightarrow> actor" where
  "beginDrain a = a\<lparr>aw_draining := True\<rparr>"

definition actor_quiescent :: "actor \<Rightarrow> bool" where
  "actor_quiescent a =
     (let s = aw_state a
      in as_session s = None \<and> as_lock s = None \<and> as_current s = None \<and>
         (as_session_state s = SessionAbsent \<or> as_session_state s = SessionClosed))"

section \<open>Requests and commands\<close>

text \<open>
  \<open>Registry.Open\<close> (control.go) normalizes and checks a request before the actor sees it; the
  configured lifetimes stand in for zero ones. Durations are \<open>int64\<close>.
\<close>

record control_config =
  cf_idle :: duration
  cf_absolute :: duration

definition normalizeCapabilities :: "string list \<Rightarrow> string list" where
  "normalizeCapabilities cs = remdups_adj (sort cs)"

definition prepare_open :: "control_config \<Rightarrow> bool \<Rightarrow> open_request \<Rightarrow> control_errors + open_request" where
  "prepare_open cf running rq =
     (if rq_device rq = [] \<or> rq_capabilities rq = [] then Inl [ErrInvalidConfig]
      else if \<not> running then Inl [ErrRegistryClosed]
      else
        (let caps = normalizeCapabilities (rq_capabilities rq);
             own = (if rq_ownership rq = OwnershipOther [] then OwnershipOwned else rq_ownership rq);
             idle = (if rq_idle rq = 0 then cf_idle cf else rq_idle rq);
             absolute = (if rq_absolute rq = 0 then cf_absolute cf else rq_absolute rq)
         in if hd caps = [] then Inl [ErrInvalidConfig]
            else if own \<noteq> OwnershipOwned \<and> own \<noteq> OwnershipAttached then Inl [ErrInvalidConfig]
            else if idle \<le> 0 \<or> absolute \<le> 0 \<or> idle > absolute then Inl [ErrInvalidConfig]
            else Inr \<lparr>rq_device = rq_device rq, rq_capabilities = caps, rq_ownership = own,
                      rq_idle = idle, rq_absolute = absolute\<rparr>))"

datatype actor_op =
    OpOpen bool bool open_request
  | OpSnapshot ref bool
  | OpExecute bool ref string
  | OpReconnect bool ref
  | OpClose ref
  | OpExpire time
  | OpShutdown
  | OpBeginDrain

definition typed_request :: "open_request \<Rightarrow> bool" where
  "typed_request rq \<longleftrightarrow> rq_idle rq < 2 ^ 63 \<and> rq_absolute rq < 2 ^ 63"

text \<open>
  One command on an actor. Requests whose durations are not \<open>int64\<close> do not exist in the program;
  on them the step does nothing.
\<close>

definition actor_step :: "control_env \<Rightarrow> control_config \<Rightarrow> actor \<Rightarrow> actor_op \<Rightarrow> actor" where
  "actor_step env cf a p =
     (case p of
        OpOpen early running rq \<Rightarrow>
          (case prepare_open cf running rq of
             Inl _ \<Rightarrow> a
           | Inr rq' \<Rightarrow> if typed_request rq' then snd (actor_open env early rq' a) else a)
      | OpSnapshot r touching \<Rightarrow> snd (snd (actor_snapshot env r touching a))
      | OpExecute early r capability \<Rightarrow> snd (actor_execute env early r capability a)
      | OpReconnect early r \<Rightarrow> snd (actor_reconnect env early r a)
      | OpClose r \<Rightarrow> snd (actor_close env r HandleClosed a)
      | OpExpire now \<Rightarrow> actor_expire env now a
      | OpShutdown \<Rightarrow> snd (actor_shutdown env a)
      | OpBeginDrain \<Rightarrow> beginDrain a)"

section \<open>The invariant of an actor\<close>

text \<open>
  A session is only ever held together with the lock; a ready handle has both and a ready session;
  without a current handle there is no session; the current handle is of the current generation and
  its lifetimes nest; the history holds only handles that are no longer usable.
\<close>

definition handle_times :: "duration \<Rightarrow> handle \<Rightarrow> bool" where
  "handle_times idle h \<longleftrightarrow>
     hd_idle_expires h \<le> hd_absolute_expires h \<and> idle \<le> hd_absolute_expires h - hd_created h \<and>
     hd_absolute_expires h - hd_created h < 2 ^ 63"

definition state_inv :: "actor_state \<Rightarrow> bool" where
  "state_inv s \<longleftrightarrow>
     (as_session s \<noteq> None \<longrightarrow> as_lock s \<noteq> None) \<and>
     (as_current s = None \<longrightarrow> as_session s = None) \<and>
     (case as_current s of
        None \<Rightarrow> True
      | Some h \<Rightarrow>
          hd_generation h = as_generation s \<and> handle_times (as_idle_timeout s) h \<and>
          (hd_state h = HandleReady \<longrightarrow> as_session s \<noteq> None \<and> as_session_state s = SessionReady)) \<and>
     list_all (\<lambda>(k, h). hd_state h \<noteq> HandleReady) (as_history s)"

lemma ask_simps [simp]:
  "fst (ask env a) = env (aw_tick a)" "aw_state (snd (ask env a)) = aw_state a" "aw_device (snd (ask env a)) = aw_device a"
  "aw_draining (snd (ask env a)) = aw_draining a" "aw_done (snd (ask env a)) = aw_done a"
  "aw_calls (snd (ask env a)) = aw_calls a"
  by (simp_all add: ask_def)

lemma call_out_simps [simp]:
  "fst (call_out env c a) = env (aw_tick a)" "aw_state (snd (call_out env c a)) = aw_state a"
  "aw_device (snd (call_out env c a)) = aw_device a" "aw_draining (snd (call_out env c a)) = aw_draining a"
  "aw_done (snd (call_out env c a)) = aw_done a" "aw_calls (snd (call_out env c a)) = aw_calls a @ [c]"
  by (simp_all add: call_out_def ask_def)

lemma actor_execute_unfold:
  "actor_execute env early r capability a0 =
     (if early then (Some [ErrControlBusy], a0)
      else if aw_done a0 then (Some [ErrRegistryClosed], a0)
      else
        (let (an, a1) = ask env a0
         in (case an_cancelled an of
               Some e \<Rightarrow> (Some e, a1)
             | None \<Rightarrow>
                 if aw_draining a1 then (Some [ErrControlBusy], a1)
                 else
                   (let a = expireIfNeeded env (an_now an) a1
                    in (case validate_ref r (aw_state a) of
                          Inl e \<Rightarrow> (Some e, a)
                        | Inr h \<Rightarrow>
                            if \<not> hasCapabilities (hd_capabilities h) [capability] then (Some [ErrCapabilityMissing], a)
                            else
                              (case as_session (aw_state a) of
                                 None \<Rightarrow> (Some [ErrControlBusy], a)
                               | Some t \<Rightarrow>
                                   if as_session_state (aw_state a) \<noteq> SessionReady then (Some [ErrControlBusy], a)
                                   else
                                     (let (ex, a2) = call_out env (CallExecute t) a;
                                          (clock, a3) = ask env a2
                                      in (an_error ex, upd (touch (an_now clock)) a3))))))))"
  by (simp add: actor_execute_def actor_admit_def actor_executed_def Let_def case_prod_unfold split: option.splits sum.splits)

lemma validate_ref_Ready:
  "validate_ref r s = Inr h \<longleftrightarrow>
     as_current s = Some h \<and> hd_id h = rf_id r \<and> hd_generation h = rf_generation r \<and> hd_state h = HandleReady"
  by (auto simp: validate_ref_def Let_def split: option.splits if_splits)

lemma set_history_simps [simp]:
  "as_session (set_history h s) = as_session s" "as_lock (set_history h s) = as_lock s"
  "as_generation (set_history h s) = as_generation s" "as_current (set_history h s) = as_current s"
  "as_session_state (set_history h s) = as_session_state s" "as_idle_timeout (set_history h s) = as_idle_timeout s"
  "as_history (set_history h s) = (hd_id h, h) # filter (\<lambda>p. fst p \<noteq> hd_id h) (as_history s)"
  by (simp_all add: set_history_def)

lemma state_inv_closed:
  "state_inv s \<Longrightarrow> hd_state h \<noteq> HandleReady \<Longrightarrow>
     state_inv ((set_history h s)\<lparr>as_current := None, as_session := None, as_lock := l, as_session_state := x\<rparr>)"
  by (auto simp: state_inv_def list_all_iff)

section \<open>What closing does\<close>

lemma end_session_result:
  assumes "end_session env h a = (e, a')"
  shows "aw_device a' = aw_device a" "aw_draining a' = aw_draining a" "aw_done a' = aw_done a"
    "aw_state a' = (if e = None then (aw_state a)\<lparr>as_session := None\<rparr> else aw_state a)"
  using assms by (auto simp: end_session_def call_out_def ask_def Let_def split: option.splits)

lemma releaseLock_result:
  assumes "releaseLock env a = (e, a')"
  shows "aw_device a' = aw_device a" "aw_draining a' = aw_draining a" "aw_done a' = aw_done a"
    "aw_state a' = (if e = None then (aw_state a)\<lparr>as_lock := None\<rparr> else aw_state a)"
  using assms by (auto simp: releaseLock_def call_out_def ask_def Let_def split: option.splits)

lemma closeSession_result:
  assumes "closeSession env terminal h a = ((h', e), a')"
  shows "aw_device a' = aw_device a" "aw_draining a' = aw_draining a" "aw_done a' = aw_done a"
    "e = None \<Longrightarrow> h' = h\<lparr>hd_state := terminal\<rparr> \<and>
       aw_state a' = (set_history h' (aw_state a))
         \<lparr>as_current := None, as_session := None, as_lock := None, as_session_state := SessionClosed\<rparr>"
    "e \<noteq> None \<Longrightarrow> h' = h \<and>
       (\<exists>t. (t = as_session (aw_state a) \<or> t = None) \<and>
          aw_state a' = (aw_state a)\<lparr>as_session := t, as_session_state := SessionUncertain\<rparr>)"
proof -
  define a0 where "a0 = upd (\<lambda>s. s\<lparr>as_session_state := SessionClosing\<rparr>) a"
  obtain e1 a1 where es: "end_session env h a0 = (e1, a1)" by fastforce
  note r1 = end_session_result [OF es]
  obtain e2 a2 where rl: "releaseLock env a1 = (e2, a2)" by fastforce
  note r2 = releaseLock_result [OF rl]
  note eq = assms [unfolded closeSession_def a0_def [symmetric] es]
  show "aw_device a' = aw_device a" "aw_draining a' = aw_draining a" "aw_done a' = aw_done a"
    using eq rl r1 r2 by (auto simp: a0_def Let_def split: option.splits)
  show "h' = h\<lparr>hd_state := terminal\<rparr> \<and>
       aw_state a' = (set_history h' (aw_state a))
         \<lparr>as_current := None, as_session := None, as_lock := None, as_session_state := SessionClosed\<rparr>"
    if "e = None"
    using that eq rl r1 r2 by (auto simp: a0_def Let_def set_history_def split: option.splits)
  show "h' = h \<and> (\<exists>t. (t = as_session (aw_state a) \<or> t = None) \<and>
      aw_state a' = (aw_state a)\<lparr>as_session := t, as_session_state := SessionUncertain\<rparr>)"
    if "e \<noteq> None"
    using that eq rl r1 r2
    by (cases e1; cases e2)
      (auto simp: a0_def Let_def intro: exI [of _ "as_session (aw_state a)"] exI [of _ None])
qed

lemma drain_current_result:
  assumes "drain_current env terminal h a = ((h', e), a')"
  shows "aw_device a' = aw_device a" "aw_draining a' = aw_draining a" "aw_done a' = aw_done a"
    "e = None \<Longrightarrow> h' = h\<lparr>hd_state := terminal\<rparr> \<and>
       aw_state a' = (set_history h' (aw_state a))
         \<lparr>as_current := None, as_session := None, as_lock := None, as_session_state := SessionClosed\<rparr>"
    "e \<noteq> None \<Longrightarrow> h' = h\<lparr>hd_state := HandleDraining\<rparr> \<and>
       (\<exists>t. (t = as_session (aw_state a) \<or> t = None) \<and>
          aw_state a' = (aw_state a)\<lparr>as_current := Some h', as_session := t, as_session_state := SessionUncertain\<rparr>)"
  using closeSession_result [OF assms [unfolded drain_current_def Let_def]]
  by (auto simp: set_history_def)

section \<open>One command at a time\<close>

text \<open>
  \<open>keeps\<close>: the current handle is the same handle or gone, does not become ready again and does not
  live longer.
  \<open>follows\<close>: that, or there is a new handle of the next generation.
\<close>

definition keeps :: "actor_state \<Rightarrow> actor_state \<Rightarrow> bool" where
  "keeps s s' \<longleftrightarrow>
     as_generation s' = as_generation s \<and>
     (case as_current s' of
        None \<Rightarrow> True
      | Some h' \<Rightarrow>
          (case as_current s of
             None \<Rightarrow> False
           | Some h \<Rightarrow> hd_id h' = hd_id h \<and> hd_generation h' = hd_generation h \<and>
               hd_absolute_expires h' \<le> hd_absolute_expires h \<and>
               (hd_state h' = HandleReady \<longrightarrow> hd_state h = HandleReady)))"

definition follows :: "actor_state \<Rightarrow> actor_state \<Rightarrow> bool" where
  "follows s s' \<longleftrightarrow>
     keeps s s' \<or>
     as_generation s' = as_generation s + 1 \<and>
       (case as_current s' of None \<Rightarrow> False | Some h \<Rightarrow> hd_generation h = as_generation s')"

definition good :: "actor \<Rightarrow> actor \<Rightarrow> bool" where
  "good a a' \<longleftrightarrow> (state_inv (aw_state a) \<longrightarrow> state_inv (aw_state a')) \<and> follows (aw_state a) (aw_state a')"

definition steady :: "actor \<Rightarrow> actor \<Rightarrow> bool" where
  "steady a a' \<longleftrightarrow> (state_inv (aw_state a) \<longrightarrow> state_inv (aw_state a')) \<and> keeps (aw_state a) (aw_state a')"

lemma keeps_refl [simp]: "keeps s s"
  by (simp add: keeps_def split: option.splits)

lemma keeps_trans: "keeps s t \<Longrightarrow> keeps t u \<Longrightarrow> keeps s u"
  by (auto simp: keeps_def split: option.splits)

lemma keeps_follows: "keeps s t \<Longrightarrow> follows t u \<Longrightarrow> follows s u"
  by (auto simp: follows_def intro: keeps_trans) (simp add: keeps_def)

lemma steady_refl [simp]: "aw_state a' = aw_state a \<Longrightarrow> steady a a'"
  by (simp add: steady_def)

lemma steady_good: "steady a a' \<Longrightarrow> good a a'"
  by (simp add: steady_def good_def follows_def)

lemma steady_trans: "steady a b \<Longrightarrow> steady b c \<Longrightarrow> steady a c"
  by (auto simp: steady_def intro: keeps_trans)

lemma steady_then_good: "steady a b \<Longrightarrow> good b c \<Longrightarrow> good a c"
  by (auto simp: steady_def good_def intro: keeps_follows)

lemma drain_current_steady:
  assumes "drain_current env terminal h a = (x, a')" "as_current (aw_state a) = Some h" "terminal \<noteq> HandleReady"
  shows "steady a a'"
proof (cases x)
  case (Pair h' e)
  note r = drain_current_result [OF assms(1) [unfolded Pair]]
  show ?thesis
  proof (cases e)
    case None
    with r(4) have "hd_state h' = terminal"
      "aw_state a' = (set_history h' (aw_state a))
         \<lparr>as_current := None, as_session := None, as_lock := None, as_session_state := SessionClosed\<rparr>" by auto
    then show ?thesis
      using state_inv_closed [of "aw_state a" h', where l = None and x = SessionClosed] assms(3)
      by (simp add: steady_def keeps_def)
  next
    case (Some y)
    with r(5) obtain t where "h' = h\<lparr>hd_state := HandleDraining\<rparr>" "t = as_session (aw_state a) \<or> t = None"
      "aw_state a' = (aw_state a)\<lparr>as_current := Some h', as_session := t, as_session_state := SessionUncertain\<rparr>" by auto
    then show ?thesis
      using assms(2) by (auto simp: steady_def keeps_def state_inv_def handle_times_def)
  qed
qed

lemma expireIfNeeded_steady: "steady a (expireIfNeeded env now a)"
proof -
  define a1 where "a1 = upd (\<lambda>s. s\<lparr>as_history := filter (\<lambda>p. now < hd_absolute_expires (snd p)) (as_history s)\<rparr>) a"
  have a1: "steady a a1"
    by (auto simp: a1_def steady_def keeps_def state_inv_def list_all_iff split: option.splits)
  have "steady a1 (snd (drain_current env HandleExpired h a1))" if "as_current (aw_state a1) = Some h" for h
    using drain_current_steady [OF _ that, of env HandleExpired] by (cases "drain_current env HandleExpired h a1") auto
  with a1 show ?thesis
    by (auto simp: expireIfNeeded_def a1_def [symmetric] Let_def intro: steady_trans split: option.splits)
qed

text \<open>After the expiry check a ready current handle is within its lifetimes.\<close>

lemma expireIfNeeded_fresh:
  assumes "as_current (aw_state (expireIfNeeded env now a)) = Some h" "hd_state h = HandleReady"
  shows "now < hd_idle_expires h \<and> now < hd_absolute_expires h"
proof -
  define a1 where "a1 = upd (\<lambda>s. s\<lparr>as_history := filter (\<lambda>p. now < hd_absolute_expires (snd p)) (as_history s)\<rparr>) a"
  have "False" if "as_current (aw_state (snd (drain_current env HandleExpired k a1))) = Some h" for k
  proof -
    obtain k' e a' where d: "drain_current env HandleExpired k a1 = ((k', e), a')" by (metis prod.exhaust)
    show ?thesis using drain_current_result(4,5) [OF d] that assms(2) d by (cases e) auto
  qed
  then show ?thesis
    using assms by (auto simp: expireIfNeeded_def a1_def [symmetric] Let_def split: option.splits if_splits)
qed

lemma newHandleID_state: "newHandleID env a = (x, a') \<Longrightarrow> aw_state a' = aw_state a \<and> aw_device a' = aw_device a"
  by (auto simp: newHandleID_def Let_def ask_def split: if_splits)

lemma touch_inv: "state_inv s \<Longrightarrow> state_inv (touch now s) \<and> keeps s (touch now s)"
  by (auto simp: touch_def state_inv_def keeps_def handle_times_def Let_def split: option.splits)

lemma touch_steady: "steady a (upd (touch now) a)"
  by (auto simp: touch_def steady_def state_inv_def keeps_def handle_times_def Let_def split: option.splits)

section \<open>Every command is good\<close>

lemma open_shared_good:
  assumes "open_shared rq now h (aw_state a) = (res, s)" "as_current (aw_state a) = Some h" "rq_idle rq \<le> rq_absolute rq"
  shows "steady a (a\<lparr>aw_state := s\<rparr>)"
proof -
  define h1 where "h1 = (if hd_created h + rq_absolute rq < hd_absolute_expires h
      then h\<lparr>hd_absolute_expires := hd_created h + rq_absolute rq\<rparr> else h)"
  have s: "s = aw_state a \<or>
      s = touch now ((aw_state a)\<lparr>as_idle_timeout := min (as_idle_timeout (aw_state a)) (rq_idle rq), as_current := Some h1\<rparr>)"
    using assms(1) by (auto simp: open_shared_def h1_def Let_def split: if_splits option.splits)
  then show ?thesis
    using assms(2,3)
    by (auto simp: steady_def touch_def state_inv_def keeps_def handle_times_def h1_def Let_def split: if_splits)
qed

lemma open_fresh_good:
  assumes "0 < rq_idle rq" "rq_idle rq \<le> rq_absolute rq" "rq_absolute rq < 2 ^ 63"
    and "\<not> (\<exists>h. as_current (aw_state a) = Some h \<and> hd_state h = HandleReady)"
  shows "good a (snd (open_fresh env rq now a))"
proof (cases "newHandleID env a")
  case (Pair x a1)
  note st = newHandleID_state [OF Pair]
  show ?thesis
  proof (cases x)
    case (Inl e)
    then show ?thesis using Pair st by (simp add: open_fresh_def good_def follows_def)
  next
    case (Inr hid)
    have absent: "steady a (b\<lparr>aw_state := (aw_state a)\<lparr>as_session_state := SessionAbsent\<rparr>\<rparr>)" for b
      using assms(4) by (auto simp: steady_def keeps_def state_inv_def split: option.splits)
    have new: "good a (b\<lparr>aw_state := (aw_state a)
        \<lparr>as_generation := as_generation (aw_state a) + 1, as_lock := Some l, as_session := Some t,
         as_session_state := SessionReady,
         as_current := Some \<lparr>hd_id = i, hd_device = d, hd_generation = as_generation (aw_state a) + 1,
           hd_ownership = own, hd_capabilities = caps, hd_state = HandleReady, hd_created = now,
           hd_last_used = now, hd_idle_expires = now + rq_idle rq, hd_absolute_expires = now + rq_absolute rq\<rparr>,
         as_idle_timeout := rq_idle rq\<rparr>\<rparr>)" for b l t i d own caps
      using assms(1-3) by (auto simp: good_def follows_def state_inv_def handle_times_def)
    show ?thesis
      using Pair Inr st
      by (auto simp: open_fresh_def call_out_def ask_def Let_def split: option.splits
          intro!: steady_good [OF absent] new)
  qed
qed

lemma steady_ask: "steady a (snd (ask env a))"
  by simp

lemma actor_open_good:
  assumes "0 < rq_idle rq" "rq_idle rq \<le> rq_absolute rq" "rq_absolute rq < 2 ^ 63"
  shows "good a (snd (actor_open env early rq a))"
proof -
  define a1 where "a1 = snd (ask env a)"
  define b where "b = expireIfNeeded env (an_now (env (aw_tick a))) a1"
  have ab: "steady a b" unfolding b_def by (rule steady_trans [OF _ expireIfNeeded_steady]) (simp add: a1_def)
  have fresh: "good a (snd (open_fresh env rq now b))"
    if "\<not> (\<exists>h. as_current (aw_state b) = Some h \<and> hd_state h = HandleReady)" for now
    by (rule steady_then_good [OF ab open_fresh_good [OF assms that]])
  have shared: "good a (b\<lparr>aw_state := s\<rparr>)"
    if "open_shared rq now h (aw_state b) = (res, s)" "as_current (aw_state b) = Some h" for now h res s
    by (rule steady_good [OF steady_trans [OF ab open_shared_good [OF that assms(2)]]])
  have a1': "ask env a = (env (aw_tick a), a1)" by (simp add: a1_def ask_def)
  show ?thesis
    using fresh shared
    by (auto simp: actor_open_def a1' b_def [symmetric] Let_def steady_good split: option.splits prod.splits)
      (simp_all add: a1_def steady_good)
qed

lemma actor_snapshot_good: "steady a (snd (snd (actor_snapshot env r touching a)))"
proof -
  define b where "b = expireIfNeeded env (an_now (env (aw_tick a))) (snd (ask env a))"
  have ab: "steady a b" unfolding b_def by (rule steady_trans [OF steady_ask expireIfNeeded_steady])
  moreover have "steady a (upd (touch t) b)" for t by (rule steady_trans [OF ab touch_steady])
  ultimately show ?thesis
    by (simp add: actor_snapshot_def case_prod_unfold Let_def b_def [symmetric] split: sum.splits option.splits)
qed

lemma actor_execute_good: "steady a (snd (actor_execute env early r capability a))"
proof -
  define b where "b = expireIfNeeded env (an_now (env (aw_tick a))) (snd (ask env a))"
  have ab: "steady a b" unfolding b_def by (rule steady_trans [OF steady_ask expireIfNeeded_steady])
  have "steady a (upd (touch t) (snd (ask env (snd (call_out env c b)))))" for t c
  proof -
    have "steady b (snd (ask env (snd (call_out env c b))))" by simp
    from steady_trans [OF ab steady_trans [OF this touch_steady]] show ?thesis by simp
  qed
  with ab show ?thesis
    by (simp add: actor_execute_unfold case_prod_unfold Let_def b_def [symmetric] split: sum.splits option.splits)
qed

lemma reopen_session_good:
  assumes "as_current (aw_state a) = None" "as_session (aw_state a) = None" "as_lock (aw_state a) \<noteq> None"
    "idle \<le> lifetime" "lifetime < 2 ^ 63"
  shows "good a (snd (reopen_session env hid idle lifetime old a))"
proof -
  have fail: "steady a b" if "aw_state b = (aw_state a)\<lparr>as_session_state := x\<rparr> \<or>
      aw_state b = (aw_state a)\<lparr>as_session_state := x, as_lock := None\<rparr>" for b x
    using that assms by (auto simp: steady_def keeps_def state_inv_def)
  have rl: "steady a (snd (releaseLock env (upd (\<lambda>s. s\<lparr>as_session_state := SessionClosed\<rparr>) (snd (call_out env c a)))))" for c
  proof -
    obtain e b where rel: "releaseLock env (upd (\<lambda>s. s\<lparr>as_session_state := SessionClosed\<rparr>) (snd (call_out env c a))) = (e, b)"
      by fastforce
    show ?thesis
      unfolding rel snd_conv using releaseLock_result(4) [OF rel]
      by (intro fail [of _ SessionClosed]) (simp split: if_splits)
  qed
  show ?thesis
    using assms rl
    by (auto simp: reopen_session_def case_prod_unfold Let_def steady_good split: option.splits)
      (auto simp: good_def follows_def state_inv_def handle_times_def)
qed

lemma actor_reconnect_good:
  assumes "state_inv (aw_state a)"
  shows "good a (snd (actor_reconnect env early r a))"
proof (cases "validate_ref r (aw_state a)")
  case (Inl e)
  then show ?thesis by (simp add: actor_reconnect_def case_prod_unfold Let_def steady_good split: option.splits)
next
  case (Inr h)
  obtain x a2 where hid: "newHandleID env (snd (ask env a)) = (x, a2)" by fastforce
  have st: "aw_state a2 = aw_state a" using newHandleID_state [OF hid] by simp
  note cur = Inr [unfolded validate_ref_Ready]
  define old where "old = h\<lparr>hd_state := HandleFenced\<rparr>"
  define mid where "mid = (set_history old (aw_state a))\<lparr>as_current := None, as_session := None, as_session_state := SessionOpening\<rparr>"
  have mid: "state_inv mid" "keeps (aw_state a) mid"
    using assms cur by (auto simp: mid_def old_def state_inv_def keeps_def list_all_iff)
  have bad: "good a b" if "aw_state b = (set_history old (aw_state a))
      \<lparr>as_session_state := SessionUncertain, as_current := Some old\<rparr>" for b
    using assms cur that by (auto simp: good_def follows_def keeps_def state_inv_def old_def handle_times_def list_all_iff)
  have again: "good a (snd (reopen_session env i (as_idle_timeout (aw_state a)) (time_sub (hd_absolute_expires h) (hd_created h)) old b))"
    if "aw_state b = mid" for b i
  proof (rule steady_then_good [of a b])
    show "steady a b" using mid that by (simp add: steady_def)
    show "good b (snd (reopen_session env i (as_idle_timeout (aw_state a)) (time_sub (hd_absolute_expires h) (hd_created h)) old b))"
      using assms cur that
      by (intro reopen_session_good) (auto simp: mid_def state_inv_def handle_times_def time_sub_def)
  qed
  show ?thesis
  proof (cases "early \<or> aw_done a \<or> an_cancelled (env (aw_tick a)) \<noteq> None \<or> (\<exists>e. x = Inl e)")
    case True
    then show ?thesis
      using Inr hid st by (auto simp: actor_reconnect_def case_prod_unfold Let_def steady_good split: option.splits)
  next
    case False
    then obtain i where i: "\<not> early" "\<not> aw_done a" "an_cancelled (env (aw_tick a)) = None" "x = Inr i"
      by (cases x) auto
    define a4 where "a4 = snd (call_out env (CallClose (the (as_session (aw_state a2))))
        (upd (\<lambda>s. (set_history old s)\<lparr>as_current := None, as_session_state := SessionClosing\<rparr>) a2))"
    have a4: "aw_state a4 = (set_history old (aw_state a))\<lparr>as_current := None, as_session_state := SessionClosing\<rparr>"
      by (simp add: a4_def st)
    have run: "actor_reconnect env early r a =
        (case an_error (env (aw_tick a2)) of
           Some e \<Rightarrow> (Inl e, upd (\<lambda>s. s\<lparr>as_session_state := SessionUncertain, as_current := Some old\<rparr>) a4)
         | None \<Rightarrow> reopen_session env i (as_idle_timeout (aw_state a)) (time_sub (hd_absolute_expires h) (hd_created h)) old
             (upd (\<lambda>s. s\<lparr>as_session := None, as_session_state := SessionOpening\<rparr>) a4))"
      using Inr hid i st
      by (simp add: actor_reconnect_def case_prod_unfold Let_def old_def a4_def split: option.splits)
    show ?thesis
    proof (cases "an_error (env (aw_tick a2))")
      case None
      then show ?thesis by (simp only: run option.case) (rule again, simp add: a4 mid_def)
    next
      case (Some e)
      then show ?thesis by (simp only: run option.case snd_conv) (rule bad, simp add: a4)
    qed
  qed
qed

lemma actor_close_good: "steady a (snd (actor_close env r HandleClosed a))"
proof -
  define b where "b = snd (ask env a)"
  have "steady b (snd (drain_current env HandleClosed h b))" if "validate_ref r (aw_state b) = Inr h" for h
    using drain_current_steady [of env HandleClosed h b] that
    by (cases "drain_current env HandleClosed h b") (auto simp: validate_ref_Ready)
  moreover have "aw_state b = aw_state a" by (simp add: b_def)
  ultimately show ?thesis
    by (auto simp: actor_close_def case_prod_unfold Let_def b_def [symmetric] steady_def split: option.splits sum.splits)
qed

lemma actor_shutdown_good: "steady a (snd (actor_shutdown env a))"
proof -
  have "steady a (snd (drain_current env HandleClosed h a))" if "as_current (aw_state a) = Some h" for h
    using drain_current_steady [of env HandleClosed h a] that by (cases "drain_current env HandleClosed h a") auto
  then show ?thesis
    by (auto simp: actor_shutdown_def case_prod_unfold steady_def split: option.splits)
qed

lemma prepare_open_times:
  "prepare_open cf running rq = Inr rq' \<Longrightarrow> 0 < rq_idle rq' \<and> rq_idle rq' \<le> rq_absolute rq'"
  by (auto simp: prepare_open_def Let_def split: if_splits)

lemma actor_step_good:
  assumes "state_inv (aw_state a)"
  shows "good a (actor_step env cf a p)"
proof (cases p)
  case (OpOpen early running rq)
  then show ?thesis
    using actor_open_good prepare_open_times
    by (auto simp: actor_step_def typed_request_def steady_good split: sum.splits)
qed (auto simp: actor_step_def actor_reconnect_good [OF assms] actor_expire_def beginDrain_def
    intro!: steady_good actor_snapshot_good actor_execute_good actor_close_good actor_shutdown_good
      expireIfNeeded_steady)

interpretation actor_runs: guarded_machine "actor_step env cf" "\<lambda>a. state_inv (aw_state a)" for env cf
  using actor_step_good by unfold_locales (auto simp: good_def)

section \<open>Runs\<close>

text \<open>With no wrap-around of the generation, what a run leads to.\<close>

definition leads :: "actor_state \<Rightarrow> actor_state \<Rightarrow> bool" where
  "leads s s' \<longleftrightarrow> keeps s s' \<or> as_generation s < as_generation s'"

lemma follows_leads: "follows s s' \<Longrightarrow> unat (as_generation s) + 1 < 2 ^ 64 \<Longrightarrow> leads s s'"
  by (auto simp: follows_def leads_def word_less_nat_alt unat_word_ariths split: option.splits)

lemma follows_count: "follows s s' \<Longrightarrow> unat (as_generation s') \<le> unat (as_generation s) + 1"
  by (auto simp: follows_def keeps_def unat_word_ariths split: option.splits)

lemma leads_trans: "leads s t \<Longrightarrow> leads t u \<Longrightarrow> leads s u"
  by (auto simp: leads_def intro: keeps_trans less_trans) (auto simp: keeps_def)

lemma run_leads:
  assumes "state_inv (aw_state a)" "unat (as_generation (aw_state a)) + length ops < 2 ^ 64"
  shows "leads (aw_state a) (aw_state (foldl (actor_step env cf) a ops))"
  using assms
proof (induction ops arbitrary: a)
  case Nil
  then show ?case by (simp add: leads_def)
next
  case (Cons p ops)
  let ?b = "actor_step env cf a p"
  have g: "good a ?b" by (rule actor_step_good [OF Cons.prems(1)])
  then have f: "follows (aw_state a) (aw_state ?b)" "state_inv (aw_state ?b)"
    using Cons.prems(1) by (simp_all add: good_def)
  have "leads (aw_state a) (aw_state ?b)" using Cons.prems(2) by (intro follows_leads [OF f(1)]) simp
  moreover have "leads (aw_state ?b) (aw_state (foldl (actor_step env cf) ?b ops))"
    using Cons.prems(2) follows_count [OF f(1)] by (intro Cons.IH [OF f(2)]) simp
  ultimately show ?case by (simp add: leads_trans)
qed

text \<open>Whether an operation with the reference \<open>r\<close> would be let through.\<close>

definition valid_ref :: "ref \<Rightarrow> actor_state \<Rightarrow> bool" where
  "valid_ref r s = (case validate_ref r s of Inl _ \<Rightarrow> False | Inr _ \<Rightarrow> True)"

lemma valid_ref_iff:
  "valid_ref r s \<longleftrightarrow> (\<exists>h. as_current s = Some h \<and> hd_id h = rf_id r \<and> hd_generation h = rf_generation r \<and> hd_state h = HandleReady)"
  using validate_ref_Ready [of r s] by (cases "validate_ref r s") (auto simp: valid_ref_def)

lemma retired_leads:
  assumes "leads s s'" "state_inv s'" "rf_generation r \<le> as_generation s" "\<not> valid_ref r s"
  shows "\<not> valid_ref r s'"
  using assms by (auto simp: leads_def keeps_def state_inv_def valid_ref_iff split: option.splits)

lemma newActor_inv: "state_inv (aw_state (newActor dev))"
  by (simp add: newActor_def state_inv_def)

section \<open>Calls of a command\<close>

definition closing_call :: "call \<Rightarrow> bool" where
  "closing_call c = (case c of CallClose _ \<Rightarrow> True | CallDisconnect _ \<Rightarrow> True | CallRelease _ \<Rightarrow> True | _ \<Rightarrow> False)"

lemma drain_current_calls:
  "\<exists>cs. aw_calls (snd (drain_current env terminal h a)) = aw_calls a @ cs \<and> list_all closing_call cs"
proof -
  have e: "\<exists>cs. aw_calls (snd (end_session env k b)) = aw_calls b @ cs \<and> list_all closing_call cs" for k b
    by (auto simp: end_session_def call_out_def ask_def closing_call_def split: option.splits)
  have r: "\<exists>cs. aw_calls (snd (releaseLock env b)) = aw_calls b @ cs \<and> list_all closing_call cs" for b
    by (auto simp: releaseLock_def call_out_def ask_def closing_call_def split: option.splits)
  define b where "b = upd (\<lambda>s. s\<lparr>as_current := Some (h\<lparr>hd_state := HandleDraining\<rparr>), as_session_state := SessionClosing\<rparr>) a"
  obtain e1 b1 where x: "end_session env (h\<lparr>hd_state := HandleDraining\<rparr>) b = (e1, b1)" by fastforce
  obtain e2 b2 where y: "releaseLock env b1 = (e2, b2)" by fastforce
  have "aw_calls (snd (drain_current env terminal h a)) \<in> {aw_calls b1, aw_calls b2}"
    using x y by (auto simp: drain_current_def closeSession_def Let_def b_def split: option.splits)
  moreover obtain c1 where "aw_calls b1 = aw_calls a @ c1" "list_all closing_call c1"
    using e [of "h\<lparr>hd_state := HandleDraining\<rparr>" b] x by (auto simp: b_def)
  moreover obtain c2 where "aw_calls b2 = aw_calls b1 @ c2" "list_all closing_call c2"
    using r [of b1] y by auto
  ultimately show ?thesis by auto
qed

lemma expireIfNeeded_calls:
  "\<exists>cs. aw_calls (expireIfNeeded env now a) = aw_calls a @ cs \<and> list_all closing_call cs"
  using drain_current_calls [of env HandleExpired _ "upd (\<lambda>s. s\<lparr>as_history := filter (\<lambda>p. now < hd_absolute_expires (snd p)) (as_history s)\<rparr>) a"]
  by (auto simp: expireIfNeeded_def Let_def split: option.splits)

text \<open>A handle the expiry check leaves ready, with its session.\<close>

lemma expireIfNeeded_ready:
  assumes "as_current (aw_state (expireIfNeeded env now a)) = Some h" "hd_state h = HandleReady"
  shows "as_current (aw_state a) = Some h" "as_session (aw_state (expireIfNeeded env now a)) = as_session (aw_state a)"
    "aw_draining (expireIfNeeded env now a) = aw_draining a"
proof -
  define a1 where "a1 = upd (\<lambda>s. s\<lparr>as_history := filter (\<lambda>p. now < hd_absolute_expires (snd p)) (as_history s)\<rparr>) a"
  have "False" if "as_current (aw_state (snd (drain_current env HandleExpired k a1))) = Some h" for k
  proof -
    obtain k' e a' where d: "drain_current env HandleExpired k a1 = ((k', e), a')" by (metis prod.exhaust)
    show ?thesis using drain_current_result(4,5) [OF d] that assms(2) d by (cases e) auto
  qed
  then have "expireIfNeeded env now a = a1"
    using assms(1) by (auto simp: expireIfNeeded_def a1_def [symmetric] Let_def split: option.splits if_splits)
  with assms(1) show "as_current (aw_state a) = Some h"
    "as_session (aw_state (expireIfNeeded env now a)) = as_session (aw_state a)"
    "aw_draining (expireIfNeeded env now a) = aw_draining a"
    by (simp_all add: a1_def)
qed

lemma actor_execute_calls:
  assumes "actor_execute env early r capability a = (e, a')"
    and "aw_calls a' = aw_calls a @ cs" and "CallExecute t \<in> set cs"
  obtains h where "\<not> early" "\<not> aw_draining a" "\<not> aw_done a"
    "as_current (aw_state a) = Some h" "hd_id h = rf_id r" "hd_generation h = rf_generation r"
    "hd_state h = HandleReady" "an_now (env (aw_tick a)) < hd_idle_expires h"
    "an_now (env (aw_tick a)) < hd_absolute_expires h" "capability \<in> set (hd_capabilities h)"
    "as_session (aw_state a) = Some t"
proof -
  define b where "b = expireIfNeeded env (an_now (env (aw_tick a))) (snd (ask env a))"
  obtain c1 where c1: "aw_calls b = aw_calls a @ c1" "list_all closing_call c1"
    using expireIfNeeded_calls [of env "an_now (env (aw_tick a))" "snd (ask env a)"] by (auto simp: b_def)
  have only: "False" if "aw_calls a' \<in> {aw_calls a, aw_calls b}"
    using that assms(2,3) c1 by (auto simp: list_all_iff closing_call_def)
  have flags: "\<not> early" "\<not> aw_draining a" "\<not> aw_done a" "an_cancelled (env (aw_tick a)) = None"
    using only assms(1)
    by (auto simp: actor_execute_unfold case_prod_unfold Let_def split: if_splits option.splits)
  obtain h where h: "validate_ref r (aw_state b) = Inr h"
    using only assms(1) flags
    by (cases "validate_ref r (aw_state b)") (auto simp: actor_execute_unfold case_prod_unfold Let_def b_def [symmetric])
  note hb = h [unfolded validate_ref_Ready]
  have cap: "capability \<in> set (hd_capabilities h)"
    using only assms(1) flags h
    by (auto simp: actor_execute_unfold case_prod_unfold Let_def b_def [symmetric] hasCapabilities_def split: if_splits)
  obtain t' where t': "as_session (aw_state b) = Some t'" "as_session_state (aw_state b) = SessionReady"
    using only assms(1) flags h cap
    by (auto simp: actor_execute_unfold case_prod_unfold Let_def b_def [symmetric] hasCapabilities_def split: if_splits option.splits)
  have "aw_calls a' = aw_calls b @ [CallExecute t']"
    using assms(1) flags h cap t'
    by (auto simp: actor_execute_unfold case_prod_unfold Let_def b_def [symmetric] hasCapabilities_def)
  then have "t = t'" using assms(2,3) c1 by (auto simp: list_all_iff closing_call_def)
  moreover note expireIfNeeded_ready [of env _ "snd (ask env a)" h] expireIfNeeded_fresh [of env _ "snd (ask env a)" h]
  ultimately show ?thesis
    using that flags hb cap t' unfolding b_def by auto
qed

section \<open>Properties\<close>

text \<open>
  An outside that grants every call: handle ids count up, sessions and locks are known by the
  number of the call, and every clock read is at the instant given.
\<close>

definition ex_answers :: "time \<Rightarrow> control_env" where
  "ex_answers t n =
     \<lparr>an_cancelled = None, an_now = t, an_id = replicate (Suc n) (CHR ''c''), an_error = None, an_token = Some n\<rparr>"

definition ex_request :: open_request where
  "ex_request =
     \<lparr>rq_device = ''d1'', rq_capabilities = [''video'', ''hid''], rq_ownership = OwnershipOther [],
      rq_idle = 0, rq_absolute = 0\<rparr>"

definition ex_control :: control_config where
  "ex_control = \<lparr>cf_idle = minutes 5, cf_absolute = minutes 30\<rparr>"

definition ex_open :: actor where
  "ex_open = actor_step (ex_answers (seconds 1)) ex_control (newActor ''d1'') (OpOpen False True ex_request)"

definition ex_handle :: handle where
  "ex_handle =
     \<lparr>hd_id = ''cc'', hd_device = ''d1'', hd_generation = 1, hd_ownership = OwnershipOwned,
      hd_capabilities = [''hid'', ''video''], hd_state = HandleReady, hd_created = seconds 1,
      hd_last_used = seconds 1, hd_idle_expires = seconds 301, hd_absolute_expires = seconds 1801\<rparr>"

definition ex_ref :: ref where
  "ex_ref = \<lparr>rf_id = ''cc'', rf_generation = 1\<rparr>"

lemma ex_id_6 [simp]: "replicate 6 (CHR ''c'') = ''cccccc''"
  by (simp add: numeral_eq_Suc)

lemma ex_capabilities: "normalizeCapabilities [''video'', ''hid''] = [''hid'', ''video'']"
  by (simp add: normalizeCapabilities_def)

lemma ex_open_state:
  "ex_open =
     \<lparr>aw_device = ''d1'',
      aw_state =
        \<lparr>as_session_state = SessionReady, as_session = Some 3, as_lock = Some 2, as_generation = 1,
         as_current = Some ex_handle, as_history = [], as_idle_timeout = minutes 5\<rparr>,
      aw_draining = False, aw_done = False, aw_tick = 4,
      aw_calls = [CallAcquire ''d1'', CallOpen ''d1'' 1 [''hid'', ''video'']]\<rparr>"
  by (simp add: ex_open_def actor_step_def prepare_open_def ex_request_def ex_capabilities ex_control_def
      typed_request_def actor_open_def newActor_def ask_def ex_answers_def expireIfNeeded_def open_fresh_def
      newHandleID_def call_out_def ex_handle_def Let_def numeral_eq_Suc)

text \<open>
  in every state a fresh actor can reach, a session is held only together with the device's
  lock, a ready handle has a ready session of its own generation and nested lifetimes, without a
  handle there is no session, and the history holds no usable handle.
\<close>

theorem actor_invariant: "state_inv (aw_state (foldl (actor_step env cf) (newActor dev) ops))"
  by (rule actor_runs.run_inv) (rule newActor_inv)

text \<open>
  C19: a reference that is refused stays refused: once a handle of a current or past generation is
  not usable (closed, expired, fenced, draining), no sequence of commands makes that reference
  valid again.
\<close>

theorem retired_reference_never_returns:
  assumes "state_inv (aw_state a)" and "unat (as_generation (aw_state a)) + length ops < 2 ^ 64"
    and "rf_generation r \<le> as_generation (aw_state a)" and "\<not> valid_ref r (aw_state a)"
  shows "\<not> valid_ref r (aw_state (foldl (actor_step env cf) a ops))"
  by (rule retired_leads [OF run_leads [OF assms(1,2)] actor_runs.run_inv [OF assms(1)] assms(3,4)])

theorem retired_reference_never_returns_witness:
  "\<not> valid_ref \<lparr>rf_id = ''old'', rf_generation = 1\<rparr>
     (aw_state (foldl (actor_step (ex_answers (seconds 2)) ex_control) ex_open [OpReconnect False ex_ref, OpClose ex_ref]))"
  by (rule retired_reference_never_returns)
    (simp_all add: ex_open_state ex_handle_def state_inv_def handle_times_def valid_ref_iff)

text \<open>
  the execute callback runs only under a live lease: the reference names the current handle and
  its generation, the handle is ready and within both lifetimes, the capability was granted, the actor
  was not draining, and the session passed is the one the handle owns.
\<close>

theorem execute_needs_live_handle:
  assumes "actor_execute env early r capability a = (e, a')"
    and "aw_calls a' = aw_calls a @ cs" and "CallExecute t \<in> set cs"
  shows "\<exists>h. as_current (aw_state a) = Some h \<and> hd_id h = rf_id r \<and> hd_generation h = rf_generation r \<and>
    hd_state h = HandleReady \<and> an_now (env (aw_tick a)) < hd_idle_expires h \<and>
    an_now (env (aw_tick a)) < hd_absolute_expires h \<and> capability \<in> set (hd_capabilities h) \<and>
    as_session (aw_state a) = Some t \<and> \<not> early \<and> \<not> aw_draining a"
  using assms by (rule actor_execute_calls) blast

theorem execute_needs_live_handle_witness:
  "\<exists>a'. actor_execute (ex_answers (seconds 2)) False ex_ref ''hid'' ex_open = (None, a') \<and>
     aw_calls a' = aw_calls ex_open @ [CallExecute 3] \<and> an_now (ex_answers (seconds 2) 4) < hd_idle_expires ex_handle"
proof -
  obtain a' where run: "actor_execute (ex_answers (seconds 2)) False ex_ref ''hid'' ex_open = (None, a')"
      "aw_calls a' = aw_calls ex_open @ [CallExecute 3]"
    by (simp add: actor_execute_unfold ex_open_state ask_def call_out_def ex_answers_def expireIfNeeded_def
        validate_ref_def ex_ref_def ex_handle_def hasCapabilities_def Let_def)
  from execute_needs_live_handle [OF run, of 3] run show ?thesis by (auto simp: ex_open_state)
qed

text \<open>
  a handle never outlives what it was given: as long as the current generation is the same,
  no sequence of commands moves the absolute expiry of its handle later.
\<close>

theorem lifetime_never_grows:
  assumes "state_inv (aw_state a)" and "unat (as_generation (aw_state a)) + length ops < 2 ^ 64"
    and "as_current (aw_state a) = Some h"
    and "as_current (aw_state (foldl (actor_step env cf) a ops)) = Some h'"
    and "hd_generation h' = hd_generation h"
  shows "hd_absolute_expires h' \<le> hd_absolute_expires h \<and> hd_id h' = hd_id h"
proof -
  have "state_inv (aw_state (foldl (actor_step env cf) a ops))" by (rule actor_runs.run_inv [OF assms(1)])
  then have "as_generation (aw_state (foldl (actor_step env cf) a ops)) = as_generation (aw_state a)"
    using assms(1,3-5) by (auto simp: state_inv_def)
  then show ?thesis
    using run_leads [OF assms(1,2), of env cf] assms(3,4) by (auto simp: leads_def keeps_def)
qed

theorem lifetime_never_grows_witness:
  "\<exists>h'. as_current (aw_state (foldl (actor_step (ex_answers (seconds 2)) ex_control) ex_open [OpSnapshot ex_ref True])) = Some h' \<and>
     hd_absolute_expires h' \<le> seconds 1801"
proof -
  have inv: "state_inv (aw_state ex_open)" by (simp add: ex_open_state ex_handle_def state_inv_def handle_times_def)
  have bound: "unat (as_generation (aw_state ex_open)) + length [OpSnapshot ex_ref True] < 2 ^ 64"
    and cur: "as_current (aw_state ex_open) = Some ex_handle"
    by (simp_all add: ex_open_state)
  obtain h' where h': "as_current (aw_state (foldl (actor_step (ex_answers (seconds 2)) ex_control) ex_open [OpSnapshot ex_ref True])) = Some h'"
      "hd_generation h' = hd_generation ex_handle"
    by (simp add: actor_step_def actor_snapshot_def ex_open_state ask_def ex_answers_def expireIfNeeded_def
        validate_ref_def ex_ref_def ex_handle_def touch_def Let_def)
  from lifetime_never_grows [OF inv bound cur h'] h' show ?thesis by (auto simp: ex_handle_def)
qed

text \<open>
  a shutdown that reports no error has given everything back: an actor with a handle holds
  neither session nor lock afterwards, and takes no further command.
\<close>

theorem shutdown_gives_back:
  assumes "actor_shutdown env a = (None, a')" and "as_current (aw_state a) \<noteq> None"
  shows "as_session (aw_state a') = None \<and> as_lock (aw_state a') = None \<and> as_current (aw_state a') = None \<and> aw_done a'"
proof -
  obtain h where h: "as_current (aw_state a) = Some h" using assms(2) by blast
  obtain h' e b where d: "drain_current env HandleClosed h a = ((h', e), b)" by (metis prod.exhaust)
  then have "e = None" "a' = b\<lparr>aw_done := True\<rparr>"
    using assms(1) h by (auto simp: actor_shutdown_def split: if_splits)
  then show ?thesis using drain_current_result(4) [OF d] by simp
qed

theorem shutdown_gives_back_witness:
  "\<exists>a'. actor_shutdown (ex_answers 0) ex_open = (None, a') \<and> as_lock (aw_state a') = None"
proof -
  obtain a' where "actor_shutdown (ex_answers 0) ex_open = (None, a')"
    by (simp add: actor_shutdown_def ex_open_state drain_current_def closeSession_def end_session_def
        releaseLock_def call_out_def ask_def ex_answers_def Let_def)
  from shutdown_gives_back [OF this] this show ?thesis by (auto simp: ex_open_state)
qed

text \<open>
  \<open>reconnect\<close>, alone among the commands, does not check the lifetimes: a handle hours past
  both of its expiries, which \<open>execute\<close> refuses, is exchanged for a ready one with a full
  lifetime.
\<close>

theorem expired_handle_renewed_by_reconnect:
  "fst (actor_execute (ex_answers (hours 5)) False ex_ref ''hid'' ex_open) = Some [ErrControlExpired] \<and>
   (\<exists>h a'. actor_reconnect (ex_answers (hours 5)) False ex_ref ex_open = (Inr h, a') \<and>
     hd_state h = HandleReady \<and> hd_absolute_expires h = hours 5 + minutes 30)"
  by (simp add: actor_execute_unfold actor_reconnect_def reopen_session_def newHandleID_def ex_open_state ask_def
      call_out_def ex_answers_def expireIfNeeded_def drain_current_def closeSession_def end_session_def
      releaseLock_def set_history_def validate_ref_def ex_ref_def ex_handle_def time_sub_def Let_def)

text \<open>
  after a reconnect whose close failed, \<open>Close\<close> on the same reference reports success
  without closing anything: it finds the fenced copy in the history, and the session and the lock
  are still held.
\<close>

theorem failed_reconnect_hides_open_session:
  assumes "validate_ref r (aw_state a) = Inr h" and "state_inv (aw_state a)" and "\<not> aw_done a"
    and "an_cancelled (env (aw_tick a)) = None"
    and "newHandleID env (snd (ask env a)) = (Inr hid, a2)" and "an_error (env (aw_tick a2)) = Some e"
    and "an_cancelled (env (Suc (aw_tick a2))) = None"
  shows "\<exists>a' a'' h'. actor_reconnect env False r a = (Inl e, a') \<and>
    actor_close env r HandleClosed a' = ((Some h', None), a'') \<and> hd_state h' = HandleFenced \<and>
    as_session (aw_state a'') \<noteq> None \<and> as_lock (aw_state a'') \<noteq> None \<and> aw_calls a'' = aw_calls a'"
proof -
  note cur = assms(1) [unfolded validate_ref_Ready]
  have st: "aw_state a2 = aw_state a" using newHandleID_state [OF assms(5)] by simp
  have done_: "\<not> aw_done a2"
    using assms(3,5) by (auto simp: newHandleID_def ask_def Let_def split: if_splits)
  have "as_session (aw_state a) \<noteq> None" "as_lock (aw_state a) \<noteq> None"
    using assms(2) cur by (auto simp: state_inv_def)
  then show ?thesis
    using assms cur st done_
    by (simp add: actor_reconnect_def actor_close_def case_prod_unfold Let_def call_out_def ask_def set_history_def)
qed

theorem failed_reconnect_hides_open_session_witness:
  "\<exists>a' a'' h'. actor_reconnect ((ex_answers (seconds 2))(6 := (ex_answers 0 6)\<lparr>an_error := Some [ErrExternal 1]\<rparr>))
       False ex_ref ex_open = (Inl [ErrExternal 1], a') \<and>
     actor_close ((ex_answers (seconds 2))(6 := (ex_answers 0 6)\<lparr>an_error := Some [ErrExternal 1]\<rparr>))
       ex_ref HandleClosed a' = ((Some h', None), a'') \<and> as_session (aw_state a'') \<noteq> None"
proof -
  let ?env = "(ex_answers (seconds 2))(6 := (ex_answers 0 6)\<lparr>an_error := Some [ErrExternal 1]\<rparr>)"
  have v: "validate_ref ex_ref (aw_state ex_open) = Inr ex_handle"
    by (simp add: ex_open_state validate_ref_def ex_ref_def ex_handle_def)
  have inv: "state_inv (aw_state ex_open)" by (simp add: ex_open_state ex_handle_def state_inv_def handle_times_def)
  have rest: "\<not> aw_done ex_open" "an_cancelled (?env (aw_tick ex_open)) = None"
    by (simp_all add: ex_open_state ex_answers_def)
  obtain a2 where hid: "newHandleID ?env (snd (ask ?env ex_open)) = (Inr ''cccccc'', a2)" "aw_tick a2 = 6"
    by (simp add: newHandleID_def ask_def ex_open_state ex_answers_def ex_handle_def Let_def)
  have err: "an_error (?env (aw_tick a2)) = Some [ErrExternal 1]" "an_cancelled (?env (Suc (aw_tick a2))) = None"
    by (simp_all add: hid(2) ex_answers_def)
  from failed_reconnect_hides_open_session [OF v inv rest hid(1) err] show ?thesis by blast
qed

text \<open>
  a handle whose close failed cannot be closed again: every command but a new open and the
  shutdown of the actor leaves the draining handle, its session and its lock as they are, and refuses
  every reference.
\<close>

theorem failed_close_is_stuck:
  assumes "as_current (aw_state a) = Some h" and "hd_state h = HandleDraining"
    and "list_all (\<lambda>p. case p of OpOpen _ _ _ \<Rightarrow> False | OpShutdown \<Rightarrow> False | _ \<Rightarrow> True) ops"
  shows "let s = aw_state (foldl (actor_step env cf) a ops)
    in as_current s = Some h \<and> as_session s = as_session (aw_state a) \<and> as_lock s = as_lock (aw_state a) \<and>
       \<not> valid_ref r s"
proof -
  let ?same = "\<lambda>b. as_current (aw_state b) = Some h \<and> as_session (aw_state b) = as_session (aw_state a) \<and>
      as_lock (aw_state b) = as_lock (aw_state a)"
  have refused: "validate_ref q (aw_state b) \<noteq> Inr x" if "?same b" for q b x
    using that assms(2) by (auto simp: validate_ref_Ready)
  have expire: "?same (expireIfNeeded env now b)" if "?same b" for now b
    using that assms(2) by (simp add: expireIfNeeded_def Let_def)
  have step: "?same (actor_step env cf b p)"
    if "?same b" "case p of OpOpen _ _ _ \<Rightarrow> False | OpShutdown \<Rightarrow> False | _ \<Rightarrow> True" for b p
  proof -
    have ask: "?same (snd (ask env b))" using that(1) by simp
    show ?thesis
      using that(2) that(1) ask expire [OF ask] expire [OF that(1)] refused [OF expire [OF ask]] refused [OF ask]
      by (cases p)
        (auto simp: actor_step_def actor_snapshot_def actor_execute_unfold actor_reconnect_def actor_close_def
          actor_expire_def beginDrain_def case_prod_unfold Let_def split: option.splits sum.splits)
  qed
  have run: "?same (foldl (actor_step env cf) b ops)"
    if "?same b" "list_all (\<lambda>p. case p of OpOpen _ _ _ \<Rightarrow> False | OpShutdown \<Rightarrow> False | _ \<Rightarrow> True) ops" for b
    using that
  proof (induction ops arbitrary: b)
    case (Cons p ops)
    then show ?case using step [of b p] by simp
  qed simp
  have "?same (foldl (actor_step env cf) a ops)" by (rule run) (use assms in simp_all)
  then show ?thesis using refused [of "foldl (actor_step env cf) a ops" r] by (auto simp: valid_ref_def Let_def split: sum.splits)
qed

theorem failed_close_is_stuck_witness:
  "let s = aw_state (foldl (actor_step (ex_answers 0) ex_control)
       (upd (\<lambda>s. s\<lparr>as_current := Some (ex_handle\<lparr>hd_state := HandleDraining\<rparr>)\<rparr>) ex_open)
       [OpClose ex_ref, OpExpire (hours 9), OpReconnect False ex_ref])
    in as_session s = Some 3 \<and> as_lock s = Some 2 \<and> \<not> valid_ref ex_ref s"
  using failed_close_is_stuck [of "upd (\<lambda>s. s\<lparr>as_current := Some (ex_handle\<lparr>hd_state := HandleDraining\<rparr>)\<rparr>) ex_open"
      "ex_handle\<lparr>hd_state := HandleDraining\<rparr>" "[OpClose ex_ref, OpExpire (hours 9), OpReconnect False ex_ref]"
      "ex_answers 0" ex_control ex_ref]
  by (simp add: ex_open_state Let_def)

end
