(* ===== verification/Control_Registry.thy ===== *)
theory Control_Registry
  imports Control_Actor
begin

text \<open>
  \<open>internal/control/control.go\<close>: the registry of one actor per device. A registry operation is a
  check of the registry's state, a look-up, and one command on the actor found; operations on different
  devices run in parallel and are interleaved here one command at a time. \<open>env\<close> gives every device
  its own script. The drain takes the registry's state, marks the actors, shuts each one down and closes
  the registry in four kinds of steps, between which commands already queued may run.
\<close>

section \<open>Data\<close>

definition DefaultIdleTimeout :: duration where "DefaultIdleTimeout = minutes 5"
definition DefaultAbsoluteLifetime :: duration where "DefaultAbsoluteLifetime = minutes 30"
definition DefaultSweepInterval :: duration where "DefaultSweepInterval = seconds 1"
definition DefaultCleanupTimeout :: duration where "DefaultCleanupTimeout = seconds 5"

record registry_config = control_config +
  cf_sweep :: duration
  cf_cleanup :: duration

record registry =
  rg_config :: registry_config
  rg_state :: transport_state
  rg_actors :: "(device_id \<times> actor) list"
  rg_drain_error :: "control_errors option"

record snapshot =
  sn_transport :: transport_state
  sn_session :: session_state
  sn_handle :: "handle option"

text \<open>\<open>supplied\<close>: a session factory and a locker are configured.\<close>

definition new_registry :: "bool \<Rightarrow> registry_config \<Rightarrow> control_errors + registry" where
  "new_registry supplied c =
     (if \<not> supplied then Inl [ErrInvalidConfig]
      else
        (let pick = (\<lambda>v d. if v = 0 then d else v);
             idle = pick (cf_idle c) DefaultIdleTimeout;
             absolute = pick (cf_absolute c) DefaultAbsoluteLifetime;
             sweep = pick (cf_sweep c) DefaultSweepInterval;
             cleanup = pick (cf_cleanup c) DefaultCleanupTimeout
         in if idle \<le> 0 \<or> absolute \<le> 0 \<or> idle > absolute \<or> sweep \<le> 0 \<or> cleanup \<le> 0 then Inl [ErrInvalidConfig]
            else Inr \<lparr>rg_config = \<lparr>cf_idle = idle, cf_absolute = absolute, cf_sweep = sweep, cf_cleanup = cleanup\<rparr>,
                      rg_state = TransportRunning, rg_actors = [], rg_drain_error = None\<rparr>))"

section \<open>Operations\<close>

definition registry_find :: "device_id \<Rightarrow> registry \<Rightarrow> actor option" where
  "registry_find d r = map_of (rg_actors r) d"

definition put_actor :: "device_id \<Rightarrow> actor \<Rightarrow> registry \<Rightarrow> registry" where
  "put_actor d a r = r\<lparr>rg_actors := map (\<lambda>(k, b). (k, if k = d then a else b)) (rg_actors r)\<rparr>"

definition registry_actor :: "device_id \<Rightarrow> registry \<Rightarrow> control_errors + registry" where
  "registry_actor d r =
     (if rg_state r \<noteq> TransportRunning then Inl [ErrRegistryClosed]
      else if registry_find d r \<noteq> None then Inr r
      else Inr (r\<lparr>rg_actors := (d, newActor d) # rg_actors r\<rparr>))"

definition registry_open ::
    "(device_id \<Rightarrow> control_env) \<Rightarrow> bool \<Rightarrow> open_request \<Rightarrow> registry \<Rightarrow> (control_errors + handle) \<times> registry" where
  "registry_open env early rq0 r0 =
     (case prepare_open (control_config.truncate (rg_config r0)) (rg_state r0 = TransportRunning) rq0 of
        Inl e \<Rightarrow> (Inl e, r0)
      | Inr rq \<Rightarrow>
          (case registry_actor (rq_device rq) r0 of
             Inl e \<Rightarrow> (Inl e, r0)
           | Inr r \<Rightarrow>
               (case registry_find (rq_device rq) r of
                  None \<Rightarrow> (Inl [ErrRegistryClosed], r)
                | Some a \<Rightarrow>
                    (let (res, a') = actor_open (env (rq_device rq)) early rq a
                     in (res, put_actor (rq_device rq) a' r)))))"

text \<open>The snapshot is absent (the zero value) when the actor took the command no more.\<close>

definition registry_get ::
    "(device_id \<Rightarrow> control_env) \<Rightarrow> device_id \<Rightarrow> ref \<Rightarrow> registry \<Rightarrow>
       (snapshot option \<times> control_errors option) \<times> registry" where
  "registry_get env d q r =
     (case registry_find d r of
        None \<Rightarrow> ((Some \<lparr>sn_transport = rg_state r, sn_session = SessionAbsent, sn_handle = None\<rparr>, Some [ErrControlNotFound]), r)
      | Some a \<Rightarrow>
          if aw_done a then ((None, Some [ErrRegistryClosed]), r)
          else
            (case actor_snapshot (env d) q True a of
               (Inl e, s, a') \<Rightarrow>
                 ((Some \<lparr>sn_transport = rg_state r, sn_session = s, sn_handle = None\<rparr>, Some e), put_actor d a' r)
             | (Inr h, s, a') \<Rightarrow>
                 ((Some \<lparr>sn_transport = rg_state r, sn_session = s, sn_handle = Some h\<rparr>, None), put_actor d a' r)))"

text \<open>\<open>callback\<close>: a callback was given.\<close>

definition registry_execute ::
    "(device_id \<Rightarrow> control_env) \<Rightarrow> bool \<Rightarrow> device_id \<Rightarrow> ref \<Rightarrow> string \<Rightarrow> bool \<Rightarrow> registry \<Rightarrow>
       control_errors option \<times> registry" where
  "registry_execute env early d q capability callback r =
     (if capability = [] \<or> \<not> callback then (Some [ErrInvalidConfig], r)
      else if rg_state r \<noteq> TransportRunning then (Some [ErrRegistryClosed], r)
      else
        (case registry_find d r of
           None \<Rightarrow> (Some [ErrControlNotFound], r)
         | Some a \<Rightarrow>
             (let (res, a') = actor_execute (env d) early q capability a in (res, put_actor d a' r))))"

definition registry_reconnect ::
    "(device_id \<Rightarrow> control_env) \<Rightarrow> bool \<Rightarrow> device_id \<Rightarrow> ref \<Rightarrow> registry \<Rightarrow> (control_errors + handle) \<times> registry" where
  "registry_reconnect env early d q r =
     (if rg_state r \<noteq> TransportRunning then (Inl [ErrRegistryClosed], r)
      else
        (case registry_find d r of
           None \<Rightarrow> (Inl [ErrControlNotFound], r)
         | Some a \<Rightarrow>
             (let (res, a') = actor_reconnect (env d) early q a in (res, put_actor d a' r))))"

definition registry_close ::
    "(device_id \<Rightarrow> control_env) \<Rightarrow> device_id \<Rightarrow> ref \<Rightarrow> registry \<Rightarrow>
       (handle option \<times> control_errors option) \<times> registry" where
  "registry_close env d q r =
     (case registry_find d r of
        None \<Rightarrow> ((None, Some [ErrControlNotFound]), r)
      | Some a \<Rightarrow>
          (let (res, a') = actor_close (env d) q HandleClosed a in (res, put_actor d a' r)))"

definition registry_quiescent :: "registry \<Rightarrow> bool" where
  "registry_quiescent r \<longleftrightarrow> list_all (\<lambda>(d, a). actor_quiescent a) (rg_actors r)"

text \<open>One turn of the sweeper, which reads the clock anew for each actor.\<close>

definition registry_sweep :: "(device_id \<Rightarrow> control_env) \<Rightarrow> (device_id \<Rightarrow> time) \<Rightarrow> registry \<Rightarrow> registry" where
  "registry_sweep env clock r = r\<lparr>rg_actors := map (\<lambda>(d, a). (d, actor_expire (env d) (clock d) a)) (rg_actors r)\<rparr>"

section \<open>Draining\<close>

definition drain_errors :: "control_errors option list \<Rightarrow> control_errors option" where
  "drain_errors es = foldr errors_join es None"

definition perform_drain :: "(device_id \<Rightarrow> control_env) \<Rightarrow> registry \<Rightarrow> registry" where
  "perform_drain env r =
     (let results = map (\<lambda>(d, a). (d, actor_shutdown (env d) (beginDrain a))) (rg_actors r)
      in r\<lparr>rg_actors := map (\<lambda>(d, e, a). (d, a)) results,
           rg_drain_error := drain_errors (map (\<lambda>(d, e, a). e) results), rg_state := TransportClosed\<rparr>)"

definition registry_drain :: "(device_id \<Rightarrow> control_env) \<Rightarrow> registry \<Rightarrow> control_errors option \<times> registry" where
  "registry_drain env r =
     (let r' = (if rg_state r = TransportRunning then perform_drain env (r\<lparr>rg_state := TransportDraining\<rparr>) else r)
      in (rg_drain_error r', r'))"

section \<open>Interleavings\<close>

datatype reg_op =
    RegOpen bool open_request
  | RegGet device_id ref
  | RegExecute bool device_id ref string bool
  | RegReconnect bool device_id ref
  | RegClose device_id ref
  | RegExpire device_id time
  | RegDrain
  | RegBeginDrain
  | RegShutdown device_id
  | RegFinish

text \<open>
  Requests whose durations are not \<open>int64\<close> do not exist in the program; on them the step does
  nothing. An actor is shut down once it is marked, and the registry closes when all are.
\<close>

definition on_actor :: "device_id \<Rightarrow> (actor \<Rightarrow> actor) \<Rightarrow> registry \<Rightarrow> registry" where
  "on_actor d f r = (case registry_find d r of None \<Rightarrow> r | Some a \<Rightarrow> put_actor d (f a) r)"

definition reg_step :: "(device_id \<Rightarrow> control_env) \<Rightarrow> registry \<Rightarrow> reg_op \<Rightarrow> registry" where
  "reg_step env r p =
     (case p of
        RegOpen early rq \<Rightarrow> if typed_request rq then snd (registry_open env early rq r) else r
      | RegGet d q \<Rightarrow> snd (registry_get env d q r)
      | RegExecute early d q capability callback \<Rightarrow> snd (registry_execute env early d q capability callback r)
      | RegReconnect early d q \<Rightarrow> snd (registry_reconnect env early d q r)
      | RegClose d q \<Rightarrow> snd (registry_close env d q r)
      | RegExpire d now \<Rightarrow> on_actor d (actor_expire (env d) now) r
      | RegDrain \<Rightarrow> if rg_state r = TransportRunning then r\<lparr>rg_state := TransportDraining\<rparr> else r
      | RegBeginDrain \<Rightarrow>
          if rg_state r = TransportDraining then r\<lparr>rg_actors := map (\<lambda>(d, a). (d, beginDrain a)) (rg_actors r)\<rparr> else r
      | RegShutdown d \<Rightarrow> on_actor d (\<lambda>a. if aw_draining a then snd (actor_shutdown (env d) a) else a) r
      | RegFinish \<Rightarrow>
          if rg_state r = TransportDraining \<and> list_all (\<lambda>(d, a). aw_draining a \<and> aw_done a) (rg_actors r)
          then r\<lparr>rg_state := TransportClosed\<rparr> else r)"

section \<open>The table of actors\<close>

lemma find_put [simp]:
  "registry_find k (put_actor d a r) = (if k = d then map_option (\<lambda>_. a) (registry_find d r) else registry_find k r)"
proof -
  have "map_of (map (\<lambda>(j, b). (j, if j = d then a else b)) xs) k =
      (if k = d then map_option (\<lambda>_. a) (map_of xs d) else map_of xs k)" for xs :: "(device_id \<times> actor) list"
    by (induction xs) auto
  then show ?thesis by (simp add: registry_find_def put_actor_def)
qed

lemma put_simps [simp]:
  "rg_state (put_actor d a r) = rg_state r" "rg_config (put_actor d a r) = rg_config r"
  "rg_drain_error (put_actor d a r) = rg_drain_error r"
  "map fst (rg_actors (put_actor d a r)) = map fst (rg_actors r)"
  by (simp_all add: put_actor_def comp_def case_prod_unfold)

lemma registry_actor_Inr:
  assumes "registry_actor d r = Inr r'"
  shows "rg_state r = TransportRunning" "rg_state r' = rg_state r" "rg_config r' = rg_config r"
    "registry_find k r' = (if k = d \<and> registry_find d r = None then Some (newActor d) else registry_find k r)"
  using assms by (auto simp: registry_actor_def registry_find_def split: if_splits)

text \<open>
  What any operation does to the actor of one device, \<open>None\<close> if there is none, given whether the
  registry takes work.
\<close>

definition about :: "device_id \<Rightarrow> reg_op \<Rightarrow> bool" where
  "about d p \<longleftrightarrow>
     (case p of
        RegOpen early rq \<Rightarrow> rq_device rq = d
      | RegGet k q \<Rightarrow> k = d
      | RegExecute early k q capability callback \<Rightarrow> k = d
      | RegReconnect early k q \<Rightarrow> k = d
      | RegClose k q \<Rightarrow> k = d
      | RegExpire k now \<Rightarrow> k = d
      | RegDrain \<Rightarrow> True
      | RegBeginDrain \<Rightarrow> True
      | RegShutdown k \<Rightarrow> k = d
      | RegFinish \<Rightarrow> False)"

lemma prepare_open_device: "prepare_open cf running rq = Inr rq' \<Longrightarrow> rq_device rq' = rq_device rq \<and> running"
  by (auto simp: prepare_open_def Let_def split: if_splits)

lemma find_map: "map_of (map (\<lambda>(d, a). (d, f a)) xs) k = map_option f (map_of xs k)"
  by (induction xs) auto

definition same_for :: "device_id \<Rightarrow> registry \<Rightarrow> registry \<Rightarrow> bool" where
  "same_for d r r' \<longleftrightarrow> registry_find d r = registry_find d r' \<and> rg_config r = rg_config r' \<and>
     (rg_state r = rg_state r' \<or>
      rg_state r = TransportClosed \<and> rg_state r' = TransportDraining \<and>
        (\<forall>a. registry_find d r = Some a \<longrightarrow> aw_draining a \<and> aw_done a))"

lemma registry_open_find:
  "registry_find k (snd (registry_open env early rq r)) =
     (if k \<noteq> rq_device rq then registry_find k r
      else (case prepare_open (control_config.truncate (rg_config r)) (rg_state r = TransportRunning) rq of
          Inl e \<Rightarrow> registry_find k r
        | Inr rq' \<Rightarrow> Some (snd (actor_open (env k) early rq'
            (case registry_find k r of None \<Rightarrow> newActor k | Some a \<Rightarrow> a)))))"
  "rg_state (snd (registry_open env early rq r)) = rg_state r" "rg_config (snd (registry_open env early rq r)) = rg_config r"
proof -
  have "registry_find k (snd (registry_open env early rq r)) =
     (if k \<noteq> rq_device rq then registry_find k r
      else (case prepare_open (control_config.truncate (rg_config r)) (rg_state r = TransportRunning) rq of
          Inl e \<Rightarrow> registry_find k r
        | Inr rq' \<Rightarrow> Some (snd (actor_open (env k) early rq'
            (case registry_find k r of None \<Rightarrow> newActor k | Some a \<Rightarrow> a))))) \<and>
    rg_state (snd (registry_open env early rq r)) = rg_state r \<and> rg_config (snd (registry_open env early rq r)) = rg_config r"
  proof (cases "prepare_open (control_config.truncate (rg_config r)) (rg_state r = TransportRunning) rq")
    case (Inr rq')
    note dev = prepare_open_device [OF Inr]
    then obtain r1 where r1: "registry_actor (rq_device rq) r = Inr r1"
      by (cases "registry_find (rq_device rq) r") (auto simp: registry_actor_def)
    note r1' = registry_actor_Inr [OF r1]
    have "prepare_open (control_config.truncate (rg_config r)) True rq = Inr rq'" using Inr dev by simp
    then show ?thesis
      using r1' dev r1
      by (cases "registry_find (rq_device rq) r") (simp_all add: registry_open_def case_prod_unfold Let_def)
  qed (simp add: registry_open_def)
  then show "registry_find k (snd (registry_open env early rq r)) =
     (if k \<noteq> rq_device rq then registry_find k r
      else (case prepare_open (control_config.truncate (rg_config r)) (rg_state r = TransportRunning) rq of
          Inl e \<Rightarrow> registry_find k r
        | Inr rq' \<Rightarrow> Some (snd (actor_open (env k) early rq'
            (case registry_find k r of None \<Rightarrow> newActor k | Some a \<Rightarrow> a)))))"
    "rg_state (snd (registry_open env early rq r)) = rg_state r" "rg_config (snd (registry_open env early rq r)) = rg_config r"
    by simp_all
qed

text \<open>The actor of a device after one operation about it.\<close>

definition actor_after :: "(device_id \<Rightarrow> control_env) \<Rightarrow> device_id \<Rightarrow> registry \<Rightarrow> reg_op \<Rightarrow> actor option" where
  "actor_after env d r p =
     (case p of
        RegOpen early rq \<Rightarrow>
          (if \<not> typed_request rq then registry_find d r
           else case prepare_open (control_config.truncate (rg_config r)) (rg_state r = TransportRunning) rq of
             Inl e \<Rightarrow> registry_find d r
           | Inr rq' \<Rightarrow> Some (snd (actor_open (env d) early rq' (case registry_find d r of None \<Rightarrow> newActor d | Some a \<Rightarrow> a))))
      | RegGet k q \<Rightarrow> map_option (\<lambda>a. snd (snd (actor_snapshot (env d) q True a))) (registry_find d r)
      | RegExecute early k q capability callback \<Rightarrow>
          if capability = [] \<or> \<not> callback \<or> rg_state r \<noteq> TransportRunning then registry_find d r else map_option (\<lambda>a. snd (actor_execute (env d) early q capability a)) (registry_find d r)
      | RegReconnect early k q \<Rightarrow> if rg_state r \<noteq> TransportRunning then registry_find d r else map_option (\<lambda>a. snd (actor_reconnect (env d) early q a)) (registry_find d r)
      | RegClose k q \<Rightarrow> map_option (\<lambda>a. snd (actor_close (env d) q HandleClosed a)) (registry_find d r)
      | RegExpire k now \<Rightarrow> map_option (actor_expire (env d) now) (registry_find d r)
      | RegDrain \<Rightarrow> registry_find d r
      | RegBeginDrain \<Rightarrow> if rg_state r = TransportDraining then map_option beginDrain (registry_find d r) else registry_find d r
      | RegShutdown k \<Rightarrow> map_option (\<lambda>a. if aw_draining a then snd (actor_shutdown (env d) a) else a) (registry_find d r)
      | RegFinish \<Rightarrow> registry_find d r)"

lemma registry_get_find:
  "registry_find k (snd (registry_get env d q r)) =
     (if k = d then map_option (\<lambda>a. snd (snd (actor_snapshot (env d) q True a))) (registry_find d r) else registry_find k r)"
  "rg_state (snd (registry_get env d q r)) = rg_state r" "rg_config (snd (registry_get env d q r)) = rg_config r"
  by (cases "registry_find d r";
      auto simp: registry_get_def actor_snapshot_def split: sum.splits prod.splits)+

lemma registry_command_find:
  "registry_find k (snd (registry_execute env early d q capability callback r)) =
     (if k = d \<and> \<not> (capability = [] \<or> \<not> callback \<or> rg_state r \<noteq> TransportRunning)
      then map_option (\<lambda>a. snd (actor_execute (env d) early q capability a)) (registry_find d r) else registry_find k r)"
  "registry_find k (snd (registry_reconnect env early d q r)) =
     (if k = d \<and> rg_state r = TransportRunning
      then map_option (\<lambda>a. snd (actor_reconnect (env d) early q a)) (registry_find d r) else registry_find k r)"
  "registry_find k (snd (registry_close env d q r)) =
     (if k = d then map_option (\<lambda>a. snd (actor_close (env d) q HandleClosed a)) (registry_find d r) else registry_find k r)"
  "registry_find k (on_actor d f r) = (if k = d then map_option f (registry_find d r) else registry_find k r)"
  by (cases "registry_find d r";
      simp add: registry_execute_def registry_reconnect_def registry_close_def on_actor_def case_prod_unfold Let_def)+

lemma registry_command_frame:
  "rg_state (snd (registry_execute env early d q capability callback r)) = rg_state r"
  "rg_config (snd (registry_execute env early d q capability callback r)) = rg_config r"
  "rg_state (snd (registry_reconnect env early d q r)) = rg_state r"
  "rg_config (snd (registry_reconnect env early d q r)) = rg_config r"
  "rg_state (snd (registry_close env d q r)) = rg_state r" "rg_config (snd (registry_close env d q r)) = rg_config r"
  "rg_state (on_actor d f r) = rg_state r" "rg_config (on_actor d f r) = rg_config r"
  by (simp_all add: registry_execute_def registry_reconnect_def registry_close_def on_actor_def case_prod_unfold Let_def
      split: option.splits)

lemma find_mapped: "registry_find k (r\<lparr>rg_actors := map (\<lambda>(d, a). (d, f a)) (rg_actors r)\<rparr>) = map_option f (registry_find k r)"
  by (simp add: registry_find_def find_map)

lemmas registry_find_simps = registry_open_find registry_get_find registry_command_find registry_command_frame find_mapped

lemma reg_step_find: "registry_find d (reg_step env r p) = (if about d p then actor_after env d r p else registry_find d r)"
  by (cases p) (auto simp: reg_step_def actor_after_def about_def registry_find_simps Let_def registry_find_def [of _ "r\<lparr>rg_state := _\<rparr>"]
      registry_find_def [symmetric] split: sum.splits)

section \<open>Commands on one actor\<close>

text \<open>What no command changes, and what only the shutdown does.\<close>

definition same_flags :: "actor \<Rightarrow> actor \<Rightarrow> bool" where
  "same_flags a b \<longleftrightarrow> aw_device b = aw_device a \<and> aw_draining b = aw_draining a \<and> aw_done b = aw_done a"

lemma same_flags_simps [simp]:
  "same_flags a a" "same_flags a (snd (ask env a))" "same_flags a (snd (call_out env c a))" "same_flags a (upd f a)"
  "same_flags a (a\<lparr>aw_state := s\<rparr>)"
  by (simp_all add: same_flags_def)

lemma same_flags_trans [trans]: "same_flags a b \<Longrightarrow> same_flags b c \<Longrightarrow> same_flags a c"
  by (simp add: same_flags_def)

lemma drain_current_flags: "same_flags a (snd (drain_current env terminal h a))"
  using drain_current_result [of env terminal h a "fst (fst (drain_current env terminal h a))"
      "snd (fst (drain_current env terminal h a))" "snd (drain_current env terminal h a)"]
  by (simp add: same_flags_def)

lemma expireIfNeeded_flags: "same_flags a (expireIfNeeded env now a)"
proof -
  define b where "b = upd (\<lambda>s. s\<lparr>as_history := filter (\<lambda>p. now < hd_absolute_expires (snd p)) (as_history s)\<rparr>) a"
  have "same_flags a b" by (simp add: b_def)
  moreover have "same_flags b (expireIfNeeded env now a)"
    using drain_current_flags [of b env HandleExpired]
    by (simp add: expireIfNeeded_def b_def [symmetric] Let_def split: option.splits)
  ultimately show ?thesis by (rule same_flags_trans)
qed

lemma newHandleID_flags: "newHandleID env a = (x, a') \<Longrightarrow> same_flags a a'"
  by (auto simp: newHandleID_def case_prod_unfold Let_def split: if_splits)

lemma open_fresh_flags: "same_flags a (snd (open_fresh env rq now a))"
proof (cases "newHandleID env a")
  case (Pair x b)
  have "same_flags b (snd (open_fresh env rq now a))"
    by (auto simp: open_fresh_def Pair same_flags_def case_prod_unfold Let_def split: sum.splits option.splits)
  then show ?thesis using newHandleID_flags [OF Pair] same_flags_trans by blast
qed

lemma actor_open_flags: "same_flags a (snd (actor_open env early rq a))"
proof -
  define b where "b = expireIfNeeded env (an_now (env (aw_tick a))) (snd (ask env a))"
  have ab: "same_flags a b" unfolding b_def by (rule same_flags_trans [OF _ expireIfNeeded_flags]) simp
  then show ?thesis
    using same_flags_trans [OF ab open_fresh_flags]
    by (simp add: actor_open_def case_prod_unfold Let_def b_def [symmetric] split: option.splits)
      (simp add: same_flags_def)
qed

lemma actor_snapshot_flags: "same_flags a (snd (snd (actor_snapshot env r touching a)))"
proof -
  define b where "b = expireIfNeeded env (an_now (env (aw_tick a))) (snd (ask env a))"
  have ab: "same_flags a b" unfolding b_def by (rule same_flags_trans [OF _ expireIfNeeded_flags]) simp
  then show ?thesis
    by (simp add: actor_snapshot_def case_prod_unfold Let_def b_def [symmetric] split: sum.splits)
      (simp add: same_flags_def)
qed

lemma actor_admit_flags: "same_flags a (snd (actor_admit env early r capability a))"
proof -
  define b where "b = expireIfNeeded env (an_now (env (aw_tick a))) (snd (ask env a))"
  have ab: "same_flags a b" unfolding b_def by (rule same_flags_trans [OF _ expireIfNeeded_flags]) simp
  then show ?thesis
    by (simp add: actor_admit_def case_prod_unfold Let_def b_def [symmetric] split: sum.splits option.splits)
qed

lemma actor_execute_flags: "same_flags a (snd (actor_execute env early r capability a))"
proof (cases "actor_admit env early r capability a")
  case (Pair x b)
  have "same_flags b (snd (actor_executed env t b))" for t
    by (simp add: actor_executed_def same_flags_def case_prod_unfold Let_def)
  then show ?thesis
    using actor_admit_flags [of a env early r capability] Pair same_flags_trans
    by (auto simp: actor_execute_def split: sum.splits)
qed

lemma releaseLock_flags: "same_flags a (snd (releaseLock env a))"
  by (auto simp: releaseLock_def same_flags_def case_prod_unfold Let_def split: option.splits)

lemma reopen_session_flags: "same_flags a (snd (reopen_session env hid idle lifetime old a))"
proof -
  have "same_flags a (snd (releaseLock env (upd g (snd (call_out env c a)))))" for g c
    by (rule same_flags_trans [OF _ releaseLock_flags]) (simp add: same_flags_def)
  then show ?thesis
    by (auto simp: reopen_session_def case_prod_unfold Let_def split: option.splits) (simp_all add: same_flags_def)
qed

lemma actor_reconnect_flags: "same_flags a (snd (actor_reconnect env early r a))"
proof (cases "newHandleID env (snd (ask env a))")
  case (Pair x b)
  have ab: "same_flags a b" using newHandleID_flags [OF Pair] by (simp add: same_flags_def)
  have "same_flags a (snd (reopen_session env i j k old (upd g (snd (call_out env c (upd f b))))))" for i j k old g c f
    by (rule same_flags_trans [OF _ reopen_session_flags]) (use ab in \<open>simp add: same_flags_def\<close>)
  then show ?thesis
    using ab by (auto simp: actor_reconnect_def Pair case_prod_unfold Let_def split: option.splits sum.splits) (simp_all add: same_flags_def)
qed

lemma actor_close_flags: "same_flags a (snd (actor_close env r terminal a))"
proof -
  have "same_flags a (snd (drain_current env terminal h (snd (ask env a))))" for h
    by (rule same_flags_trans [OF _ drain_current_flags]) simp
  then show ?thesis
    by (auto simp: actor_close_def case_prod_unfold Let_def split: option.splits sum.splits)
qed

lemma actor_shutdown_flags:
  "aw_device (snd (actor_shutdown env a)) = aw_device a" "aw_draining (snd (actor_shutdown env a)) = aw_draining a"
  "aw_done (snd (actor_shutdown env a))"
  using drain_current_flags [of a env HandleClosed] by (auto simp: actor_shutdown_def case_prod_unfold same_flags_def split: option.splits)

lemmas actor_flags = actor_open_flags actor_snapshot_flags actor_execute_flags actor_reconnect_flags actor_close_flags
  expireIfNeeded_flags

text \<open>An actor that has been shut down takes no command.\<close>

lemma done_actor:
  assumes "aw_done a"
  shows "snd (actor_open env early rq a) = a" "snd (snd (actor_snapshot env q touching a)) = a"
    "snd (actor_execute env early q capability a) = a" "snd (actor_reconnect env early q a) = a"
    "snd (actor_close env q terminal a) = a" "actor_expire env now a = a" "snd (actor_shutdown env a) = a"
  using assms by (simp_all add: actor_open_def actor_snapshot_def actor_execute_def actor_admit_def actor_reconnect_def
      actor_close_def actor_expire_def actor_shutdown_def)

section \<open>The invariant of a registry\<close>

text \<open>
  Every actor is filed under its own device and keeps its own invariant; it is marked only once the
  registry drains and shut down only once it is marked; in a closed registry every actor is.
\<close>

definition actor_ok :: "registry \<Rightarrow> device_id \<Rightarrow> actor \<Rightarrow> bool" where
  "actor_ok r d a \<longleftrightarrow> aw_device a = d \<and> state_inv (aw_state a) \<and> (aw_done a \<longrightarrow> aw_draining a) \<and>
     (aw_draining a \<longrightarrow> rg_state r \<noteq> TransportRunning) \<and> (rg_state r = TransportClosed \<longrightarrow> aw_done a)"

definition config_ok :: "registry_config \<Rightarrow> bool" where
  "config_ok c \<longleftrightarrow> 0 < cf_idle c \<and> cf_idle c \<le> cf_absolute c \<and> cf_absolute c < 2 ^ 63"

definition reg_inv :: "registry \<Rightarrow> bool" where
  "reg_inv r \<longleftrightarrow> config_ok (rg_config r) \<and> (\<forall>d a. registry_find d r = Some a \<longrightarrow> actor_ok r d a)"

lemma prepare_open_typed:
  assumes "prepare_open (control_config.truncate c) running rq = Inr rq'" "typed_request rq" "config_ok c"
  shows "0 < rq_idle rq'" "rq_idle rq' \<le> rq_absolute rq'" "rq_absolute rq' < 2 ^ 63"
  using assms by (auto simp: prepare_open_def typed_request_def config_ok_def control_config.truncate_def Let_def split: if_splits)

lemma actor_after_ok:
  assumes "reg_inv r" "actor_after env d r p = Some a'"
  shows "aw_device a' = d" "state_inv (aw_state a')" "aw_done a' \<longrightarrow> aw_draining a'"
    "aw_draining a' \<longrightarrow> rg_state r \<noteq> TransportRunning" "rg_state r = TransportClosed \<longrightarrow> aw_done a'"
proof -
  have old: "actor_ok r d a" if "registry_find d r = Some a" for a using assms(1) that by (simp add: reg_inv_def)
  have fine: "actor_ok r d b" if "registry_find d r = Some a" "same_flags a b" "good a b" for a b
    using old [OF that(1)] that(2,3) by (simp add: actor_ok_def same_flags_def good_def)
  have "actor_ok r d a'"
  proof (cases p)
    case (RegOpen early rq)
    show ?thesis
    proof (cases "prepare_open (control_config.truncate (rg_config r)) (rg_state r = TransportRunning) rq")
      case (Inl e)
      then show ?thesis using assms(2) RegOpen old by (simp add: actor_after_def Let_def split: if_splits)
    next
      case (Inr rq')
      note run = conjunct2 [OF prepare_open_device [OF Inr]]
      have fresh: "actor_ok r d (newActor d)" using run newActor_inv by (simp add: actor_ok_def newActor_def)
      define a where "a = (case registry_find d r of None \<Rightarrow> newActor d | Some a \<Rightarrow> a)"
      have a: "actor_ok r d a" using fresh old by (simp add: a_def split: option.splits)
      show ?thesis
      proof (cases "typed_request rq")
        case True
        have "good a (snd (actor_open (env d) early rq' a))"
          using prepare_open_typed [OF Inr True] assms(1) by (intro actor_open_good) (simp_all add: reg_inv_def)
        moreover have "a' = snd (actor_open (env d) early rq' a)"
          using assms(2) RegOpen Inr True by (simp add: actor_after_def a_def)
        ultimately show ?thesis using a actor_open_flags [of a "env d" early rq'] by (simp add: actor_ok_def same_flags_def good_def)
      qed (use assms(2) RegOpen old in \<open>simp add: actor_after_def\<close>)
    qed
  next
    case (RegReconnect early k q)
    then show ?thesis
      using assms(2) old fine [OF _ actor_reconnect_flags actor_reconnect_good]
      by (auto simp: actor_after_def actor_ok_def split: if_splits)
  next
    case RegBeginDrain
    then show ?thesis using assms(2) old by (auto simp: actor_after_def actor_ok_def beginDrain_def split: if_splits)
  next
    case (RegShutdown k)
    then show ?thesis
      using assms(2) old actor_shutdown_good [of _ "env d"] actor_shutdown_flags [of "env d"]
      by (auto simp: actor_after_def actor_ok_def steady_def split: if_splits)
  next
    case (RegExpire k now)
    then show ?thesis
      using assms(2) old fine [OF _ expireIfNeeded_flags steady_good [OF expireIfNeeded_steady]]
      by (auto simp: actor_after_def actor_expire_def split: if_splits)
  qed (use assms(2) old fine [OF _ actor_snapshot_flags steady_good [OF actor_snapshot_good]]
      fine [OF _ actor_execute_flags steady_good [OF actor_execute_good]]
      fine [OF _ actor_close_flags steady_good [OF actor_close_good]] in
      \<open>auto simp: actor_after_def split: if_splits\<close>)
  then show "aw_device a' = d" "state_inv (aw_state a')" "aw_done a' \<longrightarrow> aw_draining a'"
    "aw_draining a' \<longrightarrow> rg_state r \<noteq> TransportRunning" "rg_state r = TransportClosed \<longrightarrow> aw_done a'"
    by (simp_all add: actor_ok_def)
qed

lemma reg_step_frame:
  "rg_config (reg_step env r p) = rg_config r"
  "rg_state (reg_step env r p) = rg_state r \<or>
   (p = RegDrain \<and> rg_state (reg_step env r p) = TransportDraining \<and> rg_state r = TransportRunning) \<or>
   (p = RegFinish \<and> rg_state (reg_step env r p) = TransportClosed \<and> rg_state r = TransportDraining \<and>
     list_all (\<lambda>(d, a). aw_draining a \<and> aw_done a) (rg_actors r))"
  by (cases p; auto simp: reg_step_def registry_find_simps)+

lemma reg_step_inv:
  assumes "reg_inv r"
  shows "reg_inv (reg_step env r p)"
  unfolding reg_inv_def
proof (intro conjI allI impI)
  show "config_ok (rg_config (reg_step env r p))" using assms by (simp add: reg_inv_def reg_step_frame(1))
  fix d a assume a: "registry_find d (reg_step env r p) = Some a"
  have "aw_device a = d \<and> state_inv (aw_state a) \<and> (aw_done a \<longrightarrow> aw_draining a) \<and>
      (aw_draining a \<longrightarrow> rg_state r \<noteq> TransportRunning) \<and> (rg_state r = TransportClosed \<longrightarrow> aw_done a)"
    using a actor_after_ok [OF assms, of env d p a] assms by (auto simp: reg_step_find reg_inv_def actor_ok_def split: if_splits)
  moreover have "aw_done a" if "p = RegFinish" "list_all (\<lambda>(d, a). aw_draining a \<and> aw_done a) (rg_actors r)"
  proof -
    have "registry_find d r = Some a" using a that by (simp add: reg_step_find about_def)
    then have "(d, a) \<in> set (rg_actors r)" by (auto simp: registry_find_def dest: map_of_SomeD)
    then show ?thesis using that(2) by (auto simp: list_all_iff)
  qed
  ultimately show "actor_ok (reg_step env r p) d a" using reg_step_frame(2) [of env r p] by (auto simp: actor_ok_def)
qed

interpretation registry_runs: guarded_machine "reg_step env" reg_inv for env
  by unfold_locales (rule reg_step_inv)

lemma new_registry_inv:
  assumes "new_registry supplied c = Inr r" "cf_idle c < 2 ^ 63" "cf_absolute c < 2 ^ 63"
  shows "reg_inv r" "rg_state r = TransportRunning" "rg_actors r = []"
  using assms by (auto simp: new_registry_def reg_inv_def config_ok_def registry_find_def DefaultIdleTimeout_def
      DefaultAbsoluteLifetime_def Let_def split: if_splits)

section \<open>Devices do not interfere\<close>

lemma prepare_open_closed [simp]:
  "prepare_open cf False rq = Inl (if rq_device rq = [] \<or> rq_capabilities rq = [] then [ErrInvalidConfig] else [ErrRegistryClosed])"
  by (simp add: prepare_open_def)

lemma closed_actor_after:
  assumes "rg_state r = TransportClosed" "\<And>a. registry_find d r = Some a \<Longrightarrow> aw_done a"
  shows "actor_after env d r p = registry_find d r"
proof (cases "registry_find d r")
  case None
  then show ?thesis
    using assms(1) by (cases p) (simp_all add: actor_after_def)
next
  case (Some a)
  then show ?thesis
    using assms(1) done_actor [OF assms(2) [OF Some]] by (cases p) (simp_all add: actor_after_def)
qed

lemma marked_again: "aw_draining a \<Longrightarrow> beginDrain a = a"
  by (cases a) (simp add: beginDrain_def)

lemma same_for_step:
  assumes "same_for d r r'"
  shows "same_for d (reg_step env r p) (if about d p then reg_step env r' p else r')"
proof -
  have config: "rg_config (reg_step env r p) = rg_config (reg_step env r' p)" "rg_config (reg_step env r p) = rg_config r'"
    using assms by (simp_all add: same_for_def reg_step_frame(1))
  have same: "registry_find d r = registry_find d r'" "rg_config r = rg_config r'" using assms by (simp_all add: same_for_def)
  consider (equal) "rg_state r = rg_state r'"
    | (behind) "rg_state r = TransportClosed" "rg_state r' = TransportDraining" "\<And>a. registry_find d r' = Some a \<Longrightarrow> aw_draining a \<and> aw_done a"
    using assms by (auto simp: same_for_def)
  then show ?thesis
  proof cases
    case equal
    have actor: "actor_after env d r p = actor_after env d r' p"
      using same equal by (cases p) (simp_all add: actor_after_def split: sum.split)
    have finish: "registry_find d r = Some a \<Longrightarrow> aw_draining a \<and> aw_done a"
      if "list_all (\<lambda>(d, a). aw_draining a \<and> aw_done a) (rg_actors r)" for a
      using that by (auto simp: registry_find_def list_all_iff dest: map_of_SomeD)
    show ?thesis
    proof (cases "about d p")
      case True
      moreover have "rg_state (reg_step env r p) = rg_state (reg_step env r' p)"
        using True equal by (cases p) (simp_all add: reg_step_def registry_find_simps about_def)
      ultimately show ?thesis using actor config by (simp add: same_for_def reg_step_find)
    next
      case False
      then have "p \<noteq> RegDrain" by (auto simp: about_def)
      have find: "registry_find d (reg_step env r p) = registry_find d r'" using False same(1) by (simp add: reg_step_find)
      show ?thesis
      proof (cases "rg_state (reg_step env r p) = rg_state r")
        case True
        then show ?thesis using False find config(2) equal by (simp add: same_for_def)
      next
        case moved: False
        then have st: "rg_state (reg_step env r p) = TransportClosed" "rg_state r' = TransportDraining"
          "list_all (\<lambda>(d, a). aw_draining a \<and> aw_done a) (rg_actors r)"
          using reg_step_frame(2) [of env r p] \<open>p \<noteq> RegDrain\<close> equal by auto
        have "\<forall>a. registry_find d r' = Some a \<longrightarrow> aw_draining a \<and> aw_done a"
          using finish [OF st(3)] unfolding same(1) by blast
        then have "same_for d (reg_step env r p) r'" unfolding same_for_def find using st(1,2) config(2) by blast
        then show ?thesis using False by simp
      qed
    qed
  next
    case behind
    have stay: "actor_after env d r p = registry_find d r"
      by (rule closed_actor_after [OF behind(1)]) (use behind(3) same in auto)
    have stay': "actor_after env d r' p = registry_find d r'" if "about d p"
    proof (cases "registry_find d r'")
      case None
      then show ?thesis using behind(2) that by (cases p) (simp_all add: actor_after_def)
    next
      case (Some a)
      then show ?thesis
        using behind(2) behind(3) [of a] marked_again [of a] done_actor [where a = a] that
        by (cases p) (simp_all add: actor_after_def about_def)
    qed
    have "rg_state (reg_step env r p) = TransportClosed" using reg_step_frame(2) [of env r p] behind by auto
    moreover have "rg_state (reg_step env r' p) = TransportDraining" if "about d p"
      using reg_step_frame(2) [of env r' p] behind that by (auto simp: about_def)
    ultimately show ?thesis using behind same stay stay' config by (auto simp: same_for_def reg_step_find)
  qed
qed

lemma same_for_run:
  "same_for d r r' \<Longrightarrow> same_for d (foldl (reg_step env) r ops) (foldl (reg_step env) r' (filter (about d) ops))"
proof (induction ops arbitrary: r r')
  case (Cons p ops)
  then show ?case using same_for_step [OF Cons.prems, of env p] by (auto split: if_splits)
qed simp

section \<open>Draining in one go\<close>

lemma drain_errors_None: "drain_errors es = None \<longleftrightarrow> list_all (\<lambda>e. e = None) es"
  by (induction es) (auto simp: drain_errors_def)

lemma perform_drain_find:
  "registry_find d (perform_drain env r) = map_option (\<lambda>a. snd (actor_shutdown (env d) (beginDrain a))) (registry_find d r)"
proof -
  have "map_of (map (\<lambda>(d, a). (d, snd (actor_shutdown (env d) (beginDrain a)))) xs) d =
      map_option (\<lambda>a. snd (actor_shutdown (env d) (beginDrain a))) (map_of xs d)" for xs :: "(device_id \<times> actor) list"
    by (induction xs) auto
  then show ?thesis by (simp add: registry_find_def perform_drain_def Let_def comp_def case_prod_unfold)
qed

lemma perform_drain_done: "registry_find d (perform_drain env r) = Some a \<Longrightarrow> aw_done a"
  using actor_shutdown_flags(3) by (auto simp: perform_drain_find)

lemma perform_drain_error:
  "rg_drain_error (perform_drain env r) = None \<longleftrightarrow>
     list_all (\<lambda>(d, a). fst (actor_shutdown (env d) (beginDrain a)) = None) (rg_actors r)"
  by (simp add: perform_drain_def Let_def drain_errors_None list.pred_map comp_def case_prod_unfold)

section \<open>Properties\<close>

text \<open>
  devices do not interfere: what any sequence of operations leaves of a device's actor is what the
  operations on that device alone, with the draining of the registry, would have left.
\<close>

theorem devices_do_not_interfere:
  "registry_find d (foldl (reg_step env) r ops) = registry_find d (foldl (reg_step env) r (filter (about d) ops))"
proof -
  have "same_for d r r" by (simp add: same_for_def)
  from same_for_run [OF this] show ?thesis by (simp add: same_for_def)
qed

text \<open>
  C18: every registry a new one can become, with any devices, any interleaving and any answers of the
  outside, keeps the actors' invariants, files each actor under its device, marks and shuts actors down
  only while it drains, and is closed only when all of them are down.
\<close>

theorem registry_invariant:
  assumes "new_registry supplied c = Inr r" "cf_idle c < 2 ^ 63" "cf_absolute c < 2 ^ 63"
  shows "reg_inv (foldl (reg_step env) r ops)"
  by (rule registry_runs.run_inv) (rule new_registry_inv(1) [OF assms])

definition ex_registry_config :: registry_config where
  "ex_registry_config = \<lparr>cf_idle = 0, cf_absolute = 0, cf_sweep = 0, cf_cleanup = 0\<rparr>"

definition ex_registry :: registry where
  "ex_registry = \<lparr>rg_config = \<lparr>cf_idle = minutes 5, cf_absolute = minutes 30, cf_sweep = seconds 1, cf_cleanup = seconds 5\<rparr>,
     rg_state = TransportRunning, rg_actors = [], rg_drain_error = None\<rparr>"

lemma ex_new_registry: "new_registry True ex_registry_config = Inr ex_registry"
  by (simp add: new_registry_def ex_registry_config_def ex_registry_def DefaultIdleTimeout_def
      DefaultAbsoluteLifetime_def DefaultSweepInterval_def DefaultCleanupTimeout_def Let_def)

theorem registry_invariant_witness:
  "reg_inv (foldl (reg_step (\<lambda>_. ex_answers (seconds 2))) ex_registry
     [RegOpen False ex_request, RegDrain, RegBeginDrain, RegShutdown (rq_device ex_request), RegFinish])"
  by (rule registry_invariant [OF ex_new_registry]) (simp_all add: ex_registry_config_def)

text \<open>
  C17: after a drain nothing happens any more: no operation, with whatever arguments, changes the state
  of any device's actor, sends anything to a session or takes a lock, and no actor is created.
\<close>

theorem drained_registry_is_quiet:
  assumes "registry_drain env r = (e, r')" "rg_state r = TransportRunning"
  shows "registry_find d (foldl (reg_step env) r' ops) = registry_find d r'"
proof -
  have "r' = perform_drain env (r\<lparr>rg_state := TransportDraining\<rparr>)" using assms by (simp add: registry_drain_def Let_def)
  then have quiet: "rg_state r' = TransportClosed \<and> (\<forall>d a. registry_find d r' = Some a \<longrightarrow> aw_done a)"
    using perform_drain_done by (auto simp: perform_drain_def Let_def)
  have step: "registry_find k (reg_step env s p) = registry_find k s \<and> rg_state (reg_step env s p) = TransportClosed"
    if "rg_state s = TransportClosed" "\<forall>d a. registry_find d s = Some a \<longrightarrow> aw_done a" for s p k
    using closed_actor_after [OF that(1), of k env p] that reg_step_frame(2) [of env s p] by (auto simp: reg_step_find)
  have "\<forall>d. registry_find d (foldl (reg_step env) s ops) = registry_find d s"
    if "rg_state s = TransportClosed" "\<forall>d a. registry_find d s = Some a \<longrightarrow> aw_done a" for s
    using that by (induction ops arbitrary: s) (auto simp: step)
  then show ?thesis using quiet by blast
qed

theorem drained_registry_is_quiet_witness:
  "registry_find ''d1'' (foldl (reg_step (\<lambda>_. ex_answers 0)) (snd (registry_drain (\<lambda>_. ex_answers 0) ex_registry)) [RegOpen False ex_request]) =
     registry_find ''d1'' (snd (registry_drain (\<lambda>_. ex_answers 0) ex_registry))"
  by (rule drained_registry_is_quiet [where e = "fst (registry_drain (\<lambda>_. ex_answers 0) ex_registry)" and r = ex_registry])
    (simp_all add: ex_registry_def)

text \<open>
  a drain that reports no error has ended every session and emptied every actor, and released
  every lock but those no handle stood for when it began.
\<close>

theorem clean_drain_ends_every_session:
  assumes "reg_inv r" "rg_state r = TransportRunning" "registry_drain env r = (None, r')"
    "registry_find d r' = Some a'"
  shows "\<exists>a. registry_find d r = Some a \<and> as_session (aw_state a') = None \<and> as_current (aw_state a') = None \<and>
    as_lock (aw_state a') = (if as_current (aw_state a) = None then as_lock (aw_state a) else None)"
proof -
  have r': "r' = perform_drain env (r\<lparr>rg_state := TransportDraining\<rparr>)" using assms(2,3) by (simp add: registry_drain_def Let_def)
  have "rg_drain_error r' = None" using assms(3) by (auto simp: registry_drain_def Let_def)
  then have clean: "list_all (\<lambda>(d, a). fst (actor_shutdown (env d) (beginDrain a)) = None) (rg_actors r)"
    unfolding r' perform_drain_error by simp
  obtain a where a: "registry_find d r = Some a" "a' = snd (actor_shutdown (env d) (beginDrain a))"
    using assms(4) unfolding r' perform_drain_find by (auto simp: registry_find_def)
  then have "fst (actor_shutdown (env d) (beginDrain a)) = None"
    using clean by (auto simp: registry_find_def list_all_iff dest!: map_of_SomeD)
  then have "actor_shutdown (env d) (beginDrain a) = (None, a')" using a(2) by (metis prod.collapse)
  moreover have "state_inv (aw_state a)" using assms(1) a(1) by (auto simp: reg_inv_def actor_ok_def)
  ultimately show ?thesis
    using a(1) drain_current_result(4) [of "env d" HandleClosed _ "beginDrain a"]
    by (cases "as_current (aw_state a)")
      (auto simp: actor_shutdown_def beginDrain_def state_inv_def split: if_splits prod.splits)
qed

definition ex_registry_open :: registry where
  "ex_registry_open = ex_registry\<lparr>rg_actors := [(aw_device ex_open, ex_open)]\<rparr>"

lemma ex_registry_open_inv: "reg_inv ex_registry_open" "rg_state ex_registry_open = TransportRunning"
  by (auto simp: reg_inv_def ex_registry_open_def ex_registry_def registry_find_def config_ok_def actor_ok_def
      ex_open_state ex_handle_def state_inv_def handle_times_def)

theorem clean_drain_ends_every_session_witness:
  "\<exists>r' a'. registry_drain (\<lambda>_. ex_answers 0) ex_registry_open = (None, r') \<and>
     registry_find (aw_device ex_open) r' = Some a' \<and> as_lock (aw_state a') = None"
proof -
  obtain r' where r': "registry_drain (\<lambda>_. ex_answers 0) ex_registry_open = (None, r')"
    by (simp add: registry_drain_def perform_drain_def ex_registry_open_def ex_registry_def ex_open_state beginDrain_def
        actor_shutdown_def drain_current_def closeSession_def end_session_def releaseLock_def call_out_def ask_def
        ex_answers_def drain_errors_def Let_def)
  then have "registry_find (aw_device ex_open) r' =
      Some (snd (actor_shutdown (ex_answers 0) (beginDrain ex_open)))"
    by (auto simp: registry_drain_def ex_registry_open_inv(2) Let_def perform_drain_find)
      (simp add: registry_find_def ex_registry_open_def)
  moreover note clean_drain_ends_every_session [OF ex_registry_open_inv r' this]
  ultimately show ?thesis using r' by (auto simp: ex_registry_open_def registry_find_def ex_open_state)
qed

text \<open>
  a lock can be lost: when a reconnect closes the old session, fails to open the new one and fails
  to release the lock, no handle stands for the lock any more, and the drain of the registry reports
  success with the lock still held.
\<close>

theorem failed_reopen_loses_lock:
  assumes "rg_actors r = [(d, a)]" "rg_state r = TransportRunning" "validate_ref q (aw_state a) = Inr h"
    "state_inv (aw_state a)" "\<not> aw_done a" "an_cancelled (env d (aw_tick a)) = None"
    "newHandleID (env d) (snd (ask (env d) a)) = (Inr hid, a2)" "an_error (env d (aw_tick a2)) = None"
    "an_error (env d (Suc (aw_tick a2))) = Some e1" "an_error (env d (Suc (Suc (aw_tick a2)))) = Some e2"
  shows "\<exists>r1 r2 a'. registry_reconnect env False d q r = (Inl (e1 @ e2), r1) \<and> registry_drain env r1 = (None, r2) \<and>
    registry_find d r2 = Some a' \<and> aw_done a' \<and> as_lock (aw_state a') = as_lock (aw_state a) \<and> as_lock (aw_state a') \<noteq> None"
proof -
  note cur = assms(3) [unfolded validate_ref_Ready]
  have st: "aw_state a2 = aw_state a" using newHandleID_state [OF assms(7)] by simp
  have flags: "\<not> aw_done a2" using newHandleID_flags [OF assms(7)] assms(5) by (simp add: same_flags_def)
  have held: "as_lock (aw_state a) \<noteq> None" "as_session (aw_state a) \<noteq> None" using assms(4) cur by (auto simp: state_inv_def)
  obtain a1 where a1: "actor_reconnect (env d) False q a = (Inl (e1 @ e2), a1)" "as_current (aw_state a1) = None"
    "as_lock (aw_state a1) = as_lock (aw_state a)" "\<not> aw_done a1"
    using assms(3,5-10) st flags held
    by (auto simp: actor_reconnect_def reopen_session_def releaseLock_def case_prod_unfold Let_def call_out_def ask_def set_history_def)
  then show ?thesis
    using assms(1,2) held
    by (simp add: registry_reconnect_def registry_find_def put_actor_def registry_drain_def perform_drain_def
        drain_errors_def actor_shutdown_def beginDrain_def)
qed

theorem failed_reopen_loses_lock_witness:
  "\<exists>r1 r2 a'. registry_reconnect (\<lambda>_. (ex_answers (seconds 2))(7 := (ex_answers 0 7)\<lparr>an_error := Some [ErrExternal 1]\<rparr>,
         8 := (ex_answers 0 8)\<lparr>an_error := Some [ErrExternal 2]\<rparr>)) False (aw_device ex_open) ex_ref ex_registry_open =
       (Inl [ErrExternal 1, ErrExternal 2], r1) \<and>
     registry_drain (\<lambda>_. (ex_answers (seconds 2))(7 := (ex_answers 0 7)\<lparr>an_error := Some [ErrExternal 1]\<rparr>,
         8 := (ex_answers 0 8)\<lparr>an_error := Some [ErrExternal 2]\<rparr>)) r1 = (None, r2) \<and>
     registry_find (aw_device ex_open) r2 = Some a' \<and> as_lock (aw_state a') = Some 2"
proof -
  let ?env = "(ex_answers (seconds 2))(7 := (ex_answers 0 7)\<lparr>an_error := Some [ErrExternal 1]\<rparr>,
      8 := (ex_answers 0 8)\<lparr>an_error := Some [ErrExternal 2]\<rparr>)"
  have v: "validate_ref ex_ref (aw_state ex_open) = Inr ex_handle"
    by (simp add: ex_open_state validate_ref_def ex_ref_def ex_handle_def)
  have inv: "state_inv (aw_state ex_open)" by (simp add: ex_open_state ex_handle_def state_inv_def handle_times_def)
  have r: "rg_actors ex_registry_open = [(aw_device ex_open, ex_open)]" by (simp add: ex_registry_open_def)
  obtain a2 where hid: "newHandleID ?env (snd (ask ?env ex_open)) = (Inr ''cccccc'', a2)" "aw_tick a2 = 6"
    by (simp add: newHandleID_def ask_def ex_open_state ex_answers_def ex_handle_def Let_def)
  have rest: "\<not> aw_done ex_open" "an_cancelled (?env (aw_tick ex_open)) = None" "an_error (?env (aw_tick a2)) = None"
    "an_error (?env (Suc (aw_tick a2))) = Some [ErrExternal 1]" "an_error (?env (Suc (Suc (aw_tick a2)))) = Some [ErrExternal 2]"
    by (simp_all add: hid(2) ex_open_state ex_answers_def)
  from failed_reopen_loses_lock [OF r ex_registry_open_inv(2) v inv rest(1), of "\<lambda>_. ?env", OF rest(2) hid(1) rest(3-5)]
  show ?thesis by (auto simp: ex_open_state)
qed

end
