(* ===== verification/Operation.thy ===== *)
theory Operation
  imports Domain
begin

text \<open>
  \<open>internal/operation/operation.go\<close> and \<open>service.go\<close>: the state machine of a device-changing
  operation, the checks on its requests and patches, and the framing of the request digest. HMAC-SHA256
  is the argument \<open>hmac\<close>; the ledger the service calls is the model of \<open>internal/store\<close> in
  the theory \<open>Ledger\<close>.
\<close>

section \<open>Data\<close>

datatype op_error =
    ErrConflict | ErrNotFound | ErrInvalidDigestKey | ErrInvalidRequest | ErrInvalidTransition
  | ErrIdentityNotFound | ErrIdentityConflict | ErrDeviceIdentityMismatch
  | ErrConstraint | ErrSql nat

type_synonym op_errors = "op_error list"

text \<open>Each string type is its declared constants plus any other string; the zero value is \<open>Other []\<close>.\<close>

datatype stage =
    StageNotSent | StageSendStarted | StageTransportAccepted | StageObservationStarted
  | StageStateObserved | StageCompleted | StageFailed | StageAmbiguous | StageCancelled
  | StageOther string

datatype delivery =
    DeliveryNotSent | DeliveryPossiblySent | DeliveryTransportAccepted | DeliveryOther string

datatype verification_status =
    VerificationNotRequested | VerificationPending | VerificationObserved | VerificationNotObserved
  | VerificationOther string

text \<open>A UUID is its 128 bits, a SHA-256 digest its 256 bits; the zero value of either is \<open>0\<close>.\<close>

type_synonym uuid = "128 word"
type_synonym digest = "256 word"

record request =
  rq_id :: uuid
  rq_digest :: digest
  rq_device :: device_id
  rq_generation :: u64
  rq_effect :: effect_class
  rq_action :: string
  rq_revision :: string

record verification =
  vf_status :: verification_status
  vf_signals :: "string list"
  vf_observation :: string

record receipt =
  rc_request :: request
  rc_stage :: stage
  rc_delivery :: delivery
  rc_verification :: verification
  rc_claim :: string
  rc_retry_safe :: bool
  rc_error_kind :: string
  rc_warnings :: "string list"
  rc_created :: time
  rc_updated :: time
  rc_send_started :: time
  rc_terminal :: time

record patch =
  pt_delivery :: delivery
  pt_verification :: verification
  pt_claim :: string
  pt_retry_safe :: bool
  pt_error_kind :: string
  pt_warnings :: "string list"

definition TerminalClaimNotProven :: string where
  "TerminalClaimNotProven = ''not_proven''"

definition DefaultReceiptRetention :: duration where
  "DefaultReceiptRetention = hours (30 * 24)"

section \<open>Stages\<close>

fun stage_terminal :: "stage \<Rightarrow> bool" where
  "stage_terminal StageCompleted = True"
| "stage_terminal StageFailed = True"
| "stage_terminal StageAmbiguous = True"
| "stage_terminal StageCancelled = True"
| "stage_terminal _ = False"

definition receipt_terminal :: "receipt \<Rightarrow> bool" where
  "receipt_terminal r = stage_terminal (rc_stage r)"

definition validate_transition :: "stage \<Rightarrow> stage \<Rightarrow> op_errors option" where
  "validate_transition src dst =
     (if stage_terminal src \<or> src = dst then Some [ErrInvalidTransition]
      else let allowed = (case src of
             StageNotSent \<Rightarrow> dst = StageSendStarted \<or> dst = StageFailed \<or> dst = StageCancelled
           | StageSendStarted \<Rightarrow> dst = StageTransportAccepted \<or> dst = StageAmbiguous
           | StageTransportAccepted \<Rightarrow> dst = StageObservationStarted \<or> dst = StageCompleted \<or> dst = StageFailed
           | StageObservationStarted \<Rightarrow> dst = StageStateObserved \<or> dst = StageCompleted \<or> dst = StageFailed
           | StageStateObserved \<Rightarrow> dst = StageCompleted \<or> dst = StageFailed
           | _ \<Rightarrow> False)
        in if allowed then None else Some [ErrInvalidTransition])"

definition known_verification :: "verification_status \<Rightarrow> bool" where
  "known_verification v = (case v of VerificationOther _ \<Rightarrow> False | _ \<Rightarrow> True)"

definition validate_patch :: "stage \<Rightarrow> stage \<Rightarrow> patch \<Rightarrow> op_errors option" where
  "validate_patch src dst p =
     (case validate_transition src dst of
        Some e \<Rightarrow> Some e
      | None \<Rightarrow>
          let invalid = Some [ErrInvalidTransition];
              mismatch = (\<lambda>d retry. pt_delivery p \<noteq> d \<or> pt_retry_safe p \<noteq> retry)
          in if pt_claim p = [] then invalid
             else if \<not> known_verification (vf_status (pt_verification p)) then invalid
             else if (case dst of
                   StageSendStarted \<Rightarrow> mismatch DeliveryPossiblySent False
                 | StageTransportAccepted \<Rightarrow> mismatch DeliveryTransportAccepted False
                 | StageObservationStarted \<Rightarrow> mismatch DeliveryTransportAccepted False
                 | StageStateObserved \<Rightarrow> mismatch DeliveryTransportAccepted False
                 | StageCompleted \<Rightarrow> mismatch DeliveryTransportAccepted False
                 | StageAmbiguous \<Rightarrow> mismatch DeliveryPossiblySent False
                 | StageCancelled \<Rightarrow> mismatch DeliveryNotSent True
                 | StageFailed \<Rightarrow>
                     (if src = StageNotSent then mismatch DeliveryNotSent True
                      else mismatch DeliveryTransportAccepted False)
                 | _ \<Rightarrow> False) then invalid
             else if dst = StageObservationStarted \<and> vf_status (pt_verification p) \<noteq> VerificationPending then invalid
             else if dst = StageStateObserved \<and>
                 (vf_status (pt_verification p) \<noteq> VerificationObserved \<or> vf_observation (pt_verification p) = []) then invalid
             else None)"

section \<open>Requests and their digest\<close>

definition validate_request :: "request \<Rightarrow> op_errors option" where
  "validate_request r =
     (if rq_id r = 0 then Some [ErrInvalidRequest]
      else if rq_device r = [] \<or> rq_action r = [] \<or> rq_revision r = [] then Some [ErrInvalidRequest]
      else if unat (rq_generation r) > 2 ^ 63 - 1 then Some [ErrInvalidRequest]
      else if (case rq_effect r of EffectInput \<Rightarrow> False | EffectPower \<Rightarrow> False | EffectMedia \<Rightarrow> False
               | EffectAdmin \<Rightarrow> False | _ \<Rightarrow> True) then Some [ErrInvalidRequest]
      else if rq_digest r = 0 then Some [ErrInvalidRequest]
      else None)"

text \<open>\<open>binary.BigEndian\<close>: the bytes of a word, most significant first.\<close>

definition be_bytes :: "nat \<Rightarrow> 'a::len word \<Rightarrow> bytes" where
  "be_bytes n w = map (\<lambda>k. ucast (drop_bit (8 * (n - 1 - k)) w)) [0..<n]"

definition text_bytes :: "string \<Rightarrow> bytes" where
  "text_bytes s = map of_char s"

definition effect_name :: "effect_class \<Rightarrow> string" where
  "effect_name e = (case e of
       EffectObserve \<Rightarrow> ''observe'' | EffectInput \<Rightarrow> ''input'' | EffectPower \<Rightarrow> ''power''
     | EffectMedia \<Rightarrow> ''media'' | EffectAdmin \<Rightarrow> ''admin'' | EffectIrreversible \<Rightarrow> ''irreversible''
     | EffectOther s \<Rightarrow> s)"

definition digest_field :: "bytes \<Rightarrow> bytes" where
  "digest_field v = be_bytes 8 (word_of_nat (length v) :: u64) @ v"

definition digest_payload ::
  "uuid \<Rightarrow> device_id \<Rightarrow> u64 \<Rightarrow> effect_class \<Rightarrow> string \<Rightarrow> string \<Rightarrow> bytes \<Rightarrow> bytes" where
  "digest_payload i device generation effect action revision arguments =
     digest_field (text_bytes ''jetkvm-operation-v1'') @
     digest_field (be_bytes 16 i) @
     digest_field (text_bytes device) @
     digest_field (be_bytes 8 generation) @
     digest_field (text_bytes (effect_name effect)) @
     digest_field (text_bytes action) @
     digest_field (text_bytes revision) @
     digest_field arguments"

definition new_digester :: "bytes \<Rightarrow> op_errors + bytes" where
  "new_digester key = (if length key < 32 then Inl [ErrInvalidDigestKey] else Inr key)"

definition new_request ::
  "(bytes \<Rightarrow> bytes \<Rightarrow> digest) \<Rightarrow> bytes \<Rightarrow> uuid \<Rightarrow> device_id \<Rightarrow> u64 \<Rightarrow> effect_class \<Rightarrow> string \<Rightarrow> string \<Rightarrow> bytes \<Rightarrow>
     op_errors + request" where
  "new_request hmac key i device generation effect action revision arguments =
     (if length key < 32 then Inl [ErrInvalidDigestKey]
      else let request = \<lparr>rq_id = i,
               rq_digest = hmac key (digest_payload i device generation effect action revision arguments),
               rq_device = device, rq_generation = generation, rq_effect = effect,
               rq_action = action, rq_revision = revision\<rparr>
        in case validate_request request of Some e \<Rightarrow> Inl e | None \<Rightarrow> Inr request)"

section \<open>The state machine\<close>

lemma validate_transition_None:
  "validate_transition src dst = None \<longleftrightarrow>
     (src = StageNotSent \<and> dst \<in> {StageSendStarted, StageFailed, StageCancelled}) \<or>
     (src = StageSendStarted \<and> dst \<in> {StageTransportAccepted, StageAmbiguous}) \<or>
     (src = StageTransportAccepted \<and> dst \<in> {StageObservationStarted, StageCompleted, StageFailed}) \<or>
     (src = StageObservationStarted \<and> dst \<in> {StageStateObserved, StageCompleted, StageFailed}) \<or>
     (src = StageStateObserved \<and> dst \<in> {StageCompleted, StageFailed})"
  by (cases src) (auto simp: validate_transition_def Let_def)

lemma validate_transition_Some: "validate_transition src dst = Some e \<Longrightarrow> e = [ErrInvalidTransition]"
  by (auto simp: validate_transition_def Let_def split: if_splits)

lemma validate_patch_Some: "validate_patch src dst p = Some e \<Longrightarrow> e = [ErrInvalidTransition]"
  by (auto simp: validate_patch_def Let_def split: option.splits if_splits dest: validate_transition_Some)

lemma validate_patch_transition: "validate_patch src dst p = None \<Longrightarrow> validate_transition src dst = None"
  by (simp add: validate_patch_def split: option.splits)

text \<open>The delivery a stage records; \<open>StageFailed\<close> also depends on whether anything was sent.\<close>

definition accepted_stages :: "stage set" where
  "accepted_stages = {StageTransportAccepted, StageObservationStarted, StageStateObserved, StageCompleted}"

lemma validate_patch_delivery:
  assumes "validate_patch src dst p = None"
  shows "dst \<in> {StageSendStarted, StageAmbiguous} \<Longrightarrow> pt_delivery p = DeliveryPossiblySent \<and> \<not> pt_retry_safe p"
    and "dst \<in> accepted_stages \<Longrightarrow> pt_delivery p = DeliveryTransportAccepted \<and> \<not> pt_retry_safe p"
    and "dst = StageCancelled \<Longrightarrow> pt_delivery p = DeliveryNotSent \<and> pt_retry_safe p"
    and "dst = StageFailed \<Longrightarrow> src = StageNotSent \<Longrightarrow> pt_delivery p = DeliveryNotSent \<and> pt_retry_safe p"
    and "dst = StageFailed \<Longrightarrow> src \<noteq> StageNotSent \<Longrightarrow> pt_delivery p = DeliveryTransportAccepted \<and> \<not> pt_retry_safe p"
  using assms by (auto simp: validate_patch_def accepted_stages_def Let_def split: option.splits if_splits)

lemma validate_patch_fields:
  "validate_patch src dst p = None \<Longrightarrow> pt_claim p \<noteq> [] \<and> known_verification (vf_status (pt_verification p))"
  by (auto simp: validate_patch_def Let_def split: option.splits if_splits)

text \<open>How far an operation has come: every permitted transition goes strictly up.\<close>

fun stage_rank :: "stage \<Rightarrow> nat" where
  "stage_rank StageNotSent = 0"
| "stage_rank StageSendStarted = 1"
| "stage_rank StageTransportAccepted = 2"
| "stage_rank StageObservationStarted = 3"
| "stage_rank StageStateObserved = 4"
| "stage_rank _ = 5"

lemma validate_transition_rank: "validate_transition src dst = None \<Longrightarrow> stage_rank src < stage_rank dst"
  by (auto simp: validate_transition_None)

fun legal_path :: "stage list \<Rightarrow> bool" where
  "legal_path (s # t # ss) \<longleftrightarrow> validate_transition s t = None \<and> legal_path (t # ss)"
| "legal_path _ \<longleftrightarrow> True"

lemma legal_path_length: "legal_path (s # ss) \<Longrightarrow> stage_rank s + length ss \<le> 5"
proof (induction ss arbitrary: s)
  case Nil
  then show ?case by (cases s) auto
next
  case (Cons t ss)
  then have "stage_rank s < stage_rank t" "stage_rank t + length ss \<le> 5"
    by (simp_all add: validate_transition_rank)
  then show ?case by simp
qed

text \<open>
  What the service relies on from a \<open>Repository\<close>: an operation's stage changes only along a
  permitted transition, whatever the repository is asked to do, except by the purge of a terminal
  receipt (\<open>keeps\<close> holds of every other call).
\<close>

locale stage_ledger = guarded_machine step inv
  for step :: "'s \<Rightarrow> 'op \<Rightarrow> 's" and inv :: "'s \<Rightarrow> bool" +
  fixes stage_at :: "'s \<Rightarrow> uuid \<Rightarrow> stage option" and keeps :: "'op \<Rightarrow> bool"
  assumes step_stage: "inv s \<Longrightarrow> keeps e \<Longrightarrow> stage_at s i = Some a \<Longrightarrow>
      \<exists>b. stage_at (step s e) i = Some b \<and> (b = a \<or> validate_transition a b = None)"
begin

lemma run_advances:
  "inv s \<Longrightarrow> list_all keeps es \<Longrightarrow> stage_at s i = Some a \<Longrightarrow>
     \<exists>path. legal_path (a # path) \<and> stage_at (foldl step s es) i = Some (last (a # path))"
proof (induction es arbitrary: s a)
  case Nil
  then show ?case by (intro exI [of _ "[]"]) simp
next
  case (Cons e es)
  from Cons.prems obtain b where b: "stage_at (step s e) i = Some b" "b = a \<or> validate_transition a b = None"
    using step_stage [of s e i a] by auto
  obtain path where "legal_path (b # path)" "stage_at (foldl step (step s e) es) i = Some (last (b # path))"
    using Cons.IH [of "step s e" b] Cons.prems b step_inv [of s e] by auto
  note path = this
  show ?case
  proof (cases "b = a")
    case True
    with path show ?thesis by (intro exI [of _ path]) simp
  next
    case False
    with path b show ?thesis by (intro exI [of _ "b # path"]) simp
  qed
qed

lemma run_terminal:
  assumes "inv s" "list_all keeps es" "stage_at s i = Some a" "stage_terminal a"
  shows "stage_at (foldl step s es) i = Some a"
proof -
  obtain path where path: "legal_path (a # path)" "stage_at (foldl step s es) i = Some (last (a # path))"
    using run_advances [OF assms(1-3)] by blast
  with assms(4) have "path = []" by (cases path) (auto simp: validate_transition_None)
  with path show ?thesis by simp
qed

lemma run_sent:
  assumes "inv s" "list_all keeps es" "stage_at s i = Some a" "a \<noteq> StageNotSent"
  shows "\<exists>b. stage_at (foldl step s es) i = Some b \<and> b \<noteq> StageNotSent"
proof -
  obtain path where path: "legal_path (a # path)" "stage_at (foldl step s es) i = Some (last (a # path))"
    using run_advances [OF assms(1-3)] by blast
  have "last (a # path) \<noteq> StageNotSent" using path(1) assms(4)
  proof (induction path arbitrary: a)
    case (Cons t path)
    then have "t \<noteq> StageNotSent" "legal_path (t # path)" by (auto simp: validate_transition_None)
    from Cons.IH [OF this(2,1)] show ?case by simp
  qed simp
  with path show ?thesis by blast
qed

end

section \<open>Framing\<close>

lemma text_bytes_inject [simp]: "text_bytes s = text_bytes t \<longleftrightarrow> s = t"
proof -
  have "c = d" if "(of_char c :: u8) = of_char d" for c d :: char
  proof -
    have "unat (of_char e :: u8) = of_char e" for e :: char
    proof -
      have "(of_char e :: nat) < 256" using of_char_mod_256 [of e, where 'a = nat] by (metis mod_less_divisor zero_less_numeral)
      moreover have "(of_char e :: u8) = word_of_nat (of_char e)" by (simp add: of_nat_of_char)
      ultimately show ?thesis by (simp add: unat_of_nat)
    qed
    then have "(of_char c :: nat) = of_char d" using that by metis
    then show ?thesis by simp
  qed
  then have "inj (of_char :: char \<Rightarrow> u8)" by (rule injI)
  then show ?thesis by (simp add: text_bytes_def inj_map_eq_map)
qed

lemma length_be_bytes [simp]: "length (be_bytes n w) = n"
  by (simp add: be_bytes_def)

lemma be_bytes_inject:
  fixes v w :: "'a::len word"
  assumes "LENGTH('a) = 8 * n"
  shows "be_bytes n v = be_bytes n w \<longleftrightarrow> v = w"
proof
  assume eq: "be_bytes n v = be_bytes n w"
  show "v = w"
  proof (rule bit_word_eqI)
    fix k assume k: "k < LENGTH('a)"
    define j where "j = n - 1 - k div 8"
    have j: "j < n" "n - 1 - j = k div 8" using k assms by (auto simp: j_def)
    have "be_bytes n v ! j = be_bytes n w ! j" using eq by simp
    then have "(ucast (drop_bit (8 * (k div 8)) v) :: u8) = ucast (drop_bit (8 * (k div 8)) w)"
      using j by (simp add: be_bytes_def)
    then have "bit (ucast (drop_bit (8 * (k div 8)) v) :: u8) (k mod 8) = bit (ucast (drop_bit (8 * (k div 8)) w) :: u8) (k mod 8)"
      by simp
    then show "bit v k = bit w k" using k by (simp add: bit_simps)
  qed
qed simp

lemma digest_field_append:
  assumes "length v < 2 ^ 64" "length w < 2 ^ 64"
  shows "digest_field v @ xs = digest_field w @ ys \<longleftrightarrow> v = w \<and> xs = ys"
proof
  assume eq: "digest_field v @ xs = digest_field w @ ys"
  then have *: "be_bytes 8 (word_of_nat (length v) :: u64) = be_bytes 8 (word_of_nat (length w) :: u64)"
      "v @ xs = w @ ys"
    by (simp_all add: digest_field_def)
  have "(word_of_nat (length v) :: u64) = word_of_nat (length w)"
    using * (1) by (subst (asm) be_bytes_inject) simp_all
  then have "take_bit 64 (length v) = take_bit 64 (length w)" by (simp add: word_of_nat_eq_iff)
  then have "length v = length w" using assms by (simp add: take_bit_nat_eq_self)
  then show "v = w \<and> xs = ys" using * (2) by simp
qed simp

section \<open>Properties\<close>

text \<open>
  the patches the ledger accepts keep the retry promise honest: an accepted patch says a retry is
  safe exactly when it says nothing was sent, which is exactly when it ends an operation that never
  crossed the send boundary.
\<close>

theorem retry_safe_means_not_sent:
  assumes "validate_patch src dst p = None"
  shows "(pt_retry_safe p \<longleftrightarrow> pt_delivery p = DeliveryNotSent) \<and>
    (pt_retry_safe p \<longleftrightarrow> src = StageNotSent \<and> dst \<in> {StageFailed, StageCancelled})"
proof -
  have "validate_transition src dst = None" using assms by (rule validate_patch_transition)
  then have "dst \<in> {StageSendStarted, StageAmbiguous} \<or> dst \<in> accepted_stages \<or> dst = StageCancelled \<or> dst = StageFailed"
    and "dst = StageCancelled \<Longrightarrow> src = StageNotSent" and "dst = StageSendStarted \<Longrightarrow> src = StageNotSent"
    by (auto simp: validate_transition_None accepted_stages_def)
  then show ?thesis
    using validate_patch_delivery [OF assms] by (cases "src = StageNotSent") (auto simp: accepted_stages_def)
qed

theorem retry_safe_means_not_sent_witness:
  "let p = \<lparr>pt_delivery = DeliveryNotSent,
       pt_verification = \<lparr>vf_status = VerificationNotRequested, vf_signals = [], vf_observation = []\<rparr>,
       pt_claim = TerminalClaimNotProven, pt_retry_safe = True, pt_error_kind = ''timeout'', pt_warnings = []\<rparr>
     in validate_patch StageNotSent StageFailed p = None \<and> (pt_retry_safe p \<longleftrightarrow> pt_delivery p = DeliveryNotSent)"
proof -
  define p where "p = \<lparr>pt_delivery = DeliveryNotSent,
       pt_verification = \<lparr>vf_status = VerificationNotRequested, vf_signals = [], vf_observation = []\<rparr>,
       pt_claim = TerminalClaimNotProven, pt_retry_safe = True, pt_error_kind = ''timeout'', pt_warnings = []\<rparr>"
  have "validate_patch StageNotSent StageFailed p = None"
    by (simp add: p_def validate_patch_def validate_transition_def known_verification_def TerminalClaimNotProven_def)
  from this retry_safe_means_not_sent [OF this] show ?thesis by (simp add: p_def Let_def)
qed

text \<open>
  C40: the permitted transitions lead nowhere back: along any sequence of them the stages get strictly
  further, so none is visited twice, the sequence has at most five steps, and no stage but the last
  is terminal.
\<close>

theorem stages_only_advance:
  assumes "legal_path (src # path)"
  shows "sorted_wrt (\<lambda>s t. stage_rank s < stage_rank t) (src # path) \<and> length path \<le> 5 \<and>
    list_all (\<lambda>s. \<not> stage_terminal s) (butlast (src # path))"
proof -
  have "sorted_wrt (\<lambda>s t. stage_rank s < stage_rank t) (src # path) \<and>
    list_all (\<lambda>s. \<not> stage_terminal s) (butlast (src # path))"
    using assms
  proof (induction path arbitrary: src)
    case (Cons t path)
    have "stage_rank src < stage_rank t" "\<not> stage_terminal src"
      using Cons.prems by (auto simp: validate_transition_rank validate_transition_None)
    moreover have "transp (\<lambda>s t. stage_rank s < stage_rank t)" by (auto intro: transpI)
    ultimately show ?case using Cons by (auto simp del: sorted_wrt.simps simp: sorted_wrt2)
  qed simp
  moreover have "length path \<le> 5" using legal_path_length [OF assms] by simp
  ultimately show ?thesis by blast
qed

theorem stages_only_advance_witness:
  "let path = [StageNotSent, StageSendStarted, StageTransportAccepted, StageObservationStarted,
      StageStateObserved, StageCompleted]
   in legal_path path \<and> sorted_wrt (\<lambda>s t. stage_rank s < stage_rank t) path"
  using stages_only_advance [of StageNotSent "[StageSendStarted, StageTransportAccepted, StageObservationStarted,
      StageStateObserved, StageCompleted]"]
  by (simp add: validate_transition_None)

lemma new_request_Inr:
  "new_request hmac key i d g e a r args = Inr q \<longleftrightarrow>
     32 \<le> length key \<and> validate_request q = None \<and>
     q = \<lparr>rq_id = i, rq_digest = hmac key (digest_payload i d g e a r args), rq_device = d, rq_generation = g,
          rq_effect = e, rq_action = a, rq_revision = r\<rparr>"
  by (auto simp: new_request_def Let_def split: option.splits if_splits)

lemma validate_request_effect:
  "validate_request q = None \<Longrightarrow> rq_effect q \<in> {EffectInput, EffectPower, EffectMedia, EffectAdmin}"
  by (auto simp: validate_request_def split: if_splits effect_class.splits)

lemma digest_payload_inject:
  assumes "digest_payload i d g e a r args = digest_payload i' d' g' e' a' r' args'"
    and "e \<in> {EffectInput, EffectPower, EffectMedia, EffectAdmin}"
    and "e' \<in> {EffectInput, EffectPower, EffectMedia, EffectAdmin}"
    and "list_all (\<lambda>n. n < 2 ^ 64) (map length [d, a, r, d', a', r'] @ map length [args, args'])"
  shows "i = i' \<and> d = d' \<and> g = g' \<and> e = e' \<and> a = a' \<and> r = r' \<and> args = args'"
proof -
  have bytes: "length (text_bytes s) = length s" for s by (simp add: text_bytes_def)
  have len: "length (effect_name x) < 2 ^ 64"
    if "x \<in> {EffectInput, EffectPower, EffectMedia, EffectAdmin}" for x
    using that by (auto simp: effect_name_def)
  have lens: "length (text_bytes d) < 2 ^ 64" "length (text_bytes d') < 2 ^ 64"
    "length (text_bytes a) < 2 ^ 64" "length (text_bytes a') < 2 ^ 64"
    "length (text_bytes r) < 2 ^ 64" "length (text_bytes r') < 2 ^ 64"
    "length args < 2 ^ 64" "length args' < 2 ^ 64"
    "length (text_bytes (effect_name e)) < 2 ^ 64" "length (text_bytes (effect_name e')) < 2 ^ 64"
    using assms(4) len [OF assms(2)] len [OF assms(3)] by (simp_all add: bytes)
  note split = digest_field_append [THEN iffD1]
  from assms(1) have 1: "digest_field (be_bytes 16 i) @ digest_field (text_bytes d) @ digest_field (be_bytes 8 g) @
      digest_field (text_bytes (effect_name e)) @ digest_field (text_bytes a) @ digest_field (text_bytes r) @ digest_field args =
    digest_field (be_bytes 16 i') @ digest_field (text_bytes d') @ digest_field (be_bytes 8 g') @
      digest_field (text_bytes (effect_name e')) @ digest_field (text_bytes a') @ digest_field (text_bytes r') @ digest_field args'"
    by (simp only: digest_payload_def same_append_eq)
  note 2 = split [OF _ _ 1, simplified length_be_bytes]
  have i: "be_bytes 16 i = be_bytes 16 i'" using 2 by simp
  note 3 = split [OF lens(1,2) 2 [THEN conjunct2]]
  note 4 = split [OF _ _ 3 [THEN conjunct2], simplified length_be_bytes]
  have g: "be_bytes 8 g = be_bytes 8 g'" using 4 by simp
  note 5 = split [OF lens(9,10) 4 [THEN conjunct2]]
  note 6 = split [OF lens(3,4) 5 [THEN conjunct2]]
  note 7 = split [OF lens(5,6) 6 [THEN conjunct2]]
  have args: "args = args'"
    using split [OF lens(7,8), of "[]" "[]"] 7 [THEN conjunct2] by simp
  have "e = e'" using assms(2,3) 5 [THEN conjunct1] by (auto simp: effect_name_def)
  moreover have "i = i'" "g = g'" using i g by (simp_all add: be_bytes_inject)
  ultimately show ?thesis using args 3 6 7 by simp
qed

text \<open>
  the digest binds the whole identity of a request: two requests of one digester with the same
  digest, where HMAC does not collide on their payloads, agree on the operation ID, device, control
  generation, effect, action and policy revision, and were made from the same canonical arguments.
\<close>

theorem digest_binds_request:
  assumes "new_request hmac key i d g e a r args = Inr q"
    and "new_request hmac key i' d' g' e' a' r' args' = Inr q'"
    and "rq_digest q = rq_digest q'"
    and "inj_on (hmac key) {digest_payload i d g e a r args, digest_payload i' d' g' e' a' r' args'}"
    and "list_all (\<lambda>n. n < 2 ^ 64) (map length [d, a, r, d', a', r'] @ map length [args, args'])"
  shows "q = q' \<and> args = args'"
proof -
  have q: "validate_request q = None" "rq_digest q = hmac key (digest_payload i d g e a r args)"
      "rq_effect q = e" "validate_request q' = None"
      "rq_digest q' = hmac key (digest_payload i' d' g' e' a' r' args')" "rq_effect q' = e'"
    using assms(1,2) by (auto simp: new_request_Inr)
  have "digest_payload i d g e a r args = digest_payload i' d' g' e' a' r' args'"
    using assms(3) inj_on_eq_iff [OF assms(4)] q(2,5) by simp
  from digest_payload_inject [OF this _ _ assms(5)]
  have "i = i' \<and> d = d' \<and> g = g' \<and> e = e' \<and> a = a' \<and> r = r' \<and> args = args'"
    using validate_request_effect [OF q(1)] validate_request_effect [OF q(4)] q by simp
  then show ?thesis using assms(1,2) by simp
qed

theorem digest_binds_request_witness:
  "let hmac = (\<lambda>key m. word_of_nat (Suc (length m)) :: digest); key = replicate 32 7;
       q = new_request hmac key 5 ''kvm-1'' 3 EffectPower ''reset'' ''rev'' [1]
     in (\<exists>v. q = Inr v) \<and> new_request hmac key 5 ''kvm-1'' 3 EffectPower ''reset'' ''rev'' [1, 2] \<noteq> q"
proof -
  define hmac where "hmac = (\<lambda>(key :: bytes) (m :: bytes). word_of_nat (Suc (length m)) :: digest)"
  define key where "key = replicate 32 (7 :: u8)"
  have len: "length (digest_payload 5 ''kvm-1'' 3 EffectPower ''reset'' ''rev'' args) = 125 + length args" for args
    by (simp add: digest_payload_def digest_field_def text_bytes_def effect_name_def)
  have ok: "\<exists>v. new_request hmac key 5 ''kvm-1'' 3 EffectPower ''reset'' ''rev'' args = Inr v \<and>
      rq_digest v = word_of_nat (126 + length args)" if "args = [1] \<or> args = [1, 2]" for args
    using that by (auto simp: new_request_Inr key_def hmac_def len validate_request_def)
  obtain v where v: "new_request hmac key 5 ''kvm-1'' 3 EffectPower ''reset'' ''rev'' [1] = Inr v" using ok by blast
  have "new_request hmac key 5 ''kvm-1'' 3 EffectPower ''reset'' ''rev'' [1, 2] \<noteq> Inr v"
  proof
    assume w: "new_request hmac key 5 ''kvm-1'' 3 EffectPower ''reset'' ''rev'' [1, 2] = Inr v"
    have "inj_on (hmac key) {digest_payload 5 ''kvm-1'' 3 EffectPower ''reset'' ''rev'' [1],
        digest_payload 5 ''kvm-1'' 3 EffectPower ''reset'' ''rev'' [1, 2]}"
      by (rule inj_onI) (auto simp: hmac_def len)
    from digest_binds_request [OF v w refl this] show False by simp
  qed
  then show ?thesis using v by (simp add: Let_def hmac_def key_def)
qed

end
