(* ===== verification/Confirmation.thy ===== *)
theory Confirmation
  imports Operation
begin

text \<open>
  \<open>internal/confirmation/confirmation.go\<close>: single-use proofs that a user confirmed one operation.
  A proof is a sealed payload with its HMAC; verifying it checks every bound field and consumes its
  nonce. HMAC-SHA256 and the JSON form of a payload are the arguments \<open>hmac\<close>, \<open>marshal\<close> and
  \<open>unmarshal\<close>; base64url without padding, hexadecimal and the token's split are written out. The
  authority and the nonce store each read a clock of their own, the store after the authority.
\<close>

section \<open>Data\<close>

datatype confirm_error =
    ErrInvalidConfiguration | ErrPrincipalRequired | ErrProofRequired | ErrProofInvalid | ErrProofExpired
  | ErrProofMismatch | ErrProofReplayed | ErrEncodeProof

type_synonym confirm_errors = "confirm_error list"

record principal =
  pr_id :: string
  pr_transport :: string

record binding =
  bd_device :: device_id
  bd_generation :: u64
  bd_effect :: effect_class
  bd_action :: string
  bd_digest :: digest
  bd_revision :: string

record token_payload =
  tp_version :: int
  tp_nonce :: uuid
  tp_principal :: string
  tp_transport :: string
  tp_device :: device_id
  tp_generation :: u64
  tp_effect :: effect_class
  tp_action :: string
  tp_digest :: string
  tp_revision :: string
  tp_issued :: time
  tp_expires :: time

definition DefaultTTL :: duration where
  "DefaultTTL = minutes 2"

definition tokenVersion :: int where
  "tokenVersion = 1"

definition LocalProcessPrincipal :: principal where
  "LocalProcessPrincipal = \<lparr>pr_id = ''local-process'', pr_transport = ''stdio''\<rparr>"

text \<open>\<open>None\<close> is a context without a principal.\<close>

definition PrincipalFromContext :: "principal option \<Rightarrow> principal option" where
  "PrincipalFromContext ctx = (case ctx of None \<Rightarrow> None
     | Some p \<Rightarrow> if pr_id p \<noteq> [] \<and> pr_transport p \<noteq> [] then Some p else None)"

section \<open>Encodings\<close>

definition hex_digits :: string where
  "hex_digits = ''0123456789abcdef''"

definition hex_encode :: "bytes \<Rightarrow> string" where
  "hex_encode bs = concat (map (\<lambda>b. [hex_digits ! (unat b div 16), hex_digits ! (unat b mod 16)]) bs)"

definition b64_alphabet :: string where
  "b64_alphabet = ''ABCDEFGHIJKLMNOPQRSTUVWXYZabcdefghijklmnopqrstuvwxyz0123456789-_''"

definition b64_char :: "nat \<Rightarrow> char" where
  "b64_char n = b64_alphabet ! n"

fun b64_encode :: "bytes \<Rightarrow> string" where
  "b64_encode [] = []"
| "b64_encode [a] = [b64_char (unat a div 4), b64_char (unat a mod 4 * 16)]"
| "b64_encode [a, b] =
     [b64_char (unat a div 4), b64_char (unat a mod 4 * 16 + unat b div 16), b64_char (unat b mod 16 * 4)]"
| "b64_encode (a # b # c # rest) =
     [b64_char (unat a div 4), b64_char (unat a mod 4 * 16 + unat b div 16),
      b64_char (unat b mod 16 * 4 + unat c div 64), b64_char (unat c mod 64)] @ b64_encode rest"

definition b64_value :: "char \<Rightarrow> nat option" where
  "b64_value c = map_of (zip b64_alphabet [0..<64]) c"

text \<open>The decoder skips line ends, and does not look at the unused bits of a last group.\<close>

fun b64_groups :: "nat list \<Rightarrow> bytes option" where
  "b64_groups [] = Some []"
| "b64_groups [a] = None"
| "b64_groups [a, b] = Some [word_of_nat (a * 4 + b div 16)]"
| "b64_groups [a, b, c] = Some [word_of_nat (a * 4 + b div 16), word_of_nat (b mod 16 * 16 + c div 4)]"
| "b64_groups (a # b # c # d # rest) =
     map_option (\<lambda>bs. [word_of_nat (a * 4 + b div 16), word_of_nat (b mod 16 * 16 + c div 4),
                    word_of_nat (c mod 4 * 64 + d)] @ bs) (b64_groups rest)"

definition b64_decode :: "string \<Rightarrow> bytes option" where
  "b64_decode s =
     (let vs = map b64_value (filter (\<lambda>c. c \<noteq> CHR 0x0A \<and> c \<noteq> CHR 0x0D) s)
      in if None \<in> set vs then None else b64_groups (map the vs))"

definition splitToken :: "string \<Rightarrow> (string \<times> string) option" where
  "splitToken t =
     (case dropWhile (\<lambda>c. c \<noteq> CHR ''.'') t of
        [] \<Rightarrow> None
      | _ # rest \<Rightarrow>
          let first = takeWhile (\<lambda>c. c \<noteq> CHR ''.'') t
          in if first \<noteq> [] \<and> rest \<noteq> [] then Some (first, rest) else None)"

section \<open>The nonce store\<close>

type_synonym nonces = "(uuid \<times> time) list"

definition nonce_consume :: "time \<Rightarrow> uuid \<Rightarrow> time \<Rightarrow> nonces \<Rightarrow> confirm_errors option \<times> nonces" where
  "nonce_consume now nonce expires s =
     (let kept = filter (\<lambda>(_, expiry). expiry > now) s
      in if nonce \<in> fst ` set kept then (Some [ErrProofReplayed], kept)
         else (None, (nonce, expires) # kept))"

section \<open>The authority\<close>

record codec =
  cd_hmac :: "bytes \<Rightarrow> bytes \<Rightarrow> bytes"
  cd_marshal :: "token_payload \<Rightarrow> bytes option"
  cd_unmarshal :: "bytes \<Rightarrow> token_payload option"

record authority =
  au_key :: bytes
  au_ttl :: duration

definition new_authority :: "bytes \<Rightarrow> duration \<Rightarrow> bool \<Rightarrow> confirm_errors + authority" where
  "new_authority key ttl0 has_store =
     (if length key < 32 then Inl [ErrInvalidConfiguration]
      else let ttl = (if ttl0 = 0 then DefaultTTL else ttl0)
        in if ttl \<le> 0 \<or> \<not> has_store then Inl [ErrInvalidConfiguration]
           else Inr \<lparr>au_key = key, au_ttl = ttl\<rparr>)"

definition validateBinding :: "binding \<Rightarrow> confirm_errors option" where
  "validateBinding b =
     (if bd_device b = [] \<or> bd_action b = [] \<or> bd_revision b = [] \<or> bd_digest b = 0 then Some [ErrProofMismatch]
      else if known_effect (bd_effect b) then None else Some [ErrProofMismatch])"

definition digest_hex :: "digest \<Rightarrow> string" where
  "digest_hex d = hex_encode (be_bytes 32 d)"

definition mint_payload :: "authority \<Rightarrow> principal \<Rightarrow> binding \<Rightarrow> uuid \<Rightarrow> time \<Rightarrow> token_payload" where
  "mint_payload au p b nonce now =
     \<lparr>tp_version = tokenVersion, tp_nonce = nonce, tp_principal = pr_id p, tp_transport = pr_transport p,
      tp_device = bd_device b, tp_generation = bd_generation b, tp_effect = bd_effect b, tp_action = bd_action b,
      tp_digest = digest_hex (bd_digest b), tp_revision = bd_revision b, tp_issued = now,
      tp_expires = now + au_ttl au\<rparr>"

definition mint :: "codec \<Rightarrow> authority \<Rightarrow> principal option \<Rightarrow> binding \<Rightarrow> uuid \<Rightarrow> time \<Rightarrow> confirm_errors + string" where
  "mint cd au ctx b nonce now =
     (case PrincipalFromContext ctx of None \<Rightarrow> Inl [ErrPrincipalRequired]
      | Some p \<Rightarrow> (case validateBinding b of Some e \<Rightarrow> Inl e
      | None \<Rightarrow> (case cd_marshal cd (mint_payload au p b nonce now) of None \<Rightarrow> Inl [ErrEncodeProof]
      | Some encoded \<Rightarrow>
          Inr (b64_encode encoded @ ''.'' @ b64_encode (cd_hmac cd (au_key au) encoded)))))"

definition open_proof :: "codec \<Rightarrow> authority \<Rightarrow> string \<Rightarrow> confirm_errors + token_payload" where
  "open_proof cd au sealed =
     (case splitToken sealed of None \<Rightarrow> Inl [ErrProofInvalid]
      | Some (encodedPart, macPart) \<Rightarrow> (case b64_decode encodedPart of None \<Rightarrow> Inl [ErrProofInvalid]
      | Some encoded \<Rightarrow> (case b64_decode macPart of None \<Rightarrow> Inl [ErrProofInvalid]
      | Some providedMAC \<Rightarrow>
          if providedMAC \<noteq> cd_hmac cd (au_key au) encoded then Inl [ErrProofInvalid]
          else (case cd_unmarshal cd encoded of None \<Rightarrow> Inl [ErrProofInvalid]
          | Some payload \<Rightarrow>
              if tp_version payload \<noteq> tokenVersion \<or> tp_nonce payload = 0 then Inl [ErrProofInvalid]
              else Inr payload))))"

definition bound :: "token_payload \<Rightarrow> principal \<Rightarrow> binding \<Rightarrow> bool" where
  "bound t p b \<longleftrightarrow>
     tp_principal t = pr_id p \<and> tp_transport t = pr_transport p \<and> tp_device t = bd_device b \<and>
     tp_generation t = bd_generation b \<and> tp_effect t = bd_effect b \<and> tp_action t = bd_action b \<and>
     tp_digest t = digest_hex (bd_digest b) \<and> tp_revision t = bd_revision b"

text \<open>\<open>now\<close> is the authority's clock, \<open>later\<close> the nonce store's; an absent proof is \<open>None\<close>.\<close>

definition verify_and_consume ::
  "codec \<Rightarrow> authority \<Rightarrow> principal option \<Rightarrow> string option \<Rightarrow> binding \<Rightarrow> time \<Rightarrow> time \<Rightarrow> nonces \<Rightarrow>
     confirm_errors option \<times> nonces" where
  "verify_and_consume cd au ctx proof b now later s =
     (case PrincipalFromContext ctx of None \<Rightarrow> (Some [ErrPrincipalRequired], s)
      | Some p \<Rightarrow> (case validateBinding b of Some e \<Rightarrow> (Some e, s)
      | None \<Rightarrow>
          if proof = None \<or> proof = Some [] then (Some [ErrProofRequired], s)
          else (case open_proof cd au (the proof) of Inl e \<Rightarrow> (Some e, s)
          | Inr t \<Rightarrow>
              if tp_expires t < now \<or> tp_expires t = now \<or> tp_issued t > now then (Some [ErrProofExpired], s)
              else if \<not> bound t p b then (Some [ErrProofMismatch], s)
              else nonce_consume later (tp_nonce t) (tp_expires t) s)))"

section \<open>Encodings round trip\<close>

lemma b64_value_char: "n < 64 \<Longrightarrow> b64_value (b64_char n) = Some n"
proof -
  have "distinct b64_alphabet" "length b64_alphabet = 64" by (simp_all add: b64_alphabet_def)
  then show "n < 64 \<Longrightarrow> b64_value (b64_char n) = Some n"
    by (simp add: b64_value_def b64_char_def map_of_zip_nth)
qed

lemma b64_char_plain: "n < 64 \<Longrightarrow> b64_char n \<notin> {CHR 0x0A, CHR 0x0D, CHR ''.''}"
proof -
  assume "n < 64"
  moreover have "length b64_alphabet = 64" by (simp add: b64_alphabet_def)
  ultimately have "b64_char n \<in> set b64_alphabet" by (simp add: b64_char_def)
  then show ?thesis by (auto simp: b64_alphabet_def)
qed

definition b64_sextets :: "bytes \<Rightarrow> nat list" where
  "b64_sextets bs = map (\<lambda>c. the (b64_value c)) (b64_encode bs)"

lemma byte_bound: "unat (a :: u8) < 256"
  using unsigned_less [of a, where 'a = nat] by simp

lemma sextet_bounds:
  fixes a b :: u8
  shows "unat a div 4 < 64" "unat a mod 4 * 16 < 64" "unat a mod 4 * 16 + unat b div 16 < 64"
    "unat b mod 16 * 4 < 64" "unat a mod 16 * 4 + unat b div 64 < 64" "unat a mod 64 < 64"
  using byte_bound [of a] byte_bound [of b] by (simp_all add: less_mult_imp_div_less)

definition b64_ok :: "char \<Rightarrow> bool" where
  "b64_ok c \<longleftrightarrow> b64_value c \<noteq> None \<and> c \<notin> {CHR 0x0A, CHR 0x0D, CHR ''.''}"

lemma b64_ok_char: "n < 64 \<Longrightarrow> b64_ok (b64_char n)"
  using b64_value_char b64_char_plain by (simp add: b64_ok_def)

lemma b64_encode_ok: "list_all b64_ok (b64_encode bs)"
  by (induction bs rule: b64_encode.induct) (simp_all add: b64_ok_char sextet_bounds)

lemma radix:
  fixes q r :: nat
  shows "r < 16 \<Longrightarrow> (q * 16 + r) div 16 = q" "r < 16 \<Longrightarrow> (q * 16 + r) mod 16 = r"
    "r < 4 \<Longrightarrow> (q * 4 + r) div 4 = q" "r < 4 \<Longrightarrow> (q * 4 + r) mod 4 = r"
    "q < 256 \<Longrightarrow> q div 16 < 16" "q < 256 \<Longrightarrow> q div 64 < 4"
  by simp_all

lemma b64_decode_encode [simp]: "b64_decode (b64_encode bs) = Some bs"
proof -
  have plain: "filter (\<lambda>c. c \<noteq> CHR 0x0A \<and> c \<noteq> CHR 0x0D) (b64_encode bs) = b64_encode bs"
    using b64_encode_ok [of bs] by (auto intro!: filter_True simp: list_all_iff b64_ok_def)
  have some: "None \<notin> set (map b64_value (b64_encode bs))"
  proof
    assume "None \<in> set (map b64_value (b64_encode bs))"
    then obtain c where "c \<in> set (b64_encode bs)" "b64_value c = None" by (metis (no_types, lifting) imageE list.set_map)
    moreover from this have "b64_ok c" using b64_encode_ok [of bs] unfolding list_all_iff by blast
    ultimately show False by (simp add: b64_ok_def)
  qed
  have "b64_groups (map (the \<circ> b64_value) (b64_encode bs)) = Some bs"
  proof (induction bs rule: b64_encode.induct)
    case (2 a)
    have "unat a div 4 * 4 + unat a mod 4 * 16 div 16 = unat a" by simp
    then show ?case by (simp add: b64_value_char sextet_bounds)
  next
    case (3 a b)
    have "unat a div 4 * 4 + (unat a mod 4 * 16 + unat b div 16) div 16 = unat a"
      "(unat a mod 4 * 16 + unat b div 16) mod 16 * 16 + unat b mod 16 * 4 div 4 = unat b"
      using byte_bound [of b] by (simp_all add: radix)
    then show ?case by (simp add: b64_value_char sextet_bounds)
  next
    case (4 a b c rest)
    have "unat a div 4 * 4 + (unat a mod 4 * 16 + unat b div 16) div 16 = unat a"
      "(unat a mod 4 * 16 + unat b div 16) mod 16 * 16 + (unat b mod 16 * 4 + unat c div 64) div 4 = unat b"
      "(unat b mod 16 * 4 + unat c div 64) mod 4 * 64 + unat c mod 64 = unat c"
      using byte_bound [of b] byte_bound [of c] by (simp_all add: radix)
    with 4 show ?case by (simp add: b64_value_char sextet_bounds)
  qed simp
  then show ?thesis using plain some by (simp add: b64_decode_def Let_def)
qed

lemma b64_encode_Nil [simp]: "b64_encode bs = [] \<longleftrightarrow> bs = []"
  by (cases bs rule: b64_encode.cases) simp_all

lemma splitToken_join:
  assumes "xs \<noteq> []" "ys \<noteq> []" "CHR ''.'' \<notin> set xs"
  shows "splitToken (xs @ ''.'' @ ys) = Some (xs, ys)"
proof -
  have "dropWhile (\<lambda>c. c \<noteq> CHR ''.'') (xs @ ''.'' @ ys) = ''.'' @ ys"
    "takeWhile (\<lambda>c. c \<noteq> CHR ''.'') (xs @ ''.'' @ ys) = xs"
    using assms(3) by (induction xs) auto
  then show ?thesis using assms by (simp add: splitToken_def Let_def)
qed

lemma b64_no_dot: "CHR ''.'' \<notin> set (b64_encode bs)"
  using b64_encode_ok [of bs] by (auto simp: list_all_iff b64_ok_def)

section \<open>Single use\<close>

text \<open>
  What the authority relies on from a nonce store: a nonce it accepted is refused as long as the proof
  that carries it has not expired by the store's clock, and stays refused whatever else is consumed.
  \<open>s\<close> is a state of the store, \<open>consume now n x s\<close> what it answers at time \<open>now\<close>.
\<close>

locale nonce_store =
  fixes consume :: "time \<Rightarrow> uuid \<Rightarrow> time \<Rightarrow> 's \<Rightarrow> confirm_errors option \<times> 's"
    and holds :: "uuid \<Rightarrow> time \<Rightarrow> 's \<Rightarrow> bool"
  assumes accept_holds: "fst (consume now n x s) = None \<Longrightarrow> now < x \<Longrightarrow> holds n x (snd (consume now n x s))"
    and holds_refuses: "holds n x s \<Longrightarrow> now < x \<Longrightarrow> fst (consume now n x s) \<noteq> None"
    and holds_stays: "holds n x s \<Longrightarrow> now < x \<Longrightarrow> holds n x (snd (consume now m y s))"
begin

text \<open>How often one nonce with one expiry is accepted in a sequence of consumptions.\<close>

fun accepted :: "uuid \<Rightarrow> time \<Rightarrow> 's \<Rightarrow> (time \<times> uuid \<times> time) list \<Rightarrow> nat" where
  "accepted n x s [] = 0"
| "accepted n x s ((now, m, y) # cs) =
     (if m = n \<and> y = x \<and> fst (consume now m y s) = None then 1 else 0) + accepted n x (snd (consume now m y s)) cs"

lemma accepted_after: "holds n x s \<Longrightarrow> list_all (\<lambda>(now, _). now < x) cs \<Longrightarrow> accepted n x s cs = 0"
proof (induction cs arbitrary: s)
  case (Cons c cs)
  obtain now m y where c: "c = (now, m, y)" by (cases c) auto
  have "holds n x (snd (consume now m y s))" using Cons.prems by (intro holds_stays) (simp_all add: c)
  moreover have "\<not> (m = n \<and> y = x \<and> fst (consume now m y s) = None)"
    using Cons.prems holds_refuses [of n x s now] by (auto simp: c)
  ultimately show ?case using Cons.IH [of "snd (consume now m y s)"] Cons.prems unfolding c by simp
qed simp

lemma accepted_once: "list_all (\<lambda>(now, _). now < x) cs \<Longrightarrow> accepted n x s cs \<le> 1"
proof (induction cs arbitrary: s)
  case (Cons c cs)
  obtain now m y where c: "c = (now, m, y)" by (cases c) auto
  show ?case
  proof (cases "m = n \<and> y = x \<and> fst (consume now m y s) = None")
    case True
    then have "holds n x (snd (consume now m y s))" using Cons.prems accept_holds by (auto simp: c)
    then show ?thesis using True Cons.prems accepted_after by (simp add: c)
  next
    case False
    then show ?thesis using Cons.IH [of "snd (consume now m y s)"] Cons.prems 
      unfolding c accepted.simps if_not_P [OF False] by simp
  qed
qed simp

end

definition nonce_held :: "uuid \<Rightarrow> time \<Rightarrow> nonces \<Rightarrow> bool" where
  "nonce_held n x s \<longleftrightarrow> (n, x) \<in> set s"

interpretation memory: nonce_store nonce_consume nonce_held
proof unfold_locales
  show "nonce_held n x (snd (nonce_consume now n x s))" if "fst (nonce_consume now n x s) = None" "now < x" for now n x s
    using that by (auto simp: nonce_consume_def nonce_held_def Let_def split: if_splits)
  show "fst (nonce_consume now n x s) \<noteq> None" if "nonce_held n x s" "now < x" for n x s now
    using that by (force simp: nonce_consume_def nonce_held_def Let_def)
  show "nonce_held n x (snd (nonce_consume now m y s))" if "nonce_held n x s" "now < x" for n x s now m y
    using that by (auto simp: nonce_consume_def nonce_held_def Let_def)
qed

section \<open>What verification establishes\<close>

lemma verify_accepts:
  "fst (verify_and_consume cd au ctx proof b now later s) = None \<longleftrightarrow>
     (\<exists>p sealed t. PrincipalFromContext ctx = Some p \<and> validateBinding b = None \<and> proof = Some sealed \<and> sealed \<noteq> [] \<and>
        open_proof cd au sealed = Inr t \<and> now < tp_expires t \<and> tp_issued t \<le> now \<and> bound t p b \<and>
        fst (nonce_consume later (tp_nonce t) (tp_expires t) s) = None)"
  by (auto simp: verify_and_consume_def not_less split: option.splits sum.splits)

lemma open_proof_Inr:
  "open_proof cd au sealed = Inr t \<longleftrightarrow>
     (\<exists>e m encoded. splitToken sealed = Some (e, m) \<and> b64_decode e = Some encoded \<and>
        b64_decode m = Some (cd_hmac cd (au_key au) encoded) \<and> cd_unmarshal cd encoded = Some t \<and>
        tp_version t = tokenVersion \<and> tp_nonce t \<noteq> 0)"
  by (auto simp: open_proof_def split: option.splits if_splits)

text \<open>Presentations of proofs, one after the other, and how often one proof is accepted.\<close>

record presentation =
  pn_ctx :: "principal option"
  pn_proof :: "string option"
  pn_binding :: binding
  pn_now :: time
  pn_later :: time

definition present :: "codec \<Rightarrow> authority \<Rightarrow> presentation \<Rightarrow> nonces \<Rightarrow> confirm_errors option \<times> nonces" where
  "present cd au v s = verify_and_consume cd au (pn_ctx v) (pn_proof v) (pn_binding v) (pn_now v) (pn_later v) s"

fun proof_uses :: "codec \<Rightarrow> authority \<Rightarrow> string \<Rightarrow> nonces \<Rightarrow> presentation list \<Rightarrow> nat" where
  "proof_uses cd au sealed s [] = 0"
| "proof_uses cd au sealed s (v # vs) =
     (if pn_proof v = Some sealed \<and> fst (present cd au v s) = None then 1 else 0) +
     proof_uses cd au sealed (snd (present cd au v s)) vs"

text \<open>A presentation consumes at most one nonce, whatever the store holds.\<close>

definition consumption :: "codec \<Rightarrow> authority \<Rightarrow> presentation \<Rightarrow> (time \<times> uuid \<times> time) list" where
  "consumption cd au v =
     (case (PrincipalFromContext (pn_ctx v), validateBinding (pn_binding v), pn_proof v) of
        (Some p, None, Some sealed) \<Rightarrow>
          (case open_proof cd au sealed of Inl e \<Rightarrow> []
           | Inr t \<Rightarrow> if sealed \<noteq> [] \<and> pn_now v < tp_expires t \<and> tp_issued t \<le> pn_now v \<and> bound t p (pn_binding v)
               then [(pn_later v, tp_nonce t, tp_expires t)] else [])
      | _ \<Rightarrow> [])"

lemma present_consumption:
  "(case consumption cd au v of [] \<Rightarrow> fst (present cd au v s) \<noteq> None \<and> snd (present cd au v s) = s
    | (l, n, x) # _ \<Rightarrow> present cd au v s = nonce_consume l n x s)"
  by (auto simp: consumption_def present_def verify_and_consume_def not_less split: option.splits sum.splits)

lemma proof_uses_accepted:
  assumes "open_proof cd au sealed = Inr t"
  shows "proof_uses cd au sealed s vs \<le> memory.accepted (tp_nonce t) (tp_expires t) s (concat (map (consumption cd au) vs))"
proof (induction vs arbitrary: s)
  case (Cons v vs)
  show ?case
  proof (cases "consumption cd au v")
    case Nil
    then have "fst (present cd au v s) \<noteq> None" "snd (present cd au v s) = s"
      using present_consumption [of cd au v s] by simp_all
    then show ?thesis using Cons.IH [of s] Nil by (cases "fst (present cd au v s)") simp_all
  next
    case (Cons c cs)
    obtain l n x where c: "c = (l, n, x)" by (cases c) auto
    have one: "cs = []" "pn_proof v = Some sealed \<Longrightarrow> n = tp_nonce t \<and> x = tp_expires t"
      using Cons c assms by (auto simp: consumption_def split: option.splits sum.splits if_splits)
    have "present cd au v s = nonce_consume l n x s" using present_consumption [of cd au v s] Cons c by simp
    then show ?thesis using Cons.IH [of "snd (nonce_consume l n x s)"] one Cons c by auto
  qed
qed simp

section \<open>Properties\<close>

text \<open>
  a proof that was minted works: presented by the same principal for the same binding, from the time
  it was minted until its time to live is over, it is accepted if its nonce is fresh, and the nonce is
  consumed.
\<close>

theorem minted_proof_verifies:
  assumes "mint cd au ctx b nonce t0 = Inr sealed"
    and "PrincipalFromContext ctx = Some p" and "nonce \<noteq> 0"
    and "\<And>encoded. cd_marshal cd (mint_payload au p b nonce t0) = Some encoded \<Longrightarrow>
           encoded \<noteq> [] \<and> cd_hmac cd (au_key au) encoded \<noteq> [] \<and>
           cd_unmarshal cd encoded = Some (mint_payload au p b nonce t0)"
    and "t0 \<le> now" and "now < t0 + au_ttl au" and "nonce \<notin> fst ` set s"
  shows "verify_and_consume cd au ctx (Some sealed) b now later s =
    (None, (nonce, t0 + au_ttl au) # filter (\<lambda>(_, expiry). expiry > later) s)"
proof -
  let ?t = "mint_payload au p b nonce t0"
  obtain encoded where e: "cd_marshal cd ?t = Some encoded" "validateBinding b = None"
      "sealed = b64_encode encoded @ ''.'' @ b64_encode (cd_hmac cd (au_key au) encoded)"
    using assms(1,2) by (auto simp: mint_def split: option.splits)
  note ext = assms(4) [OF e(1)]
  have "splitToken sealed = Some (b64_encode encoded, b64_encode (cd_hmac cd (au_key au) encoded))"
    unfolding e(3) using ext b64_no_dot by (intro splitToken_join) auto
  then have opened: "open_proof cd au sealed = Inr ?t"
    using ext assms(3) by (simp add: open_proof_def mint_payload_def)
  have "sealed \<noteq> []" by (simp add: e(3))
  moreover have "nonce \<notin> fst ` set (filter (\<lambda>(_, expiry). expiry > later) s)" using assms(7) by auto
  moreover have "bound ?t p b" "tp_expires ?t = t0 + au_ttl au" "tp_issued ?t = t0" "tp_nonce ?t = nonce"
    by (simp_all add: bound_def mint_payload_def)
  ultimately show ?thesis
    using assms(2,5,6) e(2) opened by (simp add: verify_and_consume_def nonce_consume_def Let_def)
qed

text \<open>
  C12: an accepted proof was sealed with the authority's key for exactly this operation: the authenticated
  principal and its transport, the device, the generation, the effect, the action, the arguments' digest
  and the policy revision are those of the sealed payload, and the authority's clock is within its
  lifetime.
\<close>

theorem accepted_proof_is_bound:
  assumes "fst (verify_and_consume cd au ctx proof b now later s) = None"
  shows "\<exists>p t encoded e m. ctx = Some p \<and> pr_id p \<noteq> [] \<and> pr_transport p \<noteq> [] \<and>
    proof = Some (e @ ''.'' @ m) \<and> b64_decode e = Some encoded \<and>
    b64_decode m = Some (cd_hmac cd (au_key au) encoded) \<and> cd_unmarshal cd encoded = Some t \<and>
    bound t p b \<and> tp_issued t \<le> now \<and> now < tp_expires t"
proof -
  from assms obtain p sealed t where *: "PrincipalFromContext ctx = Some p" "proof = Some sealed"
      "open_proof cd au sealed = Inr t" "now < tp_expires t" "tp_issued t \<le> now" "bound t p b"
    unfolding verify_accepts by blast
  have ctx: "ctx = Some p" "pr_id p \<noteq> []" "pr_transport p \<noteq> []"
    using *(1) by (auto simp: PrincipalFromContext_def split: option.splits if_splits)
  obtain e m encoded where o: "splitToken sealed = Some (e, m)" "b64_decode e = Some encoded"
      "b64_decode m = Some (cd_hmac cd (au_key au) encoded)" "cd_unmarshal cd encoded = Some t"
    using *(3) by (auto simp: open_proof_Inr)
  have "sealed = e @ ''.'' @ m"
  proof -
    obtain c rest where r: "dropWhile (\<lambda>c. c \<noteq> CHR ''.'') sealed = c # rest"
        "e = takeWhile (\<lambda>c. c \<noteq> CHR ''.'') sealed" "m = rest"
      using o(1) by (auto simp: splitToken_def Let_def split: list.splits if_splits)
    have "c = CHR ''.''" using r(1) by (simp add: dropWhile_eq_Cons_conv)
    then show ?thesis using r takeWhile_dropWhile_id [of "\<lambda>c. c \<noteq> CHR ''.''" sealed] by simp
  qed
  then show ?thesis using ctx o * by blast
qed

text \<open>
  C11: a proof is used at most once: in any sequence of presentations of any proofs, one sealed proof is
  accepted at most once, if the nonce store's clock has not passed the proof's expiry at any of them.
\<close>

theorem proof_is_single_use:
  assumes "open_proof cd au sealed = Inr t" and "list_all (\<lambda>v. pn_later v < tp_expires t) vs"
  shows "proof_uses cd au sealed s vs \<le> 1"
proof -
  have "list_all (\<lambda>(now, _). now < tp_expires t) (concat (map (consumption cd au) vs))"
    using assms(2)
    by (auto simp: list_all_iff consumption_def split: option.splits sum.splits if_splits)
  then have "memory.accepted (tp_nonce t) (tp_expires t) s (concat (map (consumption cd au) vs)) \<le> 1"
    by (rule memory.accepted_once)
  then show ?thesis using proof_uses_accepted [OF assms(1), of s vs] by simp
qed

text \<open>
  without that condition a proof can be replayed: when the authority's clock is still before the
  expiry and the store's clock, read after it, is not, the store forgets the consumed nonce before it
  looks for it, and the same proof that was just accepted is accepted again.
\<close>

theorem expiring_proof_is_replayed:
  assumes "verify_and_consume cd au ctx (Some sealed) b now1 later1 s = (None, s1)"
    and "open_proof cd au sealed = Inr t"
    and "now1 \<le> now2" and "now2 < tp_expires t" and "tp_expires t \<le> later2"
  shows "fst (verify_and_consume cd au ctx (Some sealed) b now2 later2 s1) = None"
proof -
  have "fst (verify_and_consume cd au ctx (Some sealed) b now1 later1 s) = None" using assms(1) by simp
  then obtain p where *: "PrincipalFromContext ctx = Some p" "validateBinding b = None" "sealed \<noteq> []"
      "tp_issued t \<le> now1" "bound t p b" "now1 < tp_expires t"
    unfolding verify_accepts using assms(2) by auto
  then have "nonce_consume later1 (tp_nonce t) (tp_expires t) s = (None, s1)"
    using assms(1,2) by (simp add: verify_and_consume_def)
  then have "(tp_nonce t, x) \<in> set s1 \<Longrightarrow> x = tp_expires t" for x
    by (force simp: nonce_consume_def Let_def split: if_splits)
  then have "tp_nonce t \<notin> fst ` set (filter (\<lambda>(_, expiry). expiry > later2) s1)"
    using assms(5) by force
  then have "fst (nonce_consume later2 (tp_nonce t) (tp_expires t) s1) = None" by (simp add: nonce_consume_def Let_def)
  then show ?thesis unfolding verify_accepts using * assms(2-4) by auto
qed

text \<open>A codec that knows one payload.\<close>

definition ex_principal :: "principal option" where
  "ex_principal = Some LocalProcessPrincipal"

definition ex_binding :: binding where
  "ex_binding = \<lparr>bd_device = ''kvm-1'', bd_generation = 3, bd_effect = EffectPower, bd_action = ''reset'',
     bd_digest = 5, bd_revision = ''rev''\<rparr>"

definition ex_authority :: authority where
  "ex_authority = \<lparr>au_key = replicate 32 1, au_ttl = DefaultTTL\<rparr>"

definition ex_payload :: token_payload where
  "ex_payload = mint_payload ex_authority LocalProcessPrincipal ex_binding 77 (seconds 100)"

definition ex_codec :: codec where
  "ex_codec = \<lparr>cd_hmac = (\<lambda>_ _. [9]), cd_marshal = (\<lambda>t. if t = ex_payload then Some [123, 125] else None),
     cd_unmarshal = (\<lambda>bs. if bs = [123, 125] then Some ex_payload else None)\<rparr>"

definition ex_sealed :: string where
  "ex_sealed = b64_encode [123, 125] @ ''.'' @ b64_encode [9]"

lemma ex_principal: "PrincipalFromContext ex_principal = Some LocalProcessPrincipal"
  by (simp add: ex_principal_def PrincipalFromContext_def LocalProcessPrincipal_def)

lemma ex_binding_ok: "validateBinding ex_binding = None"
  by (simp add: validateBinding_def ex_binding_def)

lemma ex_mint: "mint ex_codec ex_authority ex_principal ex_binding 77 (seconds 100) = Inr ex_sealed"
  unfolding mint_def ex_principal option.case ex_binding_ok
  by (simp add: ex_codec_def flip: ex_payload_def) (simp add: ex_payload_def ex_sealed_def)

lemma ex_open: "open_proof ex_codec ex_authority ex_sealed = Inr ex_payload"
proof -
  have "splitToken ex_sealed = Some (b64_encode [123, 125], b64_encode [9])"
    unfolding ex_sealed_def by (rule splitToken_join [OF _ _ b64_no_dot]) simp_all
  moreover have "tp_version ex_payload = tokenVersion" "tp_nonce ex_payload = 77"
    by (simp_all add: ex_payload_def mint_payload_def)
  ultimately show ?thesis by (simp add: open_proof_def ex_codec_def del: b64_encode.simps)
qed

theorem minted_proof_verifies_witness:
  "fst (verify_and_consume ex_codec ex_authority ex_principal (Some ex_sealed) ex_binding (seconds 110) (seconds 110) []) = None"
proof -
  have "verify_and_consume ex_codec ex_authority ex_principal (Some ex_sealed) ex_binding (seconds 110) (seconds 110) [] =
    (None, (77, seconds 100 + au_ttl ex_authority) # filter (\<lambda>(_, expiry). expiry > seconds 110) [])"
    by (rule minted_proof_verifies [OF ex_mint ex_principal])
      (simp_all add: ex_codec_def ex_authority_def DefaultTTL_def flip: ex_payload_def split: if_splits)
  then show ?thesis by simp
qed

lemma ex_verify: "verify_and_consume ex_codec ex_authority ex_principal (Some ex_sealed) ex_binding (seconds 110) (seconds 110) [] =
    (None, [(77, seconds 220)])"
  unfolding verify_and_consume_def ex_principal option.case ex_binding_ok
  by (simp add: ex_open) (simp add: ex_sealed_def ex_payload_def mint_payload_def ex_authority_def DefaultTTL_def
      bound_def nonce_consume_def)

lemma ex_expires: "tp_expires ex_payload = seconds 220"
  by (simp add: ex_payload_def mint_payload_def ex_authority_def DefaultTTL_def)

theorem accepted_proof_is_bound_witness:
  "\<exists>p t. ex_principal = Some p \<and> cd_unmarshal ex_codec [123, 125] = Some t \<and> bound t p ex_binding"
proof -
  have "fst (verify_and_consume ex_codec ex_authority ex_principal (Some ex_sealed) ex_binding (seconds 110) (seconds 110) []) = None"
    unfolding ex_verify by simp
  from accepted_proof_is_bound [OF this] show ?thesis
    by (force simp: ex_codec_def split: if_splits)
qed

theorem proof_is_single_use_witness:
  "proof_uses ex_codec ex_authority ex_sealed []
     [\<lparr>pn_ctx = ex_principal, pn_proof = Some ex_sealed, pn_binding = ex_binding, pn_now = seconds 110, pn_later = seconds 110\<rparr>,
      \<lparr>pn_ctx = ex_principal, pn_proof = Some ex_sealed, pn_binding = ex_binding, pn_now = seconds 120, pn_later = seconds 120\<rparr>] \<le> 1"
  by (rule proof_is_single_use [OF ex_open]) (simp add: ex_expires)

theorem expiring_proof_is_replayed_witness:
  "fst (verify_and_consume ex_codec ex_authority ex_principal (Some ex_sealed) ex_binding (seconds 219) (seconds 220)
     [(77, seconds 220)]) = None"
  by (rule expiring_proof_is_replayed [OF ex_verify ex_open]) (simp_all add: ex_expires)

end
