(* ===== verification/Automation_Rules.thy ===== *)
theory Automation_Rules
  imports Policy Executor Confirmation Control_Registry
begin

text \<open>
  The decisions of \<open>internal/automation/service.go\<close> that touch no state: authorization, which
  calls need a confirmation and what exactly is confirmed, the power actions, the classification of
  errors and the patches that finish an operation. The canonical JSON of a request's arguments and
  SHA-256 are arguments (\<open>sv_json_...\<close>, \<open>sv_sha\<close>); \<open>None\<close> is a marshalling error.
\<close>

unbundle bit_operations_syntax

section \<open>Errors\<close>

text \<open>
  Errors of the outside are known by numbers; \<open>outside_kind\<close> says what \<open>errors.Is\<close> and
  \<open>errors.AsType\<close> find in them.
\<close>

datatype outside_kind = OutCanceled | OutDeadline | OutRPC | OutOther

datatype svc_error =
    SvcControl control_error
  | SvcOperation op_error
  | SvcProof confirm_error
  | SvcInput input_error
  | SvcOutside nat
  | ErrCapabilityUnavailable
  | ErrTakeoverDisabled
  | ErrTakeoverConfirmationRequired
  | ErrInvalidPowerAction
  | ErrUnexpectedSession
  | ErrSvcRequest
  | ErrUnknownCapability
  | ErrAttachedUnsupported
  | ErrMarshal
  | ErrNothingSent

type_synonym svc_errors = "svc_error list"

definition is_kind :: "(nat \<Rightarrow> outside_kind) \<Rightarrow> outside_kind \<Rightarrow> svc_error \<Rightarrow> bool" where
  "is_kind kinds k e =
     (case e of
        SvcOutside n \<Rightarrow> kinds n = k
      | SvcControl c \<Rightarrow> (case c of control_error.ErrExternal n \<Rightarrow> kinds n = k | _ \<Rightarrow> False)
      | SvcOperation p \<Rightarrow> (case p of ErrSql n \<Rightarrow> kinds n = k | _ \<Rightarrow> False)
      | SvcInput i \<Rightarrow>
          (case i of ErrContextCanceled \<Rightarrow> k = OutCanceled | ErrDeadlineExceeded \<Rightarrow> k = OutDeadline
           | input_error.ErrExternal n \<Rightarrow> kinds n = k | _ \<Rightarrow> False)
      | _ \<Rightarrow> False)"

definition has_kind :: "(nat \<Rightarrow> outside_kind) \<Rightarrow> outside_kind \<Rightarrow> svc_errors \<Rightarrow> bool" where
  "has_kind kinds k es = list_ex (is_kind kinds k) es"

definition errorKind :: "(nat \<Rightarrow> outside_kind) \<Rightarrow> svc_errors \<Rightarrow> string" where
  "errorKind kinds es =
     (if has_kind kinds OutCanceled es then ''cancelled''
      else if has_kind kinds OutDeadline es then ''deadline_exceeded''
      else if errors_is es ErrCapabilityUnavailable then ''capability_unavailable''
      else if errors_is es (SvcControl ErrGenerationMismatch) \<or> errors_is es (SvcInput ErrStaleGeneration)
      then ''control_generation_mismatch''
      else ''device_operation_failed'')"

section \<open>Requests\<close>

datatype power_action = PowerPress | PowerHold | PowerReset | PowerOther string

definition power_name :: "power_action \<Rightarrow> string" where
  "power_name a = (case a of PowerPress \<Rightarrow> ''press'' | PowerHold \<Rightarrow> ''hold'' | PowerReset \<Rightarrow> ''reset'' | PowerOther s \<Rightarrow> s)"

record open_control_request =
  oc_device :: device_id
  oc_capabilities :: "string list"
  oc_scope :: scope
  oc_ownership :: ownership
  oc_idle :: duration
  oc_absolute :: duration

record control_request =
  cr_device :: device_id
  cr_ref :: ref
  cr_scope :: scope

record run_request = control_request +
  ru_operation :: uuid
  ru_batch :: batch
  ru_observe_after :: bool

record release_request = control_request +
  rl_operation :: uuid

record power_request = control_request +
  pw_operation :: uuid
  pw_action :: power_action

record confirmation_plan =
  cp_required :: bool
  cp_binding :: "binding option"

text \<open>
  The fixed parts of a service: \<open>sv_confirmations\<close> is the verifier, if one is configured;
  \<open>sv_process\<close> is the process the service runs in.
\<close>

record service =
  sv_policy :: compiled
  sv_hmac :: "bytes \<Rightarrow> bytes \<Rightarrow> digest"
  sv_key :: bytes
  sv_sha :: "bytes \<Rightarrow> digest"
  sv_confirmations :: "(codec \<times> authority) option"
  sv_process :: nat
  sv_kinds :: "nat \<Rightarrow> outside_kind"
  sv_control :: "device_id \<Rightarrow> control_env"
  sv_json_open :: "device_id \<Rightarrow> u64 \<Rightarrow> string list \<Rightarrow> ownership \<Rightarrow> duration \<Rightarrow> duration \<Rightarrow> bytes option"
  sv_json_run :: "device_id \<Rightarrow> handle_id \<Rightarrow> u64 \<Rightarrow> batch \<Rightarrow> bool \<Rightarrow> bytes option"
  sv_json_release :: "device_id \<Rightarrow> handle_id \<Rightarrow> u64 \<Rightarrow> bytes option"
  sv_json_power :: "device_id \<Rightarrow> handle_id \<Rightarrow> u64 \<Rightarrow> power_action \<Rightarrow> bytes option"

section \<open>Authorization\<close>

definition authorize :: "service \<Rightarrow> string \<Rightarrow> device_id \<Rightarrow> scope \<Rightarrow> svc_errors + decision" where
  "authorize sv tool d sc =
     (let decision = evaluate (sv_policy sv)
        \<lparr>ev_tool = tool, ev_device = d, ev_scope = sc, ev_capabilities = (\<lambda>_. False), ev_check_capabilities = False\<rparr>
      in if \<not> de_allowed decision then Inl [ErrCapabilityUnavailable] else Inr decision)"

definition controlCapabilityTool :: "string \<Rightarrow> string option" where
  "controlCapabilityTool c =
     (if c = ''video'' then Some ''jetkvm_observe''
      else if c = ''input'' then Some ''jetkvm_run_actions''
      else if c = ''power'' then Some ''jetkvm_get_power_state''
      else None)"

text \<open>The loop of \<open>OpenControl\<close> over the requested capabilities.\<close>

fun authorize_capabilities :: "service \<Rightarrow> device_id \<Rightarrow> scope \<Rightarrow> string list \<Rightarrow> svc_errors option" where
  "authorize_capabilities sv d sc [] = None"
| "authorize_capabilities sv d sc (c # cs) =
     (case controlCapabilityTool c of
        None \<Rightarrow> Some [ErrUnknownCapability]
      | Some tool \<Rightarrow>
          (case authorize sv tool d sc of
             Inl e \<Rightarrow> Some e
           | Inr _ \<Rightarrow> authorize_capabilities sv d sc cs))"

definition takeover_allowed :: "decision \<Rightarrow> bool" where
  "takeover_allowed de \<longleftrightarrow> (case de_device de of None \<Rightarrow> False | Some p \<Rightarrow> dp_takeover_allowed p)"

definition takeover_confirmed :: "decision \<Rightarrow> bool" where
  "takeover_confirmed de \<longleftrightarrow> (case de_device de of None \<Rightarrow> False | Some p \<Rightarrow> dp_takeover_confirmation p)"

section \<open>What has to be confirmed\<close>

definition preControlGeneration :: u64 where
  "preControlGeneration = 0"

definition openControlConfirmationBinding ::
    "service \<Rightarrow> open_control_request \<Rightarrow> string list \<Rightarrow> svc_errors + binding" where
  "openControlConfirmationBinding sv rq capabilities =
     (case sv_json_open sv (oc_device rq) preControlGeneration capabilities OwnershipOwned (oc_idle rq) (oc_absolute rq) of
        None \<Rightarrow> Inl [ErrMarshal]
      | Some canonical \<Rightarrow>
          Inr \<lparr>bd_device = oc_device rq, bd_generation = preControlGeneration, bd_effect = EffectObserve,
               bd_action = ''control.takeover'', bd_digest = sv_sha sv canonical,
               bd_revision = co_revision (sv_policy sv)\<rparr>)"

definition sensitiveChord :: "string list \<Rightarrow> bool" where
  "sensitiveChord keys \<longleftrightarrow>
     2 \<le> length keys \<and> (case compileKeyCombo keys of Inl _ \<Rightarrow> False | Inr (modifier, _) \<Rightarrow> modifier AND 0xdd \<noteq> 0)"

definition commit_usage :: "u8 \<Rightarrow> bool" where
  "commit_usage u \<longleftrightarrow> u = 0x28 \<or> u = 0x58 \<or> (0x3a \<le> u \<and> u \<le> 0x45) \<or> (0x68 \<le> u \<and> u \<le> 0x73)"

text \<open>\<open>utf8.RuneCountInString\<close>.\<close>

definition rune_count :: "string \<Rightarrow> nat" where
  "rune_count s = length (decode_runes (string_bytes s))"

fun commit_loop :: "action list \<Rightarrow> bool \<Rightarrow> bool \<Rightarrow> bool" where
  "commit_loop [] has_text has_commit_key = (has_text \<and> has_commit_key)"
| "commit_loop (a # as) has_text has_commit_key =
     (if ac_type a = ActionTypeText then
        (if rune_count (ac_text a) > 256 then True else commit_loop as True has_commit_key)
      else if ac_type a = ActionKeyHold then True
      else if ac_type a = ActionKeypress then
        (if sensitiveChord (ac_keys a) then True
         else commit_loop as has_text
           (has_commit_key \<or>
            (case compileKeyCombo (ac_keys a) of Inl _ \<Rightarrow> False | Inr (_, usages) \<Rightarrow> list_ex commit_usage usages)))
      else commit_loop as has_text has_commit_key)"

definition requiresInputCommit :: "batch \<Rightarrow> bool" where
  "requiresInputCommit b = commit_loop (ba_actions b) False False"

definition inputConfirmationBinding :: "service \<Rightarrow> ('a) run_request_scheme \<Rightarrow> bytes \<Rightarrow> binding option" where
  "inputConfirmationBinding sv rq canonical =
     (if \<not> co_confirmation_required (sv_policy sv) \<or> \<not> requiresInputCommit (ru_batch rq) then None
      else Some \<lparr>bd_device = cr_device rq, bd_generation = rf_generation (cr_ref rq), bd_effect = EffectInput,
                 bd_action = ''input.commit'', bd_digest = sv_sha sv canonical,
                 bd_revision = co_revision (sv_policy sv)\<rparr>)"

definition powerWireAction :: "power_action \<Rightarrow> string option" where
  "powerWireAction a =
     (case a of PowerPress \<Rightarrow> Some ''power-short'' | PowerHold \<Rightarrow> Some ''power-long'' | PowerReset \<Rightarrow> Some ''reset''
      | PowerOther _ \<Rightarrow> None)"

definition powerActionRequiresConfirmation :: "power_action \<Rightarrow> bool" where
  "powerActionRequiresConfirmation a \<longleftrightarrow> a = PowerReset \<or> a = PowerHold"

definition powerConfirmationBinding :: "service \<Rightarrow> ('a) power_request_scheme \<Rightarrow> bytes \<Rightarrow> binding" where
  "powerConfirmationBinding sv rq canonical =
     \<lparr>bd_device = cr_device rq, bd_generation = rf_generation (cr_ref rq), bd_effect = EffectPower,
      bd_action = ''power.'' @ power_name (pw_action rq), bd_digest = sv_sha sv canonical,
      bd_revision = co_revision (sv_policy sv)\<rparr>"

text \<open>At least one action that writes to the device.\<close>

definition validateAutomationBatch :: "batch \<Rightarrow> svc_errors option" where
  "validateAutomationBatch b =
     (if list_ex (\<lambda>a. ac_type a \<noteq> ActionScreenshot \<and> ac_type a \<noteq> ActionWait) (ba_actions b) then None
      else Some [SvcInput ErrInvalidAction])"

definition batchHasScreenshot :: "batch \<Rightarrow> bool" where
  "batchHasScreenshot b = list_ex (\<lambda>a. ac_type a = ActionScreenshot) (ba_actions b)"

section \<open>Plans\<close>

definition no_plan :: confirmation_plan where
  "no_plan = \<lparr>cp_required = False, cp_binding = None\<rparr>"

definition canonicalRunActions :: "service \<Rightarrow> ('a) run_request_scheme \<Rightarrow> svc_errors + bytes" where
  "canonicalRunActions sv rq =
     (case sv_json_run sv (cr_device rq) (rf_id (cr_ref rq)) (rf_generation (cr_ref rq)) (ru_batch rq) (ru_observe_after rq) of
        None \<Rightarrow> Inl [ErrMarshal] | Some b \<Rightarrow> Inr b)"

definition canonicalPowerAction :: "service \<Rightarrow> ('a) power_request_scheme \<Rightarrow> svc_errors + bytes" where
  "canonicalPowerAction sv rq =
     (case sv_json_power sv (cr_device rq) (rf_id (cr_ref rq)) (rf_generation (cr_ref rq)) (pw_action rq) of
        None \<Rightarrow> Inl [ErrMarshal] | Some b \<Rightarrow> Inr b)"

definition prepare_open_control :: "service \<Rightarrow> open_control_request \<Rightarrow> svc_errors + confirmation_plan" where
  "prepare_open_control sv rq =
     (if oc_device rq = [] \<or> oc_capabilities rq = [] then Inl [ErrSvcRequest]
      else
        (case authorize sv ''jetkvm_open_control'' (oc_device rq) (oc_scope rq) of
           Inl e \<Rightarrow> Inl e
         | Inr de \<Rightarrow>
             if \<not> co_confirmation_required (sv_policy sv) \<or> \<not> takeover_confirmed de then Inr no_plan
             else
               (case openControlConfirmationBinding sv rq (normalizeCapabilities (oc_capabilities rq)) of
                  Inl e \<Rightarrow> Inl e
                | Inr b \<Rightarrow> Inr \<lparr>cp_required = True, cp_binding = Some b\<rparr>)))"

definition prepare_run_actions :: "service \<Rightarrow> run_request \<Rightarrow> svc_errors + confirmation_plan" where
  "prepare_run_actions sv rq =
     (case authorize sv ''jetkvm_run_actions'' (cr_device rq) (cr_scope rq) of
        Inl e \<Rightarrow> Inl e
      | Inr _ \<Rightarrow>
          (case validateAutomationBatch (ru_batch rq) of
             Some e \<Rightarrow> Inl e
           | None \<Rightarrow>
               (case canonicalRunActions sv rq of
                  Inl e \<Rightarrow> Inl e
                | Inr canonical \<Rightarrow>
                    (let b = inputConfirmationBinding sv rq canonical
                     in Inr \<lparr>cp_required = (b \<noteq> None), cp_binding = b\<rparr>))))"

definition prepare_power_action :: "service \<Rightarrow> power_request \<Rightarrow> svc_errors + confirmation_plan" where
  "prepare_power_action sv rq =
     (case authorize sv ''jetkvm_power_action'' (cr_device rq) (cr_scope rq) of
        Inl e \<Rightarrow> Inl e
      | Inr _ \<Rightarrow>
          if powerWireAction (pw_action rq) = None then Inl [ErrInvalidPowerAction]
          else if \<not> co_confirmation_required (sv_policy sv) \<or> \<not> powerActionRequiresConfirmation (pw_action rq)
          then Inr no_plan
          else
            (case canonicalPowerAction sv rq of
               Inl e \<Rightarrow> Inl e
             | Inr canonical \<Rightarrow>
                 Inr \<lparr>cp_required = True, cp_binding = Some (powerConfirmationBinding sv rq canonical)\<rparr>))"

section \<open>Patches\<close>

definition plain_patch :: "delivery \<Rightarrow> bool \<Rightarrow> string \<Rightarrow> patch" where
  "plain_patch d retry kind =
     \<lparr>pt_delivery = d, pt_verification = \<lparr>vf_status = VerificationNotRequested, vf_signals = [], vf_observation = []\<rparr>,
      pt_claim = TerminalClaimNotProven, pt_retry_safe = retry, pt_error_kind = kind, pt_warnings = []\<rparr>"

definition acceptedPatch :: patch where
  "acceptedPatch = plain_patch DeliveryTransportAccepted False []"

text \<open>The stage \<open>finishNotSent\<close> picks.\<close>

definition not_sent_stage :: "(nat \<Rightarrow> outside_kind) \<Rightarrow> svc_errors \<Rightarrow> stage" where
  "not_sent_stage kinds cause =
     (if has_kind kinds OutCanceled cause \<or> has_kind kinds OutDeadline cause then StageCancelled else StageFailed)"

section \<open>What the commit rule says\<close>

text \<open>The actions that need a confirmation on their own, and the two kinds that need one together.\<close>

definition forces_commit :: "action \<Rightarrow> bool" where
  "forces_commit a \<longleftrightarrow>
     (ac_type a = ActionTypeText \<and> rune_count (ac_text a) > 256) \<or> ac_type a = ActionKeyHold \<or>
     (ac_type a = ActionKeypress \<and> sensitiveChord (ac_keys a))"

definition types_text :: "action \<Rightarrow> bool" where
  "types_text a \<longleftrightarrow> ac_type a = ActionTypeText"

definition presses_commit_key :: "action \<Rightarrow> bool" where
  "presses_commit_key a \<longleftrightarrow> ac_type a = ActionKeypress \<and>
     (case compileKeyCombo (ac_keys a) of Inl _ \<Rightarrow> False | Inr (_, usages) \<Rightarrow> list_ex commit_usage usages)"

lemma commit_loop_iff:
  "commit_loop as t k \<longleftrightarrow>
     list_ex forces_commit as \<or> ((t \<or> list_ex types_text as) \<and> (k \<or> list_ex presses_commit_key as))"
  by (induction as arbitrary: t k) (auto simp: forces_commit_def types_text_def presses_commit_key_def)

section \<open>Properties\<close>

text \<open>
  C25: a batch needs a confirmation exactly when one of its actions is a long text, a held key or a chord
  with Control, Alt or Meta, or when it both types text and presses Enter or a function key, in either
  order and with anything between.
\<close>

theorem commit_rule_is_order_free:
  "requiresInputCommit b \<longleftrightarrow>
     list_ex forces_commit (ba_actions b) \<or>
     (list_ex types_text (ba_actions b) \<and> list_ex presses_commit_key (ba_actions b))"
  by (simp add: requiresInputCommit_def commit_loop_iff)

text \<open>
  the length threshold is per action, not per batch: a batch of any number of text actions of at
  most 256 characters each needs no confirmation, however long the text is that they type together.
\<close>

theorem split_text_needs_no_confirmation:
  assumes "list_all (\<lambda>a. ac_type a = ActionTypeText \<and> rune_count (ac_text a) \<le> 256) (ba_actions b)"
  shows "\<not> requiresInputCommit b"
  using assms unfolding requiresInputCommit_def commit_loop_iff
  by (induction "ba_actions b") (auto simp: forces_commit_def presses_commit_key_def list_all_iff list_ex_iff)

definition ex_text :: "nat \<Rightarrow> action" where
  "ex_text n = (ex_action ActionTypeText)\<lparr>ac_text := replicate n CHR ''a''\<rparr>"

lemma rune_count_replicate [simp]: "rune_count (replicate n CHR ''a'') = n"
  by (induction n) (simp_all add: rune_count_def string_bytes_def utf8_head_def)

theorem split_text_needs_no_confirmation_witness:
  "\<not> requiresInputCommit \<lparr>ba_observation = None, ba_actions = [ex_text 256, ex_text 256]\<rparr> \<and>
   requiresInputCommit \<lparr>ba_observation = None, ba_actions = [ex_text 512]\<rparr>"
proof
  show "\<not> requiresInputCommit \<lparr>ba_observation = None, ba_actions = [ex_text 256, ex_text 256]\<rparr>"
    by (rule split_text_needs_no_confirmation) (simp add: ex_text_def ex_action_def)
  show "requiresInputCommit \<lparr>ba_observation = None, ba_actions = [ex_text 512]\<rparr>"
    by (simp add: requiresInputCommit_def ex_text_def ex_action_def)
qed

end
