(* ===== verification/Ledger.thy ===== *)
theory Ledger
  imports Operation
begin

text \<open>
  \<open>internal/store/store.go\<close> and the schema of \<open>migrate.go\<close>: the SQLite tables of pinned
  identities and of operations, shared by every process that opened the store, and the file locks that
  tell whether the process sending an operation is still alive. Each method runs in one transaction, so
  it is a function on the tables; the CHECK constraints of the schema are checked where a row is
  written. \<open>io\<close> says which call to the database or the file system fails, and with what error; a
  failed transaction is rolled back. The recovery loop is not one transaction: \<open>recover_one\<close> is
  its body, which other processes' calls may run between.
  A UUID's string form and its parse are inverse, so rows are keyed by the UUID itself.
\<close>

section \<open>Times\<close>

definition unix_epoch_ms :: int where
  "unix_epoch_ms = 62135596800000"

definition normalizeTime :: "time \<Rightarrow> time" where
  "normalizeTime t = t div nanos_per_milli * nanos_per_milli"

definition toMillis :: "time \<Rightarrow> int" where
  "toMillis t = normalizeTime t div nanos_per_milli - unix_epoch_ms"

definition fromMillis :: "int \<Rightarrow> time" where
  "fromMillis m = (m + unix_epoch_ms) * nanos_per_milli"

definition nullableMillis :: "time \<Rightarrow> int option" where
  "nullableMillis t = (if t = 0 then None else Some (toMillis t))"

definition timeFromNullableMillis :: "int option \<Rightarrow> time" where
  "timeFromNullableMillis m = (case m of None \<Rightarrow> 0 | Some v \<Rightarrow> fromMillis v)"

definition nullableString :: "string \<Rightarrow> string option" where
  "nullableString v = (if v = [] then None else Some v)"

definition stringFromNullable :: "string option \<Rightarrow> string" where
  "stringFromNullable v = (case v of None \<Rightarrow> [] | Some x \<Rightarrow> x)"

section \<open>Tables\<close>

record identity_pin =
  ip_alias :: string
  ip_origin :: string
  ip_device :: device_id
  ip_created :: time
  ip_updated :: time

record identity_row =
  ir_alias :: string
  ir_origin :: string
  ir_device :: device_id
  ir_created :: int
  ir_updated :: int

record op_row =
  or_id :: uuid
  or_digest :: digest
  or_device :: device_id
  or_generation :: int
  or_effect :: effect_class
  or_action :: string
  or_revision :: string
  or_stage :: stage
  or_delivery :: delivery
  or_status :: verification_status
  or_observation :: "string option"
  or_claim :: string
  or_retry_safe :: bool
  or_error_kind :: "string option"
  or_created :: int
  or_updated :: int
  or_send_started :: "int option"
  or_terminal :: "int option"

type_synonym string_table = "(uuid \<times> nat \<times> string) list"

type_synonym proc = nat

text \<open>
  \<open>lg_locks\<close> are the lock files held in the operating system and by which process;
  \<open>lg_owners\<close> is the \<open>owners\<close> map of every process.
\<close>

record ledger =
  lg_pins :: "identity_row list"
  lg_rows :: "op_row list"
  lg_signals :: string_table
  lg_warnings :: string_table
  lg_locks :: "(uuid \<times> proc) list"
  lg_owners :: "(uuid \<times> proc) list"

text \<open>The CHECK constraints of \<open>device_identities\<close> and \<open>operations\<close>.\<close>

definition check_identity :: "identity_row \<Rightarrow> bool" where
  "check_identity r \<longleftrightarrow> ir_alias r \<noteq> [] \<and> ir_origin r \<noteq> [] \<and> ir_device r \<noteq> [] \<and> ir_created r \<le> ir_updated r"

definition known_stage :: "stage \<Rightarrow> bool" where
  "known_stage s = (case s of StageOther _ \<Rightarrow> False | _ \<Rightarrow> True)"

definition known_delivery :: "delivery \<Rightarrow> bool" where
  "known_delivery d = (case d of DeliveryOther _ \<Rightarrow> False | _ \<Rightarrow> True)"

definition check_row :: "op_row \<Rightarrow> bool" where
  "check_row r \<longleftrightarrow>
     or_device r \<noteq> [] \<and> 0 \<le> or_generation r \<and>
     or_effect r \<in> {EffectInput, EffectPower, EffectMedia, EffectAdmin} \<and>
     or_action r \<noteq> [] \<and> or_revision r \<noteq> [] \<and>
     known_stage (or_stage r) \<and> known_delivery (or_delivery r) \<and> known_verification (or_status r) \<and>
     or_created r \<le> or_updated r \<and>
     (or_stage r \<notin> {StageSendStarted, StageTransportAccepted, StageObservationStarted, StageStateObserved,
        StageCompleted, StageAmbiguous} \<or> or_send_started r \<noteq> None) \<and>
     (or_stage r \<noteq> StageNotSent \<or> or_send_started r = None) \<and>
     (or_stage r \<in> {StageCompleted, StageFailed, StageAmbiguous, StageCancelled}) = (or_terminal r \<noteq> None)"

section \<open>Calls that can fail\<close>

datatype io_call =
    IoBeginTx | IoExec | IoRowsAffected | IoSelect | IoReadSignals | IoReadWarnings
  | IoWriteSignals | IoWriteWarnings | IoReselect | IoCommit | IoTryLock | IoUnlock

type_synonym faults = "io_call \<Rightarrow> nat option"

fun first_fault :: "faults \<Rightarrow> io_call list \<Rightarrow> op_errors option" where
  "first_fault io [] = None"
| "first_fault io (c # cs) = (case io c of Some e \<Rightarrow> Some [ErrSql e] | None \<Rightarrow> first_fault io cs)"

section \<open>Rows and receipts\<close>

definition find_row :: "uuid \<Rightarrow> ledger \<Rightarrow> op_row option" where
  "find_row i s = find (\<lambda>r. or_id r = i) (lg_rows s)"

text \<open>\<open>SELECT column ... ORDER BY ordinal\<close>, and the delete and inserts of \<open>replaceStrings\<close>.\<close>

definition readStrings :: "uuid \<Rightarrow> string_table \<Rightarrow> string list" where
  "readStrings i t = map (\<lambda>(_, _, v). v) (sort_key (\<lambda>(_, k, _). k) (filter (\<lambda>(j, _). j = i) t))"

definition replaceStrings :: "uuid \<Rightarrow> string list \<Rightarrow> string_table \<Rightarrow> op_errors + string_table" where
  "replaceStrings i vs t =
     (if [] \<in> set vs then Inl [ErrConstraint]
      else Inr (filter (\<lambda>(j, _). j \<noteq> i) t @ map (\<lambda>(k, v). (i, k, v)) (enumerate 0 vs)))"

definition row_receipt :: "ledger \<Rightarrow> op_row \<Rightarrow> receipt" where
  "row_receipt s r =
     \<lparr>rc_request = \<lparr>rq_id = or_id r, rq_digest = or_digest r, rq_device = or_device r,
         rq_generation = word_of_int (or_generation r), rq_effect = or_effect r, rq_action = or_action r,
         rq_revision = or_revision r\<rparr>,
      rc_stage = or_stage r, rc_delivery = or_delivery r,
      rc_verification = \<lparr>vf_status = or_status r, vf_signals = readStrings (or_id r) (lg_signals s),
         vf_observation = stringFromNullable (or_observation r)\<rparr>,
      rc_claim = or_claim r, rc_retry_safe = or_retry_safe r,
      rc_error_kind = stringFromNullable (or_error_kind r),
      rc_warnings = readStrings (or_id r) (lg_warnings s),
      rc_created = fromMillis (or_created r), rc_updated = fromMillis (or_updated r),
      rc_send_started = timeFromNullableMillis (or_send_started r),
      rc_terminal = timeFromNullableMillis (or_terminal r)\<rparr>"

definition getOperationRow :: "faults \<Rightarrow> uuid \<Rightarrow> ledger \<Rightarrow> op_errors + receipt" where
  "getOperationRow io i s =
     (case io IoSelect of Some e \<Rightarrow> Inl [ErrSql e]
      | None \<Rightarrow> (case find_row i s of None \<Rightarrow> Inl [ErrNotFound]
          | Some r \<Rightarrow> (case first_fault io [IoReadSignals, IoReadWarnings] of
                Some e \<Rightarrow> Inl e
              | None \<Rightarrow> Inr (row_receipt s r))))"

definition ledger_get :: "faults \<Rightarrow> uuid \<Rightarrow> ledger \<Rightarrow> op_errors + receipt" where
  "ledger_get io i s = getOperationRow io i s"

section \<open>Identity pins\<close>

definition scanIdentity :: "string \<Rightarrow> ledger \<Rightarrow> op_errors + identity_pin" where
  "scanIdentity alias_name s =
     (case find (\<lambda>r. ir_alias r = alias_name) (lg_pins s) of
        None \<Rightarrow> Inl [ErrIdentityNotFound]
      | Some r \<Rightarrow> Inr \<lparr>ip_alias = ir_alias r, ip_origin = ir_origin r, ip_device = ir_device r,
            ip_created = fromMillis (ir_created r), ip_updated = fromMillis (ir_updated r)\<rparr>)"

definition pin_identity ::
  "faults \<Rightarrow> identity_pin \<Rightarrow> time \<Rightarrow> ledger \<Rightarrow> (op_errors + identity_pin \<times> bool) \<times> ledger" where
  "pin_identity io pin at s =
     (if ip_alias pin = [] \<or> ip_origin pin = [] \<or> ip_device pin = [] then (Inl [ErrIdentityConflict], s)
      else case first_fault io [IoBeginTx, IoExec, IoRowsAffected] of Some e \<Rightarrow> (Inl e, s)
      | None \<Rightarrow>
          let ms = toMillis (normalizeTime at);
              taken = list_ex (\<lambda>r. ir_alias r = ip_alias pin \<or> ir_origin r = ip_origin pin \<or>
                 ir_device r = ip_device pin) (lg_pins s);
              s1 = (if taken then s
                else s\<lparr>lg_pins := lg_pins s @ [\<lparr>ir_alias = ip_alias pin, ir_origin = ip_origin pin,
                  ir_device = ip_device pin, ir_created = ms, ir_updated = ms\<rparr>]\<rparr>)
          in case io IoSelect of Some e \<Rightarrow> (Inl [ErrSql e], s)
             | None \<Rightarrow> (case scanIdentity (ip_alias pin) s1 of
                 Inl e \<Rightarrow> (if errors_is e ErrIdentityNotFound then (Inl [ErrIdentityConflict], s) else (Inl e, s))
               | Inr stored \<Rightarrow>
                   if ip_origin stored \<noteq> ip_origin pin \<or> ip_device stored \<noteq> ip_device pin
                   then (Inl [ErrIdentityConflict], s)
                   else (case io IoCommit of Some e \<Rightarrow> (Inl [ErrSql e], s)
                       | None \<Rightarrow> (Inr (stored, taken), s1))))"

definition verify_identity ::
  "faults \<Rightarrow> string \<Rightarrow> string \<Rightarrow> device_id \<Rightarrow> ledger \<Rightarrow> op_errors + identity_pin" where
  "verify_identity io alias_name origin observed s =
     (case io IoSelect of Some e \<Rightarrow> Inl [ErrSql e]
      | None \<Rightarrow> (case scanIdentity alias_name s of Inl e \<Rightarrow> Inl e
          | Inr pin \<Rightarrow> if ip_origin pin \<noteq> origin \<or> ip_device pin \<noteq> observed
              then Inl [ErrDeviceIdentityMismatch] else Inr pin))"

section \<open>Operations\<close>

definition new_row :: "request \<Rightarrow> time \<Rightarrow> op_row" where
  "new_row q at =
     \<lparr>or_id = rq_id q, or_digest = rq_digest q, or_device = rq_device q,
      or_generation = uint (rq_generation q), or_effect = rq_effect q, or_action = rq_action q,
      or_revision = rq_revision q, or_stage = StageNotSent, or_delivery = DeliveryNotSent,
      or_status = VerificationNotRequested, or_observation = None, or_claim = TerminalClaimNotProven,
      or_retry_safe = True, or_error_kind = None, or_created = toMillis at, or_updated = toMillis at,
      or_send_started = None, or_terminal = None\<rparr>"

definition ledger_begin ::
  "faults \<Rightarrow> request \<Rightarrow> time \<Rightarrow> ledger \<Rightarrow> (op_errors + receipt \<times> bool) \<times> ledger" where
  "ledger_begin io q at s =
     (case validate_request q of Some e \<Rightarrow> (Inl e, s)
      | None \<Rightarrow>
          let row = new_row q (normalizeTime at);
              existing = find_row (rq_id q) s \<noteq> None;
              s1 = (if existing then s else s\<lparr>lg_rows := lg_rows s @ [row]\<rparr>)
          in case first_fault io [IoBeginTx, IoExec] of Some e \<Rightarrow> (Inl e, s)
          | None \<Rightarrow>
              if \<not> existing \<and> \<not> check_row row then (Inl [ErrConstraint], s)
              else (case io IoRowsAffected of Some e \<Rightarrow> (Inl [ErrSql e], s)
              | None \<Rightarrow> (case getOperationRow io (rq_id q) s1 of Inl e \<Rightarrow> (Inl e, s)
                  | Inr receipt \<Rightarrow>
                      if rq_digest (rc_request receipt) \<noteq> rq_digest q then (Inl [ErrConflict], s)
                      else (case io IoCommit of Some e \<Rightarrow> (Inl [ErrSql e], s)
                          | None \<Rightarrow> (Inr (receipt, existing), s1)))))"

definition patched_row :: "receipt \<Rightarrow> stage \<Rightarrow> patch \<Rightarrow> time \<Rightarrow> op_row \<Rightarrow> op_row" where
  "patched_row cur dst p at r = r\<lparr>or_stage := dst, or_delivery := pt_delivery p,
     or_status := vf_status (pt_verification p),
     or_observation := nullableString (vf_observation (pt_verification p)),
     or_claim := pt_claim p, or_retry_safe := pt_retry_safe p, or_error_kind := nullableString (pt_error_kind p),
     or_updated := toMillis at,
     or_send_started := (if dst = StageSendStarted then Some (toMillis at) else nullableMillis (rc_send_started cur)),
     or_terminal := (if stage_terminal dst then Some (toMillis at) else None)\<rparr>"

text \<open>\<open>UPDATE ... WHERE operation_id = i AND stage = src\<close>, with the number of rows affected.\<close>

definition update_rows ::
  "uuid \<Rightarrow> stage \<Rightarrow> (op_row \<Rightarrow> op_row) \<Rightarrow> ledger \<Rightarrow> op_errors + (nat \<times> ledger)" where
  "update_rows i src f s =
     (let hit = (\<lambda>r. or_id r = i \<and> or_stage r = src)
      in if list_all (\<lambda>r. hit r \<longrightarrow> check_row (f r)) (lg_rows s)
         then Inr (length (filter hit (lg_rows s)),
                s\<lparr>lg_rows := map (\<lambda>r. if hit r then f r else r) (lg_rows s)\<rparr>)
         else Inl [ErrConstraint])"

definition transition_tx ::
  "faults \<Rightarrow> uuid \<Rightarrow> stage \<Rightarrow> patch \<Rightarrow> time \<Rightarrow> ledger \<Rightarrow> (op_errors + receipt) \<times> ledger" where
  "transition_tx io i dst p at s =
     (case io IoBeginTx of Some e \<Rightarrow> (Inl [ErrSql e], s)
      | None \<Rightarrow> (case getOperationRow io i s of Inl e \<Rightarrow> (Inl e, s)
      | Inr cur \<Rightarrow> (case validate_patch (rc_stage cur) dst p of Some e \<Rightarrow> (Inl e, s)
      | None \<Rightarrow> (case io IoExec of Some e \<Rightarrow> (Inl [ErrSql e], s)
      | None \<Rightarrow> (case update_rows i (rc_stage cur) (patched_row cur dst p (normalizeTime at)) s of Inl e \<Rightarrow> (Inl e, s)
      | Inr (rows, s1) \<Rightarrow> (case io IoRowsAffected of Some e \<Rightarrow> (Inl [ErrSql e], s)
      | None \<Rightarrow> if rows \<noteq> 1 then (Inl [ErrInvalidTransition], s)
      else (case io IoWriteSignals of Some e \<Rightarrow> (Inl [ErrSql e], s)
      | None \<Rightarrow> (case replaceStrings i (vf_signals (pt_verification p)) (lg_signals s1) of Inl e \<Rightarrow> (Inl e, s)
      | Inr signals \<Rightarrow> (case io IoWriteWarnings of Some e \<Rightarrow> (Inl [ErrSql e], s)
      | None \<Rightarrow> (case replaceStrings i (pt_warnings p) (lg_warnings s1) of Inl e \<Rightarrow> (Inl e, s)
      | Inr warnings \<Rightarrow>
          let s2 = s1\<lparr>lg_signals := signals, lg_warnings := warnings\<rparr>
          in case io IoReselect of Some e \<Rightarrow> (Inl [ErrSql e], s)
      | None \<Rightarrow> (case getOperationRow io i s2 of Inl e \<Rightarrow> (Inl e, s)
      | Inr receipt \<Rightarrow> (case io IoCommit of Some e \<Rightarrow> (Inl [ErrSql e], s)
      | None \<Rightarrow> (Inr receipt, s2)))))))))))))"

definition release_owner :: "faults \<Rightarrow> proc \<Rightarrow> uuid \<Rightarrow> ledger \<Rightarrow> ledger" where
  "release_owner io p i s =
     (if (i, p) \<in> set (lg_owners s)
      then s\<lparr>lg_locks := (if io IoUnlock = None then removeAll (i, p) (lg_locks s) else lg_locks s),
             lg_owners := removeAll (i, p) (lg_owners s)\<rparr>
      else s)"

definition ledger_transition ::
  "proc \<Rightarrow> faults \<Rightarrow> uuid \<Rightarrow> stage \<Rightarrow> patch \<Rightarrow> time \<Rightarrow> ledger \<Rightarrow> (op_errors + receipt) \<times> ledger" where
  "ledger_transition p io i dst pt at s =
     (case (if dst = StageSendStarted \<and> (i, p) \<notin> set (lg_owners s)
            then (case io IoTryLock of Some e \<Rightarrow> Inl [ErrSql e]
               | None \<Rightarrow> if i \<in> fst ` set (lg_locks s) then Inl [ErrInvalidTransition]
                   else Inr (True, s\<lparr>lg_locks := (i, p) # lg_locks s, lg_owners := (i, p) # lg_owners s\<rparr>))
            else Inr (False, s)) of
        Inl e \<Rightarrow> (Inl e, s)
      | Inr (acquired, s0) \<Rightarrow>
          let (res, s1) = transition_tx io i dst pt at s0;
              committed = (case res of Inl _ \<Rightarrow> False | Inr _ \<Rightarrow> True)
          in if (acquired \<and> \<not> committed) \<or>
                (committed \<and> dst \<in> {StageCompleted, StageFailed, StageCancelled, StageAmbiguous})
             then (res, release_owner io p i s1)
             else (res, s1))"

definition interrupted_row :: "time \<Rightarrow> op_row \<Rightarrow> op_row" where
  "interrupted_row at r = r\<lparr>or_stage := StageAmbiguous, or_delivery := DeliveryPossiblySent,
     or_status := VerificationNotObserved, or_claim := TerminalClaimNotProven, or_retry_safe := False,
     or_error_kind := Some ''process_interrupted_after_send_started'', or_updated := toMillis at,
     or_terminal := Some (toMillis at)\<rparr>"

definition recover_one :: "proc \<Rightarrow> faults \<Rightarrow> uuid \<Rightarrow> time \<Rightarrow> ledger \<Rightarrow> (op_errors + nat) \<times> ledger" where
  "recover_one p io i at s =
     (case io IoTryLock of Some e \<Rightarrow> (Inl [ErrSql e], s)
      | None \<Rightarrow>
          if i \<in> fst ` set (lg_locks s) then (Inr 0, s)
          else
            let (updateErr, count, s1) =
                  (case io IoExec of Some e \<Rightarrow> (Some [ErrSql e], 0, s)
                   | None \<Rightarrow> (case update_rows i StageSendStarted (interrupted_row at) s of
                        Inl e \<Rightarrow> (Some e, 0, s) | Inr (n, s') \<Rightarrow> (None, n, s')));
                unlockErr = map_option (\<lambda>e. [ErrSql e]) (io IoUnlock);
                s2 = (if unlockErr = None then s1 else s1\<lparr>lg_locks := (i, p) # lg_locks s1\<rparr>)
            in case errors_join updateErr unlockErr of Some e \<Rightarrow> (Inl e, s2)
               | None \<Rightarrow> (case io IoRowsAffected of Some e \<Rightarrow> (Inl [ErrSql e], s2) | None \<Rightarrow> (Inr count, s2)))"

fun recover_loop ::
  "proc \<Rightarrow> (uuid \<Rightarrow> faults) \<Rightarrow> time \<Rightarrow> uuid list \<Rightarrow> nat \<Rightarrow> ledger \<Rightarrow> (nat \<times> op_errors option) \<times> ledger" where
  "recover_loop p io at [] recovered s = ((recovered, None), s)"
| "recover_loop p io at (i # is') recovered s =
     (case recover_one p (io i) i at s of
        (Inl e, s') \<Rightarrow> ((recovered, Some e), s')
      | (Inr n, s') \<Rightarrow> recover_loop p io at is' (recovered + n) s')"

definition recover_interrupted ::
  "proc \<Rightarrow> faults \<Rightarrow> (uuid \<Rightarrow> faults) \<Rightarrow> time \<Rightarrow> ledger \<Rightarrow> (nat \<times> op_errors option) \<times> ledger" where
  "recover_interrupted p scan io at s =
     (case scan IoSelect of Some e \<Rightarrow> ((0, Some [ErrSql e]), s)
      | None \<Rightarrow> recover_loop p io at
          (map or_id (filter (\<lambda>r. or_stage r = StageSendStarted) (lg_rows s))) 0 s)"

definition purge_terminal_before :: "faults \<Rightarrow> time \<Rightarrow> ledger \<Rightarrow> (op_errors + nat) \<times> ledger" where
  "purge_terminal_before io cutoff s =
     (case io IoExec of Some e \<Rightarrow> (Inl [ErrSql e], s)
      | None \<Rightarrow>
          let old = (\<lambda>r. case or_terminal r of None \<Rightarrow> False | Some t \<Rightarrow> t < toMillis cutoff);
              gone = map or_id (filter old (lg_rows s));
              s1 = s\<lparr>lg_rows := filter (\<lambda>r. \<not> old r) (lg_rows s),
                     lg_signals := filter (\<lambda>(i, _). i \<notin> set gone) (lg_signals s),
                     lg_warnings := filter (\<lambda>(i, _). i \<notin> set gone) (lg_warnings s)\<rparr>
          in (case io IoRowsAffected of Some e \<Rightarrow> Inl [ErrSql e] | None \<Rightarrow> Inr (length gone), s1))"

definition store_open ::
  "proc \<Rightarrow> faults \<Rightarrow> (uuid \<Rightarrow> faults) \<Rightarrow> time \<Rightarrow> ledger \<Rightarrow> op_errors option \<times> ledger" where
  "store_open p scan io at s =
     (let ((_, err), s1) = recover_interrupted p scan io at s in (err, s1))"

definition store_close :: "proc \<Rightarrow> faults \<Rightarrow> ledger \<Rightarrow> ledger" where
  "store_close p io s =
     s\<lparr>lg_locks := (if io IoUnlock = None then filter (\<lambda>(i, q). q \<noteq> p \<or> (i, q) \<notin> set (lg_owners s)) (lg_locks s) else lg_locks s),
       lg_owners := filter (\<lambda>(_, q). q \<noteq> p) (lg_owners s)\<rparr>"

text \<open>A process that dies loses its locks and its memory.\<close>

definition crash :: "proc \<Rightarrow> ledger \<Rightarrow> ledger" where
  "crash p s = s\<lparr>lg_locks := filter (\<lambda>(_, q). q \<noteq> p) (lg_locks s),
                lg_owners := filter (\<lambda>(_, q). q \<noteq> p) (lg_owners s)\<rparr>"

section \<open>The service\<close>

text \<open>\<open>operation/service.go\<close>: the repository's methods at the clock's time.\<close>

definition mark_send_started :: "proc \<Rightarrow> faults \<Rightarrow> uuid \<Rightarrow> time \<Rightarrow> ledger \<Rightarrow> (op_errors + receipt) \<times> ledger" where
  "mark_send_started p io i at s = ledger_transition p io i StageSendStarted
     \<lparr>pt_delivery = DeliveryPossiblySent,
      pt_verification = \<lparr>vf_status = VerificationNotRequested, vf_signals = [], vf_observation = []\<rparr>,
      pt_claim = TerminalClaimNotProven, pt_retry_safe = False, pt_error_kind = [], pt_warnings = []\<rparr> at s"

definition purge_retained_receipts :: "faults \<Rightarrow> duration \<Rightarrow> time \<Rightarrow> ledger \<Rightarrow> (op_errors + nat) \<times> ledger" where
  "purge_retained_receipts io retention at s =
     (if retention \<le> 0 then (Inl [ErrInvalidRequest], s)
      else purge_terminal_before io (at + i64 (- retention)) s)"

section \<open>Runs\<close>

text \<open>
  The calls of any number of processes on one store, in the order their transactions take effect.
\<close>

datatype ledger_op =
    OpPin faults identity_pin time
  | OpBegin faults request time
  | OpTransition proc faults uuid stage patch time
  | OpRecoverOne proc faults uuid time
  | OpPurge faults time
  | OpClose proc faults
  | OpCrash proc

definition ledger_step :: "ledger \<Rightarrow> ledger_op \<Rightarrow> ledger" where
  "ledger_step s c = (case c of
       OpPin io pin at \<Rightarrow> snd (pin_identity io pin at s)
     | OpBegin io q at \<Rightarrow> snd (ledger_begin io q at s)
     | OpTransition p io i dst pt at \<Rightarrow> snd (ledger_transition p io i dst pt at s)
     | OpRecoverOne p io i at \<Rightarrow> snd (recover_one p io i at s)
     | OpPurge io cutoff \<Rightarrow> snd (purge_terminal_before io cutoff s)
     | OpClose p io \<Rightarrow> store_close p io s
     | OpCrash p \<Rightarrow> crash p s)"

definition not_purge :: "ledger_op \<Rightarrow> bool" where
  "not_purge c = (case c of OpPurge _ _ \<Rightarrow> False | _ \<Rightarrow> True)"

section \<open>Invariant\<close>

text \<open>What a row's stage says about delivery and retry, beyond the schema's CHECK constraints.\<close>

definition row_coherent :: "op_row \<Rightarrow> bool" where
  "row_coherent r \<longleftrightarrow>
     (or_retry_safe r \<longleftrightarrow> or_delivery r = DeliveryNotSent) \<and>
     (or_retry_safe r \<longrightarrow> or_send_started r = None \<and> or_stage r \<in> {StageNotSent, StageFailed, StageCancelled}) \<and>
     (or_stage r \<in> {StageNotSent, StageCancelled} \<longrightarrow> or_retry_safe r) \<and>
     (or_stage r \<in> {StageSendStarted, StageAmbiguous} \<longrightarrow> or_delivery r = DeliveryPossiblySent) \<and>
     (or_stage r \<in> accepted_stages \<longrightarrow> or_delivery r = DeliveryTransportAccepted)"

definition table_ok :: "op_row list \<Rightarrow> string_table \<Rightarrow> bool" where
  "table_ok rows t \<longleftrightarrow>
     list_all (\<lambda>(i, _, v). i \<in> or_id ` set rows \<and> v \<noteq> []) t \<and> distinct (map (\<lambda>(i, k, _). (i, k)) t)"

definition pins_ok :: "identity_row list \<Rightarrow> bool" where
  "pins_ok ps \<longleftrightarrow> list_all check_identity ps \<and> distinct (map ir_alias ps) \<and> distinct (map ir_origin ps) \<and>
     distinct (map ir_device ps)"

definition locks_ok :: "ledger \<Rightarrow> bool" where
  "locks_ok s \<longleftrightarrow> distinct (map fst (lg_locks s)) \<and> set (lg_owners s) \<subseteq> set (lg_locks s)"

definition ledger_inv :: "ledger \<Rightarrow> bool" where
  "ledger_inv s \<longleftrightarrow>
     distinct (map or_id (lg_rows s)) \<and> list_all (\<lambda>r. check_row r \<and> row_coherent r) (lg_rows s) \<and>
     table_ok (lg_rows s) (lg_signals s) \<and> table_ok (lg_rows s) (lg_warnings s) \<and>
     pins_ok (lg_pins s) \<and> locks_ok s"

definition empty_ledger :: ledger where
  "empty_ledger = \<lparr>lg_pins = [], lg_rows = [], lg_signals = [], lg_warnings = [], lg_locks = [], lg_owners = []\<rparr>"

lemma empty_ledger_inv: "ledger_inv empty_ledger"
  by (simp add: ledger_inv_def empty_ledger_def table_ok_def pins_ok_def locks_ok_def)

section \<open>Times and strings\<close>

lemma normalizeTime_idem [simp]: "normalizeTime (normalizeTime t) = normalizeTime t"
  by (simp add: normalizeTime_def)

lemma toMillis_normalizeTime [simp]: "toMillis (normalizeTime t) = toMillis t"
  by (simp add: toMillis_def)

lemma toMillis_eq: "toMillis t = t div nanos_per_milli - unix_epoch_ms"
  by (simp add: toMillis_def normalizeTime_def)

lemma toMillis_fromMillis [simp]: "toMillis (fromMillis m) = m"
  by (simp add: toMillis_eq fromMillis_def)

lemma fromMillis_toMillis: "fromMillis (toMillis t) = normalizeTime t"
  by (simp add: toMillis_eq fromMillis_def normalizeTime_def)

lemma toMillis_mono: "s \<le> t \<Longrightarrow> toMillis s \<le> toMillis t"
  by (simp add: toMillis_eq zdiv_mono1)

lemma stringFromNullable_nullableString [simp]: "stringFromNullable (nullableString v) = v"
  by (simp add: stringFromNullable_def nullableString_def)

lemma first_fault_None: "first_fault io cs = None \<longleftrightarrow> list_all (\<lambda>c. io c = None) cs"
  by (induction cs) (auto split: option.splits)

text \<open>\<open>replaceStrings\<close> and \<open>readStrings\<close> round trip and leave every other operation's strings.\<close>

lemma readStrings_replaced:
  assumes "replaceStrings i vs t = Inr t'"
  shows "readStrings j t' = (if j = i then vs else readStrings j t)"
proof -
  have t': "t' = filter (\<lambda>(j, _). j \<noteq> i) t @ map (\<lambda>(k, v). (i, k, v)) (enumerate 0 vs)"
    using assms by (auto simp: replaceStrings_def split: if_splits)
  show ?thesis
  proof (cases "j = i")
    case True
    have "filter (\<lambda>(j, _). j = i) t' = map (\<lambda>(k, v). (i, k, v)) (enumerate 0 vs)"
      by (auto simp: t' case_prod_unfold filter_empty_conv comp_def)
    moreover have "sort_key (\<lambda>(_, k, _). k) (map (\<lambda>(k, v). (i, k, v)) (enumerate 0 vs)) =
        map (\<lambda>(k, v). (i, k, v)) (enumerate 0 vs)"
      by (rule sort_key_id_if_sorted) (simp add: comp_def case_prod_unfold sorted_enumerate)
    moreover have "map (\<lambda>(_, _, v). v) (map (\<lambda>(k, v). (i, k, v)) (enumerate 0 vs)) = map snd (enumerate 0 vs)"
      unfolding map_map comp_def by (rule map_cong) auto
    ultimately show ?thesis using True by (simp add: readStrings_def del: map_map)
  next
    case False
    then have "filter (\<lambda>(k, _). k = j) t' = filter (\<lambda>(k, _). k = j) t"
      by (auto simp: t' case_prod_unfold filter_empty_conv intro!: filter_cong)
    with False show ?thesis by (simp add: readStrings_def)
  qed
qed

lemma table_ok_replaced:
  assumes "table_ok rows t" "replaceStrings i vs t = Inr t'" "i \<in> or_id ` set rows"
  shows "table_ok rows t'"
proof -
  have t': "t' = filter (\<lambda>(j, _). j \<noteq> i) t @ map (\<lambda>(k, v). (i, k, v)) (enumerate 0 vs)" "[] \<notin> set vs"
    using assms(2) by (auto simp: replaceStrings_def split: if_splits)
  have "distinct (map (\<lambda>(i, k, _). (i, k)) (filter (\<lambda>(j, _). j \<noteq> i) t))"
    using assms(1) by (auto simp: table_ok_def distinct_map_filter)
  moreover have "map (\<lambda>(i, k, _). (i, k)) (map (\<lambda>(k, v). (i, k, v)) (enumerate 0 vs)) = map (Pair i) (map fst (enumerate 0 vs))"
    unfolding map_map comp_def by (rule map_cong) auto
  moreover have "distinct (map (Pair i) (map fst (enumerate 0 vs)))"
    by (subst distinct_map) (simp add: inj_on_def del: map_map)
  moreover have "(x, y, z) \<in> set (map (\<lambda>(k, v). (i, k, v)) (enumerate 0 vs)) \<Longrightarrow> x = i \<and> z \<in> set vs" for x y z
    by (auto simp: in_set_enumerate_eq)
  ultimately show ?thesis
    using assms(1,3) t'(2) unfolding table_ok_def t'(1)
    by (auto simp: list_all_iff simp del: map_map)
qed

section \<open>Effects of the calls\<close>

lemma find_row_Some: "find_row i s = Some r \<Longrightarrow> r \<in> set (lg_rows s) \<and> or_id r = i"
  by (auto simp: find_row_def find_Some_iff)

lemma find_row_mem:
  "distinct (map or_id (lg_rows s)) \<Longrightarrow> find_row i s = Some r \<longleftrightarrow> r \<in> set (lg_rows s) \<and> or_id r = i"
  by (auto simp: find_row_def find_Some_iff2 find_Some_iff in_set_conv_nth distinct_conv_nth)

lemma find_row_None: "find_row i s = None \<longleftrightarrow> i \<notin> or_id ` set (lg_rows s)"
  by (auto simp: find_row_def find_None_iff)

lemma find_row_frame [simp]:
  "find_row i (s\<lparr>lg_signals := sg\<rparr>) = find_row i s" "find_row i (s\<lparr>lg_warnings := sg\<rparr>) = find_row i s"
  "find_row i (s\<lparr>lg_locks := ls\<rparr>) = find_row i s" "find_row i (s\<lparr>lg_owners := ls\<rparr>) = find_row i s"
  "find_row i (s\<lparr>lg_pins := ps\<rparr>) = find_row i s"
  by (simp_all add: find_row_def)

definition set_row :: "op_row \<Rightarrow> ledger \<Rightarrow> ledger" where
  "set_row r s = s\<lparr>lg_rows := map (\<lambda>x. if or_id x = or_id r then r else x) (lg_rows s)\<rparr>"

lemma set_row_simps [simp]:
  "lg_pins (set_row r s) = lg_pins s" "lg_signals (set_row r s) = lg_signals s"
  "lg_warnings (set_row r s) = lg_warnings s" "lg_locks (set_row r s) = lg_locks s"
  "lg_owners (set_row r s) = lg_owners s"
  "map or_id (lg_rows (set_row r s)) = map or_id (lg_rows s)"
  by (simp_all add: set_row_def)

lemma set_row_ids [simp]: "or_id ` set (lg_rows (set_row r s)) = or_id ` set (lg_rows s)"
  by (metis set_row_simps(6) set_map)

lemma find_set_row:
  "find_row i (set_row r s) = (if i = or_id r then map_option (\<lambda>_. r) (find_row i s) else find_row i s)"
proof -
  have "find (\<lambda>x. or_id x = i) (map (\<lambda>x. if or_id x = or_id r then r else x) xs) =
      (if i = or_id r then map_option (\<lambda>_. r) (find (\<lambda>x. or_id x = i) xs) else find (\<lambda>x. or_id x = i) xs)" for xs
    by (induction xs) auto
  then show ?thesis by (simp add: find_row_def set_row_def)
qed

lemma update_rows_hit:
  assumes "distinct (map or_id (lg_rows s))" "find_row i s = Some r" "or_stage r = src" "or_id (f r) = i"
  shows "update_rows i src f s = (if check_row (f r) then Inr (1, set_row (f r) s) else Inl [ErrConstraint])"
proof -
  have r: "r \<in> set (lg_rows s)" "or_id r = i" using find_row_Some [OF assms(2)] by auto
  have same: "or_id x = or_id r \<longleftrightarrow> x = r" if "x \<in> set (lg_rows s)" for x
    using that r assms(1,3) by (auto dest: inj_onD [OF conjunct2 [OF iffD1 [OF distinct_map]]])
  then have hit: "or_id x = i \<and> or_stage x = src \<longleftrightarrow> x = r" if "x \<in> set (lg_rows s)" for x
    using that r assms(3) by auto
  have "filter (\<lambda>x. or_id x = i \<and> or_stage x = src) (lg_rows s) = filter (\<lambda>x. x = r) (lg_rows s)"
    using hit by (intro filter_cong) auto
  moreover have "length (filter (\<lambda>x. x = r) (lg_rows s)) = 1"
    using r(1) distinct_map [of or_id "lg_rows s"] assms(1) by (simp add: distinct_length_filter)
  moreover have "map (\<lambda>x. if or_id x = i \<and> or_stage x = src then f x else x) (lg_rows s) =
      map (\<lambda>x. if or_id x = or_id (f r) then f r else x) (lg_rows s)"
    using hit same r assms(4) by (intro map_cong) auto
  moreover have "list_all (\<lambda>x. or_id x = i \<and> or_stage x = src \<longrightarrow> check_row (f x)) (lg_rows s) \<longleftrightarrow> check_row (f r)"
    using hit r by (auto simp: list_all_iff)
  ultimately show ?thesis by (simp add: update_rows_def Let_def set_row_def)
qed

lemma update_rows_miss:
  assumes "\<And>r. r \<in> set (lg_rows s) \<Longrightarrow> or_id r = i \<Longrightarrow> or_stage r \<noteq> src"
  shows "update_rows i src f s = Inr (0, s)"
proof -
  have "filter (\<lambda>x. or_id x = i \<and> or_stage x = src) (lg_rows s) = []"
    using assms by (auto simp: filter_empty_conv)
  moreover have "map (\<lambda>x. if or_id x = i \<and> or_stage x = src then f x else x) (lg_rows s) = lg_rows s"
    using assms by (intro map_idI) auto
  ultimately show ?thesis using assms by (auto simp: update_rows_def Let_def list_all_iff)
qed

lemma getOperationRow_Inr:
  "getOperationRow io i s = Inr q \<longleftrightarrow>
     list_all (\<lambda>c. io c = None) [IoSelect, IoReadSignals, IoReadWarnings] \<and>
     (\<exists>r. find_row i s = Some r \<and> q = row_receipt s r)"
  by (auto simp: getOperationRow_def first_fault_None [symmetric] split: option.splits)

lemma row_receipt_stage [simp]:
  "rc_stage (row_receipt s r) = or_stage r" "rc_send_started (row_receipt s r) = timeFromNullableMillis (or_send_started r)"
  "rq_digest (rc_request (row_receipt s r)) = or_digest r" "rc_delivery (row_receipt s r) = or_delivery r"
  "rc_retry_safe (row_receipt s r) = or_retry_safe r"
  by (simp_all add: row_receipt_def)

lemma patched_row_id [simp]: "or_id (patched_row cur dst p at r) = or_id r"
  by (simp add: patched_row_def)

definition tx_faults :: "io_call list" where
  "tx_faults = [IoBeginTx, IoExec, IoRowsAffected, IoSelect, IoReadSignals, IoReadWarnings,
     IoWriteSignals, IoWriteWarnings, IoReselect, IoCommit]"

text \<open>A transition that commits, and what is in its way otherwise.\<close>

lemma transition_tx_Inr:
  assumes "distinct (map or_id (lg_rows s))" "transition_tx io i dst p at s = (Inr q, s')"
  obtains r r' sg wn where "find_row i s = Some r" "validate_patch (or_stage r) dst p = None"
    "r' = patched_row (row_receipt s r) dst p (normalizeTime at) r" "check_row r'"
    "replaceStrings i (vf_signals (pt_verification p)) (lg_signals s) = Inr sg"
    "replaceStrings i (pt_warnings p) (lg_warnings s) = Inr wn"
    "s' = (set_row r' s)\<lparr>lg_signals := sg, lg_warnings := wn\<rparr>" "q = row_receipt s' r'"
    "list_all (\<lambda>c. io c = None) tx_faults"
proof -
  obtain cur where cur: "getOperationRow io i s = Inr cur"
    using assms(2) by (simp add: transition_tx_def split: option.splits sum.splits)
  then obtain r where r: "find_row i s = Some r" "cur = row_receipt s r" by (auto simp: getOperationRow_Inr)
  define r' where "r' = patched_row (row_receipt s r) dst p (normalizeTime at) r"
  have i: "or_id r = i" using find_row_Some [OF r(1)] by simp
  then have upd: "update_rows i (rc_stage cur) (patched_row cur dst p (normalizeTime at)) s =
      (if check_row r' then Inr (1, set_row r' s) else Inl [ErrConstraint])"
    using update_rows_hit [OF assms(1) r(1), of "or_stage r" "patched_row cur dst p (normalizeTime at)"]
    by (simp add: r r'_def)
  from assms(2) cur upd have ok: "io IoBeginTx = None" "validate_patch (or_stage r) dst p = None" "io IoExec = None"
      "check_row r'" "io IoRowsAffected = None" "io IoWriteSignals = None" "io IoWriteWarnings = None"
      "io IoReselect = None" "io IoCommit = None"
    by (auto simp: transition_tx_def r Let_def split: option.splits sum.splits if_splits prod.splits)
  with assms(2) cur upd obtain sg wn where sw:
      "replaceStrings i (vf_signals (pt_verification p)) (lg_signals s) = Inr sg"
      "replaceStrings i (pt_warnings p) (lg_warnings s) = Inr wn"
    by (auto simp: transition_tx_def r Let_def split: sum.splits)
  have "find_row i ((set_row r' s)\<lparr>lg_signals := sg, lg_warnings := wn\<rparr>) = Some r'"
    using r i by (simp add: find_set_row r'_def)
  with assms(2) cur upd ok sw have "s' = (set_row r' s)\<lparr>lg_signals := sg, lg_warnings := wn\<rparr>" "q = row_receipt s' r'"
    by (auto simp: transition_tx_def r Let_def getOperationRow_Inr split: sum.splits)
  with that [OF r(1) ok(2) r'_def ok(4) sw] ok cur show thesis
    by (simp add: tx_faults_def getOperationRow_Inr)
qed

lemma transition_tx_Inl: "transition_tx io i dst p at s = (Inl e, s') \<Longrightarrow> s' = s"
  by (auto simp: transition_tx_def Let_def split: option.splits sum.splits if_splits)

text \<open>What a committed call may do to the rows.\<close>

definition same_identity :: "op_row \<Rightarrow> op_row \<Rightarrow> bool" where
  "same_identity r r' \<longleftrightarrow> or_id r' = or_id r \<and> or_digest r' = or_digest r \<and> or_device r' = or_device r \<and>
     or_generation r' = or_generation r \<and> or_effect r' = or_effect r \<and> or_action r' = or_action r \<and>
     or_revision r' = or_revision r \<and> or_created r' = or_created r"

definition row_moves :: "op_row \<Rightarrow> op_row \<Rightarrow> bool" where
  "row_moves r r' \<longleftrightarrow> same_identity r r' \<and> (or_retry_safe r' \<longrightarrow> or_retry_safe r) \<and>
     (r' = r \<or> validate_transition (or_stage r) (or_stage r') = None)"

lemma row_moves_refl [simp]: "row_moves r r"
  by (simp add: row_moves_def same_identity_def)

lemma patched_row_ok:
  assumes "check_row r" "row_coherent r" "validate_patch (or_stage r) dst p = None"
    "r' = patched_row (row_receipt s r) dst p at r"
  shows "row_moves r r' \<and> row_coherent r'"
proof -
  have vt: "validate_transition (or_stage r) dst = None" using assms(3) by (rule validate_patch_transition)
  note honest = validate_patch_delivery [OF assms(3)]
  have sent: "or_stage r = StageNotSent \<Longrightarrow> or_send_started r = None" using assms(1) by (auto simp: check_row_def)
  have "row_moves r r'"
    using vt honest assms(2)
    by (auto simp: assms(4) row_moves_def same_identity_def patched_row_def row_coherent_def accepted_stages_def validate_transition_None)
  moreover have "row_coherent r'"
    using vt honest sent
    by (auto simp: assms(4) row_coherent_def patched_row_def accepted_stages_def validate_transition_None
        timeFromNullableMillis_def nullableMillis_def)
  ultimately show ?thesis by blast
qed

lemma interrupted_row_ok:
  assumes "or_stage r = StageSendStarted"
  shows "row_moves r (interrupted_row at r) \<and> row_coherent (interrupted_row at r)"
  using assms
  by (simp add: row_moves_def same_identity_def interrupted_row_def row_coherent_def accepted_stages_def
      validate_transition_None)

lemma table_ok_ids: "or_id ` set rows = or_id ` set rows' \<Longrightarrow> table_ok rows t = table_ok rows' t"
  by (simp add: table_ok_def)

lemma ledger_inv_set_row:
  assumes "ledger_inv s" "check_row r" "row_coherent r"
  shows "ledger_inv (set_row r s)"
proof -
  have "list_all (\<lambda>x. check_row x \<and> row_coherent x) (lg_rows (set_row r s))"
    using assms by (auto simp: ledger_inv_def set_row_def list_all_iff)
  moreover have "table_ok (lg_rows (set_row r s)) t = table_ok (lg_rows s) t" for t
    by (rule table_ok_ids) simp
  ultimately show ?thesis using assms(1)
    by (simp add: ledger_inv_def locks_ok_def)
qed

lemma transition_tx_ok:
  assumes "ledger_inv s"
  shows "ledger_inv (snd (transition_tx io i dst p at s))" (is ?inv)
    and "find_row j s = Some r \<Longrightarrow>
      \<exists>r'. find_row j (snd (transition_tx io i dst p at s)) = Some r' \<and> row_moves r r' \<and> (j \<noteq> i \<longrightarrow> r' = r)"
    and "lg_locks (snd (transition_tx io i dst p at s)) = lg_locks s"
    and "lg_owners (snd (transition_tx io i dst p at s)) = lg_owners s"
proof -
  have dist: "distinct (map or_id (lg_rows s))" using assms by (simp add: ledger_inv_def)
  have "ledger_inv s' \<and> (\<forall>j r. find_row j s = Some r \<longrightarrow> (\<exists>r'. find_row j s' = Some r' \<and> row_moves r r' \<and> (j \<noteq> i \<longrightarrow> r' = r))) \<and>
      lg_locks s' = lg_locks s \<and> lg_owners s' = lg_owners s" if tx: "transition_tx io i dst p at s = (res, s')" for res s'
  proof (cases res)
    case (Inl e)
    then show ?thesis using transition_tx_Inl [OF tx [unfolded Inl]] assms by auto
  next
    case (Inr q)
    obtain r r' sg wn where *: "find_row i s = Some r" "validate_patch (or_stage r) dst p = None"
      "r' = patched_row (row_receipt s r) dst p (normalizeTime at) r" "check_row r'"
      "replaceStrings i (vf_signals (pt_verification p)) (lg_signals s) = Inr sg"
      "replaceStrings i (pt_warnings p) (lg_warnings s) = Inr wn"
      "s' = (set_row r' s)\<lparr>lg_signals := sg, lg_warnings := wn\<rparr>"
      using transition_tx_Inr [OF dist tx [unfolded Inr]] by metis
    have r: "r \<in> set (lg_rows s)" "or_id r = i" "check_row r" "row_coherent r"
      using find_row_Some [OF *(1)] assms by (auto simp: ledger_inv_def list_all_iff)
    have ok: "row_moves r r'" "row_coherent r'" using patched_row_ok [OF r(3,4) *(2,3)] by auto
    have "ledger_inv (set_row r' s)" using assms *(4) ok(2) by (rule ledger_inv_set_row)
    moreover have "table_ok (lg_rows (set_row r' s)) sg" "table_ok (lg_rows (set_row r' s)) wn"
      using assms r table_ok_replaced [OF _ *(5)] table_ok_replaced [OF _ *(6)]
      by (auto simp: ledger_inv_def table_ok_ids [of "lg_rows (set_row r' s)" "lg_rows s"])
    ultimately have "ledger_inv s'" by (simp add: ledger_inv_def locks_ok_def *(7))
    moreover have "or_id r' = i" using *(3) r by simp
    ultimately show ?thesis using * (1) ok(1) by (auto simp: *(7) find_set_row)
  qed
  note all = this [of "fst (transition_tx io i dst p at s)" "snd (transition_tx io i dst p at s)", simplified]
  show ?inv using all by blast
  show "\<exists>r'. find_row j (snd (transition_tx io i dst p at s)) = Some r' \<and> row_moves r r' \<and> (j \<noteq> i \<longrightarrow> r' = r)"
    if "find_row j s = Some r" using all that by blast
  show "lg_locks (snd (transition_tx io i dst p at s)) = lg_locks s"
    "lg_owners (snd (transition_tx io i dst p at s)) = lg_owners s" using all by blast+
qed

definition good_step :: "ledger \<Rightarrow> ledger \<Rightarrow> bool" where
  "good_step s s' \<longleftrightarrow> ledger_inv s' \<and>
     (\<forall>j r. find_row j s = Some r \<longrightarrow> (\<exists>r'. find_row j s' = Some r' \<and> row_moves r r'))"

lemma good_step_refl: "ledger_inv s \<Longrightarrow> good_step s s"
  by (simp add: good_step_def)

lemma good_step_rows:
  "ledger_inv s' \<Longrightarrow> lg_rows s' = lg_rows s \<Longrightarrow> good_step s s'"
  by (simp add: good_step_def find_row_def)

text \<open>Locks and the rows are independent.\<close>

lemma ledger_inv_locks:
  "ledger_inv (s\<lparr>lg_locks := ls, lg_owners := os\<rparr>) \<longleftrightarrow>
     ledger_inv (s\<lparr>lg_locks := [], lg_owners := []\<rparr>) \<and> distinct (map fst ls) \<and> set os \<subseteq> set ls"
  by (auto simp: ledger_inv_def locks_ok_def)

lemma ledger_inv_relock:
  assumes "ledger_inv s" "distinct (map fst (lg_locks s'))" "set (lg_owners s') \<subseteq> set (lg_locks s')"
    "lg_rows s' = lg_rows s" "lg_signals s' = lg_signals s" "lg_warnings s' = lg_warnings s" "lg_pins s' = lg_pins s"
  shows "ledger_inv s'"
  using assms by (simp add: ledger_inv_def locks_ok_def)

lemma distinct_fst_filter: "distinct (map fst xs) \<Longrightarrow> distinct (map fst (filter P xs))"
  by (rule distinct_map_filter)

lemma release_owner_frame [simp]:
  "lg_rows (release_owner io p i s) = lg_rows s" "lg_signals (release_owner io p i s) = lg_signals s"
  "lg_warnings (release_owner io p i s) = lg_warnings s" "lg_pins (release_owner io p i s) = lg_pins s"
  by (simp_all add: release_owner_def)

lemma release_owner_inv: "ledger_inv s \<Longrightarrow> ledger_inv (release_owner io p i s)"
  by (rule ledger_inv_relock [of s])
    (auto simp: release_owner_def ledger_inv_def locks_ok_def removeAll_filter_not_eq distinct_fst_filter)

definition acquire :: "proc \<Rightarrow> uuid \<Rightarrow> ledger \<Rightarrow> ledger" where
  "acquire p i s = s\<lparr>lg_locks := (i, p) # lg_locks s, lg_owners := (i, p) # lg_owners s\<rparr>"

lemma acquire_frame [simp]:
  "lg_rows (acquire p i s) = lg_rows s" "lg_signals (acquire p i s) = lg_signals s"
  "lg_warnings (acquire p i s) = lg_warnings s" "lg_pins (acquire p i s) = lg_pins s"
  "lg_locks (acquire p i s) = (i, p) # lg_locks s" "lg_owners (acquire p i s) = (i, p) # lg_owners s"
  "find_row j (acquire p i s) = find_row j s"
  by (simp_all add: acquire_def)

lemma acquire_inv: "ledger_inv s \<Longrightarrow> i \<notin> fst ` set (lg_locks s) \<Longrightarrow> ledger_inv (acquire p i s)"
  by (rule ledger_inv_relock [of s]) (auto simp: ledger_inv_def locks_ok_def)

lemma find_row_release [simp]: "find_row j (release_owner io p i s) = find_row j s"
  by (simp add: find_row_def)

lemma ledger_transition_cases:
  obtains (busy) e where "ledger_transition p io i dst pt at s = (Inl e, s)"
  | (ran) s0 res s1 where "s0 = s \<or> (s0 = acquire p i s \<and> i \<notin> fst ` set (lg_locks s))"
    "transition_tx io i dst pt at s0 = (res, s1)"
    "dst = StageSendStarted \<Longrightarrow> (i, p) \<in> set (lg_owners s0)"
    "ledger_transition p io i dst pt at s = (res, s1) \<or>
     ledger_transition p io i dst pt at s = (res, release_owner io p i s1)"
    "isl res \<Longrightarrow> s0 \<noteq> s \<Longrightarrow> ledger_transition p io i dst pt at s = (res, release_owner io p i s1)"
    "\<not> isl res \<Longrightarrow> \<not> stage_terminal dst \<Longrightarrow> ledger_transition p io i dst pt at s = (res, s1)"
proof -
  let ?lock = "dst = StageSendStarted \<and> (i, p) \<notin> set (lg_owners s)"
  consider "?lock" "io IoTryLock \<noteq> None \<or> i \<in> fst ` set (lg_locks s)"
    | "?lock" "io IoTryLock = None" "i \<notin> fst ` set (lg_locks s)" | "\<not> ?lock" by blast
  then show thesis
  proof cases
    case 1
    then have "\<exists>e. ledger_transition p io i dst pt at s = (Inl e, s)"
      by (cases "io IoTryLock") (simp_all add: ledger_transition_def)
    then show thesis using busy by blast
  next
    case 2
    obtain res s1 where tx: "transition_tx io i dst pt at (acquire p i s) = (res, s1)" by fastforce
    show thesis
      by (rule ran [of "acquire p i s" res s1])
        (use 2 tx in \<open>auto simp: ledger_transition_def acquire_def [symmetric] Let_def split: sum.splits\<close>)
  next
    case 3
    obtain res s1 where tx: "transition_tx io i dst pt at s = (res, s1)" by fastforce
    show thesis
      by (rule ran [of s res s1]) (use 3 tx in \<open>auto simp: ledger_transition_def Let_def split: sum.splits\<close>)
  qed
qed

lemma ledger_transition_ok:
  assumes "ledger_inv s"
  shows "good_step s (snd (ledger_transition p io i dst pt at s))"
    and "j \<noteq> i \<Longrightarrow> find_row j (snd (ledger_transition p io i dst pt at s)) = find_row j s \<or> find_row j s = None"
proof -
  have "good_step s (snd (ledger_transition p io i dst pt at s)) \<and>
      (\<forall>j r. j \<noteq> i \<longrightarrow> find_row j s = Some r \<longrightarrow> find_row j (snd (ledger_transition p io i dst pt at s)) = Some r)"
  proof (cases rule: ledger_transition_cases [of p io i dst pt at s])
    case (busy e)
    then show ?thesis using assms by (simp add: good_step_refl)
  next
    case (ran s0 res s1)
    have inv: "ledger_inv s0" using ran(1) assms acquire_inv by blast
    have rows: "find_row j s0 = find_row j s" for j using ran(1) by auto
    have s1: "s1 = snd (transition_tx io i dst pt at s0)" using ran(2) by simp
    have "ledger_inv s1" unfolding s1 by (rule transition_tx_ok(1) [OF inv])
    then have "ledger_inv (release_owner io p i s1)" by (rule release_owner_inv)
    moreover have "\<exists>r'. find_row j s1 = Some r' \<and> row_moves r r' \<and> (j \<noteq> i \<longrightarrow> r' = r)" if "find_row j s = Some r" for j r
      unfolding s1 using transition_tx_ok(2) [OF inv, of j r] that rows by simp
    ultimately show ?thesis using ran(4) \<open>ledger_inv s1\<close> by (fastforce simp: good_step_def)
  qed
  then show "good_step s (snd (ledger_transition p io i dst pt at s))"
    "j \<noteq> i \<Longrightarrow> find_row j (snd (ledger_transition p io i dst pt at s)) = find_row j s \<or> find_row j s = None"
    by (auto simp del: split_paired_All)
qed

lemma recover_one_cases:
  assumes "distinct (map or_id (lg_rows s))"
  obtains (kept) "lg_rows (snd (recover_one p io i at s)) = lg_rows s"
  | (marked) r where "find_row i s = Some r" "or_stage r = StageSendStarted" "check_row (interrupted_row at r)"
    "i \<notin> fst ` set (lg_locks s)"
    "lg_rows (snd (recover_one p io i at s)) = lg_rows (set_row (interrupted_row at r) s)"
proof (cases "\<exists>r. find_row i s = Some r \<and> or_stage r = StageSendStarted")
  case True
  then obtain r where r: "find_row i s = Some r" "or_stage r = StageSendStarted" by blast
  have id_: "or_id (interrupted_row at r) = i" using find_row_Some [OF r(1)] by (simp add: interrupted_row_def)
  note upd = update_rows_hit [of s i r StageSendStarted "interrupted_row at", OF assms r id_]
  show thesis
  proof (cases "i \<notin> fst ` set (lg_locks s) \<and> check_row (interrupted_row at r) \<and> io IoTryLock = None \<and> io IoExec = None")
    case True
    then show thesis using upd
      by (intro marked [OF r]) (auto simp: recover_one_def Let_def split: option.splits)
  next
    case False
    then show thesis using upd
      by (intro kept) (auto simp: recover_one_def Let_def split: option.splits)
  qed
next
  case False
  then have "update_rows i StageSendStarted (interrupted_row at) s = Inr (0, s)"
    using assms by (intro update_rows_miss) (auto simp: find_row_mem)
  then show thesis
    by (intro kept) (auto simp: recover_one_def Let_def split: option.splits)
qed

lemma update_rows_frame:
  "update_rows i src f s = Inr (n, s') \<Longrightarrow>
     lg_locks s' = lg_locks s \<and> lg_owners s' = lg_owners s \<and> lg_pins s' = lg_pins s \<and>
     lg_signals s' = lg_signals s \<and> lg_warnings s' = lg_warnings s"
  by (auto simp: update_rows_def Let_def split: if_splits)

lemma recover_one_frame:
  "lg_owners (snd (recover_one p io i at s)) = lg_owners s \<and> lg_pins (snd (recover_one p io i at s)) = lg_pins s \<and>
   lg_signals (snd (recover_one p io i at s)) = lg_signals s \<and>
   lg_warnings (snd (recover_one p io i at s)) = lg_warnings s \<and>
   (lg_locks (snd (recover_one p io i at s)) = lg_locks s \<or>
    i \<notin> fst ` set (lg_locks s) \<and> lg_locks (snd (recover_one p io i at s)) = (i, p) # lg_locks s)"
  by (auto simp: recover_one_def Let_def split: option.splits sum.splits prod.splits dest: update_rows_frame)

lemma set_row_same_id:
  "lg_rows s' = lg_rows (set_row r s) \<Longrightarrow> lg_rows s' = map (\<lambda>x. if or_id x = or_id r then r else x) (lg_rows s)"
  by (simp add: set_row_def)

lemma recover_one_ok:
  assumes "ledger_inv s"
  shows "good_step s (snd (recover_one p io i at s))"
proof -
  let ?s' = "snd (recover_one p io i at s)"
  have dist: "distinct (map or_id (lg_rows s))" using assms by (simp add: ledger_inv_def)
  note frame = recover_one_frame [of p io i at s]
  have locks: "distinct (map fst (lg_locks ?s'))" "set (lg_owners ?s') \<subseteq> set (lg_locks ?s')"
    using frame assms by (auto simp: ledger_inv_def locks_ok_def)
  show ?thesis using dist
  proof (cases rule: recover_one_cases [of s p io i at])
    case kept
    then show ?thesis using frame locks ledger_inv_relock [OF assms, of ?s'] by (intro good_step_rows) simp_all
  next
    case (marked r)
    have r: "r \<in> set (lg_rows s)" "or_id r = i" using find_row_Some [OF marked(1)] by auto
    note ok = interrupted_row_ok [OF marked(2), of at]
    have id_: "or_id (interrupted_row at r) = i" using r by (simp add: interrupted_row_def)
    have "ledger_inv (set_row (interrupted_row at r) s)"
      using assms marked(3) ok by (intro ledger_inv_set_row) auto
    then have "ledger_inv ?s'" by (rule ledger_inv_relock) (use frame locks marked(5) in simp_all)
    moreover have "find_row j ?s' = find_row j (set_row (interrupted_row at r) s)" for j
      using marked(5) by (simp add: find_row_def)
    ultimately show ?thesis using ok marked(1) id_ by (auto simp: good_step_def find_set_row)
  qed
qed

lemma find_append: "find P (xs @ ys) = (case find P xs of None \<Rightarrow> find P ys | Some x \<Rightarrow> Some x)"
  by (induction xs) auto

lemma validate_request_None:
  "validate_request q = None \<longleftrightarrow> rq_id q \<noteq> 0 \<and> rq_device q \<noteq> [] \<and> rq_action q \<noteq> [] \<and> rq_revision q \<noteq> [] \<and>
     uint (rq_generation q) < 2 ^ 63 \<and> rq_effect q \<in> {EffectInput, EffectPower, EffectMedia, EffectAdmin} \<and> rq_digest q \<noteq> 0"
proof -
  have gen: "unat (rq_generation q) > 2 ^ 63 - 1 \<longleftrightarrow> \<not> uint (rq_generation q) < 2 ^ 63"
  proof -
    have "K - 1 < n \<longleftrightarrow> \<not> n < K" if "0 < K" for K n :: nat using that by linarith
    moreover have "uint (rq_generation q) < int (2 ^ 63) \<longleftrightarrow> unat (rq_generation q) < 2 ^ 63"
      by (simp only: uint_nat of_nat_less_iff)
    ultimately show ?thesis by (simp only: of_nat_power of_nat_numeral zero_less_power zero_less_numeral)
  qed
  have eff: "(case e of EffectInput \<Rightarrow> False | EffectPower \<Rightarrow> False | EffectMedia \<Rightarrow> False | EffectAdmin \<Rightarrow> False | _ \<Rightarrow> True) \<longleftrightarrow>
      e \<notin> {EffectInput, EffectPower, EffectMedia, EffectAdmin}" for e
    by (cases e) simp_all
  show ?thesis unfolding validate_request_def gen eff by simp
qed

lemma new_row_ok: "validate_request q = None \<Longrightarrow> check_row (new_row q at) \<and> row_coherent (new_row q at)"
  by (simp add: validate_request_None check_row_def row_coherent_def new_row_def known_stage_def known_delivery_def
      known_verification_def accepted_stages_def)

lemma new_row_id [simp]: "or_id (new_row q at) = rq_id q"
  by (simp add: new_row_def)

definition insert_op :: "op_row \<Rightarrow> ledger \<Rightarrow> ledger" where
  "insert_op r s = s\<lparr>lg_rows := lg_rows s @ [r]\<rparr>"

lemma find_insert_op: "find_row j (insert_op r s) =
    (case find_row j s of None \<Rightarrow> if or_id r = j then Some r else None | Some x \<Rightarrow> Some x)"
  by (simp add: find_row_def insert_op_def find_append split: option.split)

lemma insert_op_inv:
  assumes "ledger_inv s" "check_row r" "row_coherent r" "find_row (or_id r) s = None"
  shows "ledger_inv (insert_op r s)"
  using assms by (auto simp: ledger_inv_def insert_op_def find_row_None locks_ok_def table_ok_def list_all_iff)

lemma ledger_begin_cases:
  obtains (refused) e where "ledger_begin io q at s = (Inl e, s)"
  | (joined) r where "validate_request q = None" "find_row (rq_id q) s = Some r" "or_digest r = rq_digest q"
    "ledger_begin io q at s = (Inr (row_receipt s r, True), s)"
  | (inserted) r where "validate_request q = None" "find_row (rq_id q) s = None" "r = new_row q (normalizeTime at)"
    "ledger_begin io q at s = (Inr (row_receipt (insert_op r s) r, False), insert_op r s)"
proof (cases "\<exists>e. ledger_begin io q at s = (Inl e, s)")
  case True
  then show thesis using refused by blast
next
  case False
  let ?s1 = "if find_row (rq_id q) s \<noteq> None then s else insert_op (new_row q (normalizeTime at)) s"
  from False have ok: "validate_request q = None" "first_fault io [IoBeginTx, IoExec] = None" "io IoRowsAffected = None"
      "\<not> (find_row (rq_id q) s = None \<and> \<not> check_row (new_row q (normalizeTime at)))"
    by (auto simp: ledger_begin_def Let_def insert_op_def [symmetric] split: option.splits if_splits)
  with False obtain receipt where get: "getOperationRow io (rq_id q) ?s1 = Inr receipt"
      "rq_digest (rc_request receipt) = rq_digest q" "io IoCommit = None"
    by (auto simp: ledger_begin_def Let_def insert_op_def [symmetric] split: option.splits if_splits sum.splits)
  have res: "ledger_begin io q at s = (Inr (receipt, find_row (rq_id q) s \<noteq> None), ?s1)"
    using ok get by (auto simp: ledger_begin_def Let_def insert_op_def [symmetric] split: option.splits)
  show thesis
  proof (cases "find_row (rq_id q) s")
    case None
    then show thesis using get res ok(1) inserted [of "new_row q (normalizeTime at)"]
      by (auto simp: getOperationRow_Inr find_insert_op)
  next
    case (Some r)
    then show thesis using get res ok(1) joined [of r] by (auto simp: getOperationRow_Inr)
  qed
qed

lemma ledger_begin_ok:
  assumes "ledger_inv s"
  shows "good_step s (snd (ledger_begin io q at s))"
proof (cases rule: ledger_begin_cases [of io q at s])
  case (inserted r)
  then have "ledger_inv (insert_op r s)"
    using assms new_row_ok [OF inserted(1)] by (intro insert_op_inv) auto
  then show ?thesis using inserted by (auto simp: good_step_def find_insert_op)
qed (use assms in \<open>simp_all add: good_step_refl\<close>)

definition purged :: "time \<Rightarrow> op_row \<Rightarrow> bool" where
  "purged cutoff r = (case or_terminal r of None \<Rightarrow> False | Some t \<Rightarrow> t < toMillis cutoff)"

definition purge_rows :: "time \<Rightarrow> ledger \<Rightarrow> ledger" where
  "purge_rows cutoff s = s\<lparr>lg_rows := filter (\<lambda>r. \<not> purged cutoff r) (lg_rows s),
     lg_signals := filter (\<lambda>(i, _). i \<notin> or_id ` {r \<in> set (lg_rows s). purged cutoff r}) (lg_signals s),
     lg_warnings := filter (\<lambda>(i, _). i \<notin> or_id ` {r \<in> set (lg_rows s). purged cutoff r}) (lg_warnings s)\<rparr>"

lemma purge_terminal_before_eq:
  "purge_terminal_before io cutoff s =
     (case io IoExec of Some e \<Rightarrow> (Inl [ErrSql e], s)
      | None \<Rightarrow> (case io IoRowsAffected of Some e \<Rightarrow> Inl [ErrSql e]
          | None \<Rightarrow> Inr (length (filter (purged cutoff) (lg_rows s))), purge_rows cutoff s))"
  by (simp add: purge_terminal_before_def purge_rows_def purged_def [abs_def] Let_def cong: option.case_cong)

lemma find_row_purge:
  assumes "distinct (map or_id (lg_rows s))"
  shows "find_row i (purge_rows cutoff s) = (case find_row i s of None \<Rightarrow> None
    | Some r \<Rightarrow> if purged cutoff r then None else Some r)"
proof -
  have dist: "distinct (map or_id (lg_rows (purge_rows cutoff s)))"
    using assms by (simp add: purge_rows_def distinct_map_filter)
  have rows: "r \<in> set (lg_rows (purge_rows cutoff s)) \<longleftrightarrow> r \<in> set (lg_rows s) \<and> \<not> purged cutoff r" for r
    by (auto simp: purge_rows_def)
  show ?thesis
  proof (cases "find_row i (purge_rows cutoff s)")
    case None
    then show ?thesis using rows by (auto simp: find_row_None split: option.splits dest: find_row_Some)
  next
    case (Some r)
    then have "find_row i s = Some r" "\<not> purged cutoff r"
      using rows by (auto simp: find_row_mem [OF dist] find_row_mem [OF assms])
    then show ?thesis using Some by simp
  qed
qed

lemma table_ok_purge:
  assumes "table_ok (lg_rows s) t"
  shows "table_ok (filter (\<lambda>r. \<not> purged cutoff r) (lg_rows s))
     (filter (\<lambda>(i, _). i \<notin> or_id ` {r \<in> set (lg_rows s). purged cutoff r}) t)"
proof -
  have "distinct (map (\<lambda>(i, k, _). (i, k)) (filter (\<lambda>(i, _). i \<notin> or_id ` {r \<in> set (lg_rows s). purged cutoff r}) t))"
    using assms by (auto simp: table_ok_def intro: distinct_map_filter)
  moreover have "i \<in> or_id ` {r \<in> set (lg_rows s). \<not> purged cutoff r} \<and> v \<noteq> []"
    if "(i, k, v) \<in> set t" "i \<notin> or_id ` {r \<in> set (lg_rows s). purged cutoff r}" for i k v
  proof -
    have "i \<in> or_id ` set (lg_rows s)" "v \<noteq> []" using assms that(1) by (auto simp: table_ok_def list_all_iff)
    with that(2) show ?thesis by blast
  qed
  ultimately show ?thesis by (auto simp: table_ok_def list_all_iff)
qed

lemma purge_rows_inv: "ledger_inv s \<Longrightarrow> ledger_inv (purge_rows cutoff s)"
proof -
  assume inv: "ledger_inv s"
  have "table_ok (lg_rows (purge_rows cutoff s)) (lg_signals (purge_rows cutoff s))"
    "table_ok (lg_rows (purge_rows cutoff s)) (lg_warnings (purge_rows cutoff s))"
    using inv table_ok_purge [of s _ cutoff] by (simp_all add: purge_rows_def ledger_inv_def)
  then show ?thesis using inv
    by (auto simp: ledger_inv_def purge_rows_def locks_ok_def distinct_map_filter list_all_iff)
qed

lemma purge_inv: "ledger_inv s \<Longrightarrow> ledger_inv (snd (purge_terminal_before io cutoff s))"
  by (auto simp: purge_terminal_before_eq purge_rows_inv split: option.splits)

lemma store_close_ok: "ledger_inv s \<Longrightarrow> good_step s (store_close p io s)"
  by (intro good_step_rows ledger_inv_relock [of s "store_close p io s"])
    (auto simp: store_close_def ledger_inv_def locks_ok_def distinct_fst_filter)

lemma crash_ok: "ledger_inv s \<Longrightarrow> good_step s (crash p s)"
  by (intro good_step_rows ledger_inv_relock [of s "crash p s"])
    (auto simp: crash_def ledger_inv_def locks_ok_def distinct_fst_filter)

subsection \<open>Pins\<close>

definition pin_row :: "identity_pin \<Rightarrow> time \<Rightarrow> identity_row" where
  "pin_row pin at = \<lparr>ir_alias = ip_alias pin, ir_origin = ip_origin pin, ir_device = ip_device pin,
     ir_created = toMillis at, ir_updated = toMillis at\<rparr>"

definition pin_of_row :: "identity_row \<Rightarrow> identity_pin" where
  "pin_of_row r = \<lparr>ip_alias = ir_alias r, ip_origin = ir_origin r, ip_device = ir_device r,
     ip_created = fromMillis (ir_created r), ip_updated = fromMillis (ir_updated r)\<rparr>"

definition find_pin :: "string \<Rightarrow> ledger \<Rightarrow> identity_row option" where
  "find_pin a s = find (\<lambda>r. ir_alias r = a) (lg_pins s)"

lemma find_pin_mem: "pins_ok (lg_pins s) \<Longrightarrow> find_pin a s = Some r \<longleftrightarrow> r \<in> set (lg_pins s) \<and> ir_alias r = a"
  by (auto simp: pins_ok_def find_pin_def find_Some_iff2 find_Some_iff in_set_conv_nth distinct_conv_nth)

lemma scanIdentity_eq:
  "scanIdentity a s = (case find_pin a s of None \<Rightarrow> Inl [ErrIdentityNotFound] | Some r \<Rightarrow> Inr (pin_of_row r))"
  by (simp add: scanIdentity_def find_pin_def pin_of_row_def cong: option.case_cong)

definition insert_pin :: "identity_row \<Rightarrow> ledger \<Rightarrow> ledger" where
  "insert_pin r s = s\<lparr>lg_pins := lg_pins s @ [r]\<rparr>"

lemma pin_identity_cases:
  obtains (refused) e where "pin_identity io pin at s = (Inl e, s)"
  | (known) r where "find_pin (ip_alias pin) s = Some r" "ir_origin r = ip_origin pin" "ir_device r = ip_device pin"
    "pin_identity io pin at s = (Inr (pin_of_row r, True), s)"
  | (pinned) "ip_alias pin \<noteq> []" "ip_origin pin \<noteq> []" "ip_device pin \<noteq> []"
    "list_all (\<lambda>r. ir_alias r \<noteq> ip_alias pin \<and> ir_origin r \<noteq> ip_origin pin \<and> ir_device r \<noteq> ip_device pin) (lg_pins s)"
    "pin_identity io pin at s = (Inr (pin_of_row (pin_row pin at), False), insert_pin (pin_row pin at) s)"
proof (cases "\<exists>e. pin_identity io pin at s = (Inl e, s)")
  case True
  then show thesis using refused by blast
next
  case False
  let ?taken = "list_ex (\<lambda>r. ir_alias r = ip_alias pin \<or> ir_origin r = ip_origin pin \<or> ir_device r = ip_device pin) (lg_pins s)"
  let ?s1 = "if ?taken then s else insert_pin (pin_row pin at) s"
  have row: "\<lparr>ir_alias = ip_alias pin, ir_origin = ip_origin pin, ir_device = ip_device pin,
      ir_created = toMillis (normalizeTime at), ir_updated = toMillis (normalizeTime at)\<rparr> = pin_row pin at"
    by (simp add: pin_row_def)
  have s1: "(if ?taken then s else s\<lparr>lg_pins := lg_pins s @ [pin_row pin at]\<rparr>) = ?s1"
    by (simp add: insert_pin_def)
  from False have ok: "ip_alias pin \<noteq> []" "ip_origin pin \<noteq> []" "ip_device pin \<noteq> []"
      "first_fault io [IoBeginTx, IoExec, IoRowsAffected] = None" "io IoSelect = None"
    by (auto simp: pin_identity_def Let_def row s1 simp del: first_fault.simps split: option.splits if_splits)
  have eq: "pin_identity io pin at s = (case scanIdentity (ip_alias pin) ?s1 of
      Inl e \<Rightarrow> (if errors_is e ErrIdentityNotFound then (Inl [ErrIdentityConflict], s) else (Inl e, s))
    | Inr stored \<Rightarrow> if ip_origin stored \<noteq> ip_origin pin \<or> ip_device stored \<noteq> ip_device pin
        then (Inl [ErrIdentityConflict], s)
        else (case io IoCommit of Some e \<Rightarrow> (Inl [ErrSql e], s) | None \<Rightarrow> (Inr (stored, ?taken), ?s1)))"
    unfolding insert_pin_def pin_row_def using ok by (simp add: pin_identity_def Let_def del: first_fault.simps)
  obtain r where r: "find_pin (ip_alias pin) ?s1 = Some r" "ir_origin r = ip_origin pin" "ir_device r = ip_device pin"
      "io IoCommit = None"
    using False eq by (auto simp: scanIdentity_eq pin_of_row_def split: option.splits if_splits)
  then have res: "pin_identity io pin at s = (Inr (pin_of_row r, ?taken), ?s1)"
    by (simp add: eq scanIdentity_eq pin_of_row_def)
  show thesis
  proof (cases ?taken)
    case True
    then show thesis using r res by (intro known [of r]) simp_all
  next
    case False
    then have free: "list_all (\<lambda>r. ir_alias r \<noteq> ip_alias pin \<and> ir_origin r \<noteq> ip_origin pin \<and> ir_device r \<noteq> ip_device pin) (lg_pins s)"
      by (auto simp: list_ex_iff list_all_iff)
    then have "find (\<lambda>r. ir_alias r = ip_alias pin) (lg_pins s) = None" by (auto simp: find_None_iff list_all_iff)
    then have "r = pin_row pin at"
      using r(1) False by (simp add: find_pin_def insert_pin_def find_append pin_row_def)
    then show thesis using res False ok(1-3) free by (intro pinned) simp_all
  qed
qed

lemma insert_pin_inv:
  assumes "ledger_inv s" "ip_alias pin \<noteq> []" "ip_origin pin \<noteq> []" "ip_device pin \<noteq> []"
    "list_all (\<lambda>r. ir_alias r \<noteq> ip_alias pin \<and> ir_origin r \<noteq> ip_origin pin \<and> ir_device r \<noteq> ip_device pin) (lg_pins s)"
  shows "ledger_inv (insert_pin (pin_row pin at) s)"
  using assms
  by (auto simp: ledger_inv_def insert_pin_def pins_ok_def check_identity_def pin_row_def locks_ok_def list_all_iff)

lemma pin_identity_ok: "ledger_inv s \<Longrightarrow> good_step s (snd (pin_identity io pin at s))"
proof (cases rule: pin_identity_cases [of io pin at s])
  case pinned
  assume inv: "ledger_inv s"
  have "ledger_inv (insert_pin (pin_row pin at) s)" using inv pinned(1-4) by (rule insert_pin_inv)
  moreover have "lg_rows (insert_pin (pin_row pin at) s) = lg_rows s" by (simp add: insert_pin_def)
  ultimately show ?thesis using pinned(5) by (simp add: good_step_rows)
qed (simp_all add: good_step_refl)

section \<open>Runs of the ledger\<close>

lemma ledger_step_good: "ledger_inv s \<Longrightarrow> not_purge c \<Longrightarrow> good_step s (ledger_step s c)"
  by (cases c) (simp_all add: ledger_step_def not_purge_def pin_identity_ok ledger_begin_ok ledger_transition_ok
      recover_one_ok store_close_ok crash_ok)

lemma ledger_step_inv: "ledger_inv s \<Longrightarrow> ledger_inv (ledger_step s c)"
  using ledger_step_good [of s c] by (cases c) (auto simp: good_step_def not_purge_def ledger_step_def purge_inv)

definition stage_at :: "ledger \<Rightarrow> uuid \<Rightarrow> stage option" where
  "stage_at s i = map_option or_stage (find_row i s)"

interpretation store: stage_ledger ledger_step ledger_inv stage_at not_purge
proof unfold_locales
  show "ledger_inv s \<Longrightarrow> ledger_inv (ledger_step s e)" for s e by (rule ledger_step_inv)
  show "\<exists>b. stage_at (ledger_step s e) i = Some b \<and> (b = a \<or> validate_transition a b = None)"
    if inv: "ledger_inv s" and keeps: "not_purge e" and a: "stage_at s i = Some a" for s e i a
  proof -
    from a obtain r where r: "find_row i s = Some r" "or_stage r = a" by (auto simp: stage_at_def)
    then obtain r' where "find_row i (ledger_step s e) = Some r'" "row_moves r r'"
      using ledger_step_good [OF inv keeps] by (auto simp: good_step_def)
    then show ?thesis using r by (auto simp: stage_at_def row_moves_def)
  qed
qed

text \<open>An operation's identity never changes while its row is there.\<close>

lemma same_identity_trans: "same_identity a b \<Longrightarrow> same_identity b c \<Longrightarrow> same_identity a c"
  by (simp add: same_identity_def)

lemma run_identity:
  "ledger_inv s \<Longrightarrow> list_all not_purge cs \<Longrightarrow> find_row i s = Some r \<Longrightarrow>
     \<exists>r'. find_row i (foldl ledger_step s cs) = Some r' \<and> same_identity r r'"
proof (induction cs arbitrary: s r)
  case Nil
  then show ?case by (simp add: same_identity_def)
next
  case (Cons c cs)
  then have "good_step s (ledger_step s c)" by (simp add: ledger_step_good)
  with Cons.prems(3) obtain r1 where "find_row i (ledger_step s c) = Some r1" "same_identity r r1"
    unfolding good_step_def row_moves_def by blast
  then show ?case using Cons.IH [of "ledger_step s c" r1] Cons.prems ledger_step_inv [of s c]
    by (auto intro: same_identity_trans)
qed

text \<open>What leaves an operation's row and strings alone.\<close>

definition receipt_of :: "uuid \<Rightarrow> ledger \<Rightarrow> receipt option" where
  "receipt_of i s = map_option (row_receipt s) (find_row i s)"

lemma receipt_of_cong:
  "find_row i s' = find_row i s \<Longrightarrow> readStrings i (lg_signals s') = readStrings i (lg_signals s) \<Longrightarrow>
   readStrings i (lg_warnings s') = readStrings i (lg_warnings s) \<Longrightarrow> receipt_of i s' = receipt_of i s"
  by (auto simp: receipt_of_def row_receipt_def dest!: find_row_Some split: option.splits intro!: map_option_cong)

lemma ledger_get_ok: "ledger_get (\<lambda>_. None) i s = (case receipt_of i s of None \<Rightarrow> Inl [ErrNotFound] | Some q \<Rightarrow> Inr q)"
  by (simp add: ledger_get_def getOperationRow_def receipt_of_def split: option.split)

lemma receipt_of_stage: "receipt_of i s = Some q \<Longrightarrow> stage_at s i = Some (rc_stage q)"
  by (auto simp: receipt_of_def stage_at_def)

lemma receipt_of_relock [simp]:
  "receipt_of i (release_owner io p j s) = receipt_of i s" "receipt_of i (acquire p j s) = receipt_of i s"
  by (rule receipt_of_cong; simp)+

lemma transition_tx_other:
  assumes "ledger_inv s" "j \<noteq> i"
  shows "receipt_of j (snd (transition_tx io i dst p at s)) = receipt_of j s"
proof (cases "transition_tx io i dst p at s")
  case (Pair res s')
  show ?thesis
  proof (cases res)
    case (Inl e)
    then show ?thesis using Pair transition_tx_Inl by (metis snd_conv)
  next
    case (Inr q)
    have "distinct (map or_id (lg_rows s))" using assms by (simp add: ledger_inv_def)
    then obtain r r' sg wn where *: "find_row i s = Some r" "r' = patched_row (row_receipt s r) dst p (normalizeTime at) r"
      "replaceStrings i (vf_signals (pt_verification p)) (lg_signals s) = Inr sg"
      "replaceStrings i (pt_warnings p) (lg_warnings s) = Inr wn"
      "s' = (set_row r' s)\<lparr>lg_signals := sg, lg_warnings := wn\<rparr>"
      using transition_tx_Inr [of s io i dst p at q s'] Pair Inr by metis
    have "or_id r' = i" using *(1,2) by (auto dest: find_row_Some)
    then show ?thesis using assms(2) * Pair
      by (intro receipt_of_cong) (simp_all add: find_set_row readStrings_replaced)
  qed
qed

lemma ledger_transition_other:
  assumes "ledger_inv s" "j \<noteq> i"
  shows "receipt_of j (snd (ledger_transition p io i dst pt at s)) = receipt_of j s"
proof (cases rule: ledger_transition_cases [of p io i dst pt at s])
  case (ran s0 res s1)
  have "ledger_inv s0" using ran(1) assms acquire_inv by blast
  from transition_tx_other [OF this assms(2), of io dst pt at] ran(2)
  have "receipt_of j s1 = receipt_of j s0" by simp
  then show ?thesis using ran(1,4) by auto
qed simp

lemma ledger_transition_refused:
  assumes "find_row i s = Some r" "validate_transition (or_stage r) dst \<noteq> None"
  shows "\<exists>e. fst (ledger_transition p io i dst pt at s) = Inl e"
    and "receipt_of j (snd (ledger_transition p io i dst pt at s)) = receipt_of j s"
proof -
  have patch: "validate_patch (or_stage r) dst pt \<noteq> None"
    by (rule contrapos_nn [OF assms(2)]) (rule validate_patch_transition)
  have tx: "\<exists>e. transition_tx io i dst pt at s0 = (Inl e, s0)" if "find_row i s0 = Some r" for s0
  proof (cases "io IoBeginTx")
    case None
    show ?thesis
    proof (cases "getOperationRow io i s0")
      case (Inr cur)
      then have "validate_patch (rc_stage cur) dst pt \<noteq> None" using that patch by (auto simp: getOperationRow_Inr)
      with Inr None show ?thesis by (auto simp: transition_tx_def)
    qed (simp add: transition_tx_def None)
  qed (simp add: transition_tx_def)
  have "(\<exists>e. fst (ledger_transition p io i dst pt at s) = Inl e) \<and>
      receipt_of j (snd (ledger_transition p io i dst pt at s)) = receipt_of j s"
  proof (cases rule: ledger_transition_cases [of p io i dst pt at s])
    case (ran s0 res s1)
    have "find_row i s0 = Some r" using ran(1) assms(1) by auto
    from tx [OF this] ran(2) obtain e where "res = Inl e" "s1 = s0" by auto
    then show ?thesis using ran(1,4) by auto
  qed simp
  then show "\<exists>e. fst (ledger_transition p io i dst pt at s) = Inl e"
    "receipt_of j (snd (ledger_transition p io i dst pt at s)) = receipt_of j s" by auto
qed

lemma find_row_begin: "find_row i s = Some r \<Longrightarrow> find_row i (snd (ledger_begin io q at s)) = Some r"
  by (cases rule: ledger_begin_cases [of io q at s]) (auto simp: find_insert_op)

lemma receipt_of_begin:
  assumes "receipt_of i s = Some q"
  shows "receipt_of i (snd (ledger_begin io q' at s)) = Some q"
proof -
  obtain r where r: "find_row i s = Some r" using assms by (auto simp: receipt_of_def)
  have "lg_signals (snd (ledger_begin io q' at s)) = lg_signals s" "lg_warnings (snd (ledger_begin io q' at s)) = lg_warnings s"
    by (cases rule: ledger_begin_cases [of io q' at s]; simp add: insert_op_def)+
  then have "receipt_of i (snd (ledger_begin io q' at s)) = receipt_of i s"
    using find_row_begin [OF r] r by (intro receipt_of_cong) simp_all
  with assms show ?thesis by simp
qed

lemma receipt_of_recover:
  assumes "ledger_inv s" "stage_at s i \<noteq> Some StageSendStarted \<or> i \<in> fst ` set (lg_locks s) \<or> i \<noteq> j"
  shows "receipt_of i (snd (recover_one p io j at s)) = receipt_of i s"
proof -
  have dist: "distinct (map or_id (lg_rows s))" using assms by (simp add: ledger_inv_def)
  have "find_row i (snd (recover_one p io j at s)) = find_row i s" using dist
  proof (cases rule: recover_one_cases [of s p io j at])
    case kept
    then show ?thesis by (simp add: find_row_def)
  next
    case (marked r)
    have "or_id (interrupted_row at r) = j" using marked(1) by (auto simp: interrupted_row_def dest: find_row_Some)
    moreover have "i \<noteq> j" using assms(2) marked by (auto simp: stage_at_def)
    ultimately have "find_row i (set_row (interrupted_row at r) s) = find_row i s" by (simp add: find_set_row)
    then show ?thesis using marked(5) by (simp add: find_row_def)
  qed
  then show ?thesis using recover_one_frame [of p io j at s] by (intro receipt_of_cong) simp_all
qed

lemma pin_identity_frame [simp]:
  "lg_rows (snd (pin_identity io pin at s)) = lg_rows s" "lg_signals (snd (pin_identity io pin at s)) = lg_signals s"
  "lg_warnings (snd (pin_identity io pin at s)) = lg_warnings s"
  "lg_locks (snd (pin_identity io pin at s)) = lg_locks s" "lg_owners (snd (pin_identity io pin at s)) = lg_owners s"
  by (cases rule: pin_identity_cases [of io pin at s]; simp add: insert_pin_def)+

lemma receipt_of_quiet [simp]:
  "receipt_of i (snd (pin_identity io pin at s)) = receipt_of i s"
  "receipt_of i (store_close p io s) = receipt_of i s" "receipt_of i (crash p s) = receipt_of i s"
  by (rule receipt_of_cong; simp add: find_row_def store_close_def crash_def)+

text \<open>A transition that succeeds.\<close>

lemma ledger_transition_Inr:
  assumes "ledger_inv s" "ledger_transition p io i dst pt at s = (Inr q, s')"
  obtains r r' where "find_row i s = Some r" "validate_patch (or_stage r) dst pt = None"
    "r' = patched_row (row_receipt s r) dst pt (normalizeTime at) r" "check_row r'" "find_row i s' = Some r'"
    "q = row_receipt s' r'" "readStrings i (lg_signals s') = vf_signals (pt_verification pt)"
    "readStrings i (lg_warnings s') = pt_warnings pt"
    "dst = StageSendStarted \<Longrightarrow> (i, p) \<in> set (lg_owners s')"
proof (cases rule: ledger_transition_cases [of p io i dst pt at s])
  case (busy e)
  then show thesis using assms(2) by simp
next
  case (ran s0 res s1)
  have inv: "ledger_inv s0" using ran(1) assms(1) acquire_inv by blast
  then have dist: "distinct (map or_id (lg_rows s0))" by (simp add: ledger_inv_def)
  have res: "res = Inr q" "s' = s1 \<or> s' = release_owner io p i s1" using ran(4) assms(2) by auto
  obtain r r' sg wn where *: "find_row i s0 = Some r" "validate_patch (or_stage r) dst pt = None"
      "r' = patched_row (row_receipt s0 r) dst pt (normalizeTime at) r" "check_row r'"
      "replaceStrings i (vf_signals (pt_verification pt)) (lg_signals s0) = Inr sg"
      "replaceStrings i (pt_warnings pt) (lg_warnings s0) = Inr wn"
      "s1 = (set_row r' s0)\<lparr>lg_signals := sg, lg_warnings := wn\<rparr>" "q = row_receipt s1 r'"
    using transition_tx_Inr [OF dist, of io i dst pt at q s1] ran(2) res(1) by metis
  have s0: "row_receipt s0 r = row_receipt s r" "find_row i s = Some r"
    using ran(1) *(1) by (auto simp: row_receipt_def)
  have "or_id r' = i" using *(1,3) by (auto dest: find_row_Some)
  then have found: "find_row i s1 = Some r'" using *(1) by (simp add: *(7) find_set_row)
  have same: "row_receipt s' r' = row_receipt s1 r'" "find_row i s' = find_row i s1"
    "lg_signals s' = lg_signals s1" "lg_warnings s' = lg_warnings s1"
    using res(2) by (auto simp: row_receipt_def)
  have "(i, p) \<in> set (lg_owners s')" if "dst = StageSendStarted"
  proof -
    have "s' = s1" using ran(6) that res(1) assms(2) by simp
    then show ?thesis using ran(3) [OF that] by (simp add: *(7))
  qed
  moreover have "readStrings i (lg_signals s1) = vf_signals (pt_verification pt)" "readStrings i (lg_warnings s1) = pt_warnings pt"
    using readStrings_replaced [OF *(5), of i] readStrings_replaced [OF *(6), of i] by (simp_all add: *(7))
  ultimately show thesis using that [of r r'] * s0 same found by simp
qed

definition committed_send :: "uuid \<Rightarrow> ledger_op \<Rightarrow> ledger \<Rightarrow> bool" where
  "committed_send i c s = (case c of
     OpTransition p io j dst pt at \<Rightarrow>
       j = i \<and> dst = StageSendStarted \<and> \<not> isl (fst (ledger_transition p io j dst pt at s))
   | _ \<Rightarrow> False)"

fun crossings :: "uuid \<Rightarrow> ledger \<Rightarrow> ledger_op list \<Rightarrow> nat" where
  "crossings i s [] = 0"
| "crossings i s (c # cs) = (if committed_send i c s then 1 else 0) + crossings i (ledger_step s c) cs"

lemma committed_send_stages:
  assumes "ledger_inv s" "committed_send i c s"
  shows "stage_at s i = Some StageNotSent" "stage_at (ledger_step s c) i = Some StageSendStarted"
proof -
  obtain p io pt at where c: "c = OpTransition p io i StageSendStarted pt at"
      "\<not> isl (fst (ledger_transition p io i StageSendStarted pt at s))"
    using assms(2) by (auto simp: committed_send_def split: ledger_op.splits)
  obtain q s' where t: "ledger_transition p io i StageSendStarted pt at s = (Inr q, s')"
    using c(2) by (metis isl_def prod.collapse sum.collapse(2))
  from assms(1) t obtain r r' where "find_row i s = Some r" "validate_patch (or_stage r) StageSendStarted pt = None"
      "r' = patched_row (row_receipt s r) StageSendStarted pt (normalizeTime at) r" "find_row i s' = Some r'"
    by (rule ledger_transition_Inr)
  then show "stage_at s i = Some StageNotSent" "stage_at (ledger_step s c) i = Some StageSendStarted"
    using t validate_patch_transition [of "or_stage r" StageSendStarted pt]
    by (auto simp: stage_at_def c(1) ledger_step_def validate_transition_None patched_row_def)
qed


lemma row_of_mem: "ledger_inv s \<Longrightarrow> find_row i s = Some r \<Longrightarrow> check_row r \<and> row_coherent r"
  by (auto simp: ledger_inv_def list_all_iff dest: find_row_Some)


lemma crossings_append: "crossings i s (cs @ ds) = crossings i s cs + crossings i (foldl ledger_step s cs) ds"
  by (induction cs arbitrary: s) simp_all

text \<open>An operation that is safe to retry has never crossed the send boundary.\<close>

lemma run_retry:
  "ledger_inv s \<Longrightarrow> list_all not_purge cs \<Longrightarrow> find_row i s = Some r \<Longrightarrow>
     \<exists>r'. find_row i (foldl ledger_step s cs) = Some r' \<and> (or_retry_safe r' \<longrightarrow> or_retry_safe r)"
proof (induction cs arbitrary: s r)
  case (Cons c cs)
  then have "good_step s (ledger_step s c)" by (simp add: ledger_step_good)
  with Cons.prems(3) obtain r1 where "find_row i (ledger_step s c) = Some r1" "or_retry_safe r1 \<longrightarrow> or_retry_safe r"
    unfolding good_step_def row_moves_def by blast
  then show ?case using Cons.IH [of "ledger_step s c" r1] Cons.prems ledger_step_inv [of s c] by auto
qed simp

lemma retry_safe_never_crossed:
  "ledger_inv s \<Longrightarrow> list_all not_purge cs \<Longrightarrow> find_row i (foldl ledger_step s cs) = Some r \<Longrightarrow> or_retry_safe r \<Longrightarrow>
     crossings i s cs = 0"
proof (induction cs arbitrary: s)
  case (Cons c cs)
  then have inv: "ledger_inv (ledger_step s c)" by (simp add: ledger_step_inv)
  have "\<not> committed_send i c s"
  proof
    assume "committed_send i c s"
    then obtain r1 where r1: "find_row i (ledger_step s c) = Some r1" "or_stage r1 = StageSendStarted"
      using committed_send_stages(2) [OF Cons.prems(1)] by (auto simp: stage_at_def)
    have "row_coherent r1" using row_of_mem [OF inv r1(1)] by simp
    then have "\<not> or_retry_safe r1" using r1(2) by (simp add: row_coherent_def)
    then show False using run_retry [OF inv _ r1(1), of cs] Cons.prems by auto
  qed
  then show ?case using Cons inv by simp
qed simp

section \<open>Properties\<close>

text \<open>
  C10: the ledger's invariant holds after any calls of any processes, in any interleaving, with any
  failures: operation IDs are unique, every row satisfies the schema's constraints and tells the truth
  about delivery and retry, signals and warnings belong to a row, a device, an origin and an alias are
  pinned once, and an operation's lock is held by at most one process.
\<close>

theorem ledger_invariant: "ledger_inv (foldl ledger_step empty_ledger cs)"
  by (rule store.run_inv) (rule empty_ledger_inv)


text \<open>A concrete operation for the examples.\<close>

definition ex_operation :: request where
  "ex_operation = \<lparr>rq_id = 7, rq_digest = 9, rq_device = ''kvm-1'', rq_generation = 3, rq_effect = EffectPower,
     rq_action = ''reset'', rq_revision = ''rev''\<rparr>"

definition ex_row :: op_row where
  "ex_row = new_row ex_operation (seconds 1)"

definition ex_begun :: ledger where
  "ex_begun = insert_op ex_row empty_ledger"

definition ex_send :: patch where
  "ex_send = \<lparr>pt_delivery = DeliveryPossiblySent,
      pt_verification = \<lparr>vf_status = VerificationNotRequested, vf_signals = [], vf_observation = []\<rparr>,
      pt_claim = TerminalClaimNotProven, pt_retry_safe = False, pt_error_kind = [], pt_warnings = []\<rparr>"

definition ex_sending :: ledger where
  "ex_sending = snd (ledger_transition 1 (\<lambda>_. None) 7 StageSendStarted ex_send (seconds 2) ex_begun)"

lemma ex_operation_ok: "validate_request ex_operation = None"
  by (simp add: validate_request_None ex_operation_def)

lemma ex_begun: "ledger_begin (\<lambda>_. None) ex_operation (seconds 1) empty_ledger = (Inr (row_receipt ex_begun ex_row, False), ex_begun)"
proof -
  have "find_row 7 empty_ledger = None" "check_row (new_row ex_operation (normalizeTime (seconds 1)))"
    using new_row_ok [OF ex_operation_ok] by (simp_all add: find_row_def empty_ledger_def)
  moreover have "new_row ex_operation (normalizeTime (seconds 1)) = ex_row" by (simp add: new_row_def ex_row_def)
  moreover have "find_row 7 ex_begun = Some ex_row"
    by (simp add: ex_begun_def find_row_def insert_op_def empty_ledger_def ex_row_def ex_operation_def)
  moreover have "rq_id ex_operation = 7" "or_digest ex_row = rq_digest ex_operation"
    by (simp_all add: ex_operation_def ex_row_def new_row_def)
  ultimately show ?thesis
    by (simp add: ledger_begin_def Let_def ex_operation_ok getOperationRow_def ex_begun_def insert_op_def)
qed

lemma ex_begun_inv: "ledger_inv ex_begun"
  using ledger_begin_ok [OF empty_ledger_inv, of "\<lambda>_. None" ex_operation "seconds 1"]
  unfolding ex_begun snd_conv good_step_def by blast

lemma ex_rows: "lg_rows ex_begun = [ex_row]" "or_id ex_row = 7" "or_stage ex_row = StageNotSent"
  "or_created ex_row = 1000 - unix_epoch_ms" "or_send_started ex_row = None" "lg_signals ex_begun = []"
  "lg_warnings ex_begun = []" "lg_locks ex_begun = []" "lg_owners ex_begun = []" "lg_pins ex_begun = []"
  by (simp_all add: ex_begun_def insert_op_def empty_ledger_def ex_row_def new_row_def ex_operation_def toMillis_eq)

definition ex_sent_row :: op_row where
  "ex_sent_row = ex_row\<lparr>or_stage := StageSendStarted, or_delivery := DeliveryPossiblySent, or_retry_safe := False,
     or_updated := 2000 - unix_epoch_ms, or_send_started := Some (2000 - unix_epoch_ms)\<rparr>"

lemma ex_sending: "ledger_transition 1 (\<lambda>_. None) 7 StageSendStarted ex_send (seconds 2) ex_begun =
    (Inr (row_receipt ex_sending ex_sent_row), ex_sending)"
    "ex_sending = \<lparr>lg_pins = [], lg_rows = [ex_sent_row], lg_signals = [], lg_warnings = [],
       lg_locks = [(7, 1)], lg_owners = [(7, 1)]\<rparr>"
proof -
  let ?s = "\<lparr>lg_pins = [], lg_rows = [ex_sent_row], lg_signals = [], lg_warnings = [],
       lg_locks = [(7, 1)], lg_owners = [(7, 1)]\<rparr>"
  have patched: "patched_row cur StageSendStarted ex_send (normalizeTime 2000000000) ex_row = ex_sent_row" for cur
    unfolding patched_row_def toMillis_normalizeTime
    by (simp add: ex_send_def ex_sent_row_def toMillis_eq nullableString_def ex_row_def new_row_def)
  have fields: "validate_patch StageNotSent StageSendStarted ex_send = None"
    "vf_signals (pt_verification ex_send) = []" "pt_warnings ex_send = []"
    by (simp_all add: validate_patch_def validate_transition_def ex_send_def known_verification_def TerminalClaimNotProven_def)
  have begun: "ex_begun = \<lparr>lg_pins = [], lg_rows = [ex_row], lg_signals = [], lg_warnings = [], lg_locks = [], lg_owners = []\<rparr>"
    by (simp add: ex_begun_def insert_op_def empty_ledger_def)
  have sent: "or_id ex_sent_row = 7" by (simp add: ex_sent_row_def ex_rows)
  have ok: "check_row ex_sent_row"
    by (simp add: check_row_def ex_sent_row_def known_stage_def known_delivery_def known_verification_def ex_row_def
        new_row_def ex_operation_def toMillis_eq)
  have "ledger_transition 1 (\<lambda>_. None) 7 StageSendStarted ex_send (seconds 2) ex_begun = (Inr (row_receipt ?s ex_sent_row), ?s)"
    by (simp add: ledger_transition_def transition_tx_def getOperationRow_def find_row_def begun ex_rows(2,3) patched ok
        fields update_rows_def Let_def replaceStrings_def sent)
  then show "ex_sending = ?s" and "ledger_transition 1 (\<lambda>_. None) 7 StageSendStarted ex_send (seconds 2) ex_begun =
    (Inr (row_receipt ex_sending ex_sent_row), ex_sending)" by (simp_all add: ex_sending_def)
qed

lemma ex_sending_inv: "ledger_inv ex_sending"
  using ledger_transition_ok(1) [OF ex_begun_inv, of 1 "\<lambda>_. None" 7 StageSendStarted ex_send "seconds 2"]
  unfolding ex_sending(1) snd_conv good_step_def by blast


lemma step_keeps_terminal:
  assumes "ledger_inv s" "not_purge c" "receipt_of i s = Some q" "stage_terminal (rc_stage q)"
  shows "receipt_of i (ledger_step s c) = Some q"
proof -
  obtain r where r: "find_row i s = Some r" "or_stage r = rc_stage q" using assms(3) by (auto simp: receipt_of_def)
  have closed: "validate_transition (or_stage r) dst \<noteq> None" for dst using assms(4) r by (simp add: validate_transition_def)
  show ?thesis
  proof (cases c)
    case (OpTransition p io j dst pt at)
    then show ?thesis
      using ledger_transition_other [OF assms(1), of i j p io dst pt at] assms(3)
        ledger_transition_refused(2) [OF r(1) closed, of i p io dst pt at]
      by (cases "j = i") (simp_all add: ledger_step_def)
  next
    case (OpRecoverOne p io j at)
    then show ?thesis using receipt_of_recover [OF assms(1), of i j p io at] assms(3,4) receipt_of_stage [OF assms(3)]
      by (cases "rc_stage q") (simp_all add: ledger_step_def)
  qed (use assms in \<open>simp_all add: ledger_step_def receipt_of_begin not_purge_def\<close>)
qed

text \<open>
  C16: a terminal receipt is final: whatever is called afterwards, in whatever interleaving and with
  whatever failures, the receipt read back is the same, until it is purged.
\<close>

theorem terminal_receipts_are_final:
  assumes "ledger_inv s" and "list_all not_purge cs"
    and "ledger_get (\<lambda>_. None) i s = Inr q" and "receipt_terminal q"
  shows "ledger_get (\<lambda>_. None) i (foldl ledger_step s cs) = Inr q"
proof -
  have "receipt_of i (foldl ledger_step s cs) = Some q"
    if "ledger_inv s" "list_all not_purge cs" "receipt_of i s = Some q" "stage_terminal (rc_stage q)" for s
    using that
  proof (induction cs arbitrary: s)
    case (Cons c cs)
    then show ?case using step_keeps_terminal [of s c i q] ledger_step_inv [of s c] by simp
  qed simp
  then show ?thesis using assms by (auto simp: ledger_get_ok receipt_terminal_def split: option.splits)
qed

definition ex_interrupted :: ledger where
  "ex_interrupted = snd (recover_one 2 (\<lambda>_. None) 7 (seconds 5) (crash 1 ex_sending))"

lemma ex_interrupted: "recover_one 2 (\<lambda>_. None) 7 (seconds 5) (crash 1 ex_sending) = (Inr 1, ex_interrupted)"
    "ex_interrupted = \<lparr>lg_pins = [], lg_rows = [interrupted_row (seconds 5) ex_sent_row], lg_signals = [], lg_warnings = [],
       lg_locks = [], lg_owners = []\<rparr>"
proof -
  have "check_row (interrupted_row (seconds 5) ex_sent_row)"
    by (simp add: check_row_def interrupted_row_def ex_sent_row_def known_stage_def known_delivery_def known_verification_def
        ex_row_def new_row_def ex_operation_def toMillis_eq)
  moreover have "crash 1 ex_sending = \<lparr>lg_pins = [], lg_rows = [ex_sent_row], lg_signals = [], lg_warnings = [],
       lg_locks = [], lg_owners = []\<rparr>" by (simp add: crash_def ex_sending(2))
  moreover have "or_id ex_sent_row = 7" "or_stage ex_sent_row = StageSendStarted" by (simp_all add: ex_sent_row_def ex_rows)
  ultimately show "ex_interrupted = \<lparr>lg_pins = [], lg_rows = [interrupted_row (seconds 5) ex_sent_row], lg_signals = [], lg_warnings = [],
       lg_locks = [], lg_owners = []\<rparr>"
    "recover_one 2 (\<lambda>_. None) 7 (seconds 5) (crash 1 ex_sending) = (Inr 1, ex_interrupted)"
    by (simp_all add: ex_interrupted_def recover_one_def Let_def update_rows_def)
qed

lemma ex_interrupted_inv: "ledger_inv ex_interrupted"
  unfolding ex_interrupted_def using recover_one_ok crash_ok [OF ex_sending_inv] by (simp add: good_step_def)

theorem terminal_receipts_are_final_witness:
  "\<exists>q. ledger_get (\<lambda>_. None) 7 ex_interrupted = Inr q \<and> rc_stage q = StageAmbiguous \<and>
     ledger_get (\<lambda>_. None) 7 (foldl ledger_step ex_interrupted [OpTransition 1 (\<lambda>_. None) 7 StageTransportAccepted ex_send 0]) = Inr q"
proof -
  let ?q = "row_receipt ex_interrupted (interrupted_row (seconds 5) ex_sent_row)"
  have "ledger_get (\<lambda>_. None) 7 ex_interrupted = Inr ?q"
    by (simp add: ledger_get_ok receipt_of_def find_row_def ex_interrupted(2) interrupted_row_def ex_sent_row_def ex_rows)
  moreover have stage: "rc_stage ?q = StageAmbiguous" by (simp add: interrupted_row_def)
  ultimately show ?thesis
    using terminal_receipts_are_final [OF ex_interrupted_inv, of "[OpTransition 1 (\<lambda>_. None) 7 StageTransportAccepted ex_send 0]" 7 ?q]
    by (auto simp: not_purge_def receipt_terminal_def)
qed

text \<open>
  C39: registering an operation twice never runs it twice: after a successful Begin, whatever is called
  in between, a Begin of the same ID and digest changes nothing and returns the current receipt as an
  existing one, and a Begin of the same ID with another digest changes nothing and is a conflict.
\<close>

theorem begin_is_idempotent:
  assumes "ledger_inv s" and "ledger_begin io q at s = (Inr (r, existing), s')" and "list_all not_purge cs"
    and "validate_request q' = None" and "rq_id q' = rq_id q"
  shows "let t = foldl ledger_step s' cs in \<exists>now. ledger_get (\<lambda>_. None) (rq_id q) t = Inr now \<and>
    ledger_begin (\<lambda>_. None) q' at' t =
      (if rq_digest q' = rq_digest q then Inr (now, True) else Inl [ErrConflict], t)"
proof -
  let ?t = "foldl ledger_step s' cs"
  have inv: "ledger_inv s'" using ledger_begin_ok [OF assms(1), of io q at] assms(2) by (simp add: good_step_def)
  obtain r0 where r0: "find_row (rq_id q) s' = Some r0" "or_digest r0 = rq_digest q"
    using assms(2) by (cases rule: ledger_begin_cases [of io q at s]) (auto simp: find_insert_op new_row_def)
  then obtain r1 where r1: "find_row (rq_id q) ?t = Some r1" "or_digest r1 = rq_digest q"
    using run_identity [OF inv assms(3), of "rq_id q" r0] by (auto simp: same_identity_def)
  then have "ledger_get (\<lambda>_. None) (rq_id q) ?t = Inr (row_receipt ?t r1)"
    by (simp add: ledger_get_ok receipt_of_def)
  moreover have "ledger_begin (\<lambda>_. None) q' at' ?t =
      (if rq_digest q' = rq_digest q then Inr (row_receipt ?t r1, True) else Inl [ErrConflict], ?t)"
    using r1 assms(4,5) by (auto simp: ledger_begin_def Let_def getOperationRow_def)
  ultimately show ?thesis by (simp add: Let_def)
qed

theorem begin_is_idempotent_witness:
  "\<exists>now. ledger_begin (\<lambda>_. None) ex_operation (seconds 9) (foldl ledger_step ex_begun
      [OpTransition 1 (\<lambda>_. None) 7 StageSendStarted ex_send (seconds 2)]) = (Inr (now, True), ex_sending) \<and>
    ledger_begin (\<lambda>_. None) (ex_operation\<lparr>rq_digest := 10\<rparr>) (seconds 9) (foldl ledger_step ex_begun
      [OpTransition 1 (\<lambda>_. None) 7 StageSendStarted ex_send (seconds 2)]) = (Inl [ErrConflict], ex_sending)"
proof -
  let ?c = "OpTransition 1 (\<lambda>_. None) 7 StageSendStarted ex_send (seconds 2)"
  have t: "foldl ledger_step ex_begun [?c] = ex_sending"
    by (simp only: ledger_step_def foldl.simps ledger_op.case ex_sending(1) snd_conv)
  have other: "validate_request (ex_operation\<lparr>rq_digest := 10\<rparr>) = None"
    using ex_operation_ok by (simp add: validate_request_None)
  have keeps: "list_all not_purge [?c]" by (simp add: not_purge_def)
  note again = begin_is_idempotent [OF empty_ledger_inv ex_begun keeps, unfolded Let_def t, of _ "seconds 9"]
  from again [OF ex_operation_ok] again [OF other] show ?thesis unfolding t by (auto simp: ex_operation_def)
qed

text \<open>
  a transition that succeeds records exactly the patch: the receipt it returns is the one read back,
  it carries the requested stage and every field of the patch with its signals and warnings in order,
  the operation's identity is as it was, and no other operation's receipt changes.
\<close>

theorem transition_records_the_patch:
  assumes "ledger_inv s" and "ledger_transition p io i dst pt at s = (Inr q, s')"
  shows "ledger_get (\<lambda>_. None) i s' = Inr q \<and> rc_stage q = dst \<and> rc_delivery q = pt_delivery pt \<and>
    rc_verification q = pt_verification pt \<and> rc_claim q = pt_claim pt \<and> rc_retry_safe q = pt_retry_safe pt \<and>
    rc_error_kind q = pt_error_kind pt \<and> rc_warnings q = pt_warnings pt \<and> rc_updated q = normalizeTime at \<and>
    (\<exists>old. ledger_get (\<lambda>_. None) i s = Inr old \<and> rc_request q = rc_request old \<and> rc_created q = rc_created old \<and>
       validate_transition (rc_stage old) dst = None) \<and>
    (\<forall>j. j = i \<or> ledger_get (\<lambda>_. None) j s' = ledger_get (\<lambda>_. None) j s)"
proof -
  obtain r r' where *: "find_row i s = Some r" "validate_patch (or_stage r) dst pt = None"
    "r' = patched_row (row_receipt s r) dst pt (normalizeTime at) r" "check_row r'" "find_row i s' = Some r'"
    "q = row_receipt s' r'" "readStrings i (lg_signals s') = vf_signals (pt_verification pt)"
    "readStrings i (lg_warnings s') = pt_warnings pt"
    using assms by (rule ledger_transition_Inr)
  have id_: "or_id r' = i" using find_row_Some [OF *(5)] by simp
  have "ledger_get (\<lambda>_. None) i s' = Inr q" using * by (simp add: ledger_get_ok receipt_of_def)
  moreover have "rc_stage q = dst" "rc_delivery q = pt_delivery pt" "rc_claim q = pt_claim pt"
      "rc_retry_safe q = pt_retry_safe pt" "rc_error_kind q = pt_error_kind pt"
      "rc_updated q = normalizeTime at"
    by (simp_all add: *(6) row_receipt_def) (simp_all add: *(3) patched_row_def fromMillis_toMillis)
  moreover have "rc_verification q = pt_verification pt" "rc_warnings q = pt_warnings pt"
    using *(7,8) id_ by (simp_all add: *(6) row_receipt_def) (simp add: *(3) patched_row_def)
  moreover have "rc_request q = rc_request (row_receipt s r)" "rc_created q = rc_created (row_receipt s r)"
    by (simp_all add: *(6) row_receipt_def) (simp_all add: *(3) patched_row_def)
  moreover have "ledger_get (\<lambda>_. None) i s = Inr (row_receipt s r)" using *(1) by (simp add: ledger_get_ok receipt_of_def)
  moreover have "validate_transition (or_stage r) dst = None" using *(2) by (rule validate_patch_transition)
  moreover have "j = i \<or> ledger_get (\<lambda>_. None) j s' = ledger_get (\<lambda>_. None) j s" for j
    using ledger_transition_other [OF assms(1), of j i p io dst pt at] assms(2) by (cases "j = i") (simp_all add: ledger_get_ok)
  ultimately show ?thesis by simp
qed

theorem transition_records_the_patch_witness:
  "\<exists>q. ledger_get (\<lambda>_. None) 7 ex_sending = Inr q \<and> rc_stage q = StageSendStarted \<and> rc_delivery q = DeliveryPossiblySent"
  using transition_records_the_patch [OF ex_begun_inv ex_sending(1)] by (simp add: ex_send_def)

text \<open>What could end a send that process \<open>p\<close> is carrying out.\<close>

definition disturbs :: "proc \<Rightarrow> uuid \<Rightarrow> ledger_op \<Rightarrow> bool" where
  "disturbs p i c = (case c of OpTransition _ _ j _ _ _ \<Rightarrow> j = i | OpClose q _ \<Rightarrow> q = p | OpCrash q \<Rightarrow> q = p | _ \<Rightarrow> False)"

lemma ledger_transition_owner:
  assumes "ledger_inv s" "(i, p) \<in> set (lg_owners s)" "j \<noteq> i"
  shows "(i, p) \<in> set (lg_owners (snd (ledger_transition p' io j dst pt at s)))"
proof (cases rule: ledger_transition_cases [of p' io j dst pt at s])
  case (ran s0 res s1)
  have "ledger_inv s0" using ran(1) assms acquire_inv by blast
  then have "lg_owners s1 = lg_owners s0" using transition_tx_ok(4) [of s0 io j dst pt at] ran(2) by simp
  then show ?thesis using ran(1,4) assms(2,3) by (auto simp: release_owner_def)
qed (use assms in simp)

lemma readStrings_filter: "i \<notin> S \<Longrightarrow> readStrings i (filter (\<lambda>(k, _). k \<notin> S) t) = readStrings i t"
proof -
  assume "i \<notin> S"
  then have "filter (\<lambda>(j, _). j = i) (filter (\<lambda>(k, _). k \<notin> S) t) = filter (\<lambda>(j, _). j = i) t"
    unfolding filter_filter by (intro filter_cong) auto
  then show ?thesis by (simp add: readStrings_def)
qed

lemma receipt_of_purge:
  assumes "distinct (map or_id (lg_rows s))" "find_row i s = Some r" "\<not> purged cutoff r"
  shows "receipt_of i (snd (purge_terminal_before io cutoff s)) = receipt_of i s"
proof -
  have "i \<notin> or_id ` {r \<in> set (lg_rows s). purged cutoff r}"
  proof
    assume "i \<in> or_id ` {r \<in> set (lg_rows s). purged cutoff r}"
    then obtain r0 where "r0 \<in> set (lg_rows s)" "or_id r0 = i" "purged cutoff r0" by blast
    then have "find_row i s = Some r0" by (simp add: find_row_mem [OF assms(1)])
    with assms(2,3) \<open>purged cutoff r0\<close> show False by simp
  qed
  then have "receipt_of i (purge_rows cutoff s) = receipt_of i s"
    using find_row_purge [OF assms(1), of i cutoff] assms(2,3)
    by (intro receipt_of_cong) (simp_all add: purge_rows_def readStrings_filter)
  then show ?thesis by (simp add: purge_terminal_before_eq split: option.split)
qed

lemma purge_locks [simp]:
  "lg_owners (snd (purge_terminal_before io cutoff s)) = lg_owners s"
  "lg_locks (snd (purge_terminal_before io cutoff s)) = lg_locks s"
  by (simp_all add: purge_terminal_before_eq purge_rows_def split: option.split)

lemma begin_locks [simp]:
  "lg_owners (snd (ledger_begin io q at s)) = lg_owners s" "lg_locks (snd (ledger_begin io q at s)) = lg_locks s"
  by (cases rule: ledger_begin_cases [of io q at s]; simp add: insert_op_def)+

lemma leave_owners [simp]:
  "lg_owners (store_close p io s) = filter (\<lambda>(_, q). q \<noteq> p) (lg_owners s)"
  "lg_owners (crash p s) = filter (\<lambda>(_, q). q \<noteq> p) (lg_owners s)"
  by (simp_all add: store_close_def crash_def)

lemma undisturbed_step:
  assumes inv: "ledger_inv s" and own: "(i, p) \<in> set (lg_owners s)" and q: "receipt_of i s = Some q"
    and open_: "\<not> stage_terminal (rc_stage q)" and calm: "\<not> disturbs p i c"
  shows "(i, p) \<in> set (lg_owners (ledger_step s c)) \<and> receipt_of i (ledger_step s c) = Some q"
proof -
  obtain r where r: "find_row i s = Some r" "or_stage r = rc_stage q" using q by (auto simp: receipt_of_def)
  have dist: "distinct (map or_id (lg_rows s))" using inv by (simp add: ledger_inv_def)
  show ?thesis
  proof (cases c)
    case (OpTransition p' io j dst pt at)
    then show ?thesis using calm ledger_transition_owner [OF inv own, of j p' io dst pt at]
      ledger_transition_other [OF inv, of i j p' io dst pt at] q by (simp add: disturbs_def ledger_step_def)
  next
    case (OpRecoverOne p' io j at)
    have "i \<in> fst ` set (lg_locks s)" using own inv by (force simp: ledger_inv_def locks_ok_def)
    then show ?thesis using OpRecoverOne receipt_of_recover [OF inv, of i j p' io at] recover_one_frame [of p' io j at s] own q
      by (simp add: ledger_step_def)
  next
    case (OpPurge io cutoff)
    have "check_row r" using row_of_mem [OF inv r(1)] by simp
    then have "\<not> purged cutoff r" using open_ r(2)
      by (cases "or_stage r") (auto simp: check_row_def purged_def known_stage_def)
    then show ?thesis using OpPurge receipt_of_purge [OF dist r(1)] own q by (simp add: ledger_step_def)
  qed (use own q calm in \<open>simp_all add: ledger_step_def receipt_of_begin disturbs_def\<close>)
qed

text \<open>
  C6: a live sender is never declared dead: once a process has marked an operation as send_started,
  no recovery, purge, close or crash of another process, and no call on another operation, changes
  its receipt; only the operation's own next transition or the end of that process does.
\<close>

theorem live_send_is_not_recovered:
  assumes "ledger_inv s" and "mark_send_started p io i at s = (Inr q, s')"
    and "list_all (\<lambda>c. \<not> disturbs p i c) cs"
  shows "ledger_get (\<lambda>_. None) i (foldl ledger_step s' cs) = Inr q"
proof -
  let ?mark = "ledger_transition p io i StageSendStarted"
  obtain pt where t: "?mark pt at s = (Inr q, s')" using assms(2) by (auto simp: mark_send_started_def)
  obtain r r' where *: "r' = patched_row (row_receipt s r) StageSendStarted pt (normalizeTime at) r"
    "find_row i s' = Some r'" "q = row_receipt s' r'"
    "(i, p) \<in> set (lg_owners s')"
    by (rule ledger_transition_Inr [OF assms(1) t]) blast
  have q: "receipt_of i s' = Some q" "\<not> stage_terminal (rc_stage q)"
    using *(2) by (simp_all add: receipt_of_def *(3)) (simp add: *(1) patched_row_def)
  have inv: "ledger_inv s'" using ledger_transition_ok(1) [OF assms(1), of p io i StageSendStarted pt at] t
    by (simp add: good_step_def)
  have "receipt_of i (foldl ledger_step s cs) = Some q"
    if "ledger_inv s" "(i, p) \<in> set (lg_owners s)" "receipt_of i s = Some q" "list_all (\<lambda>c. \<not> disturbs p i c) cs" for s
    using that
  proof (induction cs arbitrary: s)
    case (Cons c cs)
    then show ?case using undisturbed_step [of s i p q c] q(2) ledger_step_inv [of s c] by simp
  qed simp
  from this [OF inv *(4) q(1) assms(3)] show ?thesis by (simp add: ledger_get_ok)
qed

lemma ex_mark: "mark_send_started 1 (\<lambda>_. None) 7 (seconds 2) ex_begun = (Inr (row_receipt ex_sending ex_sent_row), ex_sending)"
  using ex_sending(1) by (simp only: mark_send_started_def ex_send_def)

theorem live_send_is_not_recovered_witness:
  "ledger_get (\<lambda>_. None) 7 (foldl ledger_step ex_sending
      [OpCrash 2, OpRecoverOne 2 (\<lambda>_. None) 7 (seconds 9), OpPurge (\<lambda>_. None) (seconds 9)]) =
    Inr (row_receipt ex_sending ex_sent_row)"
  by (rule live_send_is_not_recovered [OF ex_begun_inv ex_mark]) (simp add: disturbs_def)

text \<open>The rows a recovery at time \<open>at\<close> finds abandoned.\<close>

definition abandoned :: "ledger \<Rightarrow> op_row \<Rightarrow> bool" where
  "abandoned s r \<longleftrightarrow> or_stage r = StageSendStarted \<and> or_id r \<notin> fst ` set (lg_locks s)"

lemma check_interrupted:
  "check_row r \<Longrightarrow> or_stage r = StageSendStarted \<Longrightarrow> check_row (interrupted_row at r) \<longleftrightarrow> or_created r \<le> toMillis at"
  by (auto simp: check_row_def interrupted_row_def known_stage_def known_delivery_def known_verification_def)

lemma recover_one_ok_eq:
  assumes "ledger_inv s" "find_row i s = Some r" "or_stage r = StageSendStarted"
  shows "recover_one p (\<lambda>_. None) i at s =
    (if i \<in> fst ` set (lg_locks s) then (Inr 0, s)
     else if or_created r \<le> toMillis at then (Inr 1, set_row (interrupted_row at r) s)
     else (Inl [ErrConstraint], s))"
proof -
  have id_: "or_id (interrupted_row at r) = i" using find_row_Some [OF assms(2)] by (simp add: interrupted_row_def)
  have dist: "distinct (map or_id (lg_rows s))" using assms by (simp add: ledger_inv_def)
  have "check_row r" using row_of_mem [OF assms(1,2)] by simp
  then show ?thesis
    using update_rows_hit [of s i r StageSendStarted "interrupted_row at", OF dist assms(2,3) id_]
      check_interrupted [of r at] assms(3)
    by (simp add: recover_one_def Let_def)
qed

definition mark_abandoned :: "uuid set \<Rightarrow> time \<Rightarrow> ledger \<Rightarrow> ledger" where
  "mark_abandoned A at s = s\<lparr>lg_rows :=
     map (\<lambda>r. if or_id r \<in> A \<and> abandoned s r then interrupted_row at r else r) (lg_rows s)\<rparr>"

lemma mark_abandoned_frame [simp]:
  "lg_locks (mark_abandoned A at s) = lg_locks s" "lg_owners (mark_abandoned A at s) = lg_owners s"
  by (simp_all add: mark_abandoned_def)






lemma recover_loop_behind:
  assumes "ledger_inv s" "distinct is'"
    and "\<And>i. i \<in> set is' \<Longrightarrow> \<exists>r. find_row i s = Some r \<and> or_stage r = StageSendStarted"
    and "i \<in> set is'" "find_row i s = Some r" "i \<notin> fst ` set (lg_locks s)" "toMillis at < or_created r"
  shows "snd (fst (recover_loop p (\<lambda>_ _. None) at is' n s)) = Some [ErrConstraint]"
  using assms
proof (induction is' arbitrary: n s)
  case (Cons j is')
  obtain x where x: "find_row j s = Some x" "or_stage x = StageSendStarted" using Cons.prems(3) [of j] by auto
  have id_: "or_id (interrupted_row at x) = j" using find_row_Some [OF x(1)] by (simp add: interrupted_row_def)
  note one = recover_one_ok_eq [OF Cons.prems(1) x, of p at]
  show ?case
  proof (cases "j = i")
    case True
    then show ?thesis using one x(1) Cons.prems(5-7) by simp
  next
    case False
    then have i: "i \<in> set is'" using Cons.prems(4) by simp
    let ?s1 = "set_row (interrupted_row at x) s"
    have s1: "\<exists>r. find_row k ?s1 = Some r \<and> or_stage r = StageSendStarted" if "k \<in> set is'" for k
      using Cons.prems(3) [of k] Cons.prems(2) that id_ by (auto simp: find_set_row)
    have "ledger_inv ?s1" if "or_created x \<le> toMillis at"
      using that check_interrupted [of x at] row_of_mem [OF Cons.prems(1) x(1)] x(2) interrupted_row_ok [OF x(2)]
      by (intro ledger_inv_set_row [OF Cons.prems(1)]) auto
    then have "snd (fst (recover_loop p (\<lambda>_ _. None) at is' m ?s1)) = Some [ErrConstraint]"
      if "or_created x \<le> toMillis at" for m
      using that False Cons.prems s1 i id_ by (intro Cons.IH) (auto simp: find_set_row)
    moreover have "snd (fst (recover_loop p (\<lambda>_ _. None) at is' n s)) = Some [ErrConstraint]"
      using Cons.prems i by (intro Cons.IH) auto
    ultimately show ?thesis using one by simp
  qed
qed simp

text \<open>
  recovery does not survive a clock that runs behind: if an abandoned send was registered at a later
  time than the recovery's clock shows, the update violates the schema's updated_at constraint, so the
  recovery fails although no call fails, and the store cannot be opened at that time.
\<close>

theorem clock_behind_blocks_open:
  assumes "ledger_inv s" and "find_row i s = Some r" and "abandoned s r" and "toMillis at < or_created r"
  shows "fst (store_open p (\<lambda>_. None) (\<lambda>_ _. None) at s) = Some [ErrConstraint]"
proof -
  let ?ids = "map or_id (filter (\<lambda>r. or_stage r = StageSendStarted) (lg_rows s))"
  have dist: "distinct (map or_id (lg_rows s))" using assms by (simp add: ledger_inv_def)
  have id_: "r \<in> set (lg_rows s)" "or_id r = i" using find_row_Some [OF assms(2)] by auto
  have "snd (fst (recover_loop p (\<lambda>_ _. None) at ?ids 0 s)) = Some [ErrConstraint]"
  proof (rule recover_loop_behind [OF assms(1)])
    show "distinct ?ids" using dist by (rule distinct_map_filter)
    show "\<exists>r. find_row k s = Some r \<and> or_stage r = StageSendStarted" if "k \<in> set ?ids" for k
      using that find_row_mem [OF dist] by auto
    show "i \<in> set ?ids" using id_ assms(3) by (auto simp: abandoned_def)
    show "i \<notin> fst ` set (lg_locks s)" using id_ assms(3) by (simp add: abandoned_def)
  qed (use assms in simp_all)
  then show ?thesis by (simp add: store_open_def recover_interrupted_def case_prod_unfold Let_def)
qed

theorem clock_behind_blocks_open_witness:
  "fst (store_open 2 (\<lambda>_. None) (\<lambda>_ _. None) 0 (crash 1 ex_sending)) = Some [ErrConstraint]"
proof -
  have "ledger_inv (crash 1 ex_sending)" using crash_ok [OF ex_sending_inv] by (simp add: good_step_def)
  moreover have "find_row 7 (crash 1 ex_sending) = Some ex_sent_row" "or_created ex_sent_row = 1000 - unix_epoch_ms"
    "abandoned (crash 1 ex_sending) ex_sent_row"
    by (simp_all add: find_row_def crash_def ex_sending(2) ex_sent_row_def ex_rows abandoned_def)
  ultimately show ?thesis by (intro clock_behind_blocks_open [where i = 7 and r = ex_sent_row]) (simp_all add: toMillis_eq)
qed

text \<open>
  only a send in send_started is ever recovered: an operation whose process ended after the transport
  accepted it keeps its non-terminal receipt under any calls but its own transitions, through every
  recovery and every retention purge.
\<close>

theorem accepted_operations_are_never_recovered:
  assumes "ledger_inv s" and "ledger_get (\<lambda>_. None) i s = Inr q"
    and "rc_stage q \<in> {StageTransportAccepted, StageObservationStarted, StageStateObserved}"
    and "list_all (\<lambda>c. case c of OpTransition _ _ j _ _ _ \<Rightarrow> j \<noteq> i | _ \<Rightarrow> True) cs"
  shows "ledger_get (\<lambda>_. None) i (foldl ledger_step s cs) = Inr q"
proof -
  have "receipt_of i (ledger_step s c) = Some q"
    if inv: "ledger_inv s" and q: "receipt_of i s = Some q"
      and calm: "case c of OpTransition _ _ j _ _ _ \<Rightarrow> j \<noteq> i | _ \<Rightarrow> True" for s c
  proof (cases c)
    case (OpTransition p io j dst pt at)
    then show ?thesis using calm ledger_transition_other [OF inv, of i j p io dst pt at] q by (simp add: ledger_step_def)
  next
    case (OpRecoverOne p io j at)
    then show ?thesis using receipt_of_recover [OF inv, of i j p io at] receipt_of_stage [OF q] assms(3) q
      by (auto simp: ledger_step_def)
  next
    case (OpPurge io cutoff)
    obtain r where r: "find_row i s = Some r" "or_stage r = rc_stage q" using q by (auto simp: receipt_of_def)
    have "check_row r" using row_of_mem [OF inv r(1)] by simp
    then have "\<not> purged cutoff r" using assms(3) r(2) by (auto simp: check_row_def purged_def)
    moreover have "distinct (map or_id (lg_rows s))" using inv by (simp add: ledger_inv_def)
    ultimately show ?thesis using OpPurge receipt_of_purge [OF _ r(1)] q by (simp add: ledger_step_def)
  qed (use q in \<open>simp_all add: ledger_step_def receipt_of_begin\<close>)
  note step = this
  have "receipt_of i (foldl ledger_step s cs) = Some q"
    if "ledger_inv s" "receipt_of i s = Some q"
      "list_all (\<lambda>c. case c of OpTransition _ _ j _ _ _ \<Rightarrow> j \<noteq> i | _ \<Rightarrow> True) cs" for s
    using that
  proof (induction cs arbitrary: s)
    case (Cons c cs)
    have "receipt_of i (ledger_step s c) = Some q" using Cons.prems by (intro step) simp_all
    then show ?case using Cons.IH [of "ledger_step s c"] Cons.prems ledger_step_inv [of s c] by simp
  qed simp
  then show ?thesis using assms by (auto simp: ledger_get_ok split: option.splits)
qed

definition ex_accept :: patch where
  "ex_accept = ex_send\<lparr>pt_delivery := DeliveryTransportAccepted\<rparr>"

definition ex_accepted_row :: op_row where
  "ex_accepted_row = ex_sent_row\<lparr>or_stage := StageTransportAccepted, or_delivery := DeliveryTransportAccepted,
     or_updated := 3000 - unix_epoch_ms\<rparr>"

definition ex_accepted :: ledger where
  "ex_accepted = \<lparr>lg_pins = [], lg_rows = [ex_accepted_row], lg_signals = [], lg_warnings = [],
     lg_locks = [(7, 1)], lg_owners = [(7, 1)]\<rparr>"

lemma ex_accepted: "ledger_transition 1 (\<lambda>_. None) 7 StageTransportAccepted ex_accept (seconds 3) ex_sending =
    (Inr (row_receipt ex_accepted ex_accepted_row), ex_accepted)"
proof -
  have sent: "or_id ex_sent_row = 7" "or_id ex_accepted_row = 7" "or_stage ex_sent_row = StageSendStarted"
    by (simp_all add: ex_sent_row_def ex_accepted_row_def ex_rows)
  have patched: "patched_row (row_receipt ex_sending ex_sent_row) StageTransportAccepted ex_accept (normalizeTime 3000000000) ex_sent_row = ex_accepted_row"
    unfolding patched_row_def toMillis_normalizeTime
    by (simp add: ex_send_def ex_accept_def ex_sent_row_def ex_accepted_row_def toMillis_eq nullableString_def ex_row_def
        new_row_def timeFromNullableMillis_def nullableMillis_def fromMillis_def)
  have fields: "validate_patch StageSendStarted StageTransportAccepted ex_accept = None"
    "vf_signals (pt_verification ex_accept) = []" "pt_warnings ex_accept = []"
    by (simp_all add: validate_patch_def validate_transition_def ex_send_def ex_accept_def known_verification_def TerminalClaimNotProven_def)
  have ok: "check_row ex_accepted_row"
    by (simp add: check_row_def ex_accepted_row_def ex_sent_row_def known_stage_def known_delivery_def known_verification_def
        ex_row_def new_row_def ex_operation_def toMillis_eq)
  have rows: "lg_rows ex_sending = [ex_sent_row]" "lg_signals ex_sending = []" "lg_warnings ex_sending = []"
    by (simp_all add: ex_sending(2))
  have upd: "ex_sending\<lparr>lg_rows := [ex_accepted_row], lg_signals := [], lg_warnings := []\<rparr> = ex_accepted"
    by (simp add: ex_sending(2) ex_accepted_def)
  have found: "find_row 7 ex_accepted = Some ex_accepted_row" by (simp add: find_row_def ex_accepted_def sent)
  show ?thesis
    by (simp add: ledger_transition_def transition_tx_def getOperationRow_def find_row_def rows sent patched ok
        fields update_rows_def Let_def replaceStrings_def upd found [unfolded find_row_def])
qed

lemma ex_accepted_inv: "ledger_inv ex_accepted"
  using ledger_transition_ok(1) [OF ex_sending_inv, of 1 "\<lambda>_. None" 7 StageTransportAccepted ex_accept "seconds 3"]
  unfolding ex_accepted snd_conv good_step_def by blast

theorem accepted_operations_are_never_recovered_witness:
  "ledger_get (\<lambda>_. None) 7 (foldl ledger_step ex_accepted
     [OpCrash 1, OpRecoverOne 2 (\<lambda>_. None) 7 (hours 1), OpPurge (\<lambda>_. None) (hours 9000)]) =
   Inr (row_receipt ex_accepted ex_accepted_row)"
proof (rule accepted_operations_are_never_recovered [OF ex_accepted_inv])
  show "ledger_get (\<lambda>_. None) 7 ex_accepted = Inr (row_receipt ex_accepted ex_accepted_row)"
    by (simp add: ledger_get_ok receipt_of_def find_row_def ex_accepted_def ex_accepted_row_def ex_sent_row_def ex_rows)
qed (simp_all add: ex_accepted_row_def)

lemma find_pin_step:
  assumes "ledger_inv s" "find_pin a s = Some r"
  shows "find_pin a (ledger_step s c) = Some r"
proof -
  have same: "find_pin a s' = Some r" if "lg_pins s' = lg_pins s" for s' using that assms(2) by (simp add: find_pin_def)
  show ?thesis
  proof (cases c)
    case (OpPin io pin at)
    then show ?thesis using assms(2)
      by (cases rule: pin_identity_cases [of io pin at s])
        (auto simp: ledger_step_def find_pin_def insert_pin_def find_append)
  next
    case (OpBegin io q at)
    then show ?thesis
      by (cases rule: ledger_begin_cases [of io q at s]) (auto simp: ledger_step_def insert_op_def intro!: same)
  next
    case (OpTransition p io i dst pt at)
    have tx: "lg_pins (snd (transition_tx io i dst pt at s0)) = lg_pins s0" for s0
      by (simp add: transition_tx_def update_rows_def Let_def split: option.split sum.split)
    have "lg_pins (snd (ledger_transition p io i dst pt at s)) = lg_pins s"
    proof (cases rule: ledger_transition_cases [of p io i dst pt at s])
      case (ran s0 res s1)
      then show ?thesis using tx [of s0] by auto
    qed simp
    then show ?thesis using OpTransition by (intro same) (simp add: ledger_step_def)
  next
    case (OpRecoverOne p io i at)
    then show ?thesis using recover_one_frame [of p io i at s] by (intro same) (simp add: ledger_step_def)
  qed (auto simp: ledger_step_def purge_terminal_before_eq purge_rows_def store_close_def crash_def intro!: same split: option.split)
qed

text \<open>
  a pinned identity is never rebound: once an alias is pinned to an origin and a device, whatever is
  called afterwards, the alias verifies with that origin and device and returns the same pin, with any
  other origin or device it is an identity mismatch, and no call ever pins another alias to that
  device or that origin.
\<close>

theorem pinned_identity_is_never_rebound:
  assumes "ledger_inv s" and "pin_identity io pin at s = (Inr (stored, existing), s')"
  shows "let t = foldl ledger_step s' cs in
    (\<forall>origin device. verify_identity (\<lambda>_. None) (ip_alias pin) origin device t =
       (if origin = ip_origin pin \<and> device = ip_device pin then Inr stored else Inl [ErrDeviceIdentityMismatch])) \<and>
    (\<forall>a origin device. a = ip_alias pin \<or> (origin \<noteq> ip_origin pin \<and> device \<noteq> ip_device pin) \<or>
       isl (verify_identity (\<lambda>_. None) a origin device t))"
proof -
  let ?t = "foldl ledger_step s' cs"
  have inv: "ledger_inv s'" using pin_identity_ok [OF assms(1), of io pin at] assms(2) by (simp add: good_step_def)
  obtain r where r: "find_pin (ip_alias pin) s' = Some r" "ir_origin r = ip_origin pin" "ir_device r = ip_device pin"
      "stored = pin_of_row r"
    using assms(2)
  proof (cases rule: pin_identity_cases [of io pin at s])
    case pinned
    then have "find (\<lambda>r. ir_alias r = ip_alias pin) (lg_pins s) = None" by (auto simp: find_None_iff list_all_iff)
    then show thesis using pinned(5) assms(2) that [of "pin_row pin at"]
      by (auto simp: find_pin_def insert_pin_def find_append pin_row_def)
  qed auto
  have t: "ledger_inv ?t \<and> find_pin (ip_alias pin) ?t = Some r"
    using inv r(1)
  proof (induction cs arbitrary: s')
    case (Cons c cs)
    then show ?case using find_pin_step [of s' "ip_alias pin" r c] ledger_step_inv [of s' c] by simp
  qed simp
  then have ok: "pins_ok (lg_pins ?t)" by (simp add: ledger_inv_def)
  have other: "ir_origin x \<noteq> ip_origin pin \<and> ir_device x \<noteq> ip_device pin"
    if "find_pin a ?t = Some x" "a \<noteq> ip_alias pin" for a x
  proof -
    have "x \<in> set (lg_pins ?t)" "r \<in> set (lg_pins ?t)" "x \<noteq> r"
      using that t find_pin_mem [OF ok] by auto
    then show ?thesis using ok r(2,3) unfolding pins_ok_def distinct_map inj_on_def by metis
  qed
  have "verify_identity (\<lambda>_. None) (ip_alias pin) origin device ?t =
       (if origin = ip_origin pin \<and> device = ip_device pin then Inr stored else Inl [ErrDeviceIdentityMismatch])"
    for origin device
    using t r by (auto simp: verify_identity_def scanIdentity_eq pin_of_row_def)
  moreover have "a = ip_alias pin \<or> (origin \<noteq> ip_origin pin \<and> device \<noteq> ip_device pin) \<or>
       isl (verify_identity (\<lambda>_. None) a origin device ?t)" for a origin device
    using other [of a] by (auto simp: verify_identity_def scanIdentity_eq pin_of_row_def split: option.splits)
  ultimately show ?thesis unfolding Let_def by blast
qed

definition ex_pin :: identity_pin where
  "ex_pin = \<lparr>ip_alias = ''lab'', ip_origin = ''https://kvm'', ip_device = ''kvm-1'', ip_created = 0, ip_updated = 0\<rparr>"

theorem pinned_identity_is_never_rebound_witness:
  "\<exists>stored s. pin_identity (\<lambda>_. None) ex_pin (seconds 1) empty_ledger = (Inr (stored, False), s) \<and>
     verify_identity (\<lambda>_. None) ''lab'' ''https://kvm'' ''kvm-2''
       (foldl ledger_step s [OpPin (\<lambda>_. None) (ex_pin\<lparr>ip_device := ''kvm-2''\<rparr>) (seconds 2)]) = Inl [ErrDeviceIdentityMismatch]"
proof -
  obtain stored s where s: "pin_identity (\<lambda>_. None) ex_pin (seconds 1) empty_ledger = (Inr (stored, False), s)"
    by (simp add: pin_identity_def ex_pin_def empty_ledger_def scanIdentity_def Let_def)
  let ?c = "OpPin (\<lambda>_. None) (ex_pin\<lparr>ip_device := ''kvm-2''\<rparr>) (seconds 2)"
  have "ip_alias ex_pin = ''lab''" "ip_device ex_pin = ''kvm-1''" by (simp_all add: ex_pin_def)
  then have "verify_identity (\<lambda>_. None) ''lab'' ''https://kvm'' ''kvm-2'' (foldl ledger_step s [?c]) = Inl [ErrDeviceIdentityMismatch]"
    using pinned_identity_is_never_rebound [OF empty_ledger_inv s, of "[?c]", unfolded Let_def] by simp
  with s show ?thesis by blast
qed

text \<open>
  the retention purge removes exactly the terminal receipts whose terminal time, to the millisecond,
  is before the cutoff: such a receipt is gone, and every other receipt reads back as before.
\<close>

theorem purge_removes_exactly_the_old_terminal:
  assumes "ledger_inv s" and "purge_terminal_before (\<lambda>_. None) cutoff s = (Inr n, s')"
  shows "ledger_get (\<lambda>_. None) i s' =
    (case ledger_get (\<lambda>_. None) i s of Inl e \<Rightarrow> Inl e
     | Inr q \<Rightarrow> if receipt_terminal q \<and> rc_terminal q < normalizeTime cutoff then Inl [ErrNotFound] else Inr q)"
proof -
  have dist: "distinct (map or_id (lg_rows s))" using assms by (simp add: ledger_inv_def)
  have s': "s' = purge_rows cutoff s" using assms(2) by (simp add: purge_terminal_before_eq)
  show ?thesis
  proof (cases "find_row i s")
    case None
    then show ?thesis using find_row_purge [OF dist, of i cutoff] by (simp add: ledger_get_ok receipt_of_def s')
  next
    case (Some r)
    have row: "check_row r" using row_of_mem [OF assms(1) Some] by simp
    have lt: "fromMillis t < normalizeTime cutoff \<longleftrightarrow> t < toMillis cutoff" for t
      by (simp add: fromMillis_toMillis [symmetric]) (simp add: fromMillis_def)
    have terminal: "stage_terminal (or_stage r) \<longleftrightarrow> or_terminal r \<noteq> None"
      using row by (cases "or_stage r") (auto simp: check_row_def known_stage_def)
    have purged_iff: "purged cutoff r \<longleftrightarrow> receipt_terminal (row_receipt s r) \<and> rc_terminal (row_receipt s r) < normalizeTime cutoff"
      using terminal lt
      by (cases "or_terminal r") (auto simp: purged_def receipt_terminal_def row_receipt_def timeFromNullableMillis_def)
    show ?thesis
    proof (cases "purged cutoff r")
      case True
      then show ?thesis using find_row_purge [OF dist, of i cutoff] Some purged_iff
        by (simp add: ledger_get_ok receipt_of_def s')
    next
      case False
      from receipt_of_purge [OF dist Some this, of "\<lambda>_. None"]
      have "receipt_of i s' = receipt_of i s" by (simp add: assms(2))
      moreover have "receipt_of i s = Some (row_receipt s r)" by (simp add: receipt_of_def Some)
      ultimately show ?thesis using False purged_iff by (simp add: ledger_get_ok)
    qed
  qed
qed

theorem purge_removes_exactly_the_old_terminal_witness:
  "\<exists>n s'. purge_terminal_before (\<lambda>_. None) (seconds 9) ex_interrupted = (Inr n, s') \<and>
     ledger_get (\<lambda>_. None) 7 s' = Inl [ErrNotFound]"
proof -
  obtain n s' where p: "purge_terminal_before (\<lambda>_. None) (seconds 9) ex_interrupted = (Inr n, s')"
    by (simp add: purge_terminal_before_eq)
  have "ledger_get (\<lambda>_. None) 7 ex_interrupted = Inr (row_receipt ex_interrupted (interrupted_row (seconds 5) ex_sent_row))"
    by (simp add: ledger_get_ok receipt_of_def find_row_def ex_interrupted(2) interrupted_row_def ex_sent_row_def ex_rows)
  with purge_removes_exactly_the_old_terminal [OF ex_interrupted_inv p, of 7] p show ?thesis
    by (simp add: receipt_terminal_def row_receipt_def interrupted_row_def timeFromNullableMillis_def fromMillis_def
        toMillis_eq normalizeTime_def)
qed

end
