(* ===== verification/Automation.thy ===== *)
theory Automation
  imports Automation_Rules Ledger
begin

text \<open>
  \<open>internal/automation/service.go\<close>: the application service. Every call is a function on one world:
  the durable ledger, the registry of actors, the consumed nonces and the commands handed to sessions.
  \<open>env\<close> scripts one answer per step; before each step other callers and other processes do whatever
  \<open>sa_others\<close> says to the ledger, the registry and the nonces. \<open>sw_trace\<close> and \<open>sw_sent\<close> are
  written only: all calls the ledger served, and every command handed to a session with the operation it
  was handed over for. A session is known by how it answers: \<open>sa_rpc\<close> for a remote call, \<open>sa_run\<close>
  for a batch, and whether it keeps its last capture (\<open>sa_capture\<close>). What the service does to a receipt after the caller's context ended runs on a context of
  its own, so it is the same whether or not that context ended.
\<close>

section \<open>The world\<close>

datatype sent_command = SentPower string | SentInput batch | SentRelease

record svc_world =
  sw_ledger :: ledger
  sw_trace :: "ledger_op list"
  sw_registry :: registry
  sw_nonces :: nonces
  sw_sent :: "(uuid \<times> device_id \<times> sent_command) list"
  sw_tick :: nat

datatype other_op =
    OtherLedger ledger_op
  | OtherRegistry reg_op
  | OtherNonce time uuid time

text \<open>
  How a session answers \<open>RunActions(ctx, batch, start)\<close>: without reaching a first frame, so without
  calling \<open>start\<close>; or by calling \<open>start\<close> before its first frame, with one outcome when that
  succeeds and another, after no frame at all, when it fails. \<open>ReleaseInput\<close> likewise, its receipt unused.
\<close>

datatype run_script =
    RunQuiet batch_receipt "svc_errors option"
  | RunSends "batch_receipt \<times> svc_errors option" "svc_errors \<Rightarrow> batch_receipt \<times> svc_errors option"

record svc_answer =
  sa_others :: "other_op list"
  sa_clock :: time
  sa_later :: time
  sa_io :: faults
  sa_early :: bool
  sa_joined :: "svc_errors option"
  sa_uuid :: uuid
  sa_runtime :: bool
  sa_screen :: bool
  sa_rpc :: "svc_errors option"
  sa_extension :: string
  sa_power_led :: bool
  sa_hdd_led :: bool
  sa_run :: run_script
  sa_observe :: "svc_errors option"
  sa_capture :: bool

type_synonym svc_env = "nat \<Rightarrow> svc_answer"

record caller =
  cl_principal :: "principal option"
  cl_proof :: "string option"

section \<open>Steps\<close>

definition ledger_call :: "ledger_op \<Rightarrow> svc_world \<Rightarrow> svc_world" where
  "ledger_call c w = w\<lparr>sw_ledger := ledger_step (sw_ledger w) c, sw_trace := sw_trace w @ [c]\<rparr>"

definition other_step :: "service \<Rightarrow> svc_world \<Rightarrow> other_op \<Rightarrow> svc_world" where
  "other_step sv w p =
     (case p of
        OtherLedger c \<Rightarrow> ledger_call c w
      | OtherRegistry q \<Rightarrow> w\<lparr>sw_registry := reg_step (sv_control sv) (sw_registry w) q\<rparr>
      | OtherNonce now nonce expires \<Rightarrow> w\<lparr>sw_nonces := snd (nonce_consume now nonce expires (sw_nonces w))\<rparr>)"

definition next_answer :: "service \<Rightarrow> svc_env \<Rightarrow> svc_world \<Rightarrow> svc_answer \<times> svc_world" where
  "next_answer sv env w =
     (let a = env (sw_tick w)
      in (a, foldl (other_step sv) (w\<lparr>sw_tick := Suc (sw_tick w)\<rparr>) (sa_others a)))"

definition lift_ops :: "op_errors + 'a \<Rightarrow> svc_errors + 'a" where
  "lift_ops x = (case x of Inl e \<Rightarrow> Inl (map SvcOperation e) | Inr y \<Rightarrow> Inr y)"

definition svc_begin :: "service \<Rightarrow> svc_env \<Rightarrow> Operation.request \<Rightarrow> svc_world \<Rightarrow> (svc_errors + receipt \<times> bool) \<times> svc_world" where
  "svc_begin sv env q w0 =
     (let (a, w) = next_answer sv env w0
      in (lift_ops (fst (ledger_begin (sa_io a) q (sa_clock a) (sw_ledger w))), ledger_call (OpBegin (sa_io a) q (sa_clock a)) w))"

definition svc_get :: "service \<Rightarrow> svc_env \<Rightarrow> uuid \<Rightarrow> svc_world \<Rightarrow> (svc_errors + receipt) \<times> svc_world" where
  "svc_get sv env i w0 =
     (let (a, w) = next_answer sv env w0 in (lift_ops (ledger_get (sa_io a) i (sw_ledger w)), w))"

definition svc_transition ::
    "service \<Rightarrow> svc_env \<Rightarrow> uuid \<Rightarrow> stage \<Rightarrow> patch \<Rightarrow> svc_world \<Rightarrow> (svc_errors + receipt) \<times> svc_world" where
  "svc_transition sv env i dst pt w0 =
     (let (a, w) = next_answer sv env w0; p = sv_process sv
      in (lift_ops (fst (ledger_transition p (sa_io a) i dst pt (sa_clock a) (sw_ledger w))),
          ledger_call (OpTransition p (sa_io a) i dst pt (sa_clock a)) w))"

text \<open>\<open>operations.MarkSendStarted\<close>.\<close>

definition svc_mark :: "service \<Rightarrow> svc_env \<Rightarrow> uuid \<Rightarrow> svc_world \<Rightarrow> (svc_errors + receipt) \<times> svc_world" where
  "svc_mark sv env i w = svc_transition sv env i StageSendStarted (plain_patch DeliveryPossiblySent False []) w"

definition svc_verify :: "service \<Rightarrow> svc_env \<Rightarrow> caller \<Rightarrow> codec \<times> authority \<Rightarrow> binding \<Rightarrow> svc_world \<Rightarrow> svc_errors option \<times> svc_world" where
  "svc_verify sv env cl verifier b w0 =
     (let (a, w) = next_answer sv env w0;
          (e, s) = verify_and_consume (fst verifier) (snd verifier) (cl_principal cl) (cl_proof cl) b
                     (sa_clock a) (sa_later a) (sw_nonces w)
      in (map_option (map SvcProof) e, w\<lparr>sw_nonces := s\<rparr>))"

definition svc_lookup ::
    "service \<Rightarrow> svc_env \<Rightarrow> device_id \<Rightarrow> ref \<Rightarrow> svc_world \<Rightarrow> (snapshot option \<times> svc_errors option) \<times> svc_world" where
  "svc_lookup sv env d q w0 =
     (let (a, w) = next_answer sv env w0;
          ((sn, e), r) = registry_get (sv_control sv) d q (sw_registry w)
      in ((sn, map_option (map SvcControl) e), w\<lparr>sw_registry := r\<rparr>))"

text \<open>
  \<open>registry.Execute\<close> with the callback \<open>body\<close>, which runs in the device's actor between its
  admission and the touch of its handle; \<open>sa_joined\<close> is the cause of the caller's context when that
  ends while the callback runs.
\<close>

definition svc_execute ::
    "service \<Rightarrow> svc_env \<Rightarrow> device_id \<Rightarrow> ref \<Rightarrow> string \<Rightarrow> 'r \<Rightarrow> (svc_world \<Rightarrow> ('r \<times> svc_errors option) \<times> svc_world) \<Rightarrow>
       svc_world \<Rightarrow> ('r \<times> svc_errors option) \<times> svc_world" where
  "svc_execute sv env d q capability r0 body w0 =
     (let (a, w) = next_answer sv env w0; r = sw_registry w
      in if rg_state r \<noteq> TransportRunning then ((r0, Some [SvcControl ErrRegistryClosed]), w)
         else
           (case registry_find d r of
              None \<Rightarrow> ((r0, Some [SvcControl ErrControlNotFound]), w)
            | Some act \<Rightarrow>
                (case actor_admit (sv_control sv d) (sa_early a) q capability act of
                   (Inl e, act1) \<Rightarrow>
                     ((r0, errors_join (sa_joined a) (Some (map SvcControl e))), w\<lparr>sw_registry := put_actor d act1 r\<rparr>)
                 | (Inr t, act1) \<Rightarrow>
                     (let ((x, e), w1) = body (w\<lparr>sw_registry := put_actor d act1 r\<rparr>)
                      in ((x, errors_join (sa_joined a) e),
                          w1\<lparr>sw_registry := on_actor d (\<lambda>b. snd (actor_executed (sv_control sv d) t b)) (sw_registry w1)\<rparr>)))))"

section \<open>Finishing an operation\<close>

type_synonym op_result = "receipt option \<times> svc_errors option"

definition as_result :: "svc_errors + receipt \<Rightarrow> op_result" where
  "as_result x = (case x of Inl e \<Rightarrow> (None, Some e) | Inr r \<Rightarrow> (Some r, None))"

definition joined :: "svc_errors \<Rightarrow> op_result \<Rightarrow> op_result" where
  "joined cause x = (fst x, errors_join (Some cause) (snd x))"

definition finishNotSent :: "service \<Rightarrow> svc_env \<Rightarrow> uuid \<Rightarrow> svc_errors \<Rightarrow> svc_world \<Rightarrow> op_result \<times> svc_world" where
  "finishNotSent sv env i cause w =
     map_prod as_result id
       (svc_transition sv env i (not_sent_stage (sv_kinds sv) cause)
          (plain_patch DeliveryNotSent True (errorKind (sv_kinds sv) cause)) w)"

definition failNewOperation :: "service \<Rightarrow> svc_env \<Rightarrow> uuid \<Rightarrow> svc_errors \<Rightarrow> svc_world \<Rightarrow> op_result \<times> svc_world" where
  "failNewOperation sv env i cause w = map_prod (joined cause) id (finishNotSent sv env i cause w)"

text \<open>The tail that \<open>finishActionFailure\<close> and \<open>finishPowerFailure\<close> share: refused by the device, or unknown.\<close>

definition finish_started :: "service \<Rightarrow> svc_env \<Rightarrow> uuid \<Rightarrow> bool \<Rightarrow> svc_errors \<Rightarrow> svc_world \<Rightarrow> op_result \<times> svc_world" where
  "finish_started sv env i refused cause w =
     (let kind = errorKind (sv_kinds sv) cause
      in if refused
         then (case svc_transition sv env i StageTransportAccepted acceptedPatch w of
                 (Inl e, w1) \<Rightarrow> ((None, Some e), w1)
               | (Inr _, w1) \<Rightarrow>
                   map_prod as_result id
                     (svc_transition sv env i StageFailed (plain_patch DeliveryTransportAccepted False kind) w1))
         else map_prod as_result id (svc_transition sv env i StageAmbiguous (plain_patch DeliveryPossiblySent False kind) w))"

definition finishActionFailure ::
    "service \<Rightarrow> svc_env \<Rightarrow> uuid \<Rightarrow> bool \<Rightarrow> batch_receipt \<Rightarrow> svc_errors \<Rightarrow> svc_world \<Rightarrow> op_result \<times> svc_world" where
  "finishActionFailure sv env i started b cause w =
     (if \<not> started then finishNotSent sv env i cause w
      else finish_started sv env i (br_status b = BatchPartial \<and> br_neutralized b) cause w)"

definition finishPowerFailure ::
    "service \<Rightarrow> svc_env \<Rightarrow> uuid \<Rightarrow> bool \<Rightarrow> svc_errors \<Rightarrow> svc_world \<Rightarrow> op_result \<times> svc_world" where
  "finishPowerFailure sv env i started cause w =
     (if \<not> started then finishNotSent sv env i cause w
      else finish_started sv env i (has_kind (sv_kinds sv) OutRPC cause) cause w)"

text \<open>The two transitions of an accepted command.\<close>

definition finish_accepted :: "service \<Rightarrow> svc_env \<Rightarrow> uuid \<Rightarrow> svc_world \<Rightarrow> op_result \<times> svc_world" where
  "finish_accepted sv env i w =
     (case svc_transition sv env i StageTransportAccepted acceptedPatch w of
        (Inl e, w1) \<Rightarrow> ((None, Some e), w1)
      | (Inr _, w1) \<Rightarrow> map_prod as_result id (svc_transition sv env i StageCompleted acceptedPatch w1))"

text \<open>
  A failure before the send boundary of an operation that another caller registered: if that caller has
  moved it meanwhile, its receipt is the answer.
\<close>

definition after_failure ::
    "service \<Rightarrow> svc_env \<Rightarrow> uuid \<Rightarrow> bool \<Rightarrow> bool \<Rightarrow> (svc_world \<Rightarrow> op_result \<times> svc_world) \<Rightarrow> svc_world \<Rightarrow> op_result \<times> svc_world" where
  "after_failure sv env i existing started finish w =
     (if existing \<and> \<not> started
      then (case svc_get sv env i w of
              (Inr cur, w1) \<Rightarrow> if rc_stage cur \<noteq> StageNotSent then ((Some cur, None), w1) else finish w1
            | (Inl _, w1) \<Rightarrow> finish w1)
      else finish w)"

definition operation_id :: "service \<Rightarrow> svc_env \<Rightarrow> uuid \<Rightarrow> svc_world \<Rightarrow> uuid \<times> svc_world" where
  "operation_id sv env i w0 =
     (if i = 0 then (let (a, w) = next_answer sv env w0 in (sa_uuid a, w)) else (i, w0))"

definition svc_request ::
    "service \<Rightarrow> uuid \<Rightarrow> ('a) control_request_scheme \<Rightarrow> effect_class \<Rightarrow> string \<Rightarrow> bytes \<Rightarrow> svc_errors + Operation.request" where
  "svc_request sv i rq effect action canonical =
     lift_ops (new_request (sv_hmac sv) (sv_key sv) i (cr_device rq) (rf_generation (cr_ref rq)) effect action
       (co_revision (sv_policy sv)) canonical)"

section \<open>Power\<close>

record power_state =
  ps_device :: device_id
  ps_extension :: string
  ps_power_led :: bool
  ps_hdd_led :: bool
  ps_observed :: time

text \<open>\<open>readPowerState\<close> inside the actor: two remote calls that only read.\<close>

definition readPowerState ::
    "service \<Rightarrow> svc_env \<Rightarrow> device_id \<Rightarrow> time \<Rightarrow> svc_world \<Rightarrow> (power_state option \<times> svc_errors option) \<times> svc_world" where
  "readPowerState sv env d observed w0 =
     (let (a, w1) = next_answer sv env w0
      in (case sa_rpc a of
            Some e \<Rightarrow> ((None, Some e), w1)
          | None \<Rightarrow>
              if sa_extension a \<noteq> ''atx-power'' then ((None, Some [ErrCapabilityUnavailable]), w1)
              else
                (let (b, w2) = next_answer sv env w1
                 in (case sa_rpc b of
                       Some e \<Rightarrow> ((None, Some e), w2)
                     | None \<Rightarrow>
                         ((Some \<lparr>ps_device = d, ps_extension = sa_extension a, ps_power_led = sa_power_led b,
                                ps_hdd_led = sa_hdd_led b, ps_observed = observed\<rparr>, None), w2)))))"

definition probePowerState ::
    "service \<Rightarrow> svc_env \<Rightarrow> device_id \<Rightarrow> ref \<Rightarrow> svc_world \<Rightarrow> (power_state option \<times> svc_errors option) \<times> svc_world" where
  "probePowerState sv env d q w =
     svc_execute sv env d q ''power'' None
       (\<lambda>w0. (let (a, w1) = next_answer sv env w0
               in if \<not> sa_runtime a then ((None, Some [ErrUnexpectedSession]), w1)
                  else readPowerState sv env d (sa_clock a) w1)) w"

definition get_power_state ::
    "service \<Rightarrow> svc_env \<Rightarrow> control_request \<Rightarrow> svc_world \<Rightarrow> (power_state option \<times> svc_errors option) \<times> svc_world" where
  "get_power_state sv env rq w =
     (case authorize sv ''jetkvm_get_power_state'' (cr_device rq) (cr_scope rq) of
        Inl e \<Rightarrow> ((None, Some e), w)
      | Inr _ \<Rightarrow> probePowerState sv env (cr_device rq) (cr_ref rq) w)"

text \<open>The callback of \<open>PowerAction\<close>: confirm, cross the send boundary, call.\<close>

definition power_body ::
    "service \<Rightarrow> svc_env \<Rightarrow> caller \<Rightarrow> power_request \<Rightarrow> bytes \<Rightarrow> string \<Rightarrow> uuid \<Rightarrow> svc_world \<Rightarrow>
       (bool \<times> svc_errors option) \<times> svc_world" where
  "power_body sv env cl rq canonical wire i w0 =
     (let (a, w1) = next_answer sv env w0;
          confirm = co_confirmation_required (sv_policy sv) \<and> powerActionRequiresConfirmation (pw_action rq)
      in if \<not> sa_runtime a then ((False, Some [ErrUnexpectedSession]), w1)
         else
           (case (if \<not> confirm then (None, w1)
                  else (case sv_confirmations sv of
                          None \<Rightarrow> (Some [SvcProof ErrProofRequired], w1)
                        | Some v \<Rightarrow> svc_verify sv env cl v (powerConfirmationBinding sv rq canonical) w1)) of
              (Some e, w2) \<Rightarrow> ((False, Some e), w2)
            | (None, w2) \<Rightarrow>
                (case svc_mark sv env i w2 of
                   (Inl e, w3) \<Rightarrow> ((False, Some e), w3)
                 | (Inr _, w3) \<Rightarrow>
                     (let w4 = w3\<lparr>sw_sent := sw_sent w3 @ [(i, cr_device rq, SentPower wire)]\<rparr>;
                          (b, w5) = next_answer sv env w4
                      in ((True, sa_rpc b), w5)))))"

definition power_action :: "service \<Rightarrow> svc_env \<Rightarrow> caller \<Rightarrow> power_request \<Rightarrow> svc_world \<Rightarrow> op_result \<times> svc_world" where
  "power_action sv env cl rq w0 =
     (case authorize sv ''jetkvm_power_action'' (cr_device rq) (cr_scope rq) of
        Inl e \<Rightarrow> ((None, Some e), w0)
      | Inr _ \<Rightarrow>
     (case powerWireAction (pw_action rq) of
        None \<Rightarrow> ((None, Some [ErrInvalidPowerAction]), w0)
      | Some wire \<Rightarrow>
     (let (i, w1) = operation_id sv env (pw_operation rq) w0
      in (case canonicalPowerAction sv rq of
        Inl e \<Rightarrow> ((None, Some e), w1)
      | Inr canonical \<Rightarrow>
     (case svc_request sv i rq EffectPower (''power.'' @ power_name (pw_action rq)) canonical of
        Inl e \<Rightarrow> ((None, Some e), w1)
      | Inr q \<Rightarrow>
     (case svc_begin sv env q w1 of
        (Inl e, w2) \<Rightarrow> ((None, Some e), w2)
      | (Inr (rc, existing), w2) \<Rightarrow>
          if existing \<and> rc_stage rc \<noteq> StageNotSent then ((Some rc, None), w2)
          else
     (case svc_lookup sv env (cr_device rq) (cr_ref rq) w2 of
        ((_, Some e), w3) \<Rightarrow> failNewOperation sv env i e w3
      | ((_, None), w3) \<Rightarrow>
     (case probePowerState sv env (cr_device rq) (cr_ref rq) w3 of
        ((_, Some e), w4) \<Rightarrow> failNewOperation sv env i e w4
      | ((_, None), w4) \<Rightarrow>
     (case svc_execute sv env (cr_device rq) (cr_ref rq) ''power'' False (power_body sv env cl rq canonical wire i) w4 of
        ((started, Some e), w5) \<Rightarrow>
          after_failure sv env i existing started
            (\<lambda>w. map_prod (joined e) id (finishPowerFailure sv env i started e w)) w5
      | ((started, None), w5) \<Rightarrow> finish_accepted sv env i w5)))))))))"

section \<open>Input\<close>

record run_outcome =
  ro_batch :: batch_receipt
  ro_started :: bool
  ro_observed :: "svc_errors option"

abbreviation "no_outcome \<equiv> \<lparr>ro_batch = zero_receipt, ro_started = False, ro_observed = None\<rparr>"

text \<open>
  The adapter with the service's \<open>start\<close>: \<open>what\<close> is what the session is handed.
\<close>

definition run_session ::
    "service \<Rightarrow> svc_env \<Rightarrow> uuid \<Rightarrow> device_id \<Rightarrow> sent_command \<Rightarrow> svc_world \<Rightarrow>
       (batch_receipt \<times> bool \<times> svc_errors option) \<times> svc_world" where
  "run_session sv env i d what w0 =
     (let (a, w1) = next_answer sv env w0
      in (case sa_run a of
            RunQuiet b e \<Rightarrow> ((b, False, e), w1)
          | RunSends ok refused \<Rightarrow>
              (case svc_mark sv env i w1 of
                 (Inl e, w2) \<Rightarrow> (let (b, e') = refused e in ((b, False, e'), w2))
               | (Inr _, w2) \<Rightarrow> ((fst ok, True, snd ok), w2\<lparr>sw_sent := sw_sent w2 @ [(i, d, what)]\<rparr>))))"

text \<open>\<open>video\<close>: the snapshot's handle has the video capability. The picture itself is opaque.\<close>

definition run_body ::
    "service \<Rightarrow> svc_env \<Rightarrow> caller \<Rightarrow> run_request \<Rightarrow> bytes \<Rightarrow> bool \<Rightarrow> uuid \<Rightarrow> svc_world \<Rightarrow>
       (run_outcome \<times> svc_errors option) \<times> svc_world" where
  "run_body sv env cl rq canonical video i w0 =
     (let (a, w1) = next_answer sv env w0;
          looks = ru_observe_after rq \<or> batchHasScreenshot (ru_batch rq);
          fail = (\<lambda>e w. ((no_outcome, Some e), w))
      in if \<not> sa_runtime a then fail [ErrUnexpectedSession] w1
         else if looks \<and> isl (authorize sv ''jetkvm_observe'' (cr_device rq) (cr_scope rq)) then fail [ErrCapabilityUnavailable] w1
         else if looks \<and> (\<not> video \<or> \<not> sa_screen a) then fail [ErrCapabilityUnavailable] w1
         else
           (case (case inputConfirmationBinding sv rq canonical of
                    None \<Rightarrow> (None, w1)
                  | Some b \<Rightarrow>
                      (case sv_confirmations sv of
                         None \<Rightarrow> (Some [SvcProof ErrProofRequired], w1)
                       | Some v \<Rightarrow> svc_verify sv env cl v b w1)) of
              (Some e, w2) \<Rightarrow> fail e w2
            | (None, w2) \<Rightarrow>
                (case run_session sv env i (cr_device rq) (SentInput (ru_batch rq)) w2 of
                   ((b, started, e), w3) \<Rightarrow>
                     if e = None \<and> looks
                     then (let (c, w4) = next_answer sv env w3
                           in ((\<lparr>ro_batch = b, ro_started = started,
                                  ro_observed = (if sa_capture c \<and> batchHasScreenshot (ru_batch rq) then None else sa_observe c)\<rparr>, e), w4))
                     else ((\<lparr>ro_batch = b, ro_started = started, ro_observed = None\<rparr>, e), w3))))"

record run_result =
  rr_operation :: "receipt option"
  rr_batch :: batch_receipt
  rr_existing :: bool
  rr_error :: "svc_errors option"

definition run_result_of :: "batch_receipt \<Rightarrow> bool \<Rightarrow> op_result \<times> svc_world \<Rightarrow> run_result \<times> svc_world" where
  "run_result_of b existing x =
     (\<lparr>rr_operation = fst (fst x), rr_batch = b, rr_existing = existing, rr_error = snd (fst x)\<rparr>, snd x)"

text \<open>An observation that failed cannot unsend an accepted and neutralized batch.\<close>

definition forgive :: "run_outcome \<Rightarrow> svc_errors option \<Rightarrow> svc_errors option \<times> svc_errors option" where
  "forgive o1 e =
     (if e \<noteq> None \<and> ro_started o1 \<and> br_status (ro_batch o1) = BatchAccepted \<and> br_neutralized (ro_batch o1)
      then (None, errors_join (ro_observed o1) e) else (e, ro_observed o1))"

definition finish_run_actions ::
    "service \<Rightarrow> svc_env \<Rightarrow> uuid \<Rightarrow> bool \<Rightarrow> run_outcome \<Rightarrow> svc_errors option \<Rightarrow> svc_world \<Rightarrow> run_result \<times> svc_world" where
  "finish_run_actions sv env i existing o1 e0 w =
     (let (execute_error, observe_error) = forgive o1 e0; b = ro_batch o1; started = ro_started o1
      in (case execute_error of
            Some e \<Rightarrow>
              run_result_of b existing
                (after_failure sv env i existing started
                   (\<lambda>w. map_prod (joined e) id (finishActionFailure sv env i started b e w)) w)
          | None \<Rightarrow>
              if \<not> started then run_result_of b False (failNewOperation sv env i [ErrNothingSent] w)
              else
                (case svc_transition sv env i StageTransportAccepted acceptedPatch w of
                   (Inl e, w1) \<Rightarrow> run_result_of b existing ((None, Some e), w1)
                 | (Inr _, w1) \<Rightarrow>
                     (case svc_transition sv env i StageCompleted acceptedPatch w1 of
                        (x, w2) \<Rightarrow>
                          run_result_of b existing ((fst (as_result x), errors_join (snd (as_result x)) observe_error), w2)))))"

definition run_actions_call ::
    "service \<Rightarrow> svc_env \<Rightarrow> caller \<Rightarrow> run_request \<Rightarrow> svc_world \<Rightarrow> run_result \<times> svc_world" where
  "run_actions_call sv env cl rq w0 =
     (let fail = (\<lambda>e w. run_result_of zero_receipt False ((None, Some e), w))
      in (case authorize sv ''jetkvm_run_actions'' (cr_device rq) (cr_scope rq) of
        Inl e \<Rightarrow> fail e w0
      | Inr _ \<Rightarrow>
     (case validateAutomationBatch (ru_batch rq) of
        Some e \<Rightarrow> fail e w0
      | None \<Rightarrow>
     (let (i, w1) = operation_id sv env (ru_operation rq) w0
      in (case canonicalRunActions sv rq of
        Inl e \<Rightarrow> fail e w1
      | Inr canonical \<Rightarrow>
     (case svc_request sv i rq EffectInput ''run_actions'' canonical of
        Inl e \<Rightarrow> fail e w1
      | Inr q \<Rightarrow>
     (case svc_begin sv env q w1 of
        (Inl e, w2) \<Rightarrow> fail e w2
      | (Inr (rc, existing), w2) \<Rightarrow>
          if existing \<and> rc_stage rc \<noteq> StageNotSent then run_result_of zero_receipt existing ((Some rc, None), w2)
          else
     (case svc_lookup sv env (cr_device rq) (cr_ref rq) w2 of
        ((_, Some e), w3) \<Rightarrow> run_result_of zero_receipt False (failNewOperation sv env i e w3)
      | ((sn, None), w3) \<Rightarrow>
          (let video = (case sn of None \<Rightarrow> False
                 | Some s \<Rightarrow> (case sn_handle s of None \<Rightarrow> False | Some h \<Rightarrow> ''video'' \<in> set (hd_capabilities h)))
           in (case svc_execute sv env (cr_device rq) (cr_ref rq) ''input'' no_outcome
                     (run_body sv env cl rq canonical video i) w3 of
                 ((o1, e), w4) \<Rightarrow> finish_run_actions sv env i existing o1 e w4))))))))))"

definition release_body ::
    "service \<Rightarrow> svc_env \<Rightarrow> release_request \<Rightarrow> uuid \<Rightarrow> svc_world \<Rightarrow> (bool \<times> svc_errors option) \<times> svc_world" where
  "release_body sv env rq i w0 =
     (let (a, w1) = next_answer sv env w0
      in if \<not> sa_runtime a then ((False, Some [ErrUnexpectedSession]), w1)
         else (case run_session sv env i (cr_device rq) SentRelease w1 of ((_, started, e), w2) \<Rightarrow> ((started, e), w2)))"

definition release_input :: "service \<Rightarrow> svc_env \<Rightarrow> release_request \<Rightarrow> svc_world \<Rightarrow> op_result \<times> svc_world" where
  "release_input sv env rq w0 =
     (case authorize sv ''jetkvm_release_input'' (cr_device rq) (cr_scope rq) of
        Inl e \<Rightarrow> ((None, Some e), w0)
      | Inr _ \<Rightarrow>
     (let (i, w1) = operation_id sv env (rl_operation rq) w0
      in (case sv_json_release sv (cr_device rq) (rf_id (cr_ref rq)) (rf_generation (cr_ref rq)) of
        None \<Rightarrow> ((None, Some [ErrMarshal]), w1)
      | Some canonical \<Rightarrow>
     (case svc_request sv i rq EffectInput ''release_input'' canonical of
        Inl e \<Rightarrow> ((None, Some e), w1)
      | Inr q \<Rightarrow>
     (case svc_begin sv env q w1 of
        (Inl e, w2) \<Rightarrow> ((None, Some e), w2)
      | (Inr (rc, existing), w2) \<Rightarrow>
          if existing \<and> rc_stage rc \<noteq> StageNotSent then ((Some rc, None), w2)
          else
     (case svc_lookup sv env (cr_device rq) (cr_ref rq) w2 of
        ((_, Some e), w3) \<Rightarrow> failNewOperation sv env i e w3
      | ((_, None), w3) \<Rightarrow>
     (case svc_execute sv env (cr_device rq) (cr_ref rq) ''input'' False (release_body sv env rq i) w3 of
        ((started, Some e), w4) \<Rightarrow>
          map_prod (joined e) id
            (if started then finish_started sv env i False e w4 else finishNotSent sv env i e w4)
      | ((started, None), w4) \<Rightarrow>
          if \<not> started then failNewOperation sv env i [ErrNothingSent] w4 else finish_accepted sv env i w4)))))))"

section \<open>Control\<close>

definition open_control ::
    "service \<Rightarrow> svc_env \<Rightarrow> caller \<Rightarrow> open_control_request \<Rightarrow> svc_world \<Rightarrow> (svc_errors + handle) \<times> svc_world" where
  "open_control sv env cl rq w0 =
     (if oc_device rq = [] \<or> oc_capabilities rq = [] then (Inl [ErrSvcRequest], w0)
      else
     (let capabilities = normalizeCapabilities (oc_capabilities rq)
      in (case authorize sv ''jetkvm_open_control'' (oc_device rq) (oc_scope rq) of
        Inl e \<Rightarrow> (Inl e, w0)
      | Inr de \<Rightarrow>
     (case authorize_capabilities sv (oc_device rq) (oc_scope rq) capabilities of
        Some e \<Rightarrow> (Inl e, w0)
      | None \<Rightarrow>
          if \<not> takeover_allowed de then (Inl [ErrTakeoverDisabled], w0)
          else
     (case (if \<not> (co_confirmation_required (sv_policy sv) \<and> takeover_confirmed de) then (None, w0)
            else (case sv_confirmations sv of
                    None \<Rightarrow> (Some [ErrTakeoverConfirmationRequired], w0)
                  | Some v \<Rightarrow>
                      (case openControlConfirmationBinding sv rq capabilities of
                         Inl e \<Rightarrow> (Some e, w0)
                       | Inr b \<Rightarrow> svc_verify sv env cl v b w0))) of
        (Some e, w1) \<Rightarrow> (Inl e, w1)
      | (None, w1) \<Rightarrow>
          if oc_ownership rq = OwnershipAttached then (Inl [ErrAttachedUnsupported], w1)
          else
            (let (a, w2) = next_answer sv env w1;
                 (res, r) = registry_open (sv_control sv) (sa_early a)
                   \<lparr>rq_device = oc_device rq, rq_capabilities = capabilities, rq_ownership = OwnershipOwned,
                    rq_idle = oc_idle rq, rq_absolute = oc_absolute rq\<rparr> (sw_registry w2)
             in (case res of Inl e \<Rightarrow> Inl (map SvcControl e) | Inr h \<Rightarrow> Inr h, w2\<lparr>sw_registry := r\<rparr>)))))))"

definition get_control ::
    "service \<Rightarrow> svc_env \<Rightarrow> control_request \<Rightarrow> svc_world \<Rightarrow> (snapshot option \<times> svc_errors option) \<times> svc_world" where
  "get_control sv env rq w =
     (case authorize sv ''jetkvm_get_control'' (cr_device rq) (cr_scope rq) of
        Inl e \<Rightarrow> ((None, Some e), w)
      | Inr _ \<Rightarrow> svc_lookup sv env (cr_device rq) (cr_ref rq) w)"

definition close_control ::
    "service \<Rightarrow> svc_env \<Rightarrow> control_request \<Rightarrow> svc_world \<Rightarrow> (handle option \<times> svc_errors option) \<times> svc_world" where
  "close_control sv env rq w0 =
     (case authorize sv ''jetkvm_close_control'' (cr_device rq) (cr_scope rq) of
        Inl e \<Rightarrow> ((None, Some e), w0)
      | Inr _ \<Rightarrow>
          (let (a, w) = next_answer sv env w0;
               ((h, e), r) = registry_close (sv_control sv) (cr_device rq) (cr_ref rq) (sw_registry w)
           in ((h, map_option (map SvcControl) e), w\<lparr>sw_registry := r\<rparr>)))"

definition svc_drain :: "service \<Rightarrow> svc_env \<Rightarrow> svc_world \<Rightarrow> svc_errors option \<times> svc_world" where
  "svc_drain sv env w0 =
     (let (a, w) = next_answer sv env w0; (e, r) = registry_drain (sv_control sv) (sw_registry w)
      in (map_option (map SvcControl) e, w\<lparr>sw_registry := r\<rparr>))"

section \<open>Calls\<close>

datatype svc_call =
    CallOpenControl open_control_request
  | CallGetControl control_request
  | CallCloseControl control_request
  | CallGetPowerState control_request
  | CallPowerAction power_request
  | CallRunActions run_request
  | CallReleaseInput release_request
  | CallDrain

definition svc_step :: "service \<Rightarrow> svc_env \<Rightarrow> svc_world \<Rightarrow> caller \<times> svc_call \<Rightarrow> svc_world" where
  "svc_step sv env w x =
     (case snd x of
        CallOpenControl rq \<Rightarrow> snd (open_control sv env (fst x) rq w)
      | CallGetControl rq \<Rightarrow> snd (get_control sv env rq w)
      | CallCloseControl rq \<Rightarrow> snd (close_control sv env rq w)
      | CallGetPowerState rq \<Rightarrow> snd (get_power_state sv env rq w)
      | CallPowerAction rq \<Rightarrow> snd (power_action sv env (fst x) rq w)
      | CallRunActions rq \<Rightarrow> snd (run_actions_call sv env (fst x) rq w)
      | CallReleaseInput rq \<Rightarrow> snd (release_input sv env rq w)
      | CallDrain \<Rightarrow> snd (svc_drain sv env w))"

text \<open>
  What a call may hand to a session: its own command, if the policy allows it and, where a confirmation is
  required, the caller presented a proof that opens to exactly this principal, device, generation, action
  and arguments.
\<close>

definition confirmed :: "service \<Rightarrow> caller \<Rightarrow> binding \<Rightarrow> bool" where
  "confirmed sv cl b \<longleftrightarrow>
     (\<exists>v p sealed t. sv_confirmations sv = Some v \<and> PrincipalFromContext (cl_principal cl) = Some p \<and>
        cl_proof cl = Some sealed \<and> open_proof (fst v) (snd v) sealed = Inr t \<and> bound t p b)"

definition tool_allowed :: "service \<Rightarrow> string \<Rightarrow> ('a) control_request_scheme \<Rightarrow> bool" where
  "tool_allowed sv tool rq \<longleftrightarrow> \<not> isl (authorize sv tool (cr_device rq) (cr_scope rq))"

definition power_justified :: "service \<Rightarrow> caller \<Rightarrow> power_request \<Rightarrow> bool" where
  "power_justified sv cl rq \<longleftrightarrow> tool_allowed sv ''jetkvm_power_action'' rq \<and>
     (\<exists>canonical. canonicalPowerAction sv rq = Inr canonical \<and>
        (co_confirmation_required (sv_policy sv) \<and> powerActionRequiresConfirmation (pw_action rq) \<longrightarrow>
           confirmed sv cl (powerConfirmationBinding sv rq canonical)))"

definition run_justified :: "service \<Rightarrow> caller \<Rightarrow> run_request \<Rightarrow> bool" where
  "run_justified sv cl rq \<longleftrightarrow> tool_allowed sv ''jetkvm_run_actions'' rq \<and>
     validateAutomationBatch (ru_batch rq) = None \<and>
     (ru_observe_after rq \<or> batchHasScreenshot (ru_batch rq) \<longrightarrow> tool_allowed sv ''jetkvm_observe'' rq) \<and>
     (\<exists>canonical. canonicalRunActions sv rq = Inr canonical \<and>
        (\<forall>b. inputConfirmationBinding sv rq canonical = Some b \<longrightarrow> confirmed sv cl b))"

definition justified :: "service \<Rightarrow> caller \<times> svc_call \<Rightarrow> uuid \<times> device_id \<times> sent_command \<Rightarrow> bool" where
  "justified sv x entry =
     (case snd x of
        CallPowerAction rq \<Rightarrow>
          power_justified sv (fst x) rq \<and> (pw_operation rq = 0 \<or> fst entry = pw_operation rq) \<and>
          fst (snd entry) = cr_device rq \<and>
          (\<exists>wire. powerWireAction (pw_action rq) = Some wire \<and> snd (snd entry) = SentPower wire)
      | CallRunActions rq \<Rightarrow>
          run_justified sv (fst x) rq \<and> (ru_operation rq = 0 \<or> fst entry = ru_operation rq) \<and>
          snd entry = (cr_device rq, SentInput (ru_batch rq))
      | CallReleaseInput rq \<Rightarrow>
          tool_allowed sv ''jetkvm_release_input'' rq \<and> (rl_operation rq = 0 \<or> fst entry = rl_operation rq) \<and>
          snd entry = (cr_device rq, SentRelease)
      | _ \<Rightarrow> False)"

section \<open>Invariants of the service\<close>

lemma verified_confirms:
  assumes "verify_and_consume (fst v) (snd v) (cl_principal cl) (cl_proof cl) b now later s = (None, s')"
    "sv_confirmations sv = Some v"
  shows "confirmed sv cl b"
proof -
  have "fst (verify_and_consume (fst v) (snd v) (cl_principal cl) (cl_proof cl) b now later s) = None"
    using assms(1) by simp
  then show ?thesis using assms(2) unfolding verify_accepts confirmed_def by blast
qed

lemma svc_verify_confirmed:
  "svc_verify sv env cl v b w = (None, w') \<Longrightarrow> sv_confirmations sv = Some v \<Longrightarrow> confirmed sv cl b"
  by (auto simp: svc_verify_def split: prod.splits intro: verified_confirms)

lemma run_result_of_eq:
  "run_result_of b existing y = (x, w') \<longleftrightarrow>
     (\<exists>z. y = (z, w') \<and> x = \<lparr>rr_operation = fst z, rr_batch = b, rr_existing = existing, rr_error = snd z\<rparr>)"
  by (cases y) (auto simp: run_result_of_def)

text \<open>
  A predicate on worlds survives every call if it survives the three things a call does to the ledger and
  the sessions: a ledger call, a change elsewhere, and a send right after a transition to send_started
  that succeeded. \<open>permit\<close> is what may be sent, \<open>served\<close> what the ledger may be
  asked: the service's own two calls, and whatever the others do.
\<close>

definition served :: "svc_env \<Rightarrow> ledger_op \<Rightarrow> bool" where
  "served env c \<longleftrightarrow>
     (case c of OpBegin _ _ _ \<Rightarrow> True | OpTransition _ _ _ _ _ _ \<Rightarrow> True | _ \<Rightarrow> False) \<or>
     (\<exists>k. OtherLedger c \<in> set (sa_others (env k)))"

locale world_invariant =
  fixes env :: svc_env
    and I :: "svc_world \<Rightarrow> bool"
    and permit :: "uuid \<times> device_id \<times> sent_command \<Rightarrow> bool"
  assumes ledger_keeps: "I w \<Longrightarrow> served env c \<Longrightarrow> I (ledger_call c w)"
    and frame_keeps: "I w \<Longrightarrow> sw_ledger w' = sw_ledger w \<Longrightarrow> sw_trace w' = sw_trace w \<Longrightarrow> sw_sent w' = sw_sent w \<Longrightarrow> I w'"
    and send_keeps: "I w \<Longrightarrow> permit (i, d, what) \<Longrightarrow>
      \<not> isl (fst (ledger_transition p io i StageSendStarted pt at (sw_ledger w))) \<Longrightarrow>
      w' = ledger_call (OpTransition p io i StageSendStarted pt at) w \<Longrightarrow> I (w'\<lparr>sw_sent := sw_sent w' @ [(i, d, what)]\<rparr>)"
begin

lemma keeps_fields [simp, intro]:
  "I w \<Longrightarrow> I (w\<lparr>sw_registry := r\<rparr>)" "I w \<Longrightarrow> I (w\<lparr>sw_nonces := n\<rparr>)" "I w \<Longrightarrow> I (w\<lparr>sw_tick := k\<rparr>)"
  by (rule frame_keeps; simp)+

lemma keeps_others: "I w \<Longrightarrow> set ps \<subseteq> set (sa_others (env k)) \<Longrightarrow> I (foldl (other_step sv) w ps)"
proof (induction ps arbitrary: w)
  case (Cons p ps)
  have "I (other_step sv w p)" using Cons.prems
    by (cases p) (auto simp: other_step_def served_def intro!: ledger_keeps)
  then show ?case using Cons by simp
qed simp

lemma served_own [simp]: "served env (OpBegin io q at)" "served env (OpTransition p io i dst pt at)"
  by (simp_all add: served_def)

lemma keeps_next: "next_answer sv env w = (a, w') \<Longrightarrow> I w \<Longrightarrow> I w'"
  by (auto simp: next_answer_def Let_def intro!: keeps_others)

lemma keeps_begin: "svc_begin sv env q w = (x, w') \<Longrightarrow> I w \<Longrightarrow> I w'"
  by (auto simp: svc_begin_def dest: keeps_next intro: ledger_keeps split: prod.splits)

lemma keeps_get: "svc_get sv env i w = (x, w') \<Longrightarrow> I w \<Longrightarrow> I w'"
  by (auto simp: svc_get_def dest: keeps_next split: prod.splits)

lemma keeps_transition: "svc_transition sv env i dst pt w = (x, w') \<Longrightarrow> I w \<Longrightarrow> I w'"
  by (auto simp: svc_transition_def Let_def dest: keeps_next intro: ledger_keeps split: prod.splits)

lemma keeps_mark: "svc_mark sv env i w = (x, w') \<Longrightarrow> I w \<Longrightarrow> I w'"
  by (auto simp: svc_mark_def dest: keeps_transition)

lemma keeps_send:
  assumes "svc_mark sv env i w = (Inr q, w')" "I w" "permit (i, d, what)"
  shows "I (w'\<lparr>sw_sent := sw_sent w' @ [(i, d, what)]\<rparr>)"
proof -
  obtain a w1 where n: "next_answer sv env w = (a, w1)" by (cases "next_answer sv env w")
  then have "I w1" using assms(2) by (rule keeps_next)
  with n show ?thesis using assms(1)
    by (intro send_keeps [of w1 i d what "sv_process sv" "sa_io a" "plain_patch DeliveryPossiblySent False []" "sa_clock a"])
      (auto simp: svc_mark_def svc_transition_def Let_def lift_ops_def isl_def assms(3) split: sum.splits)
qed

lemma keeps_verify: "svc_verify sv env cl v b w = (x, w') \<Longrightarrow> I w \<Longrightarrow> I w'"
  by (auto simp: svc_verify_def dest: keeps_next split: prod.splits)

lemma keeps_lookup: "svc_lookup sv env d q w = (x, w') \<Longrightarrow> I w \<Longrightarrow> I w'"
  by (auto simp: svc_lookup_def dest: keeps_next split: prod.splits)

lemma keeps_execute:
  assumes "svc_execute sv env d q capability r0 body w = (x, w')" "I w"
    "\<And>v y v'. body v = (y, v') \<Longrightarrow> I v \<Longrightarrow> I v'"
  shows "I w'"
  using assms(1,2)
  by (auto simp: svc_execute_def Let_def dest!: keeps_next assms(3) split: prod.splits sum.splits option.splits if_splits)

lemmas keeps_steps = keeps_next keeps_begin keeps_get keeps_transition keeps_mark keeps_verify keeps_lookup

lemma keeps_not_sent: "finishNotSent sv env i cause w = (x, w') \<Longrightarrow> I w \<Longrightarrow> I w'"
  by (auto simp: finishNotSent_def map_prod_def dest: keeps_steps split: prod.splits)

lemma keeps_fail: "failNewOperation sv env i cause w = (x, w') \<Longrightarrow> I w \<Longrightarrow> I w'"
  by (auto simp: failNewOperation_def map_prod_def dest: keeps_not_sent split: prod.splits)

lemma keeps_started: "finish_started sv env i refused cause w = (x, w') \<Longrightarrow> I w \<Longrightarrow> I w'"
  by (auto simp: finish_started_def Let_def map_prod_def dest!: keeps_steps split: prod.splits sum.splits if_splits)

lemma keeps_action_failure: "finishActionFailure sv env i started b cause w = (x, w') \<Longrightarrow> I w \<Longrightarrow> I w'"
  by (auto simp: finishActionFailure_def dest: keeps_started keeps_not_sent split: if_splits)

lemma keeps_power_failure: "finishPowerFailure sv env i started cause w = (x, w') \<Longrightarrow> I w \<Longrightarrow> I w'"
  by (auto simp: finishPowerFailure_def dest: keeps_started keeps_not_sent split: if_splits)

lemma keeps_accepted: "finish_accepted sv env i w = (x, w') \<Longrightarrow> I w \<Longrightarrow> I w'"
  by (auto simp: finish_accepted_def map_prod_def dest!: keeps_steps split: prod.splits sum.splits)

lemma keeps_after_failure:
  assumes "after_failure sv env i existing started finish w = (x, w')" "I w"
    "\<And>v y v'. finish v = (y, v') \<Longrightarrow> I v \<Longrightarrow> I v'"
  shows "I w'"
  using assms(1,2) by (auto simp: after_failure_def dest!: keeps_get dest: assms(3) split: prod.splits sum.splits if_splits)

lemma keeps_operation_id: "operation_id sv env i w = (j, w') \<Longrightarrow> I w \<Longrightarrow> I w' \<and> (i = 0 \<or> j = i)"
  by (auto simp: operation_id_def dest: keeps_next split: prod.splits if_splits)

lemma keeps_probe: "probePowerState sv env d q w = (x, w') \<Longrightarrow> I w \<Longrightarrow> I w'"
  unfolding probePowerState_def
  by (erule keeps_execute) (auto simp: readPowerState_def Let_def dest!: keeps_next split: prod.splits option.splits if_splits)

lemma keeps_session:
  assumes "run_session sv env i d what w = (x, w')" "I w" "permit (i, d, what)"
  shows "I w'"
  using assms
  by (auto simp: run_session_def dest!: keeps_next dest: keeps_mark keeps_send [where d = d and what = what]
      split: prod.splits sum.splits run_script.splits)

lemmas keeps_ends = keeps_steps keeps_not_sent keeps_fail keeps_started keeps_accepted keeps_operation_id keeps_probe

lemma keeps_power_body:
  assumes "power_body sv env cl rq canonical wire i w = (x, w')" "I w"
    "(co_confirmation_required (sv_policy sv) \<and> powerActionRequiresConfirmation (pw_action rq) \<longrightarrow>
       confirmed sv cl (powerConfirmationBinding sv rq canonical)) \<Longrightarrow> permit (i, cr_device rq, SentPower wire)"
  shows "I w'"
  using assms(1,2)
  by (auto simp: power_body_def Let_def dest!: keeps_next dest: keeps_mark keeps_verify svc_verify_confirmed
      intro!: keeps_send [OF _ _ assms(3)] split: prod.splits sum.splits option.splits if_splits)

lemma keeps_power_action:
  assumes "power_action sv env cl rq w = (x, w')" "I w"
    "\<And>e. justified sv (cl, CallPowerAction rq) e \<Longrightarrow> permit e"
  shows "I w'"
proof -
  have body: "I v'" if "power_body sv env cl rq canonical wire i v = (y, v')" "I v"
      "\<not> isl (authorize sv ''jetkvm_power_action'' (cr_device rq) (cr_scope rq))"
      "powerWireAction (pw_action rq) = Some wire" "canonicalPowerAction sv rq = Inr canonical"
      "pw_operation rq = 0 \<or> i = pw_operation rq"
    for canonical wire i v y v'
    using that by (elim keeps_power_body) (auto intro!: assms(3) simp: justified_def power_justified_def tool_allowed_def)
  show ?thesis
    using assms(1,2)
    by (auto simp: power_action_def Let_def map_prod_def dest!: keeps_ends
        dest: keeps_power_failure elim!: keeps_execute keeps_after_failure intro: body
        split: prod.splits sum.splits option.splits if_splits)
qed

lemma keeps_run_body:
  assumes "run_body sv env cl rq canonical video i w = (x, w')" "I w"
    "(ru_observe_after rq \<or> batchHasScreenshot (ru_batch rq) \<longrightarrow> tool_allowed sv ''jetkvm_observe'' rq) \<Longrightarrow>
       (\<forall>b. inputConfirmationBinding sv rq canonical = Some b \<longrightarrow> confirmed sv cl b) \<Longrightarrow>
       permit (i, cr_device rq, SentInput (ru_batch rq))"
  shows "I w'"
  using assms(1,2)
  by (auto simp: run_body_def Let_def tool_allowed_def dest!: keeps_next dest: keeps_verify svc_verify_confirmed
      elim!: keeps_session intro!: assms(3) split: prod.splits sum.splits option.splits if_splits)

lemma keeps_finish_run: "finish_run_actions sv env i existing o1 e w = (x, w') \<Longrightarrow> I w \<Longrightarrow> I w'"
  by (auto simp: finish_run_actions_def run_result_of_eq map_prod_def Let_def dest!: keeps_ends
      elim!: keeps_after_failure dest: keeps_action_failure split: prod.splits sum.splits option.splits if_splits)

lemma keeps_run_actions:
  assumes "run_actions_call sv env cl rq w = (x, w')" "I w"
    "\<And>e. justified sv (cl, CallRunActions rq) e \<Longrightarrow> permit e"
  shows "I w'"
proof -
  have body: "I v'" if "run_body sv env cl rq canonical video i v = (y, v')" "I v"
      "\<not> isl (authorize sv ''jetkvm_run_actions'' (cr_device rq) (cr_scope rq))"
      "validateAutomationBatch (ru_batch rq) = None" "canonicalRunActions sv rq = Inr canonical"
      "ru_operation rq = 0 \<or> i = ru_operation rq"
    for canonical video i v y v'
    using that by (elim keeps_run_body) (auto intro!: assms(3) simp: justified_def run_justified_def tool_allowed_def)
  have execute: "I v'" if "svc_execute sv env d r c r0 (run_body sv env cl rq canonical video i) v = (y, v')" "I v"
      "\<not> isl (authorize sv ''jetkvm_run_actions'' (cr_device rq) (cr_scope rq))"
      "validateAutomationBatch (ru_batch rq) = None" "canonicalRunActions sv rq = Inr canonical"
      "ru_operation rq = 0 \<or> i = ru_operation rq"
    for d r c r0 canonical video i v y v'
    by (rule keeps_execute [OF that(1,2)]) (rule body [OF _ _ that(3-6)])
  show ?thesis
    using assms(1,2)
    by (auto simp: run_actions_call_def Let_def run_result_of_eq dest!: keeps_ends dest: keeps_finish_run execute
        split: prod.splits sum.splits option.splits if_splits)
qed

lemma keeps_release_input:
  assumes "release_input sv env rq w = (x, w')" "I w"
    "\<And>e. justified sv (cl, CallReleaseInput rq) e \<Longrightarrow> permit e"
  shows "I w'"
proof -
  have body: "I v'" if "release_body sv env rq i v = (y, v')" "I v"
      "\<not> isl (authorize sv ''jetkvm_release_input'' (cr_device rq) (cr_scope rq))"
      "rl_operation rq = 0 \<or> i = rl_operation rq" for i v y v'
    using that
    by (auto simp: release_body_def justified_def tool_allowed_def dest!: keeps_next
        elim!: keeps_session intro!: assms(3) split: prod.splits if_splits)
  show ?thesis
    using assms(1,2)
    by (auto simp: release_input_def Let_def map_prod_def dest!: keeps_ends elim!: keeps_execute intro: body
        split: prod.splits sum.splits option.splits if_splits)
qed

lemma keeps_open_control: "open_control sv env cl rq w = (x, w') \<Longrightarrow> I w \<Longrightarrow> I w'"
  by (auto simp: open_control_def Let_def dest!: keeps_steps split: prod.splits sum.splits option.splits if_splits)

lemma keeps_step:
  assumes "I w" "\<And>e. justified sv x e \<Longrightarrow> permit e"
  shows "I (svc_step sv env w x)"
proof -
  obtain cl call where x: "x = (cl, call)" by (cases x)
  show ?thesis
  proof (cases call)
    case (CallPowerAction rq)
    then show ?thesis using assms keeps_power_action [OF surjective_pairing] by (simp add: x svc_step_def)
  next
    case (CallRunActions rq)
    then show ?thesis using assms keeps_run_actions [OF surjective_pairing] by (simp add: x svc_step_def)
  next
    case (CallReleaseInput rq)
    then show ?thesis using assms keeps_release_input [OF surjective_pairing, where cl = cl] by (simp add: x svc_step_def)
  next
    case (CallOpenControl rq)
    then show ?thesis using assms keeps_open_control [OF surjective_pairing] by (simp add: x svc_step_def)
  qed (use assms(1) in \<open>auto simp: x svc_step_def get_control_def close_control_def get_power_state_def svc_drain_def
      dest!: keeps_steps intro: keeps_lookup [OF surjective_pairing] keeps_probe [OF surjective_pairing]
      split: prod.splits sum.splits\<close>)
qed

lemma keeps_run:
  "I w \<Longrightarrow> (\<And>x e. x \<in> set xs \<Longrightarrow> justified sv x e \<Longrightarrow> permit e) \<Longrightarrow> I (foldl (svc_step sv env) w xs)"
proof (induction xs arbitrary: w)
  case (Cons x xs)
  have "I (svc_step sv env w x)"
    using Cons.prems(1) by (rule keeps_step) (rule Cons.prems(2), simp_all)
  moreover have "permit e" if "y \<in> set xs" "justified sv y e" for y e using that by (intro Cons.prems(2)) simp_all
  ultimately show ?case by (simp add: Cons.IH)
qed simp

end

section \<open>What was sent, and what the ledger recorded\<close>

definition times_sent :: "uuid \<Rightarrow> svc_world \<Rightarrow> nat" where
  "times_sent i w = length (filter (\<lambda>(j, _). j = i) (sw_sent w))"

definition accounted :: "svc_env \<Rightarrow> ledger \<Rightarrow> svc_world \<Rightarrow> bool" where
  "accounted env l w \<longleftrightarrow> sw_ledger w = foldl ledger_step l (sw_trace w) \<and> list_all (served env) (sw_trace w) \<and>
     (\<forall>i. times_sent i w \<le> crossings i l (sw_trace w))"

interpretation account: world_invariant env "accounted env l" "\<lambda>_. True" for env l
proof unfold_locales
  show "accounted env l (ledger_call c w)" if "accounted env l w" "served env c" for w c
    using that by (auto simp: accounted_def ledger_call_def times_sent_def crossings_append intro: le_SucI)
  show "accounted env l w'" if "accounted env l w" "sw_ledger w' = sw_ledger w" "sw_trace w' = sw_trace w"
      "sw_sent w' = sw_sent w" for w w'
    using that by (simp add: accounted_def times_sent_def)
  show "accounted env l (w'\<lparr>sw_sent := sw_sent w' @ [(i, d, what)]\<rparr>)"
    if "accounted env l w" "\<not> isl (fst (ledger_transition p io i StageSendStarted pt at (sw_ledger w)))"
      "w' = ledger_call (OpTransition p io i StageSendStarted pt at) w" for w i d what p io pt at w'
    using that by (auto simp: accounted_def ledger_call_def times_sent_def crossings_append committed_send_def served_def
        intro: trans_le_add1)
qed

interpretation sent: world_invariant env "\<lambda>w. list_all permit (sw_sent w)" permit for env permit
  by unfold_locales (auto simp: ledger_call_def)


definition start_world :: "ledger \<Rightarrow> registry \<Rightarrow> nonces \<Rightarrow> svc_world" where
  "start_world l r n = \<lparr>sw_ledger = l, sw_trace = [], sw_registry = r, sw_nonces = n, sw_sent = [], sw_tick = 0\<rparr>"

definition svc_run :: "service \<Rightarrow> svc_env \<Rightarrow> svc_world \<Rightarrow> (caller \<times> svc_call) list \<Rightarrow> svc_world" where
  "svc_run sv env w xs = foldl (svc_step sv env) w xs"

lemma run_accounted: "accounted env l (svc_run sv env (start_world l r n) xs)"
  unfolding svc_run_def by (rule account.keeps_run) (simp_all add: accounted_def start_world_def times_sent_def)

lemma served_not_purge:
  "(\<And>k c. OtherLedger c \<in> set (sa_others (env k)) \<Longrightarrow> not_purge c) \<Longrightarrow> served env c \<Longrightarrow> not_purge c"
proof -
  assume others: "\<And>k c. OtherLedger c \<in> set (sa_others (env k)) \<Longrightarrow> not_purge c" and "served env c"
  then have "not_purge c \<or> (\<exists>k. OtherLedger c \<in> set (sa_others (env k)))"
    by (auto simp: served_def not_purge_def split: ledger_op.splits)
  then show "not_purge c" using others by blast
qed

section \<open>Properties\<close>


text \<open>
  C5: the receipt never invites a second send: when the receipt of an operation says that a retry is safe,
  the service has handed no command of that operation to any session.
\<close>

theorem retry_safe_receipt_was_never_sent:
  assumes "ledger_inv l" and "\<And>k c. OtherLedger c \<in> set (sa_others (env k)) \<Longrightarrow> not_purge c"
    and "ledger_get io i (sw_ledger (svc_run sv env (start_world l r n) xs)) = Inr q" and "rc_retry_safe q"
  shows "times_sent i (svc_run sv env (start_world l r n) xs) = 0"
proof -
  let ?w = "svc_run sv env (start_world l r n) xs"
  have acc: "accounted env l ?w" by (rule run_accounted)
  then have np: "list_all not_purge (sw_trace ?w)" and led: "sw_ledger ?w = foldl ledger_step l (sw_trace ?w)"
    using served_not_purge [of env, OF assms(2)] by (auto simp: accounted_def list_all_iff)
  obtain row where "find_row i (sw_ledger ?w) = Some row" "or_retry_safe row"
    using assms(3,4) by (auto simp: ledger_get_def getOperationRow_def row_receipt_def split: option.splits)
  then have "crossings i l (sw_trace ?w) = 0" using assms(1) np led by (intro retry_safe_never_crossed) simp_all
  then show ?thesis using acc by (auto simp: accounted_def dest!: spec [of _ i])
qed

text \<open>
  C2: every command ever handed to a session belongs to a call of the run that the policy allows, for that
  call's device and operation, and is exactly that call's command; where the deployment requires a
  confirmation for it, the caller presented a proof that opens to this principal, device, generation,
  action and arguments.
\<close>

theorem every_command_is_justified:
  "list_all (\<lambda>e. list_ex (\<lambda>x. justified sv x e) xs) (sw_sent (svc_run sv env (start_world l r n) xs))"
  unfolding svc_run_def
  by (rule sent.keeps_run) (auto simp: start_world_def list_ex_iff)

lemma actor_admitted:
  assumes "actor_admit env early r capability a = (Inr t, a')"
  obtains h where "\<not> early" "\<not> aw_draining a" "\<not> aw_done a"
    "as_current (aw_state a) = Some h" "hd_id h = rf_id r" "hd_generation h = rf_generation r"
    "hd_state h = HandleReady" "an_now (env (aw_tick a)) < hd_idle_expires h"
    "an_now (env (aw_tick a)) < hd_absolute_expires h" "capability \<in> set (hd_capabilities h)"
    "as_session (aw_state a) = Some t"
proof -
  define b where "b = expireIfNeeded env (an_now (env (aw_tick a))) (snd (ask env a))"
  obtain h where *: "\<not> early" "\<not> aw_done a" "\<not> aw_draining a" "validate_ref r (aw_state b) = Inr h"
      "capability \<in> set (hd_capabilities h)" "as_session (aw_state b) = Some t"
    using assms
    by (auto simp: actor_admit_def case_prod_unfold Let_def b_def [symmetric] hasCapabilities_def
        split: if_splits option.splits sum.splits)
  note hb = *(4) [unfolded validate_ref_Ready]
  note expireIfNeeded_ready [of env _ "snd (ask env a)" h] expireIfNeeded_fresh [of env _ "snd (ask env a)" h]
  then show thesis using that * hb unfolding b_def by auto
qed

text \<open>
  C13: the callback of a call, the only place that talks to a session, has an effect only under a live
  handle: the device's actor exists and is not draining, the reference names its current ready handle and
  that handle's generation, both lifetimes last, and the handle has the capability.
\<close>

theorem callback_needs_live_handle:
  assumes "svc_execute sv env d q capability r0 body w0 \<noteq> svc_execute sv env d q capability r0 body' w0"
  shows "\<exists>a h. registry_find d (sw_registry (snd (next_answer sv env w0))) = Some a \<and>
    rg_state (sw_registry (snd (next_answer sv env w0))) = TransportRunning \<and> \<not> aw_draining a \<and>
    as_current (aw_state a) = Some h \<and> hd_id h = rf_id q \<and> hd_generation h = rf_generation q \<and>
    hd_state h = HandleReady \<and> capability \<in> set (hd_capabilities h) \<and>
    an_now (sv_control sv d (aw_tick a)) < min (hd_idle_expires h) (hd_absolute_expires h)"
proof -
  obtain an w where n: "next_answer sv env w0 = (an, w)" by fastforce
  have run: "rg_state (sw_registry w) = TransportRunning"
    using assms by (auto simp: svc_execute_def n Let_def split: if_splits)
  obtain a where a: "registry_find d (sw_registry w) = Some a"
    using assms run by (cases "registry_find d (sw_registry w)") (auto simp: svc_execute_def n Let_def)
  obtain t a' where "actor_admit (sv_control sv d) (sa_early an) q capability a = (Inr t, a')"
    using assms run a by (auto simp: svc_execute_def n Let_def split: sum.splits prod.splits)
  then show ?thesis by (rule actor_admitted) (use n a run in auto)
qed

text \<open>
  C20: a control session is opened only as the policy and the caller allow: opening the device and using
  the tool of every requested capability is permitted, its policy allows a takeover, ownership is not
  attached, and where a takeover has to be confirmed the caller presented a proof for this very request.
\<close>

theorem control_opens_only_as_allowed:
  assumes "open_control sv env cl rq w = (Inr h, w')"
  shows "oc_ownership rq \<noteq> OwnershipAttached \<and> oc_capabilities rq \<noteq> [] \<and>
    list_all (\<lambda>c. \<exists>tool. controlCapabilityTool c = Some tool \<and> \<not> isl (authorize sv tool (oc_device rq) (oc_scope rq)))
      (oc_capabilities rq) \<and>
    (\<exists>de. authorize sv ''jetkvm_open_control'' (oc_device rq) (oc_scope rq) = Inr de \<and> takeover_allowed de \<and>
      (co_confirmation_required (sv_policy sv) \<and> takeover_confirmed de \<longrightarrow>
         (\<exists>b. openControlConfirmationBinding sv rq (normalizeCapabilities (oc_capabilities rq)) = Inr b \<and> confirmed sv cl b)))"
proof -
  have caps: "list_all (\<lambda>c. \<exists>tool. controlCapabilityTool c = Some tool \<and> \<not> isl (authorize sv tool d sc)) cs"
    if "authorize_capabilities sv d sc cs = None" for d sc cs
    using that by (induction cs) (auto split: option.splits sum.splits)
  have "set (normalizeCapabilities cs) = set cs" for cs by (simp add: normalizeCapabilities_def)
  with caps [of "oc_device rq" "oc_scope rq" "normalizeCapabilities (oc_capabilities rq)"] assms show ?thesis
    by (auto simp: open_control_def Let_def list_all_iff dest: svc_verify_confirmed
        split: if_splits sum.splits option.splits prod.splits)
qed

text \<open>
  what a caller is told to confirm is what the call checks: a batch that cannot be prepared is never
  justified, and one that can be is justified exactly when the binding of its plan, if there is one, is
  confirmed and, for a batch that looks at the screen, observing is permitted.
\<close>

theorem plan_is_what_is_checked:
  "run_justified sv cl rq \<longleftrightarrow>
     (case prepare_run_actions sv rq of
        Inl _ \<Rightarrow> False
      | Inr plan \<Rightarrow>
          (if cp_required plan then confirmed sv cl (the (cp_binding plan)) else True) \<and>
          (if ru_observe_after rq \<or> batchHasScreenshot (ru_batch rq) then tool_allowed sv ''jetkvm_observe'' rq else True))"
  by (auto simp: run_justified_def prepare_run_actions_def tool_allowed_def Let_def split: sum.splits option.splits)

section \<open>A run\<close>

text \<open>A release of all input on the open handle of the control registry's example.\<close>

definition ex_scope :: scope where
  "ex_scope = \<lparr>sp_toolsets_allow = [], sp_toolsets_deny = [], sp_tools_allow = [], sp_tools_deny = []\<rparr>"

definition ex_release_tool :: tool_definition where
  "ex_release_tool = (observe_tool ''jetkvm_release_input'' True ''in'' ''out'')\<lparr>td_toolset := ''input''\<rparr>"

definition ex_policy :: compiled where
  "ex_policy =
     \<lparr>co_catalog = [(''jetkvm_release_input'', ex_release_tool)], co_toolsets_allow = {}, co_toolsets_deny = {},
      co_tools_allow = {}, co_tools_deny = {},
      co_devices = [(''d1'', \<lparr>dp_alias = ''lab'', dp_device_id = ''d1'', dp_permissions = [''input''], dp_takeover_allowed = False, dp_takeover_confirmation = True\<rparr>)],
      co_revision = ''rev'', co_confirmation_required = True\<rparr>"

definition ex_service :: service where
  "ex_service =
     \<lparr>sv_policy = ex_policy, sv_hmac = (\<lambda>_ _. 9), sv_key = replicate 32 0, sv_sha = (\<lambda>_. 5), sv_confirmations = None,
      sv_process = 1, sv_kinds = (\<lambda>_. OutOther), sv_control = (\<lambda>_. ex_answers (seconds 2)),
      sv_json_open = (\<lambda>_ _ _ _ _ _. None), sv_json_run = (\<lambda>_ _ _ _ _. None),
      sv_json_release = (\<lambda>_ _ _. Some [1]), sv_json_power = (\<lambda>_ _ _ _. None)\<rparr>"

definition ex_answer :: svc_answer where
  "ex_answer =
     \<lparr>sa_others = [], sa_clock = seconds 2, sa_later = seconds 2, sa_io = (\<lambda>_. None), sa_early = False, sa_joined = None,
      sa_uuid = 7, sa_runtime = True, sa_screen = True, sa_rpc = None, sa_extension = [], sa_power_led = False,
      sa_hdd_led = False, sa_run = RunSends (zero_receipt, None) (\<lambda>e. (zero_receipt, Some e)), sa_observe = None,
      sa_capture = True\<rparr>"

definition ex_svc_env :: svc_env where
  "ex_svc_env k = (if k < 100 then ex_answer else ex_answer\<lparr>sa_others := [OtherLedger (OpCrash 2)]\<rparr>)"

definition ex_input_registry :: registry where
  "ex_input_registry = ex_registry\<lparr>rg_actors :=
     [(''d1'', upd (\<lambda>s. s\<lparr>as_current := Some (ex_handle\<lparr>hd_capabilities := [''input'']\<rparr>)\<rparr>) ex_open)]\<rparr>"


definition ex_caller :: caller where
  "ex_caller = \<lparr>cl_principal = None, cl_proof = None\<rparr>"


lemma ex_next: "sw_tick w < 100 \<Longrightarrow> next_answer sv ex_svc_env w = (ex_answer, w\<lparr>sw_tick := Suc (sw_tick w)\<rparr>)"
  by (simp add: next_answer_def ex_svc_env_def ex_answer_def)

definition ex_ready :: "actor \<Rightarrow> bool" where
  "ex_ready act \<longleftrightarrow> \<not> aw_done act \<and> \<not> aw_draining act \<and> as_session (aw_state act) = Some 3 \<and>
     as_session_state (aw_state act) = SessionReady \<and> as_idle_timeout (aw_state act) = minutes 5 \<and>
     (\<exists>h. as_current (aw_state act) = Some h \<and> hd_id h = rf_id ex_ref \<and> hd_generation h = rf_generation ex_ref \<and>
        hd_state h = HandleReady \<and> hd_capabilities h = [''input''] \<and> seconds 2 < hd_idle_expires h \<and>
        seconds 2 < hd_absolute_expires h)"

lemma ex_snapshot_ready:
  assumes "ex_ready act"
  shows "\<exists>h act'. actor_snapshot (ex_answers (seconds 2)) ex_ref True act = (Inr h, SessionReady, act') \<and> ex_ready act'"
    and "\<exists>act'. actor_admit (ex_answers (seconds 2)) False ex_ref ''input'' act = (Inr 3, act')"
proof -
  obtain h where h: "as_current (aw_state act) = Some h" "hd_id h = rf_id ex_ref" "hd_generation h = rf_generation ex_ref"
      "hd_state h = HandleReady" "hd_capabilities h = [''input'']" "seconds 2 < hd_idle_expires h"
      "seconds 2 < hd_absolute_expires h"
    using assms by (auto simp: ex_ready_def)
  have v: "validate_ref ex_ref (aw_state act\<lparr>as_history := hs\<rparr>) = Inr h" for hs
    using h by (simp add: validate_ref_Ready)
  note flags = assms [unfolded ex_ready_def]
  show "\<exists>h act'. actor_snapshot (ex_answers (seconds 2)) ex_ref True act = (Inr h, SessionReady, act') \<and> ex_ready act'"
    using h flags by (simp add: actor_snapshot_def ask_def ex_answers_def expireIfNeeded_def Let_def v)
      (simp add: ex_ready_def touch_def)
  show "\<exists>act'. actor_admit (ex_answers (seconds 2)) False ex_ref ''input'' act = (Inr 3, act')"
    using h flags by (simp add: actor_admit_def ask_def ex_answers_def expireIfNeeded_def Let_def v hasCapabilities_def)
qed


lemma ex_others: "OtherLedger c \<in> set (sa_others (ex_svc_env k)) \<Longrightarrow> not_purge c"
  by (auto simp: ex_svc_env_def ex_answer_def not_purge_def split: if_splits)


theorem retry_safe_receipt_was_never_sent_witness:
  "times_sent 7 (svc_run ex_service ex_svc_env (start_world ex_begun ex_registry []) [(ex_caller, CallDrain)]) = 0"
proof (rule retry_safe_receipt_was_never_sent [OF ex_begun_inv, where io = "\<lambda>_. None"])
  show "ledger_get (\<lambda>_. None) 7 (sw_ledger (svc_run ex_service ex_svc_env (start_world ex_begun ex_registry [])
      [(ex_caller, CallDrain)])) = Inr (row_receipt ex_begun ex_row)"
    by (simp add: svc_run_def svc_step_def svc_drain_def ex_next start_world_def ledger_get_ok receipt_of_def find_row_def
        ex_rows case_prod_unfold Let_def)
  show "rc_retry_safe (row_receipt ex_begun ex_row)" by (simp add: row_receipt_def ex_row_def new_row_def)
qed (rule ex_others)

theorem callback_needs_live_handle_witness:
  "\<exists>a h. registry_find ''d1'' ex_input_registry = Some a \<and> as_current (aw_state a) = Some h \<and> ''input'' \<in> set (hd_capabilities h)"
proof -
  let ?w = "start_world ex_begun ex_input_registry []"
  define act where "act = upd (\<lambda>s. s\<lparr>as_current := Some (ex_handle\<lparr>hd_capabilities := [''input'']\<rparr>)\<rparr>) ex_open"
  have act: "registry_find ''d1'' ex_input_registry = Some act" "ex_ready act" "rg_state ex_input_registry = TransportRunning"
    by (simp_all add: registry_find_def ex_input_registry_def ex_registry_def act_def ex_ready_def ex_open_state ex_handle_def ex_ref_def)
  obtain act2 where admit: "actor_admit (ex_answers (seconds 2)) False ex_ref ''input'' act = (Inr 3, act2)"
    using ex_snapshot_ready(2) [OF act(2)] by blast
  have fixed: "sv_control ex_service d = ex_answers (seconds 2)" "sa_early ex_answer = False" "sa_joined ex_answer = None" for d
    by (simp_all add: ex_service_def ex_answer_def)
  have "fst (svc_execute ex_service ex_svc_env ''d1'' ex_ref ''input'' False (\<lambda>w. ((b, None), w)) ?w) = (b, None)" for b
    using admit act by (simp add: svc_execute_def ex_next start_world_def fixed errors_join_def)
  then have "svc_execute ex_service ex_svc_env ''d1'' ex_ref ''input'' False (\<lambda>w. ((True, None), w)) ?w \<noteq>
      svc_execute ex_service ex_svc_env ''d1'' ex_ref ''input'' False (\<lambda>w. ((False, None), w)) ?w"
    by (metis (no_types, lifting) prod.inject)
  from callback_needs_live_handle [OF this] show ?thesis by (auto simp: ex_next start_world_def)
qed

definition ex_open_policy :: compiled where
  "ex_open_policy =
     ex_policy\<lparr>co_catalog := [(''jetkvm_open_control'', ex_release_tool\<lparr>td_name := ''jetkvm_open_control''\<rparr>),
        (''jetkvm_run_actions'', ex_release_tool\<lparr>td_name := ''jetkvm_run_actions''\<rparr>)],
      co_devices := [(''d1'', \<lparr>dp_alias = ''lab'', dp_device_id = ''d1'', dp_permissions = [''input''],
        dp_takeover_allowed = True, dp_takeover_confirmation = False\<rparr>)]\<rparr>"

definition ex_open_request :: open_control_request where
  "ex_open_request = \<lparr>oc_device = ''d1'', oc_capabilities = [''input''], oc_scope = ex_scope,
     oc_ownership = OwnershipOwned, oc_idle = 0, oc_absolute = 0\<rparr>"

theorem control_opens_only_as_allowed_witness:
  "\<exists>h w' de. open_control (ex_service\<lparr>sv_policy := ex_open_policy\<rparr>) ex_svc_env ex_caller ex_open_request
       (start_world empty_ledger ex_registry []) = (Inr h, w') \<and>
     authorize (ex_service\<lparr>sv_policy := ex_open_policy\<rparr>) ''jetkvm_open_control'' ''d1'' ex_scope = Inr de \<and> takeover_allowed de"
proof -
  let ?sv = "ex_service\<lparr>sv_policy := ex_open_policy\<rparr>"
  let ?dp = "\<lparr>dp_alias = ''lab'', dp_device_id = ''d1'', dp_permissions = [''input''], dp_takeover_allowed = True,
    dp_takeover_confirmation = False\<rparr>"
  have auth: "\<exists>de. authorize ?sv t ''d1'' ex_scope = Inr de \<and> de_device de = Some ?dp"
    if "t = ''jetkvm_open_control'' \<or> t = ''jetkvm_run_actions''" for t
    using that
    by (auto simp: authorize_def evaluate_def catalog_get_def ex_open_policy_def ex_policy_def ex_release_tool_def
      observe_tool_def observe_tool_for_def selected_def makeSet_def ex_scope_def Let_def)
  have caps: "normalizeCapabilities [''input''] = [''input'']" by (simp add: normalizeCapabilities_def)
  have "\<exists>h r. registry_open (\<lambda>_. ex_answers (seconds 2)) False
      \<lparr>rq_device = ''d1'', rq_capabilities = [''input''], rq_ownership = OwnershipOwned, rq_idle = 0, rq_absolute = 0\<rparr> ex_registry =
      (Inr h, r)"
    by (simp add: registry_open_def ex_registry_def control_config.truncate_def prepare_open_def caps registry_actor_def
        registry_find_def actor_open_def newActor_def ask_def ex_answers_def expireIfNeeded_def open_fresh_def
        newHandleID_def call_out_def Let_def numeral_eq_Suc put_actor_def)
  then obtain h r where opened: "registry_open (\<lambda>_. ex_answers (seconds 2)) False
      \<lparr>rq_device = ''d1'', rq_capabilities = [''input''], rq_ownership = OwnershipOwned, rq_idle = 0, rq_absolute = 0\<rparr> ex_registry =
      (Inr h, r)" by blast
  have fixed: "sv_control ?sv = (\<lambda>_. ex_answers (seconds 2))" "sa_early ex_answer = False"
    by (simp_all add: ex_service_def ex_answer_def)
  have rq: "oc_device ex_open_request = ''d1''" "oc_capabilities ex_open_request = [''input'']" "oc_scope ex_open_request = ex_scope"
    "oc_ownership ex_open_request = OwnershipOwned" "oc_idle ex_open_request = 0" "oc_absolute ex_open_request = 0"
    by (simp_all add: ex_open_request_def)
  obtain de where de: "authorize ?sv ''jetkvm_open_control'' ''d1'' ex_scope = Inr de" "de_device de = Some ?dp"
    using auth [OF disjI1 [OF refl]] by (elim exE conjE)
  obtain de' where de': "authorize ?sv ''jetkvm_run_actions'' ''d1'' ex_scope = Inr de'"
    using auth [OF disjI2 [OF refl]] by (elim exE conjE)
  have "authorize_capabilities ?sv ''d1'' ex_scope [''input''] = None" by (simp add: controlCapabilityTool_def de')
  moreover define w where "w = start_world empty_ledger ex_registry []"
  moreover have "takeover_allowed de" "\<not> takeover_confirmed de" by (simp_all add: takeover_allowed_def takeover_confirmed_def de(2))
  moreover have "next_answer ?sv ex_svc_env w = (ex_answer, w\<lparr>sw_tick := 1\<rparr>)" "sw_registry (w\<lparr>sw_tick := 1\<rparr>) = ex_registry"
    by (simp_all add: ex_next w_def start_world_def)
  ultimately obtain w' where "open_control ?sv ex_svc_env ex_caller ex_open_request (start_world empty_ledger ex_registry []) = (Inr h, w')"
    unfolding open_control_def rq caps de(1) Let_def fixed by (simp add: opened [simplified] fixed(2) del: authorize_capabilities.simps)
  from this control_opens_only_as_allowed [OF this] show ?thesis by (auto simp: rq)
qed

end
