(* ===== verification/Session_Adapter.thy ===== *)
theory Session_Adapter
  imports Executor Domain
begin

text \<open>
  \<open>internal/automation/session.go\<close>, with \<open>videoReadiness\<close> and the screen operations of
  \<open>video.go\<close>: one control session. It puts a send barrier between the input manager and the device
  protocol, so that the first frame of an operation is sent only after the operation was recorded as
  started. \<open>env\<close> answers the protocol, the clock, the start callback and the video pipeline;
  \<open>ad_log\<close> lists what was asked of them. A run of the manager is the executor's, on an arbitrary
  script of transport answers; its calls go through the adapter one after the other. The theorems hold for
  every script, so in particular for the one whose answers are the adapter's own.
\<close>

section \<open>Data\<close>

datatype adapter_error =
    ErrClientNotFound | ErrSessionClosed | AdapterStale | AdapterInput input_error | AdapterCapability
  | ErrVideoSleeping | ErrVideoNoSignal | AdapterOutside nat

type_synonym adapter_errors = "adapter_error list"

text \<open>What the adapter asks of the outside; \<open>AskStart\<close> is the start callback of an operation.\<close>

datatype adapter_call =
    AskOpen
  | AskVideo
  | AskStart
  | AskHID u64 bytes
  | AskWheel int int
  | AskFlush u64
  | AskRPC string
  | AskAwait u64 duration time
  | AskClose
  | AskStopVideo

record screen =
  sc_id :: string
  sc_generation :: u64
  sc_width :: int
  sc_height :: int
  sc_captured :: time

record send_barrier =
  sb_ran :: bool
  sb_started :: bool
  sb_error :: "adapter_errors option"

definition fresh_barrier :: send_barrier where
  "fresh_barrier = \<lparr>sb_ran = False, sb_started = False, sb_error = None\<rparr>"

record adapter =
  ad_device :: device_id
  ad_generation :: u64
  ad_protocol_generation :: u64
  ad_input :: world
  ad_closed :: bool
  ad_barrier :: "send_barrier option"
  ad_neutralized :: bool
  ad_video :: bool
  ad_completed :: time
  ad_observations :: "screen list"
  ad_captured :: "screen option"
  ad_tick :: nat
  ad_log :: "adapter_call list"

text \<open>
  \<open>aa_rpc\<close>: the remote call failed because the firmware does not know the method, or with an error.
\<close>

datatype rpc_outcome = RpcOk | RpcUnknownMethod | RpcFailed adapter_errors

record adapter_answer =
  aa_error :: "adapter_errors option"
  aa_now :: time
  aa_rpc :: rpc_outcome
  aa_sleep :: "bool \<times> bool"
  aa_signal :: "bool \<times> string"
  aa_recent :: bool
  aa_geometry :: bool
  aa_screen :: screen
  aa_encode :: "adapter_errors option"

type_synonym adapter_env = "nat \<Rightarrow> adapter_answer"

definition consult :: "adapter_env \<Rightarrow> adapter \<Rightarrow> adapter_answer \<times> adapter" where
  "consult env a = (env (ad_tick a), a\<lparr>ad_tick := Suc (ad_tick a)\<rparr>)"

definition ask_out :: "adapter_env \<Rightarrow> adapter_call \<Rightarrow> adapter \<Rightarrow> adapter_answer \<times> adapter" where
  "ask_out env c a = (let (r, a1) = consult env a in (r, a1\<lparr>ad_log := ad_log a1 @ [c]\<rparr>))"

section \<open>The barrier\<close>

definition cross :: "adapter_env \<Rightarrow> send_barrier \<Rightarrow> adapter \<Rightarrow> adapter_errors option \<times> adapter" where
  "cross env b a =
     (if sb_ran b then (sb_error b, a)
      else
        (let (r, a1) = ask_out env AskStart a
         in (aa_error r,
             a1\<lparr>ad_barrier := Some \<lparr>sb_ran = True, sb_started = (aa_error r = None), sb_error = aa_error r\<rparr>\<rparr>)))"

definition crossBarrier :: "adapter_env \<Rightarrow> adapter \<Rightarrow> adapter_errors option \<times> adapter" where
  "crossBarrier env a = (case ad_barrier a of None \<Rightarrow> (None, a) | Some b \<Rightarrow> cross env b a)"

definition checkGeneration :: "u64 \<Rightarrow> adapter \<Rightarrow> adapter_errors option" where
  "checkGeneration g a =
     (if ad_closed a then Some [ErrSessionClosed] else if g \<noteq> ad_generation a then Some [AdapterStale] else None)"

section \<open>The transport the manager uses\<close>

definition guarded_send :: "adapter_env \<Rightarrow> u64 \<Rightarrow> adapter_call \<Rightarrow> adapter \<Rightarrow> adapter_errors option \<times> adapter" where
  "guarded_send env g c a =
     (case checkGeneration g a of
        Some e \<Rightarrow> (Some e, a)
      | None \<Rightarrow>
          (case crossBarrier env a of
             (Some e, a1) \<Rightarrow> (Some e, a1)
           | (None, a1) \<Rightarrow>
               (case checkGeneration g a1 of
                  Some e \<Rightarrow> (Some e, a1)
                | None \<Rightarrow> (let (r, a2) = ask_out env c a1 in (aa_error r, a2)))))"

definition adapter_send_hid :: "adapter_env \<Rightarrow> u64 \<Rightarrow> bytes \<Rightarrow> adapter \<Rightarrow> adapter_errors option \<times> adapter" where
  "adapter_send_hid env g frame a = guarded_send env g (AskHID (ad_protocol_generation a) frame) a"

definition adapter_send_wheel :: "adapter_env \<Rightarrow> u64 \<Rightarrow> int \<Rightarrow> int \<Rightarrow> adapter \<Rightarrow> adapter_errors option \<times> adapter" where
  "adapter_send_wheel env g y x a = guarded_send env g (AskWheel y x) a"

definition adapter_flush :: "adapter_env \<Rightarrow> u64 \<Rightarrow> adapter \<Rightarrow> adapter_errors option \<times> adapter" where
  "adapter_flush env g a =
     (case checkGeneration g a of
        Some e \<Rightarrow> (Some e, a)
      | None \<Rightarrow> (let (r, a1) = ask_out env (AskFlush (ad_protocol_generation a)) a in (aa_error r, a1)))"

section \<open>The screen\<close>

definition videoReadiness :: "adapter_env \<Rightarrow> adapter \<Rightarrow> adapter_errors option \<times> adapter" where
  "videoReadiness env a =
     (let (r, a1) = ask_out env (AskRPC ''getVideoSleepMode'') a
      in (case aa_rpc r of
            RpcUnknownMethod \<Rightarrow> (None, a1)
          | RpcFailed e \<Rightarrow> (Some e, a1)
          | RpcOk \<Rightarrow>
              if fst (aa_sleep r) \<and> snd (aa_sleep r) then (Some [ErrVideoSleeping], a1)
              else
                (let (q, a2) = ask_out env (AskRPC ''getVideoState'') a1
                 in (case aa_rpc q of
                       RpcUnknownMethod \<Rightarrow> (None, a2)
                     | RpcFailed e \<Rightarrow> (Some e, a2)
                     | RpcOk \<Rightarrow>
                         if \<not> fst (aa_signal q) \<and> snd (aa_signal q) = ''no_signal'' then (Some [ErrVideoNoSignal], a2)
                         else (None, a2)))))"

definition maxTime :: "time \<Rightarrow> time \<Rightarrow> time" where
  "maxTime a b = (if a < b then b else a)"

definition keep_last :: "nat \<Rightarrow> 'a list \<Rightarrow> 'a list" where
  "keep_last n xs = (if length xs > n then drop (length xs - n) xs else xs)"

text \<open>The metadata kept of an observation is all of \<open>screen\<close>; the picture is not modelled.\<close>

definition adapter_observe ::
    "adapter_env \<Rightarrow> duration \<Rightarrow> time \<Rightarrow> adapter \<Rightarrow> (adapter_errors + screen) \<times> adapter" where
  "adapter_observe env freshness not_before a =
     (if \<not> ad_video a then (Inl [AdapterCapability], a)
      else
        (let (r, a1) = consult env a
         in (case (if aa_recent r then (None, a1) else videoReadiness env a1) of
               (Some e, a2) \<Rightarrow> (Inl e, a2)
             | (None, a2) \<Rightarrow>
                 (let (q, a3) = ask_out env (AskAwait (ad_generation a2) freshness (maxTime not_before (ad_completed a2))) a2
                  in (case aa_error q of
                        Some e \<Rightarrow> (Inl e, a3)
                      | None \<Rightarrow>
                          (case aa_encode q of
                             Some e \<Rightarrow> (Inl e, a3)
                           | None \<Rightarrow>
                               (Inr (aa_screen q),
                                a3\<lparr>ad_observations := keep_last 16 (ad_observations a3 @ [aa_screen q])\<rparr>)))))))"

definition adapter_capture :: "adapter_env \<Rightarrow> u64 \<Rightarrow> adapter \<Rightarrow> adapter_errors option \<times> adapter" where
  "adapter_capture env g a =
     (case checkGeneration g a of
        Some e \<Rightarrow> (Some e, a)
      | None \<Rightarrow>
          (let (r, a1) = consult env a
           in (case adapter_observe env 0 (aa_now r) a1 of
                 (Inl e, a2) \<Rightarrow> (Some e, a2)
               | (Inr s, a2) \<Rightarrow> (None, a2\<lparr>ad_captured := Some s\<rparr>))))"


definition matches_screen :: "observation_binding \<Rightarrow> screen \<Rightarrow> bool" where
  "matches_screen b s \<longleftrightarrow>
     ob_id b = sc_id s \<and> ob_generation b = sc_generation s \<and> (ob_width b = 0 \<or> ob_width b = sc_width s) \<and>
     (ob_height b = 0 \<or> ob_height b = sc_height s) \<and> (ob_captured_at b = 0 \<or> ob_captured_at b = sc_captured s)"

definition resolveObservation ::
    "adapter_env \<Rightarrow> observation_binding option \<Rightarrow> adapter \<Rightarrow> (adapter_errors + observation_binding option) \<times> adapter" where
  "resolveObservation env binding a =
     (case binding of
        None \<Rightarrow> (Inr None, a)
      | Some b \<Rightarrow>
          (case find (matches_screen b) (ad_observations a) of
             None \<Rightarrow> (Inl [AdapterInput ErrObservationStale], a)
           | Some s \<Rightarrow>
               (let (r, a1) = consult env a
                in if ad_video a1 \<and> \<not> aa_geometry r then (Inl [AdapterInput ErrObservationStale], a1)
                   else if time_sub (aa_now r) (sc_captured s) > li_max_observation_age default_limits
                   then (Inl [AdapterInput ErrObservationStale], a1)
                   else
                     (Inr (Some \<lparr>ob_id = sc_id s, ob_generation = sc_generation s, ob_width = sc_width s,
                                 ob_height = sc_height s, ob_captured_at = sc_captured s\<rparr>), a1))))"

section \<open>Operations\<close>

text \<open>One call of the manager to its transport or observer, and all the calls of a run.\<close>

definition adapter_serve :: "adapter_env \<Rightarrow> adapter \<Rightarrow> wire \<Rightarrow> adapter" where
  "adapter_serve env a c =
     (case c of
        SendHID g _ frame \<Rightarrow> snd (adapter_send_hid env g frame a)
      | SendWheel g y x \<Rightarrow> snd (adapter_send_wheel env g y x a)
      | Flush g \<Rightarrow> snd (adapter_flush env g a)
      | Capture g \<Rightarrow> snd (adapter_capture env g a))"

text \<open>The manager goes from \<open>ad_input a\<close> to \<open>w\<close>; the calls it made on the way are served.\<close>

definition adapter_drive :: "adapter_env \<Rightarrow> world \<Rightarrow> adapter \<Rightarrow> adapter" where
  "adapter_drive env w a =
     (foldl (adapter_serve env) a (drop (length (w_wire (ad_input a))) (w_wire w)))\<lparr>ad_input := w\<rparr>"

definition barrier_started :: "adapter \<Rightarrow> bool" where
  "barrier_started a \<longleftrightarrow> (case ad_barrier a of None \<Rightarrow> False | Some b \<Rightarrow> sb_started b)"

text \<open>What follows a run under a barrier: the instant the input ended, and the barrier's end.\<close>

definition end_operation :: "adapter_env \<Rightarrow> adapter \<Rightarrow> bool \<times> adapter" where
  "end_operation env a =
     (let started = barrier_started a;
          a1 = (if started then (let (r, a1) = consult env a in a1\<lparr>ad_completed := aa_now r\<rparr>) else a)
      in (started, a1\<lparr>ad_barrier := None\<rparr>))"

definition adapter_run ::
    "adapter_env \<Rightarrow> env \<Rightarrow> batch \<Rightarrow> adapter \<Rightarrow> (batch_receipt \<times> bool \<times> adapter_errors option) \<times> adapter" where
  "adapter_run env inner b a0 =
     (if ad_closed a0 then ((zero_receipt, False, Some [ErrSessionClosed]), a0)
      else
        (case resolveObservation env (ba_observation b) a0 of
           (Inl e, a1) \<Rightarrow> ((zero_receipt, False, Some e), a1)
         | (Inr binding, a1) \<Rightarrow>
             (case manager_run_actions inner (ad_generation a1) (b\<lparr>ba_observation := binding\<rparr>) (ad_input a1) of
                (receipt, err, w) \<Rightarrow>
                  (let (started, a2) = end_operation env (adapter_drive env w (a1\<lparr>ad_barrier := Some fresh_barrier\<rparr>))
                   in ((receipt, started, map_option (map AdapterInput) err), a2)))))"

definition adapter_release ::
    "adapter_env \<Rightarrow> env \<Rightarrow> adapter \<Rightarrow> (bool \<times> adapter_errors option) \<times> adapter" where
  "adapter_release env inner a0 =
     (if ad_closed a0 then ((False, Some [ErrSessionClosed]), a0)
      else
        (case reconcile inner (ad_generation a0) (ad_input a0) of
           (err, w) \<Rightarrow>
             (let (started, a1) = end_operation env (adapter_drive env w (a0\<lparr>ad_barrier := Some fresh_barrier\<rparr>));
                  a2 = (if err = None then a1\<lparr>ad_neutralized := True\<rparr> else a1)
              in ((started, map_option (map AdapterInput) err), a2))))"

definition stopVideo :: "adapter \<Rightarrow> adapter" where
  "stopVideo a = (if ad_video a then a\<lparr>ad_log := ad_log a @ [AskStopVideo]\<rparr> else a)"

definition adapter_close :: "adapter_env \<Rightarrow> env \<Rightarrow> adapter \<Rightarrow> adapter_errors option \<times> adapter" where
  "adapter_close env inner a0 =
     (if ad_closed a0 then (None, a0)
      else
        (case (if ad_neutralized a0 then (None, a0)
               else
                 (case reconcile inner (ad_generation a0) (ad_input a0) of
                    (Some e, w) \<Rightarrow> (Some (map AdapterInput e), adapter_drive env w a0)
                  | (None, w) \<Rightarrow> (None, (adapter_drive env w a0)\<lparr>ad_neutralized := True\<rparr>))) of
           (Some e, a1) \<Rightarrow> (Some e, a1)
         | (None, a1) \<Rightarrow>
             (let (r, a2) = ask_out env AskClose a1
              in (case aa_error r of
                    Some e \<Rightarrow> (Some e, a2)
                  | None \<Rightarrow> (None, (stopVideo a2)\<lparr>ad_closed := True\<rparr>)))))"


text \<open>
  \<open>SessionFactory.Open\<close>: \<open>known\<close> says that the device has a client. The adapter it builds is
  neutral exactly when it may not send input.
\<close>

definition new_adapter :: "device_id \<Rightarrow> u64 \<Rightarrow> string list \<Rightarrow> u64 \<Rightarrow> manager \<Rightarrow> adapter" where
  "new_adapter d g capabilities protocol_generation m =
     \<lparr>ad_device = d, ad_generation = g, ad_protocol_generation = protocol_generation,
      ad_input = \<lparr>w_manager = m, w_tick = 0, w_wire = []\<rparr>, ad_closed = False, ad_barrier = None,
      ad_neutralized = (''input'' \<notin> set capabilities), ad_video = (''video'' \<in> set capabilities),
      ad_completed = 0, ad_observations = [], ad_captured = None, ad_tick = 0, ad_log = []\<rparr>"

text \<open>The adapter's \<open>input\<close> field before its manager is made, where nothing reads it.\<close>

definition no_manager :: manager where
  "no_manager =
     \<lparr>mg_observer = False, mg_generation = 0, mg_active = zero_nonce, mg_active_cancel = False, mg_lease_held = False,
      mg_uncertain = False, mg_limits = zero_limits, mg_cleanup_timeout = 0, mg_last_pointer = origin\<rparr>"

text \<open>\<open>errors.Join(err, protocolSession.CloseContext(...))\<close>.\<close>

definition abandon_session :: "adapter_env \<Rightarrow> adapter_errors \<Rightarrow> adapter \<Rightarrow> (adapter_errors + adapter) \<times> adapter_call list" where
  "abandon_session env cause a =
     (let (r, a1) = ask_out env AskClose a in (Inl (the (errors_join (Some cause) (aa_error r))), ad_log a1))"

definition factory_open ::
    "adapter_env \<Rightarrow> bool \<Rightarrow> device_id \<Rightarrow> u64 \<Rightarrow> string list \<Rightarrow> u64 \<Rightarrow> (adapter_errors + adapter) \<times> adapter_call list" where
  "factory_open env known d g capabilities protocol_generation =
     (if \<not> known then (Inl [ErrClientNotFound], [])
      else
        (let (r, a1) = ask_out env AskOpen (new_adapter d g capabilities protocol_generation no_manager)
         in (case aa_error r of
               Some e \<Rightarrow> (Inl e, ad_log a1)
             | None \<Rightarrow>
                 (let (verr, a2) = (if ad_video a1 then (let (q, a2) = ask_out env AskVideo a1 in (aa_error q, a2)) else (None, a1))
                  in (case verr of
                        Some e \<Rightarrow> abandon_session env e a2
                      | None \<Rightarrow>
                          (case newManager True True g zero_limits 0 of
                             Inl e \<Rightarrow> abandon_session env (map AdapterInput e) (stopVideo a2)
                           | Inr m \<Rightarrow> (Inr (a2\<lparr>ad_input := \<lparr>w_manager = m, w_tick = 0, w_wire = []\<rparr>\<rparr>), ad_log a2)))))))"

section \<open>What a served call does\<close>

definition is_frame :: "adapter_call \<Rightarrow> bool" where
  "is_frame c = (case c of AskHID _ _ \<Rightarrow> True | AskWheel _ _ \<Rightarrow> True | _ \<Rightarrow> False)"

lemma is_frame_simps [simp]:
  "is_frame (AskHID g f)" "is_frame (AskWheel y x)" "\<not> is_frame AskStart" "\<not> is_frame (AskFlush g)"
  "\<not> is_frame (AskRPC m)" "\<not> is_frame (AskAwait g d t)" "\<not> is_frame AskClose" "\<not> is_frame AskStopVideo"
  "\<not> is_frame AskOpen" "\<not> is_frame AskVideo"
  by (simp_all add: is_frame_def)

lemma consult_simps [simp]:
  "ad_log (snd (consult env a)) = ad_log a" "ad_barrier (snd (consult env a)) = ad_barrier a"
  "ad_closed (snd (consult env a)) = ad_closed a" "ad_generation (snd (consult env a)) = ad_generation a"
  "ad_input (snd (consult env a)) = ad_input a" "ad_neutralized (snd (consult env a)) = ad_neutralized a"
  "ad_video (snd (consult env a)) = ad_video a" "ad_observations (snd (consult env a)) = ad_observations a"
  "ad_completed (snd (consult env a)) = ad_completed a" "ad_protocol_generation (snd (consult env a)) = ad_protocol_generation a"
  by (simp_all add: consult_def)

lemma ask_out_simps [simp]:
  "ad_log (snd (ask_out env c a)) = ad_log a @ [c]" "ad_barrier (snd (ask_out env c a)) = ad_barrier a"
  "ad_closed (snd (ask_out env c a)) = ad_closed a" "ad_generation (snd (ask_out env c a)) = ad_generation a"
  "ad_input (snd (ask_out env c a)) = ad_input a" "ad_neutralized (snd (ask_out env c a)) = ad_neutralized a"
  "ad_video (snd (ask_out env c a)) = ad_video a" "ad_observations (snd (ask_out env c a)) = ad_observations a"
  "ad_completed (snd (ask_out env c a)) = ad_completed a" "ad_protocol_generation (snd (ask_out env c a)) = ad_protocol_generation a"
  by (simp_all add: ask_out_def consult_def)

text \<open>What stays as it is while calls are served.\<close>

definition same_session :: "adapter \<Rightarrow> adapter \<Rightarrow> bool" where
  "same_session a a' \<longleftrightarrow>
     ad_closed a' = ad_closed a \<and> ad_generation a' = ad_generation a \<and> ad_input a' = ad_input a \<and>
     ad_neutralized a' = ad_neutralized a \<and> ad_video a' = ad_video a \<and> ad_completed a' = ad_completed a \<and>
     ad_protocol_generation a' = ad_protocol_generation a \<and>
     (length (ad_observations a) \<le> 16 \<longrightarrow> length (ad_observations a') \<le> 16)"

lemma same_session_refl [simp]: "same_session a a"
  by (simp add: same_session_def)

lemma same_session_trans: "same_session a b \<Longrightarrow> same_session b d \<Longrightarrow> same_session a d"
  by (simp add: same_session_def)

text \<open>
  A barrier that has not let anything pass: no frame so far; once it ran, its start was called once, and
  frames follow only if that succeeded.
\<close>

definition behind :: "send_barrier option \<Rightarrow> adapter_call list \<Rightarrow> bool" where
  "behind b xs \<longleftrightarrow>
     (case b of
        None \<Rightarrow> AskStart \<notin> set xs
      | Some s \<Rightarrow>
          (sb_started s \<longleftrightarrow> sb_ran s \<and> sb_error s = None) \<and>
          length (filter (\<lambda>c. c = AskStart) xs) = (if sb_ran s then 1 else 0) \<and>
          list_all (\<lambda>c. \<not> is_frame c) (if sb_started s then takeWhile (\<lambda>c. c \<noteq> AskStart) xs else xs))"

lemma videoReadiness_frame:
  "videoReadiness env a = (x, a') \<Longrightarrow>
     \<exists>cs. ad_log a' = ad_log a @ cs \<and> list_all (\<lambda>c. \<exists>m. c = AskRPC m) cs \<and> same_session a a' \<and>
       ad_barrier a' = ad_barrier a"
  by (auto simp: videoReadiness_def case_prod_unfold Let_def same_session_def split: rpc_outcome.splits if_splits)

lemma keep_last_length: "length (keep_last n xs) \<le> n"
  by (simp add: keep_last_def)

lemma adapter_observe_frame:
  assumes "adapter_observe env freshness not_before a = (x, a')"
  shows "\<exists>cs. ad_log a' = ad_log a @ cs \<and> list_all (\<lambda>c. \<not> is_frame c \<and> c \<noteq> AskStart) cs \<and> same_session a a' \<and>
    ad_barrier a' = ad_barrier a \<and>
    list_all (\<lambda>c. case c of AskAwait g f t \<Rightarrow> g = ad_generation a \<and> ad_completed a \<le> t | _ \<Rightarrow> True) cs"
proof (cases "ad_video a")
  case True
  obtain r a1 where r: "consult env a = (r, a1)" by fastforce
  then have a1: "same_session a a1" "ad_log a1 = ad_log a" "ad_barrier a1 = ad_barrier a"
    using consult_simps [of env a] by (simp_all add: same_session_def)
  obtain y a2 where y: "(if aa_recent r then (None, a1) else videoReadiness env a1) = (y, a2)" by fastforce
  have "\<exists>cs. ad_log a2 = ad_log a1 @ cs \<and> list_all (\<lambda>c. \<exists>m. c = AskRPC m) cs \<and> same_session a1 a2 \<and> ad_barrier a2 = ad_barrier a1"
    using y videoReadiness_frame [of env a1 y a2] by (cases "aa_recent r") auto
  then obtain cs where cs: "ad_log a2 = ad_log a @ cs" "list_all (\<lambda>c. \<exists>m. c = AskRPC m) cs" "same_session a a2"
      "ad_barrier a2 = ad_barrier a" using a1 same_session_trans by auto
  then have rpc: "list_all (\<lambda>c. \<not> is_frame c \<and> c \<noteq> AskStart) cs"
    "list_all (\<lambda>c. case c of AskAwait g f t \<Rightarrow> g = ad_generation a \<and> ad_completed a \<le> t | _ \<Rightarrow> True) cs"
    by (auto simp: list_all_iff)
  have le: "ad_completed a \<le> maxTime not_before (ad_completed a)" by (simp add: maxTime_def)
  show ?thesis
  proof (cases y)
    case (Some e)
    then show ?thesis using assms True r y cs rpc by (auto simp: adapter_observe_def)
  next
    case None
    let ?c = "AskAwait (ad_generation a2) freshness (maxTime not_before (ad_completed a2))"
    obtain q a3 where q: "ask_out env ?c a2 = (q, a3)" by fastforce
    have "adapter_observe env freshness not_before a =
        (case aa_error q of Some e \<Rightarrow> (Inl e, a3)
         | None \<Rightarrow> (case aa_encode q of Some e \<Rightarrow> (Inl e, a3)
             | None \<Rightarrow> (Inr (aa_screen q), a3\<lparr>ad_observations := keep_last 16 (ad_observations a3 @ [aa_screen q])\<rparr>)))"
      using True by (simp add: adapter_observe_def r y None q)
    then have "a' = a3 \<or> a' = a3\<lparr>ad_observations := keep_last 16 (ad_observations a3 @ [aa_screen q])\<rparr>"
      using assms by (simp split: option.splits)
    then have "ad_log a' = ad_log a @ cs @ [?c] \<and> same_session a2 a' \<and> ad_barrier a' = ad_barrier a2"
      using ask_out_simps [of env ?c a2] q cs(1) keep_last_length [of 16] by (auto simp: same_session_def)
    then show ?thesis using cs rpc le by (intro exI [of _ "cs @ [?c]"]) (auto simp: same_session_def)
  qed
qed (use assms in \<open>auto simp: adapter_observe_def\<close>)

text \<open>Serving one call of the manager keeps the barrier's discipline.\<close>

lemma takeWhile_start: "list_all (\<lambda>c. c \<noteq> AskStart) cs \<Longrightarrow> AskStart \<notin> set xs \<Longrightarrow>
    takeWhile (\<lambda>c. c \<noteq> AskStart) (xs @ cs) = xs @ cs"
  by (auto simp: takeWhile_eq_all_conv list_all_iff)

lemma started_once: "AskStart \<in> set xs \<Longrightarrow> takeWhile (\<lambda>c. c \<noteq> AskStart) (xs @ cs) = takeWhile (\<lambda>c. c \<noteq> AskStart) xs"
  by (rule takeWhile_append1) auto

lemma behind_quiet:
  assumes "behind b xs" "list_all (\<lambda>c. \<not> is_frame c \<and> c \<noteq> AskStart) cs"
  shows "behind b (xs @ cs)"
proof -
  have none: "filter (\<lambda>c. c = AskStart) cs = []" "AskStart \<notin> set cs" "list_all (\<lambda>c. \<not> is_frame c) cs"
    using assms(2) by (auto simp: filter_empty_conv list_all_iff)
  show ?thesis
  proof (cases b)
    case (Some s)
    show ?thesis
    proof (cases "sb_started s")
      case True
      then have "filter (\<lambda>c. c = AskStart) xs \<noteq> []" using assms(1) Some by (auto simp: behind_def)
      then have "AskStart \<in> set xs" by (auto simp: filter_empty_conv)
      then show ?thesis using assms(1) Some True none by (simp add: behind_def started_once)
    qed (use assms(1) Some none in \<open>simp add: behind_def\<close>)
  qed (use assms(1) none in \<open>simp add: behind_def\<close>)
qed

lemma behind_frame:
  assumes "behind (Some s) xs" "sb_started s" "c \<noteq> AskStart"
  shows "behind (Some s) (xs @ [c])"
proof -
  have "filter (\<lambda>c. c = AskStart) xs \<noteq> []" using assms by (auto simp: behind_def)
  then have "AskStart \<in> set xs" by (auto simp: filter_empty_conv)
  then show ?thesis using assms by (simp add: behind_def started_once)
qed

lemma behind_start:
  assumes "behind (Some s) xs" "\<not> sb_ran s" "e = None \<or> cs = []" "AskStart \<notin> set cs"
  shows "behind (Some \<lparr>sb_ran = True, sb_started = (e = None), sb_error = e\<rparr>) (xs @ AskStart # cs)"
proof -
  have "filter (\<lambda>c. c = AskStart) xs = []" using assms(1,2) by (simp add: behind_def)
  then have "AskStart \<notin> set xs" by (auto simp: filter_empty_conv)
  then have "takeWhile (\<lambda>c. c \<noteq> AskStart) (xs @ AskStart # cs) = xs" by (subst takeWhile_append2) auto
  moreover have "filter (\<lambda>c. c = AskStart) cs = []" using assms(4) by (auto simp: filter_empty_conv)
  ultimately show ?thesis using assms by (auto simp: behind_def)
qed

lemma guarded_send_behind:
  assumes "guarded_send env g c a = (x, a')" "is_frame c"
  shows "\<exists>cs. ad_log a' = ad_log a @ cs \<and> same_session a a' \<and> (ad_barrier a' = None \<longleftrightarrow> ad_barrier a = None) \<and>
    (\<forall>xs. behind (ad_barrier a) xs \<longrightarrow> behind (ad_barrier a') (xs @ cs))"
proof -
  have c: "c \<noteq> AskStart" using assms(2) by auto
  have start: "same_session a (snd (ask_out env AskStart a)\<lparr>ad_barrier := b\<rparr>)" for b by (simp add: same_session_def)
  show ?thesis
  proof (cases "checkGeneration g a")
    case None
    show ?thesis
    proof (cases "ad_barrier a")
      case None
      then show ?thesis using assms \<open>checkGeneration g a = None\<close> c
        by (intro exI [of _ "[c]"])
          (auto simp: guarded_send_def crossBarrier_def case_prod_unfold Let_def behind_def same_session_def)
    next
      case (Some s)
      show ?thesis
      proof (cases "sb_ran s")
        case True
        show ?thesis
        proof (cases "sb_error s")
          case None
          then have "\<forall>xs. behind (Some s) xs \<longrightarrow> sb_started s" using True by (auto simp: behind_def)
          then show ?thesis using assms(1) \<open>checkGeneration g a = None\<close> Some True None c behind_frame
            by (intro exI [of _ "[c]"])
              (auto simp: guarded_send_def crossBarrier_def cross_def case_prod_unfold Let_def same_session_def)
        next
          case (Some e)
          then show ?thesis using assms(1) \<open>checkGeneration g a = None\<close> \<open>ad_barrier a = Some s\<close> True
            by (intro exI [of _ "[]"]) (auto simp: guarded_send_def crossBarrier_def cross_def)
        qed
      next
        case False
        let ?r = "fst (ask_out env AskStart a)"
        have chk: "checkGeneration g ((snd (ask_out env AskStart a))\<lparr>ad_barrier := b\<rparr>) = None" for b
          using \<open>checkGeneration g a = None\<close> by (simp add: checkGeneration_def split: if_splits)
        have ok: "behind (Some s) xs \<Longrightarrow> behind (Some \<lparr>sb_ran = True, sb_started = True, sb_error = None\<rparr>) (xs @ [AskStart, c])" for xs
          using behind_start [of s xs None "[c]"] False c by simp
        have no: "behind (Some s) xs \<Longrightarrow> behind (Some \<lparr>sb_ran = True, sb_started = False, sb_error = Some y\<rparr>) (xs @ [AskStart])" for xs y
          using behind_start [of s xs "Some y" "[]"] False by simp
        show ?thesis
          using assms(1) \<open>checkGeneration g a = None\<close> Some False chk c
          by (intro exI [of _ "AskStart # (if aa_error ?r = None then [c] else [])"])
            (auto simp: guarded_send_def crossBarrier_def cross_def case_prod_unfold Let_def same_session_def
              intro: ok no split: option.splits)
      qed
    qed
  qed (use assms in \<open>auto simp: guarded_send_def\<close>)
qed

lemma flush_frame:
  "adapter_flush env g a = (x, a') \<Longrightarrow> \<exists>cs. ad_log a' = ad_log a @ cs \<and> same_session a a' \<and> ad_barrier a' = ad_barrier a \<and>
     list_all (\<lambda>c. \<not> is_frame c \<and> c \<noteq> AskStart) cs"
  by (auto simp: adapter_flush_def case_prod_unfold Let_def same_session_def split: option.splits)

lemma capture_frame:
  assumes "adapter_capture env g a = (x, a')"
  shows "\<exists>cs. ad_log a' = ad_log a @ cs \<and> same_session a a' \<and> ad_barrier a' = ad_barrier a \<and>
     list_all (\<lambda>c. \<not> is_frame c \<and> c \<noteq> AskStart) cs"
proof (cases "checkGeneration g a")
  case None
  obtain r a1 where r: "consult env a = (r, a1)" by fastforce
  obtain y a2 where y: "adapter_observe env 0 (aa_now r) a1 = (y, a2)" by fastforce
  have "same_session a a1" "ad_log a1 = ad_log a" "ad_barrier a1 = ad_barrier a"
    using consult_simps [of env a] r by (simp_all add: same_session_def)
  moreover have "\<exists>s. a' = a2 \<or> a' = a2\<lparr>ad_captured := s\<rparr>" using assms None r y by (auto simp: adapter_capture_def split: sum.splits)
  ultimately show ?thesis using adapter_observe_frame [OF y] by (auto simp: same_session_def)
qed (use assms in \<open>auto simp: adapter_capture_def\<close>)

lemma adapter_serve_behind:
  "\<exists>cs. ad_log (adapter_serve env a c) = ad_log a @ cs \<and> same_session a (adapter_serve env a c) \<and>
     (ad_barrier (adapter_serve env a c) = None \<longleftrightarrow> ad_barrier a = None) \<and>
     (\<forall>xs. behind (ad_barrier a) xs \<longrightarrow> behind (ad_barrier (adapter_serve env a c)) (xs @ cs))"
proof (cases c)
  case (SendHID g rel f)
  show ?thesis
    using guarded_send_behind [OF surjective_pairing, of "AskHID (ad_protocol_generation a) f" env g a] SendHID
    by (simp add: adapter_serve_def adapter_send_hid_def)
next
  case (SendWheel g y x)
  show ?thesis
    using guarded_send_behind [OF surjective_pairing, of "AskWheel y x" env g a] SendWheel
    by (simp add: adapter_serve_def adapter_send_wheel_def)
next
  case (Flush g)
  show ?thesis using flush_frame [of env g a, OF surjective_pairing] Flush behind_quiet
    by (auto simp: adapter_serve_def)
next
  case (Capture g)
  show ?thesis using capture_frame [of env g a, OF surjective_pairing] Capture behind_quiet
    by (auto simp: adapter_serve_def)
qed

lemma adapter_serves_behind:
  "\<exists>cs. ad_log (foldl (adapter_serve env) a ws) = ad_log a @ cs \<and> same_session a (foldl (adapter_serve env) a ws) \<and>
     (ad_barrier (foldl (adapter_serve env) a ws) = None \<longleftrightarrow> ad_barrier a = None) \<and>
     (\<forall>xs. behind (ad_barrier a) xs \<longrightarrow> behind (ad_barrier (foldl (adapter_serve env) a ws)) (xs @ cs))"
proof (induction ws arbitrary: a)
  case (Cons w ws)
  obtain cs where cs: "ad_log (adapter_serve env a w) = ad_log a @ cs" "same_session a (adapter_serve env a w)"
      "ad_barrier (adapter_serve env a w) = None \<longleftrightarrow> ad_barrier a = None"
      "\<forall>xs. behind (ad_barrier a) xs \<longrightarrow> behind (ad_barrier (adapter_serve env a w)) (xs @ cs)"
    using adapter_serve_behind by blast
  obtain ds where ds: "ad_log (foldl (adapter_serve env) (adapter_serve env a w) ws) = ad_log (adapter_serve env a w) @ ds"
      "same_session (adapter_serve env a w) (foldl (adapter_serve env) (adapter_serve env a w) ws)"
      "ad_barrier (foldl (adapter_serve env) (adapter_serve env a w) ws) = None \<longleftrightarrow> ad_barrier (adapter_serve env a w) = None"
      "\<forall>xs. behind (ad_barrier (adapter_serve env a w)) xs \<longrightarrow>
         behind (ad_barrier (foldl (adapter_serve env) (adapter_serve env a w) ws)) (xs @ ds)"
    using Cons.IH by blast
  have "\<forall>xs. behind (ad_barrier a) xs \<longrightarrow> behind (ad_barrier (foldl (adapter_serve env) a (w # ws))) (xs @ cs @ ds)"
    using cs(4) ds(4) by (metis append.assoc foldl_Cons)
  then show ?case using cs ds same_session_trans by (intro exI [of _ "cs @ ds"]) auto
qed simp

lemma resolve_frame:
  "resolveObservation env binding a = (x, a') \<Longrightarrow> ad_log a' = ad_log a \<and> same_session a a' \<and>
     ad_observations a' = ad_observations a \<and> ad_barrier a' = ad_barrier a"
  by (auto simp: resolveObservation_def case_prod_unfold Let_def same_session_def split: option.splits if_splits)

lemma drive_behind:
  "\<exists>cs. ad_log (adapter_drive env w a) = ad_log a @ cs \<and> (ad_barrier (adapter_drive env w a) = None \<longleftrightarrow> ad_barrier a = None) \<and>
     (\<forall>xs. behind (ad_barrier a) xs \<longrightarrow> behind (ad_barrier (adapter_drive env w a)) (xs @ cs)) \<and>
     ad_input (adapter_drive env w a) = w \<and> ad_closed (adapter_drive env w a) = ad_closed a \<and>
     ad_neutralized (adapter_drive env w a) = ad_neutralized a \<and> ad_video (adapter_drive env w a) = ad_video a \<and>
     ad_generation (adapter_drive env w a) = ad_generation a \<and>
     (length (ad_observations a) \<le> 16 \<longrightarrow> length (ad_observations (adapter_drive env w a)) \<le> 16)"
  using adapter_serves_behind [of env a "drop (length (w_wire (ad_input a))) (w_wire w)"]
  by (auto simp: adapter_drive_def same_session_def)

lemma end_operation_frame:
  "end_operation env a = (started, a') \<Longrightarrow> started = barrier_started a \<and> ad_log a' = ad_log a \<and> ad_barrier a' = None \<and>
     ad_input a' = ad_input a \<and> ad_closed a' = ad_closed a \<and> ad_neutralized a' = ad_neutralized a \<and>
     ad_video a' = ad_video a \<and> ad_generation a' = ad_generation a \<and> ad_observations a' = ad_observations a"
  by (auto simp: end_operation_def case_prod_unfold Let_def)

text \<open>What one operation under a fresh barrier asks of the outside.\<close>

definition disciplined :: "bool \<Rightarrow> adapter_call list \<Rightarrow> bool" where
  "disciplined started cs \<longleftrightarrow> length (filter (\<lambda>c. c = AskStart) cs) \<le> 1 \<and>
     list_all (\<lambda>c. \<not> is_frame c) (if started then takeWhile (\<lambda>c. c \<noteq> AskStart) cs else cs)"

lemma operation_disciplined:
  assumes "end_operation env (adapter_drive env w (a\<lparr>ad_barrier := Some fresh_barrier\<rparr>)) = (started, a')"
  shows "\<exists>cs. ad_log a' = ad_log a @ cs \<and> disciplined started cs"
proof -
  let ?a = "adapter_drive env w (a\<lparr>ad_barrier := Some fresh_barrier\<rparr>)"
  have "behind (Some fresh_barrier) []" by (simp add: behind_def fresh_barrier_def)
  then obtain cs s where cs: "ad_log ?a = ad_log a @ cs" "ad_barrier ?a = Some s" "behind (Some s) cs"
    using drive_behind [of env w "a\<lparr>ad_barrier := Some fresh_barrier\<rparr>"] by force
  then have "disciplined (sb_started s) cs" by (auto simp: disciplined_def behind_def split: if_splits)
  moreover have "started = sb_started s" "ad_log a' = ad_log a @ cs"
    using end_operation_frame [OF assms] cs by (simp_all add: barrier_started_def)
  ultimately show ?thesis by blast
qed




section \<open>Properties\<close>

text \<open>
  C4: no frame of a batch reaches the device before its operation is recorded as started: among the calls a
  run makes the start callback comes at most once and before the first frame, and if the run does not
  report a start, because the callback failed or was never reached, no frame at all was sent.
\<close>

theorem frames_follow_the_start:
  "case adapter_run env inner b a of ((_, started, _), a') \<Rightarrow>
     \<exists>cs. ad_log a' = ad_log a @ cs \<and> length (filter (\<lambda>c. c = AskStart) cs) \<le> 1 \<and>
       list_all (\<lambda>c. \<not> is_frame c) (if started then takeWhile (\<lambda>c. c \<noteq> AskStart) cs else cs)"
proof -
  obtain receipt started err a' where r: "adapter_run env inner b a = ((receipt, started, err), a')" by (metis prod.exhaust)
  obtain x a1 where x: "resolveObservation env (ba_observation b) a = (x, a1)" by fastforce
  note a1 = resolve_frame [OF x]
  have "\<exists>cs. ad_log a' = ad_log a @ cs \<and> disciplined started cs"
  proof (cases "ad_closed a \<or> isl x")
    case True
    then have "a' \<in> {a, a1} \<and> \<not> started"
      using r x by (cases "ad_closed a"; cases x) (simp_all add: adapter_run_def)
    then show ?thesis using a1 by (auto simp: disciplined_def)
  next
    case False
    then obtain binding where "x = Inr binding" by (cases x) auto
    then have "\<exists>w. end_operation env (adapter_drive env w (a1\<lparr>ad_barrier := Some fresh_barrier\<rparr>)) = (started, a')"
      using r x False by (auto simp: adapter_run_def Let_def split: prod.splits)
    then show ?thesis using operation_disciplined [of env _ a1 started a'] a1 by auto
  qed
  then show ?thesis by (simp add: r disciplined_def)
qed


text \<open>
  an explicit release exempts everything after it: once \<open>ReleaseInput\<close> has succeeded, closing
  the session sends no neutral frame any more, whatever batches ran in between and in whatever state they
  left the keys and buttons.
\<close>

theorem release_exempts_later_input:
  assumes "adapter_release env inner a = ((started, None), a1)" "\<not> ad_closed a"
    and "adapter_run env inner' b a1 = (res, a2)" and "adapter_close env inner'' a2 = (e, a3)"
  shows "ad_log a3 = ad_log a2 @ AskClose # (if e = None \<and> ad_video a2 then [AskStopVideo] else [])"
proof -
  obtain w a1' where w: "end_operation env (adapter_drive env w (a\<lparr>ad_barrier := Some fresh_barrier\<rparr>)) = (started, a1')"
      "a1 = a1'\<lparr>ad_neutralized := True\<rparr>"
    using assms(1,2) by (auto simp: adapter_release_def Let_def split: prod.splits if_splits)
  have a1: "ad_neutralized a1" "\<not> ad_closed a1"
    using end_operation_frame [OF w(1)] drive_behind [of env w "a\<lparr>ad_barrier := Some fresh_barrier\<rparr>"] assms(2) w(2) by auto
  obtain x a1r where x: "resolveObservation env (ba_observation b) a1 = (x, a1r)" by fastforce
  have "ad_neutralized a2 \<and> \<not> ad_closed a2"
  proof (cases x)
    case (Inl y)
    then show ?thesis using assms(3) a1 x resolve_frame [OF x] by (auto simp: adapter_run_def same_session_def)
  next
    case (Inr binding)
    then obtain v s where "end_operation env (adapter_drive env v (a1r\<lparr>ad_barrier := Some fresh_barrier\<rparr>)) = (s, a2)"
      using assms(3) a1 x by (auto simp: adapter_run_def Let_def split: prod.splits)
    then show ?thesis
      using end_operation_frame drive_behind [of env v "a1r\<lparr>ad_barrier := Some fresh_barrier\<rparr>"] a1 resolve_frame [OF x]
      by (auto simp: same_session_def)
  qed
  then show ?thesis
    using assms(4)
    by (auto simp: adapter_close_def case_prod_unfold Let_def stopVideo_def split: option.splits)
qed











text \<open>
  a batch is bound only to a screen this session saw: the binding the manager gets is the metadata of
  one kept observation with the identifier and generation the caller named, no older than the limit.
\<close>

theorem binding_is_a_recent_observation:
  assumes "resolveObservation env (Some b) a = (Inr r, a')"
  shows "\<exists>s \<in> set (ad_observations a).
    r = Some \<lparr>ob_id = sc_id s, ob_generation = sc_generation s, ob_width = sc_width s, ob_height = sc_height s,
              ob_captured_at = sc_captured s\<rparr> \<and>
    ob_id b = sc_id s \<and> ob_generation b = sc_generation s \<and>
    time_sub (aa_now (env (ad_tick a))) (sc_captured s) \<le> li_max_observation_age default_limits"
proof -
  obtain s where s: "find (matches_screen b) (ad_observations a) = Some s"
    using assms by (auto simp: resolveObservation_def split: option.splits)
  then have "s \<in> set (ad_observations a)" "matches_screen b s" by (auto simp: find_Some_iff)
  with assms s show ?thesis
    by (auto simp: resolveObservation_def matches_screen_def consult_def Let_def not_less split: if_splits)
qed

section \<open>A session at work\<close>

definition calm :: adapter_env where
  "calm n =
     \<lparr>aa_error = None, aa_now = seconds 110, aa_rpc = RpcOk, aa_sleep = (False, False), aa_signal = (True, []),
      aa_recent = True, aa_geometry = True,
      aa_screen = \<lparr>sc_id = ''shot'', sc_generation = 7, sc_width = 1920, sc_height = 1080, sc_captured = seconds 109\<rparr>,
      aa_encode = None\<rparr>"

definition ex_adapter :: adapter where
  "ex_adapter = new_adapter ''d'' 7 [''input'', ''video''] 3 ex_manager"

definition one_key :: batch where
  "one_key = \<lparr>ba_observation = None, ba_actions = [(ex_action ActionKeypress)\<lparr>ac_keys := [''Ctrl'', '' alt'']\<rparr>]\<rparr>"

definition lost_wire :: env where
  "lost_wire n = (if n \<ge> 10 then ex_reply\<lparr>er_error := Some [ErrExternal 1]\<rparr> else ex_reply)"

abbreviation (input) ex_released :: adapter where
  "ex_released \<equiv> snd (adapter_release calm ex_env ex_adapter)"

abbreviation (input) ex_uncertain :: adapter where
  "ex_uncertain \<equiv> snd (adapter_run calm lost_wire one_key ex_released)"


lemma one_key_compiles:
  "compileBatch one_key default_limits 7 110000000000 = Inr [(blank_item (ex_action ActionKeypress))\<lparr>ca_modifier := 5\<rparr>]"
  by (simp add: compileBatch_def ex_simps one_key_def)

lemma ex_released_input:
  "ad_input ex_released =
     \<lparr>w_manager = ex_manager, w_tick = 4, w_wire = map (SendHID 7 Reliable) (neutral_frames origin) @ [Flush 7]\<rparr>"
  "ad_closed ex_released = False" "ad_generation ex_released = 7"
  "snd (fst (adapter_release calm ex_env ex_adapter)) = None"
  by code_simp+

lemma lost_run_is_uncertain:
  "mg_uncertain (w_manager (snd (snd (manager_run_actions lost_wire 7 one_key
     \<lparr>w_manager = ex_manager, w_tick = 4, w_wire = ws\<rparr>))))"
  using one_key_compiles
  by (simp add: manager_run_actions_def acquire_def tick_def run_actions_def ensureValid_def validateToken_def
      token_error_def setActiveCancel_def finish_run_def release_def beginRelease_def neutralize_def
      neutral_calls_def neutral_frames_def transport_def finishRelease_def fence_def lost_wire_def
      Let_def ex_defs execute_action_def perform_def keypress_def send_hid_def or_fail_def and_then_def ex_action_def
      blank_item_def keyboard_report_def observation_expired_def mark_uncertain_def set_status_def set_error_def
      reset_after_def)

lemma run_input:
  assumes "manager_run_actions inner (ad_generation a) b (ad_input a) = (r, e, w)"
    and "\<not> ad_closed a" and "ba_observation b = None"
  shows "ad_input (snd (adapter_run env inner b a)) = w"
proof -
  let ?d = "adapter_drive env w (a\<lparr>ad_barrier := Some fresh_barrier\<rparr>)"
  obtain s a' where e: "end_operation env ?d = (s, a')" by fastforce
  have same: "b\<lparr>ba_observation := None\<rparr> = b" using assms(3) by (cases b) simp
  have "adapter_run env inner b a = ((r, s, map_option (map AdapterInput) e), a')"
    unfolding adapter_run_def resolveObservation_def assms(3) using assms(1,2) e by (simp add: same)
  moreover have "ad_input ?d = w" using drive_behind [of env w "a\<lparr>ad_barrier := Some fresh_barrier\<rparr>"] by blast
  ultimately show ?thesis using end_operation_frame [OF e] by simp
qed

text \<open>
  The key was pressed, its release and the neutral frames were refused, the manager is uncertain, and
  closing the session then sends nothing but the close.
\<close>

theorem release_exempts_later_input_witness:
  "mg_uncertain (w_manager (ad_input ex_uncertain)) \<and>
     (\<exists>rest. set rest \<subseteq> {AskStopVideo} \<and>
       ad_log (snd (adapter_close calm ex_env ex_uncertain)) = ad_log ex_uncertain @ AskClose # rest)"
proof -
  obtain r e w where run: "manager_run_actions lost_wire 7 one_key (ad_input ex_released) = (r, e, w)"
    by (metis prod_cases3)
  have w: "mg_uncertain (w_manager w)" using run lost_run_is_uncertain by (metis ex_released_input(1) snd_conv)
  have "ad_input ex_uncertain = w"
    by (rule run_input [OF run [folded ex_released_input(3)]]) (simp_all add: ex_released_input(2) one_key_def)
  moreover have "adapter_release calm ex_env ex_adapter = ((fst (fst (adapter_release calm ex_env ex_adapter)), None), ex_released)"
    using ex_released_input(4) by (metis prod.collapse)
  moreover have "\<not> ad_closed ex_adapter" by (simp add: ex_adapter_def new_adapter_def)
  ultimately show ?thesis
    using release_exempts_later_input [OF _ _ surjective_pairing surjective_pairing, of calm ex_env ex_adapter] w by auto
qed


theorem binding_is_a_recent_observation_witness:
  "\<exists>s \<in> set (ad_observations (snd (adapter_observe calm 0 0 ex_adapter))). sc_id s = ''shot''"
proof -
  let ?b = "\<lparr>ob_id = ''shot'', ob_generation = 7, ob_width = 0, ob_height = 0, ob_captured_at = 0\<rparr>"
  let ?a = "snd (adapter_observe calm 0 0 ex_adapter)"
  have "\<not> isl (fst (resolveObservation calm (Some ?b) ?a))" by code_simp
  then obtain r a' where "resolveObservation calm (Some ?b) ?a = (Inr r, a')"
    by (cases "resolveObservation calm (Some ?b) ?a"; cases "fst (resolveObservation calm (Some ?b) ?a)") auto
  from binding_is_a_recent_observation [OF this] show ?thesis by auto
qed

end
