(* ===== verification/Depacketizer.thy ===== *)
theory Depacketizer
  imports Jk_Prelude "HOL-Library.Multiset"
begin

text \<open>
  \<open>internal/video/depacketizer.go\<close> and the limits of \<open>types.go\<close>: reassembly of H.264 access
  units from RTP packets that arrive out of order. The pending packets are an association list whose
  keys are the sequence numbers; the source iterates over a map and sorts the keys, which are distinct,
  so the order of the list does not matter. Sequence numbers and timestamps are words and wrap around.
\<close>

unbundle bit_operations_syntax

section \<open>Limits\<close>

datatype video_error =
    ErrInvalidConfig | ErrInvalidPacket | ErrUnsupportedPacket | ErrPacketLoss | ErrPacketTooLarge
  | ErrAccessUnitTooLarge | ErrGenerationMismatch | ErrDecodeFailed | ErrDimensionsExceeded

type_synonym video_errors = "video_error list"

record video_limits =
  vl_packet_bytes :: int
  vl_unit_bytes :: int
  vl_unit_packets :: int
  vl_width :: int
  vl_height :: int
  vl_pixels :: int
  vl_freshness :: duration
  vl_pli_interval :: duration

definition defaultMaxPacket :: int where "defaultMaxPacket = 65536"
definition defaultMaxAU :: int where "defaultMaxAU = 8388608"
definition defaultMaxPackets :: int where "defaultMaxPackets = 8192"
definition defaultMaxWidth :: int where "defaultMaxWidth = 4096"
definition defaultMaxHeight :: int where "defaultMaxHeight = 2160"
definition defaultMaxPixels :: int where "defaultMaxPixels = 4096 * 2160"

definition with_defaults :: "video_limits \<Rightarrow> video_limits" where
  "with_defaults l = (let pick = (\<lambda>v d. if v = 0 then d else v) in
     \<lparr>vl_packet_bytes = pick (vl_packet_bytes l) defaultMaxPacket,
      vl_unit_bytes = pick (vl_unit_bytes l) defaultMaxAU,
      vl_unit_packets = pick (vl_unit_packets l) defaultMaxPackets,
      vl_width = pick (vl_width l) defaultMaxWidth,
      vl_height = pick (vl_height l) defaultMaxHeight,
      vl_pixels = pick (vl_pixels l) defaultMaxPixels,
      vl_freshness = pick (vl_freshness l) (seconds 5),
      vl_pli_interval = pick (vl_pli_interval l) (millis 250)\<rparr>)"

definition validate_video_limits :: "video_limits \<Rightarrow> video_errors option" where
  "validate_video_limits l =
     (if vl_packet_bytes l \<le> 0 \<or> vl_unit_bytes l \<le> 0 \<or> vl_unit_packets l \<le> 0 \<or> vl_width l \<le> 0 \<or>
         vl_height l \<le> 0 \<or> vl_pixels l \<le> 0 \<or> vl_freshness l \<le> 0 \<or> vl_pli_interval l \<le> 0
      then Some [ErrInvalidConfig] else None)"

section \<open>Packets and units\<close>

record rtp_packet =
  rp_generation :: u64
  rp_sequence :: u16
  rp_timestamp :: u32
  rp_marker :: bool
  rp_received :: time
  rp_payload :: bytes

text \<open>The unexported \<open>chain\<close> field of an access unit is written by the pipeline only and has no entry here.\<close>

record access_unit =
  au_generation :: u64
  au_rtp_time :: u32
  au_first :: u16
  au_last :: u16
  au_received :: time
  au_annexb :: bytes
  au_has_sps :: bool
  au_has_pps :: bool
  au_keyframe :: bool
  au_decodable :: bool
  au_reused :: bool
  au_discontinuity :: bool

record pending_unit =
  pu_generation :: u64
  pu_timestamp :: u32
  pu_packets :: "(u16 \<times> rtp_packet) list"
  pu_marker :: "u16 option"
  pu_bytes :: int

record depacketizer =
  dp_generation :: u64
  dp_limits :: video_limits
  dp_pending :: "pending_unit option"
  dp_sps :: bytes
  dp_pps :: bytes
  dp_last_sequence :: u16
  dp_last_timestamp :: u32
  dp_have_last :: bool
  dp_discontinuity :: bool

definition annexBStartCode :: bytes where
  "annexBStartCode = [0, 0, 0, 1]"

definition nal_type :: "u8 \<Rightarrow> u8" where
  "nal_type b = b AND 0x1f"

definition isFUAPayload :: "bytes \<Rightarrow> bool" where
  "isFUAPayload p \<longleftrightarrow> 2 \<le> length p \<and> nal_type (p ! 0) = 28"

definition new_depacketizer :: "u64 \<Rightarrow> video_limits \<Rightarrow> video_errors + depacketizer" where
  "new_depacketizer generation l0 =
     (let l = with_defaults l0
      in if generation = 0 \<or> validate_video_limits l \<noteq> None then Inl [ErrInvalidConfig]
         else Inr \<lparr>dp_generation = generation, dp_limits = l, dp_pending = None, dp_sps = [], dp_pps = [],
                   dp_last_sequence = 0, dp_last_timestamp = 0, dp_have_last = False, dp_discontinuity = False\<rparr>)"

definition depacketizer_reset :: "u64 \<Rightarrow> depacketizer \<Rightarrow> video_errors option \<times> depacketizer" where
  "depacketizer_reset generation d =
     (if generation = 0 then (Some [ErrInvalidConfig], d)
      else (None, d\<lparr>dp_generation := generation, dp_pending := None, dp_sps := [], dp_pps := [],
                    dp_have_last := False, dp_discontinuity := False\<rparr>))"

section \<open>Assembly\<close>

text \<open>The variables of \<open>assemble\<close>; the parameter sets are the depacketizer's own fields.\<close>

record assembly =
  as_annexb :: bytes
  as_sps :: bytes
  as_pps :: bytes
  as_has_sps :: bool
  as_has_pps :: bool
  as_keyframe :: bool
  as_picture :: bool
  as_fragmented :: bool
  as_fragment_type :: u8

definition append_nal :: "int \<Rightarrow> bytes \<Rightarrow> assembly \<Rightarrow> video_errors option \<times> assembly" where
  "append_nal limit nalu a =
     (if nalu = [] \<or> int (length (as_annexb a)) + int (length annexBStartCode) + int (length nalu) > limit
      then (Some [ErrAccessUnitTooLarge], a)
      else
        let t = nal_type (hd nalu);
            a1 = (if t = 7 then a\<lparr>as_sps := nalu, as_has_sps := True\<rparr>
                  else if t = 8 then a\<lparr>as_pps := nalu, as_has_pps := True\<rparr>
                  else if t = 5 then a\<lparr>as_keyframe := True, as_picture := True\<rparr>
                  else if t = 1 then a\<lparr>as_picture := True\<rparr> else a)
        in (None, a1\<lparr>as_annexb := as_annexb a1 @ annexBStartCode @ nalu\<rparr>))"

text \<open>The NAL units of an aggregation packet, behind its header byte.\<close>

function stap_loop :: "int \<Rightarrow> bytes \<Rightarrow> assembly \<Rightarrow> video_errors option \<times> assembly" where
  "stap_loop limit [] a = (None, a)"
| "stap_loop limit [b] a = (Some [ErrInvalidPacket], a)"
| "stap_loop limit (b # c # rest) a =
     (let size = 256 * unat b + unat c
      in if size = 0 \<or> size > length rest then (Some [ErrInvalidPacket], a)
         else (case append_nal limit (take size rest) a of
             (Some e, a1) \<Rightarrow> (Some e, a1)
           | (None, a1) \<Rightarrow> stap_loop limit (drop size rest) a1))"
  by pat_completeness auto
termination by (relation "measure (\<lambda>(_, p, _). length p)") auto

definition append_fragment :: "int \<Rightarrow> bytes \<Rightarrow> assembly \<Rightarrow> video_errors option \<times> assembly" where
  "append_fragment limit p a =
     (if length p < 3 \<or> p ! 1 AND 0x20 \<noteq> 0 then (Some [ErrInvalidPacket], a)
      else
        let start = p ! 1 AND 0x80 \<noteq> 0;
            final = p ! 1 AND 0x40 \<noteq> 0;
            t = nal_type (p ! 1);
            opened =
              (if start
               then if as_fragmented a \<or> final then Inl [ErrInvalidPacket]
                    else Inr (a\<lparr>as_fragmented := True, as_fragment_type := t,
                                as_annexb := as_annexb a @ annexBStartCode @ [p ! 0 AND 0xe0 OR t]\<rparr>)
               else if \<not> as_fragmented a \<or> as_fragment_type a \<noteq> t then Inl [ErrPacketLoss]
               else Inr a)
        in (case opened of
              Inl e \<Rightarrow> (Some e, a)
            | Inr a1 \<Rightarrow>
                if int (length (as_annexb a1)) + int (length p) - 2 > limit then (Some [ErrAccessUnitTooLarge], a1)
                else
                  let a2 = a1\<lparr>as_annexb := as_annexb a1 @ drop 2 p\<rparr>;
                      a3 = (if final
                            then a2\<lparr>as_fragmented := False,
                                     as_picture := (as_picture a2 \<or> as_fragment_type a2 = 1 \<or> as_fragment_type a2 = 5),
                                     as_keyframe := (as_keyframe a2 \<or> as_fragment_type a2 = 5)\<rparr>
                            else a2)
                  in (None, a3)))"

definition assemble_packet :: "int \<Rightarrow> bytes \<Rightarrow> assembly \<Rightarrow> video_errors option \<times> assembly" where
  "assemble_packet limit p a =
     (let t = nal_type (hd p)
      in if 0 < t \<and> t < 24
         then if as_fragmented a then (Some [ErrInvalidPacket], a) else append_nal limit p a
         else if t = 24
         then if as_fragmented a then (Some [ErrInvalidPacket], a) else stap_loop limit (tl p) a
         else if t = 28 then append_fragment limit p a
         else (Some [ErrUnsupportedPacket], a))"

fun assemble_packets :: "int \<Rightarrow> rtp_packet list \<Rightarrow> assembly \<Rightarrow> video_errors option \<times> assembly" where
  "assemble_packets limit [] a = (if as_fragmented a then (Some [ErrPacketLoss], a) else (None, a))"
| "assemble_packets limit (p # ps) a =
     (case assemble_packet limit (rp_payload p) a of
        (Some e, a1) \<Rightarrow> (Some e, a1)
      | (None, a1) \<Rightarrow> assemble_packets limit ps a1)"

definition first_received :: "rtp_packet list \<Rightarrow> time" where
  "first_received ps = foldl (\<lambda>m p. if rp_received p < m then rp_received p else m) (rp_received (hd ps)) ps"

definition assemble :: "depacketizer \<Rightarrow> pending_unit \<Rightarrow> rtp_packet list \<Rightarrow> (video_errors + access_unit) \<times> depacketizer" where
  "assemble d u ps =
     (let limit = vl_unit_bytes (dp_limits d);
          (err, a) = assemble_packets limit ps
             \<lparr>as_annexb = [], as_sps = dp_sps d, as_pps = dp_pps d, as_has_sps = False, as_has_pps = False,
              as_keyframe = False, as_picture = False, as_fragmented = False, as_fragment_type = 0\<rparr>;
          d1 = d\<lparr>dp_sps := as_sps a, dp_pps := as_pps a\<rparr>;
          result = (\<lambda>annexb has_sps has_pps decodable reused.
             \<lparr>au_generation = pu_generation u, au_rtp_time = pu_timestamp u, au_first = rp_sequence (hd ps),
              au_last = rp_sequence (last ps), au_received = first_received ps, au_annexb = annexb,
              au_has_sps = has_sps, au_has_pps = has_pps, au_keyframe = as_keyframe a, au_decodable = decodable,
              au_reused = reused, au_discontinuity = False\<rparr>)
      in (case err of
            Some e \<Rightarrow> (Inl e, d1)
          | None \<Rightarrow>
              if as_keyframe a \<and> (\<not> as_has_sps a \<or> \<not> as_has_pps a)
              then if as_sps a = [] \<or> as_pps a = []
                   then (Inr (result (as_annexb a) (as_has_sps a) (as_has_pps a) False False), d1)
                   else if int (length (as_sps a)) + int (length (as_pps a)) + 2 * int (length annexBStartCode) +
                           int (length (as_annexb a)) > limit
                   then (Inl [ErrAccessUnitTooLarge], d1)
                   else (Inr (result (annexBStartCode @ as_sps a @ annexBStartCode @ as_pps a @ as_annexb a)
                               True True (as_picture a) True), d1)
              else (Inr (result (as_annexb a) (as_has_sps a) (as_has_pps a)
                      (as_picture a \<and> ((as_keyframe a \<and> as_has_sps a \<and> as_has_pps a) \<or>
                         (\<not> as_keyframe a \<and> as_sps a \<noteq> [] \<and> as_pps a \<noteq> []))) False), d1)))"

section \<open>Ordering\<close>

fun contiguous :: "u16 list \<Rightarrow> bool" where
  "contiguous (s # t # ss) \<longleftrightarrow> t = s + 1 \<and> contiguous (t # ss)"
| "contiguous _ \<longleftrightarrow> True"

definition ordered_packets :: "(u16 \<times> rtp_packet) list \<Rightarrow> u16 \<Rightarrow> int \<Rightarrow> rtp_packet list option" where
  "ordered_packets packets marker max_packets =
     (let sequences = rev (sort_key (\<lambda>s. unat (marker - s))
            (filter (\<lambda>s. int (unat (marker - s)) < max_packets) (map fst packets)));
          ps = map (\<lambda>s. the (map_of packets s)) sequences
      in if sequences = [] then None
         else if \<not> contiguous sequences then None
         else if rp_sequence (last ps) \<noteq> marker then None
         else if isFUAPayload (rp_payload (hd ps)) \<and> rp_payload (hd ps) ! 1 AND 0x80 = 0 then None
         else Some ps)"

section \<open>Pushing a packet\<close>

definition new_unit :: "rtp_packet \<Rightarrow> pending_unit" where
  "new_unit p = \<lparr>pu_generation = rp_generation p, pu_timestamp = rp_timestamp p, pu_packets = [], pu_marker = None, pu_bytes = 0\<rparr>"

definition complete_unit :: "depacketizer \<Rightarrow> pending_unit \<Rightarrow> u16 \<Rightarrow> (video_errors + access_unit option) \<times> depacketizer" where
  "complete_unit d u marker =
     (case ordered_packets (pu_packets u) marker (vl_unit_packets (dp_limits d)) of
        None \<Rightarrow> (Inr None, d)
      | Some ps \<Rightarrow>
          (case assemble d u ps of
             (Inl e, d1) \<Rightarrow> (Inl e, d1\<lparr>dp_pending := None, dp_discontinuity := True\<rparr>)
           | (Inr au, d1) \<Rightarrow>
               let au1 = au\<lparr>au_discontinuity := dp_discontinuity d1 \<or>
                     (dp_have_last d1 \<and> au_first au \<noteq> dp_last_sequence d1 + 1)\<rparr>
               in (Inr (Some au1),
                   d1\<lparr>dp_pending := None, dp_last_sequence := au_last au1, dp_last_timestamp := au_rtp_time au1,
                      dp_have_last := True, dp_discontinuity := False\<rparr>)))"

definition push :: "rtp_packet \<Rightarrow> depacketizer \<Rightarrow> (video_errors + access_unit option) \<times> depacketizer" where
  "push p d =
     (if rp_generation p \<noteq> dp_generation d then (Inl [ErrGenerationMismatch], d)
      else if rp_received p = 0 \<or> rp_payload p = [] then (Inl [ErrInvalidPacket], d)
      else if int (length (rp_payload p)) > vl_packet_bytes (dp_limits d) then (Inl [ErrPacketTooLarge], d)
      else if dp_have_last d \<and> sint (rp_timestamp p - dp_last_timestamp d) \<le> 0 then (Inr None, d)
      else if (case dp_pending d of None \<Rightarrow> False | Some u \<Rightarrow> sint (rp_timestamp p - pu_timestamp u) < 0)
      then (Inr None, d)
      else
        let fresh = (case dp_pending d of None \<Rightarrow> True | Some u \<Rightarrow> pu_timestamp u \<noteq> rp_timestamp p);
            prior_loss = fresh \<and> dp_pending d \<noteq> None;
            u = (if fresh then new_unit p else the (dp_pending d));
            d1 = d\<lparr>dp_pending := Some u, dp_discontinuity := (dp_discontinuity d \<or> prior_loss)\<rparr>
        in if rp_sequence p \<in> fst ` set (pu_packets u) then (Inr None, d1)
           else
             let bytes = pu_bytes u + int (length (rp_payload p))
             in if bytes > vl_unit_bytes (dp_limits d) \<or> int (length (pu_packets u)) \<ge> vl_unit_packets (dp_limits d)
                then (Inl [ErrAccessUnitTooLarge], d1\<lparr>dp_pending := None, dp_discontinuity := True\<rparr>)
                else
                  let u1 = u\<lparr>pu_bytes := bytes, pu_packets := (rp_sequence p, p) # pu_packets u,
                             pu_marker := (if rp_marker p then Some (rp_sequence p) else pu_marker u)\<rparr>;
                      d2 = d1\<lparr>dp_pending := Some u1\<rparr>
                  in (case pu_marker u1 of
                        None \<Rightarrow> if prior_loss then (Inl [ErrPacketLoss], d2) else (Inr None, d2)
                      | Some marker \<Rightarrow> complete_unit d2 u1 marker))"

section \<open>Bounds of the assembly\<close>

lemma length_start_code [simp]: "length annexBStartCode = 4"
  by (simp add: annexBStartCode_def)

definition fits :: "int \<Rightarrow> assembly \<Rightarrow> bool" where
  "fits limit a \<longleftrightarrow> int (length (as_annexb a)) \<le> limit"

lemma append_nal_fits: "append_nal limit nalu a = (None, a') \<Longrightarrow> fits limit a'"
  by (auto simp: append_nal_def fits_def Let_def split: if_splits)

lemma stap_loop_fits: "stap_loop limit p a = (None, a') \<Longrightarrow> fits limit a \<Longrightarrow> fits limit a'"
proof (induction limit p a rule: stap_loop.induct)
  case (3 limit b c rest a)
  then show ?case by (auto simp: Let_def split: if_splits prod.splits option.splits dest: append_nal_fits)
qed simp_all

lemma append_fragment_fits: "append_fragment limit p a = (None, a') \<Longrightarrow> fits limit a'"
  by (auto simp: append_fragment_def fits_def Let_def split: if_splits sum.splits)

lemma assemble_packet_fits: "assemble_packet limit p a = (None, a') \<Longrightarrow> fits limit a \<Longrightarrow> fits limit a'"
  by (auto simp: assemble_packet_def Let_def split: if_splits dest: append_nal_fits stap_loop_fits append_fragment_fits)

lemma assemble_packets_fits: "assemble_packets limit ps a = (None, a') \<Longrightarrow> fits limit a \<Longrightarrow> fits limit a'"
  by (induction ps arbitrary: a) (auto split: if_splits prod.splits option.splits dest: assemble_packet_fits)

lemma assemble_frame:
  assumes "assemble d u ps = (res, d1)"
  shows "dp_generation d1 = dp_generation d" "dp_limits d1 = dp_limits d" "dp_pending d1 = dp_pending d"
    "dp_last_sequence d1 = dp_last_sequence d" "dp_last_timestamp d1 = dp_last_timestamp d"
    "dp_have_last d1 = dp_have_last d" "dp_discontinuity d1 = dp_discontinuity d"
  using assms by (auto simp: assemble_def Let_def case_prod_unfold split: option.splits if_splits)

lemma assemble_Inr:
  assumes "assemble d u ps = (Inr au, d1)" "0 \<le> vl_unit_bytes (dp_limits d)"
  shows "au_generation au = pu_generation u" "au_rtp_time au = pu_timestamp u" "au_first au = rp_sequence (hd ps)"
    "au_last au = rp_sequence (last ps)" "int (length (au_annexb au)) \<le> vl_unit_bytes (dp_limits d)"
proof -
  let ?a0 = "\<lparr>as_annexb = [], as_sps = dp_sps d, as_pps = dp_pps d, as_has_sps = False, as_has_pps = False,
              as_keyframe = False, as_picture = False, as_fragmented = False, as_fragment_type = 0\<rparr>"
  obtain err a where a: "assemble_packets (vl_unit_bytes (dp_limits d)) ps ?a0 = (err, a)" by fastforce
  have "err = None" using assms(1) a by (auto simp: assemble_def Let_def split: option.splits)
  moreover have "fits (vl_unit_bytes (dp_limits d)) ?a0" using assms(2) by (simp add: fits_def)
  ultimately have "fits (vl_unit_bytes (dp_limits d)) a" using assemble_packets_fits a by blast
  with assms(1) a \<open>err = None\<close> show "au_generation au = pu_generation u" "au_rtp_time au = pu_timestamp u" "au_first au = rp_sequence (hd ps)"
    "au_last au = rp_sequence (last ps)" "int (length (au_annexb au)) \<le> vl_unit_bytes (dp_limits d)"
    by (auto simp: assemble_def Let_def fits_def split: if_splits)
qed

section \<open>Invariant\<close>

definition pending_ok :: "depacketizer \<Rightarrow> pending_unit \<Rightarrow> bool" where
  "pending_ok d u \<longleftrightarrow>
     pu_generation u = dp_generation d \<and> distinct (map fst (pu_packets u)) \<and>
     list_all (\<lambda>(s, p). rp_sequence p = s \<and> rp_timestamp p = pu_timestamp u \<and> rp_generation p = pu_generation u \<and>
        rp_payload p \<noteq> [] \<and> int (length (rp_payload p)) \<le> vl_packet_bytes (dp_limits d)) (pu_packets u) \<and>
     pu_bytes u = sum_list (map (\<lambda>(_, p). int (length (rp_payload p))) (pu_packets u)) \<and>
     pu_bytes u \<le> vl_unit_bytes (dp_limits d) \<and> int (length (pu_packets u)) \<le> vl_unit_packets (dp_limits d) \<and>
     (\<forall>m. pu_marker u = Some m \<longrightarrow> m \<in> fst ` set (pu_packets u)) \<and>
     (dp_have_last d \<longrightarrow> 0 < sint (pu_timestamp u - dp_last_timestamp d))"

definition depack_inv :: "depacketizer \<Rightarrow> bool" where
  "depack_inv d \<longleftrightarrow> dp_generation d \<noteq> 0 \<and> validate_video_limits (dp_limits d) = None \<and>
     (\<forall>u. dp_pending d = Some u \<longrightarrow> pending_ok d u)"

lemma new_depacketizer_inv: "new_depacketizer g l = Inr d \<Longrightarrow> depack_inv d"
  by (auto simp: new_depacketizer_def depack_inv_def Let_def split: if_splits)

lemma reset_inv: "depack_inv d \<Longrightarrow> depack_inv (snd (depacketizer_reset g d))"
  by (auto simp: depacketizer_reset_def depack_inv_def)

lemma limits_pos: "depack_inv d \<Longrightarrow> 0 \<le> vl_unit_bytes (dp_limits d) \<and> 0 < vl_unit_packets (dp_limits d)"
  by (auto simp: depack_inv_def validate_video_limits_def split: if_splits)

lemma complete_unit_cases:
  obtains (waiting) "complete_unit d u m = (Inr None, d)"
  | (failed) e d1 ps where "ordered_packets (pu_packets u) m (vl_unit_packets (dp_limits d)) = Some ps"
      "assemble d u ps = (Inl e, d1)"
      "complete_unit d u m = (Inl e, d1\<lparr>dp_pending := None, dp_discontinuity := True\<rparr>)"
  | (emitted) au d1 ps au1 where "ordered_packets (pu_packets u) m (vl_unit_packets (dp_limits d)) = Some ps"
      "assemble d u ps = (Inr au, d1)"
      "au1 = au\<lparr>au_discontinuity := dp_discontinuity d \<or> (dp_have_last d \<and> au_first au \<noteq> dp_last_sequence d + 1)\<rparr>"
      "complete_unit d u m = (Inr (Some au1), d1\<lparr>dp_pending := None, dp_last_sequence := au_last au,
          dp_last_timestamp := au_rtp_time au, dp_have_last := True, dp_discontinuity := False\<rparr>)"
proof (cases "ordered_packets (pu_packets u) m (vl_unit_packets (dp_limits d))")
  case None
  then show thesis by (intro waiting) (simp add: complete_unit_def)
next
  case (Some ps)
  obtain res d1 where a: "assemble d u ps = (res, d1)" by fastforce
  show thesis
  proof (cases res)
    case (Inl e)
    then show thesis using Some a by (intro failed [of ps e d1]) (simp_all add: complete_unit_def)
  next
    case (Inr au)
    then show thesis using Some a assemble_frame [OF a]
      by (intro emitted [OF Some]) (simp_all add: complete_unit_def Let_def)
  qed
qed

text \<open>A packet that is buffered, and the unit it is added to.\<close>

definition buffered :: "rtp_packet \<Rightarrow> depacketizer \<Rightarrow> pending_unit \<Rightarrow> depacketizer \<Rightarrow> bool" where
  "buffered p d u1 d2 \<longleftrightarrow>
     rp_generation p = dp_generation d \<and> rp_received p \<noteq> 0 \<and> rp_payload p \<noteq> [] \<and>
     int (length (rp_payload p)) \<le> vl_packet_bytes (dp_limits d) \<and>
     pu_bytes u1 \<le> vl_unit_bytes (dp_limits d) \<and> int (length (pu_packets u1)) \<le> vl_unit_packets (dp_limits d) \<and>
     (dp_have_last d \<longrightarrow> 0 < sint (rp_timestamp p - dp_last_timestamp d)) \<and>
     (let fresh = (case dp_pending d of None \<Rightarrow> True | Some u \<Rightarrow> pu_timestamp u \<noteq> rp_timestamp p);
          u = (if fresh then new_unit p else the (dp_pending d))
      in rp_sequence p \<notin> fst ` set (pu_packets u) \<and>
         u1 = u\<lparr>pu_bytes := pu_bytes u + int (length (rp_payload p)), pu_packets := (rp_sequence p, p) # pu_packets u,
                pu_marker := (if rp_marker p then Some (rp_sequence p) else pu_marker u)\<rparr> \<and>
         d2 = d\<lparr>dp_pending := Some u1, dp_discontinuity := (dp_discontinuity d \<or> (fresh \<and> dp_pending d \<noteq> None))\<rparr>)"

lemma buffered_inv: "buffered p d u1 d2 \<Longrightarrow> depack_inv d \<Longrightarrow> depack_inv d2"
  by (auto simp: buffered_def depack_inv_def pending_ok_def new_unit_def Let_def list_all_iff split: option.splits if_splits)

lemma push_cases:
  obtains (ignored) "snd (push p d) = d" "\<And>au. fst (push p d) \<noteq> Inr (Some au)"
  | (refused) u b where "snd (push p d) = d\<lparr>dp_pending := u, dp_discontinuity := b\<rparr>" "\<And>au. fst (push p d) \<noteq> Inr (Some au)"
      "u = None \<or> (u = dp_pending d \<and> b = dp_discontinuity d)"
  | (stored) u1 d2 where "buffered p d u1 d2" "pu_marker u1 = None" "snd (push p d) = d2"
      "\<And>au. fst (push p d) \<noteq> Inr (Some au)"
  | (complete) u1 d2 m where "buffered p d u1 d2" "pu_marker u1 = Some m" "push p d = complete_unit d2 u1 m"
proof -
  consider "rp_generation p \<noteq> dp_generation d \<or> rp_received p = 0 \<or> rp_payload p = [] \<or>
      int (length (rp_payload p)) > vl_packet_bytes (dp_limits d) \<or>
      dp_have_last d \<and> sint (rp_timestamp p - dp_last_timestamp d) \<le> 0 \<or>
      (case dp_pending d of None \<Rightarrow> False | Some u \<Rightarrow> sint (rp_timestamp p - pu_timestamp u) < 0)"
    | (live) "rp_generation p = dp_generation d" "rp_received p \<noteq> 0" "rp_payload p \<noteq> []"
      "int (length (rp_payload p)) \<le> vl_packet_bytes (dp_limits d)"
      "\<not> (dp_have_last d \<and> sint (rp_timestamp p - dp_last_timestamp d) \<le> 0)"
      "\<not> (case dp_pending d of None \<Rightarrow> False | Some u \<Rightarrow> sint (rp_timestamp p - pu_timestamp u) < 0)"
    by fastforce
  then show thesis
  proof cases
    case 1
    then show thesis by (intro ignored) (auto simp: push_def split: if_splits)
  next
    case live
    define fresh where "fresh = (case dp_pending d of None \<Rightarrow> True | Some u \<Rightarrow> pu_timestamp u \<noteq> rp_timestamp p)"
    define u where "u = (if fresh then new_unit p else the (dp_pending d))"
    define b where "b = (dp_discontinuity d \<or> (fresh \<and> dp_pending d \<noteq> None))"
    define u1 where "u1 = u\<lparr>pu_bytes := pu_bytes u + int (length (rp_payload p)), pu_packets := (rp_sequence p, p) # pu_packets u,
                pu_marker := (if rp_marker p then Some (rp_sequence p) else pu_marker u)\<rparr>"
    define d2 where "d2 = d\<lparr>dp_pending := Some u1, dp_discontinuity := b\<rparr>"
    note push = push_def [of p d, folded fresh_def, unfolded Let_def, folded u_def b_def]
    show thesis
    proof (cases "rp_sequence p \<in> fst ` set (pu_packets u)")
      case True
      then have "\<not> fresh" by (auto simp: u_def new_unit_def)
      then have "dp_pending d = Some u" by (auto simp: u_def fresh_def split: option.splits)
      then show thesis using True live \<open>\<not> fresh\<close> by (intro refused [where u = "Some u" and b = b]) (simp_all add: push b_def)
    next
      case False
      show thesis
      proof (cases "pu_bytes u + int (length (rp_payload p)) > vl_unit_bytes (dp_limits d) \<or>
          int (length (pu_packets u)) \<ge> vl_unit_packets (dp_limits d)")
        case True
        then show thesis using False live by (intro refused [where u = None and b = True]) (auto simp: push)
      next
        case False2: False
        have buf: "buffered p d u1 d2"
          using live False False2
          by (auto simp: buffered_def Let_def fresh_def [symmetric] u_def [symmetric] u1_def d2_def b_def)
        have same: "d\<lparr>dp_discontinuity := b, dp_pending := Some u1\<rparr> = d2" by (simp add: d2_def)
        show thesis
        proof (cases "pu_marker u1")
          case None
          then show thesis using live False False2 buf
            by (intro stored [OF buf]) (auto simp: push u1_def [symmetric] same split: if_splits)
        next
          case (Some m)
          then show thesis using live False False2 buf
            by (intro complete [OF buf]) (auto simp: push u1_def [symmetric] same split: if_splits)
        qed
      qed
    qed
  qed
qed

lemma buffered_simps:
  assumes "buffered p d u1 d2"
  shows "dp_pending d2 = Some u1" "dp_generation d2 = dp_generation d" "dp_limits d2 = dp_limits d"
    "dp_have_last d2 = dp_have_last d" "dp_last_sequence d2 = dp_last_sequence d"
    "dp_last_timestamp d2 = dp_last_timestamp d" "dp_sps d2 = dp_sps d" "dp_pps d2 = dp_pps d"
    "dp_discontinuity d \<Longrightarrow> dp_discontinuity d2" "pu_timestamp u1 = rp_timestamp p" "pu_generation u1 = rp_generation p \<or> dp_pending d \<noteq> None"
    "(rp_sequence p, p) \<in> set (pu_packets u1)"
  using assms by (auto simp: buffered_def Let_def new_unit_def split: option.splits if_splits)

lemma pending_ok_frame: "pending_ok (d\<lparr>dp_pending := w, dp_discontinuity := b\<rparr>) u = pending_ok d u"
  by (simp add: pending_ok_def)

lemma push_inv: "depack_inv d \<Longrightarrow> depack_inv (snd (push p d))"
proof (cases rule: push_cases [of p d])
  case (complete u1 d2 m)
  assume inv: "depack_inv d"
  have d2: "depack_inv d2" using buffered_inv [OF complete(1) inv] .
  show ?thesis
  proof (cases rule: complete_unit_cases [of d2 u1 m])
    case (failed e d1 ps)
    then show ?thesis using d2 complete(3) assemble_frame [OF failed(2)] by (simp add: depack_inv_def)
  next
    case (emitted au d1 ps au1)
    then show ?thesis using d2 complete(3) assemble_frame [OF emitted(2)] by (simp add: depack_inv_def)
  qed (use d2 complete(3) in simp)
next
  case (refused u b)
  assume "depack_inv d"
  then show ?thesis using refused by (auto simp: depack_inv_def pending_ok_frame)
qed (simp_all add: buffered_inv)

text \<open>What is known of an access unit when it is emitted.\<close>

lemma push_emits:
  assumes "depack_inv d" "push p d = (Inr (Some au), d')"
  shows "au_generation au = dp_generation d" "au_rtp_time au = rp_timestamp p"
    "dp_have_last d \<Longrightarrow> 0 < sint (au_rtp_time au - dp_last_timestamp d)"
    "int (length (au_annexb au)) \<le> vl_unit_bytes (dp_limits d)"
    "\<not> au_discontinuity au \<Longrightarrow> dp_have_last d \<Longrightarrow> au_first au = dp_last_sequence d + 1"
    "dp_have_last d'" "dp_last_sequence d' = au_last au" "dp_last_timestamp d' = au_rtp_time au"
    "dp_generation d' = dp_generation d" "dp_limits d' = dp_limits d" "dp_pending d' = None"
proof -
  have "(au_generation au = dp_generation d \<and> au_rtp_time au = rp_timestamp p \<and>
    (dp_have_last d \<longrightarrow> 0 < sint (au_rtp_time au - dp_last_timestamp d)) \<and>
    int (length (au_annexb au)) \<le> vl_unit_bytes (dp_limits d) \<and>
    (\<not> au_discontinuity au \<longrightarrow> dp_have_last d \<longrightarrow> au_first au = dp_last_sequence d + 1)) \<and>
    dp_have_last d' \<and> dp_last_sequence d' = au_last au \<and> dp_last_timestamp d' = au_rtp_time au \<and>
    dp_generation d' = dp_generation d \<and> dp_limits d' = dp_limits d \<and> dp_pending d' = None"
  proof (cases rule: push_cases [of p d])
    case (complete u1 d2 m)
    have d2: "depack_inv d2" using buffered_inv [OF complete(1) assms(1)] .
    note same = buffered_simps [OF complete(1)]
    have u1: "pending_ok d2 u1" using d2 same(1) by (simp add: depack_inv_def)
    show ?thesis
    proof (cases rule: complete_unit_cases [of d2 u1 m])
      case (emitted au0 d1 ps au1)
      have d': "au = au1" "d' = d1\<lparr>dp_pending := None, dp_last_sequence := au_last au0,
          dp_last_timestamp := au_rtp_time au0, dp_have_last := True, dp_discontinuity := False\<rparr>"
        using emitted(4) complete(3) assms(2) by auto
      note built = assemble_Inr [OF emitted(2)] and frame = assemble_frame [OF emitted(2)]
      show ?thesis
        using built limits_pos [OF d2] frame same u1 emitted(3)
        by (auto simp: d' pending_ok_def)
    qed (use complete(3) assms(2) in simp_all)
  qed (use assms(2) in auto)
  then show "au_generation au = dp_generation d" "au_rtp_time au = rp_timestamp p"
    "dp_have_last d \<Longrightarrow> 0 < sint (au_rtp_time au - dp_last_timestamp d)"
    "int (length (au_annexb au)) \<le> vl_unit_bytes (dp_limits d)"
    "\<not> au_discontinuity au \<Longrightarrow> dp_have_last d \<Longrightarrow> au_first au = dp_last_sequence d + 1"
    "dp_have_last d'" "dp_last_sequence d' = au_last au" "dp_last_timestamp d' = au_rtp_time au"
    "dp_generation d' = dp_generation d" "dp_limits d' = dp_limits d" "dp_pending d' = None" by auto
qed

lemma push_silent:
  assumes "\<And>au. fst (push p d) \<noteq> Inr (Some au)"
  shows "dp_have_last (snd (push p d)) = dp_have_last d" "dp_last_sequence (snd (push p d)) = dp_last_sequence d"
    "dp_last_timestamp (snd (push p d)) = dp_last_timestamp d" "dp_generation (snd (push p d)) = dp_generation d"
    "dp_limits (snd (push p d)) = dp_limits d"
proof -
  have "dp_have_last (snd (push p d)) = dp_have_last d \<and> dp_last_sequence (snd (push p d)) = dp_last_sequence d \<and>
    dp_last_timestamp (snd (push p d)) = dp_last_timestamp d \<and> dp_generation (snd (push p d)) = dp_generation d \<and>
    dp_limits (snd (push p d)) = dp_limits d"
  proof (cases rule: push_cases [of p d])
    case (stored u1 d2)
    then show ?thesis using buffered_simps [OF stored(1)] by simp
  next
    case (complete u1 d2 m)
    note same = buffered_simps [OF complete(1)]
    show ?thesis
    proof (cases rule: complete_unit_cases [of d2 u1 m])
      case (failed e d1 ps)
      then show ?thesis using complete(3) assemble_frame [OF failed(2)] same by simp
    next
      case (emitted au d1 ps au1)
      then show ?thesis using assms [of au1] complete(3) by simp
    qed (use complete(3) same in simp)
  qed simp_all
  then show "dp_have_last (snd (push p d)) = dp_have_last d" "dp_last_sequence (snd (push p d)) = dp_last_sequence d"
    "dp_last_timestamp (snd (push p d)) = dp_last_timestamp d" "dp_generation (snd (push p d)) = dp_generation d"
    "dp_limits (snd (push p d)) = dp_limits d" by auto
qed

section \<open>Streams\<close>

interpretation depack_runs: guarded_machine "\<lambda>d p. snd (push p d)" depack_inv
  by unfold_locales (rule push_inv)

fun depack_run :: "depacketizer \<Rightarrow> rtp_packet list \<Rightarrow> access_unit list" where
  "depack_run d [] = []"
| "depack_run d (p # ps) =
     (case fst (push p d) of Inr (Some au) \<Rightarrow> [au] | _ \<Rightarrow> []) @ depack_run (snd (push p d)) ps"

definition unit_follows :: "access_unit \<Rightarrow> access_unit \<Rightarrow> bool" where
  "unit_follows a b \<longleftrightarrow> 0 < sint (au_rtp_time b - au_rtp_time a) \<and> (au_discontinuity b \<or> au_first b = au_last a + 1)"

fun unit_chain :: "access_unit list \<Rightarrow> bool" where
  "unit_chain (a # b # us) \<longleftrightarrow> unit_follows a b \<and> unit_chain (b # us)"
| "unit_chain _ \<longleftrightarrow> True"

definition unit_ok :: "u64 \<Rightarrow> video_limits \<Rightarrow> access_unit \<Rightarrow> bool" where
  "unit_ok g l au \<longleftrightarrow> au_generation au = g \<and> int (length (au_annexb au)) \<le> vl_unit_bytes l"

lemma unit_chain_Cons: "unit_chain (a # us) \<longleftrightarrow> (us \<noteq> [] \<longrightarrow> unit_follows a (hd us)) \<and> unit_chain us"
  by (cases us) simp_all

lemma depack_run_chain:
  "depack_inv d \<Longrightarrow>
     unit_chain (depack_run d ps) \<and> list_all (unit_ok (dp_generation d) (dp_limits d)) (depack_run d ps) \<and>
     (dp_have_last d \<longrightarrow> depack_run d ps \<noteq> [] \<longrightarrow>
       0 < sint (au_rtp_time (hd (depack_run d ps)) - dp_last_timestamp d) \<and>
       (au_discontinuity (hd (depack_run d ps)) \<or> au_first (hd (depack_run d ps)) = dp_last_sequence d + 1))"
proof (induction ps arbitrary: d)
  case (Cons p ps)
  let ?d1 = "snd (push p d)"
  have inv1: "depack_inv ?d1" using Cons.prems by (rule push_inv)
  note IH = Cons.IH [OF inv1]
  show ?case
  proof (cases "\<exists>au. fst (push p d) = Inr (Some au)")
    case True
    then obtain au where au: "push p d = (Inr (Some au), ?d1)" by (metis prod.collapse)
    note em = push_emits [OF Cons.prems au]
    have "depack_run d (p # ps) = au # depack_run ?d1 ps" using au by (metis append_Cons append_Nil depack_run.simps(2) fst_conv option.simps(5) sum.case(2))
    then show ?thesis using IH em by (auto simp: unit_chain_Cons unit_follows_def unit_ok_def)
  next
    case False
    then have "depack_run d (p # ps) = depack_run ?d1 ps" by (auto split: sum.splits option.splits)
    moreover have "\<And>au. fst (push p d) \<noteq> Inr (Some au)" using False by blast
    ultimately show ?thesis using IH push_silent [of p d] by simp
  qed
qed simp

section \<open>Arrival order\<close>

lemma ordered_packets_order:
  assumes "distinct (map fst xs)" "mset xs = mset ys"
  shows "ordered_packets xs m k = ordered_packets ys m k"
proof -
  have dy: "distinct (map fst ys)" using assms by (metis mset_eq_imp_distinct_iff mset_map)
  have "map_of xs = map_of ys"
    using assms dy by (intro ext) (metis map_of_eq_Some_iff mset_eq_setD not_None_eq)
  moreover have "sort_key (\<lambda>s. unat (m - s)) (filter (\<lambda>s. int (unat (m - s)) < k) (map fst xs)) =
      sort_key (\<lambda>s. unat (m - s)) (filter (\<lambda>s. int (unat (m - s)) < k) (map fst ys))"
  proof (rule sort_key_inj_key_eq)
    have "mset (map fst xs) = mset (map fst ys)" using assms(2) by simp
    then show "mset (filter (\<lambda>s. int (unat (m - s)) < k) (map fst xs)) =
        mset (sort_key (\<lambda>s. unat (m - s)) (filter (\<lambda>s. int (unat (m - s)) < k) (map fst ys)))"
      by (simp del: mset_map)
    show "inj_on (\<lambda>s. unat (m - s)) (set (filter (\<lambda>s. int (unat (m - s)) < k) (map fst xs)))"
      by (rule inj_onI) (drule unsigned_word_eqI, simp)
  qed simp
  ultimately show ?thesis by (simp add: ordered_packets_def)
qed

text \<open>RFC 6184's fragmentation of one NAL unit into two or more pieces.\<close>

definition fu_header :: "u8 \<Rightarrow> bool \<Rightarrow> bool \<Rightarrow> u8" where
  "fu_header header first final = (if first then 0x80 else 0) OR (if final then 0x40 else 0) OR nal_type header"

definition fragment :: "u8 \<Rightarrow> bytes list \<Rightarrow> nat \<Rightarrow> bytes" where
  "fragment header chunks k =
     [header AND 0xe0 OR 28, fu_header header (k = 0) (k = length chunks - 1)] @ chunks ! k"

definition fragment_packet :: "rtp_packet \<Rightarrow> u8 \<Rightarrow> bytes list \<Rightarrow> nat \<Rightarrow> rtp_packet" where
  "fragment_packet base header chunks k = base\<lparr>rp_sequence := rp_sequence base + of_nat k,
     rp_marker := (k = length chunks - 1), rp_payload := fragment header chunks k\<rparr>"

lemma byte_eqI: "(\<And>n. n < 8 \<Longrightarrow> bit a n \<longleftrightarrow> bit b n) \<Longrightarrow> a = b" for a b :: u8
  by (rule bit_word_eqI) simp

lemma below_8: "n < (8 :: nat) \<longleftrightarrow> n = 0 \<or> n = 1 \<or> n = 2 \<or> n = 3 \<or> n = 4 \<or> n = 5 \<or> n = 6 \<or> n = 7"
  by linarith

lemma fragment_bits:
  fixes h :: u8
  shows "nal_type (h AND 0xe0 OR 28) = 28" "(h AND 0xe0 OR 28) AND 0xe0 OR nal_type h = h"
    "nal_type (fu_header h a b) = nal_type h" "fu_header h a b AND 0x20 = 0"
    "fu_header h a b AND 0x80 = (if a then 0x80 else 0)" "fu_header h a b AND 0x40 = (if b then 0x40 else 0)"
  by (rule byte_eqI; auto simp: nal_type_def fu_header_def bit_simps below_8)+

text \<open>The unit that has received the fragments of the indices \<open>ks\<close>, latest first.\<close>

definition fragment_seq :: "rtp_packet \<Rightarrow> nat \<Rightarrow> u16" where
  "fragment_seq base k = rp_sequence base + of_nat k"

definition fragment_unit :: "rtp_packet \<Rightarrow> u8 \<Rightarrow> bytes list \<Rightarrow> nat list \<Rightarrow> pending_unit" where
  "fragment_unit base h chunks ks =
     \<lparr>pu_generation = rp_generation base, pu_timestamp = rp_timestamp base,
      pu_packets = map (\<lambda>k. (fragment_seq base k, fragment_packet base h chunks k)) ks,
      pu_marker = (if length chunks - 1 \<in> set ks then Some (fragment_seq base (length chunks - 1)) else None),
      pu_bytes = sum_list (map (\<lambda>k. int (length (fragment h chunks k))) ks)\<rparr>"

lemma fragment_seq_inj:
  "k < 65536 \<Longrightarrow> j < 65536 \<Longrightarrow> fragment_seq base k = fragment_seq base j \<longleftrightarrow> k = j"
proof -
  assume "k < 65536" "j < 65536"
  then have "unat (of_nat k :: u16) = k" "unat (of_nat j :: u16) = j"
    by (simp_all add: unsigned_of_nat take_bit_nat_eq_self)
  then show ?thesis unfolding fragment_seq_def by (metis add_left_imp_eq)
qed

lemma fragment_distance: "k \<le> m \<Longrightarrow> m < 65536 \<Longrightarrow> unat (fragment_seq base m - fragment_seq base k) = m - k"
proof -
  assume "k \<le> m" "m < 65536"
  then have "fragment_seq base m - fragment_seq base k = of_nat (m - k)" by (simp add: fragment_seq_def)
  then show ?thesis using \<open>m < 65536\<close> by (simp add: unsigned_of_nat take_bit_nat_eq_self)
qed

lemma fragment_simps [simp]:
  "length (fragment h chunks k) = Suc (Suc (length (chunks ! k)))"
  "rp_sequence (fragment_packet base h chunks k) = fragment_seq base k"
  "rp_timestamp (fragment_packet base h chunks k) = rp_timestamp base"
  "rp_generation (fragment_packet base h chunks k) = rp_generation base"
  "rp_received (fragment_packet base h chunks k) = rp_received base"
  "rp_payload (fragment_packet base h chunks k) = fragment h chunks k"
  "rp_marker (fragment_packet base h chunks k) \<longleftrightarrow> k = length chunks - 1"
  "fragment h chunks k \<noteq> []"
  by (simp_all add: fragment_def fragment_packet_def fragment_seq_def)

lemma contiguous_upt: "contiguous (map (fragment_seq base) [a..<b])"
proof (induction "b - a" arbitrary: a)
  case (Suc n)
  then have "a < b" "n = b - Suc a" by simp_all
  then show ?case using Suc.hyps(1) [of "Suc a"]
    by (cases "Suc a < b") (simp_all add: upt_conv_Cons fragment_seq_def)
qed simp

lemma contiguous_fragments:
  "contiguous (map (fragment_seq base) ks) \<Longrightarrow> sorted_wrt (<) ks \<Longrightarrow> \<forall>k \<in> set ks. k < 65536 \<Longrightarrow> ks \<noteq> [] \<Longrightarrow>
     ks = [hd ks..<Suc (last ks)]"
proof (induction ks rule: induct_list012)
  case (3 x y zs)
  have "fragment_seq base y = fragment_seq base (Suc x)" using "3.prems" by (simp add: fragment_seq_def)
  moreover have "x < y" "y < 65536" using "3.prems" by auto
  ultimately have y: "y = Suc x" using fragment_seq_inj [of y "Suc x" base] by simp
  have IH: "y # zs = [hd (y # zs)..<Suc (last (y # zs))]" 
  proof (rule "3.IH"(2))
    show "contiguous (map (fragment_seq base) (y # zs))"
      using "3.prems"(1) unfolding list.map contiguous.simps by blast
  qed (use "3.prems" in auto)
  have "y \<le> last (y # zs)" using "3.prems" by (cases zs rule: rev_cases) auto
  then show ?case using IH y by (simp add: upt_conv_Cons)
qed simp_all

lemma sorted_fragments:
  assumes "distinct ks" "set ks \<subseteq> {..<n}" "n \<le> 65536" "0 < n"
  shows "rev (sort_key (\<lambda>s. unat (fragment_seq base (n - 1) - s)) (map (fragment_seq base) ks)) =
    map (fragment_seq base) (sorted_list_of_set (set ks))"
proof -
  let ?f = "\<lambda>s. unat (fragment_seq base (n - 1) - s)"
  let ?ss = "sorted_list_of_set (set ks)"
  have dist: "?f (fragment_seq base k) = n - 1 - k" if "k \<in> set ks" for k
    using fragment_distance [of k "n - 1" base] that assms by auto
  have "sort_key ?f (map (fragment_seq base) ks) = map (fragment_seq base) (rev ?ss)"
  proof (rule sort_key_inj_key_eq)
    have "mset ks = mset ?ss" using assms(1) by (metis List.finite_set mset_set_set sorted_list_of_mset_set mset_sorted_list_of_multiset)
    then show "mset (map (fragment_seq base) ks) = mset (map (fragment_seq base) (rev ?ss))" by simp
    show "inj_on ?f (set (map (fragment_seq base) ks))"
      by (rule inj_onI) (drule unsigned_word_eqI, simp)
    have "sorted_wrt (\<lambda>x y. ?f (fragment_seq base y) \<le> ?f (fragment_seq base x)) ?ss"
      by (rule sorted_wrt_mono_rel [OF _ sorted_sorted_list_of_set]) (simp only: dist diff_le_mono2 set_sorted_list_of_set List.finite_set)
    then show "sorted (map ?f (map (fragment_seq base) (rev ?ss)))"
      by (simp add: sorted_wrt_map sorted_wrt_rev)
  qed
  then show ?thesis by (simp add: rev_map)
qed

lemma ordered_fragments:
  assumes "distinct ks" "set ks \<subseteq> {..<length chunks}" "length chunks \<le> 65536" "int (length chunks) \<le> k"
    "length chunks - 1 \<in> set ks"
  shows "ordered_packets (pu_packets (fragment_unit base h chunks ks)) (fragment_seq base (length chunks - 1)) k =
    (if set ks = {..<length chunks} then Some (map (fragment_packet base h chunks) [0..<length chunks]) else None)"
proof -
  let ?n = "length chunks"
  let ?ss = "sorted_list_of_set (set ks)"
  let ?pk = "fragment_packet base h chunks"
  have n: "0 < ?n" using assms by auto
  have small: "j < 65536" if "j \<in> set ks" for j using that assms by auto
  have near: "filter (\<lambda>s. int (unat (fragment_seq base (?n - 1) - s)) < k) (map (fragment_seq base) ks) = map (fragment_seq base) ks"
  proof (rule filter_True, intro ballI)
    fix s assume "s \<in> set (map (fragment_seq base) ks)"
    then obtain j where j: "j \<in> set ks" "s = fragment_seq base j" by auto
    then have "unat (fragment_seq base (?n - 1) - s) = ?n - 1 - j"
      using fragment_distance [of j "?n - 1" base] assms n by auto
    then show "int (unat (fragment_seq base (?n - 1) - s)) < k" unfolding \<open>unat _ = _\<close> using assms n by linarith
  qed
  have "inj_on (fragment_seq base) (set ks)" using small by (auto intro!: inj_onI simp: fragment_seq_inj)
  then have "map_of (map (\<lambda>k. (fragment_seq base k, ?pk k)) ks) (fragment_seq base j) = Some (?pk j)" if "j \<in> set ks" for j
    using that assms(1) by (intro map_of_is_SomeI) (auto simp: comp_def distinct_map)
  then have look: "map (\<lambda>s. the (map_of (pu_packets (fragment_unit base h chunks ks)) s)) (map (fragment_seq base) ?ss) = map ?pk ?ss"
    by (simp add: fragment_unit_def)
  have keys: "map fst (pu_packets (fragment_unit base h chunks ks)) = map (fragment_seq base) ks"
    by (simp add: fragment_unit_def)
  have ne: "?ss \<noteq> []" using assms(5) by auto
  have last: "last ?ss = ?n - 1"
  proof -
    have "last ?ss \<in> set ks" using ne last_in_set [OF ne] by simp
    moreover have "\<forall>j \<in> set ?ss. j \<le> last ?ss"
      using sorted_sorted_list_of_set [of "set ks"] by (cases ?ss rule: rev_cases) (auto simp: sorted_append)
    ultimately show ?thesis using assms(2,5) by fastforce
  qed
  note ordered = ordered_packets_def [of "pu_packets (fragment_unit base h chunks ks)" "fragment_seq base (?n - 1)" k,
    unfolded Let_def keys near sorted_fragments [OF assms(1,2,3) n] look]
  have fua: "isFUAPayload (fragment h chunks j)" "fragment h chunks j ! 1 AND 0x80 = (if j = 0 then 0x80 else 0)" for j
    by (simp_all add: isFUAPayload_def fragment_def fragment_bits)
  show ?thesis
  proof (cases "set ks = {..<?n}")
    case True
    then have ss: "?ss = [0..<?n]" by (simp add: lessThan_atLeast0)
    show ?thesis unfolding ordered ss using n True
      by (simp add: contiguous_upt last_map hd_map fua fua [unfolded One_nat_def])
  next
    case False
    show ?thesis
    proof (cases "contiguous (map (fragment_seq base) ?ss)")
      case True
      have "?ss = [hd ?ss..<Suc (last ?ss)]"
        by (rule contiguous_fragments [OF True _ _ ne]) (use small in simp_all)
      moreover have "Suc (last ?ss) = ?n" using last n by simp
      ultimately have "?ss = [hd ?ss..<?n]" by argo
      moreover have "hd ?ss \<noteq> 0"
      proof
        assume "hd ?ss = 0"
        then have "?ss = [0..<?n]" using calculation by simp
        then have "set ks = set [0..<?n]" by (metis List.finite_set set_sorted_list_of_set)
        then show False using False by (simp add: lessThan_atLeast0)
      qed
      ultimately show ?thesis using False ne last
        unfolding ordered by (simp add: hd_map last_map fua fua [unfolded One_nat_def])
    qed (use False in \<open>unfold ordered, simp\<close>)
  qed
qed


definition fragment_progress :: "u8 \<Rightarrow> bytes list \<Rightarrow> nat \<Rightarrow> assembly \<Rightarrow> bool" where
  "fragment_progress h chunks k a \<longleftrightarrow>
     as_annexb a = (if k = 0 then [] else annexBStartCode @ h # concat (take k chunks)) \<and>
     as_fragmented a = (0 < k \<and> k < length chunks) \<and> (0 < k \<longrightarrow> as_fragment_type a = nal_type h) \<and>
     as_sps a = [] \<and> as_pps a = []"

lemma assemble_fragment:
  assumes "fragment_progress h chunks k a" "k < length chunks" "2 \<le> length chunks" "\<forall>c \<in> set chunks. c \<noteq> []"
    "int (5 + length (concat chunks)) \<le> limit"
  shows "\<exists>a'. assemble_packet limit (fragment h chunks k) a = (None, a') \<and> fragment_progress h chunks (Suc k) a'"
proof -
  have "length (concat chunks) = length (concat (take k chunks)) + length (chunks ! k) + length (concat (drop (Suc k) chunks))"
    using arg_cong [OF id_take_nth_drop [OF assms(2)], of "\<lambda>x. length (concat x)"] by simp
  then have fit: "int (5 + length (concat (take k chunks)) + length (chunks ! k)) \<le> limit" using assms(5) by simp
  have ne: "chunks ! k \<noteq> []" using assms(2,4) by simp
  have bits: "nal_type (hd (fragment h chunks j)) = 28" "fragment h chunks j ! 1 AND 0x20 = 0"
    "fragment h chunks j ! 1 AND 0x80 = 0 \<longleftrightarrow> j \<noteq> 0"
    "fragment h chunks j ! 1 AND 0x40 = 0 \<longleftrightarrow> Suc j \<noteq> length chunks" "nal_type (fragment h chunks j ! 1) = nal_type h"
    "fragment h chunks j ! 0 AND 0xe0 OR nal_type h = h" "drop 2 (fragment h chunks j) = chunks ! j" for j
    using assms(3) by (auto simp: fragment_def fragment_bits)
  have all: "concat (take k chunks) @ chunks ! k = concat chunks" if "Suc k = length chunks"
    using arg_cong [OF take_Suc_conv_app_nth [OF assms(2)], of concat] that by simp
  show ?thesis
    using assms(1,2,3) ne fit
    by (cases "k = 0"; cases "Suc k = length chunks")
      (auto simp: fragment_progress_def assemble_packet_def append_fragment_def Let_def bits all take_Suc_conv_app_nth
        simp del: One_nat_def)
qed

lemma assemble_fragments:
  assumes "fragment_progress h chunks k a" "k \<le> length chunks" "2 \<le> length chunks" "\<forall>c \<in> set chunks. c \<noteq> []"
    "int (5 + length (concat chunks)) \<le> limit"
  shows "\<exists>a'. assemble_packets limit (map (fragment_packet base h chunks) [k..<length chunks]) a = (None, a') \<and>
    fragment_progress h chunks (length chunks) a'"
  using assms(1,2)
proof (induction "length chunks - k" arbitrary: k a)
  case 0
  then have "k = length chunks" by simp
  then show ?case using 0 by (simp add: fragment_progress_def)
next
  case (Suc n)
  then have k: "k < length chunks" by simp
  obtain a' where a': "assemble_packet limit (fragment h chunks k) a = (None, a')" "fragment_progress h chunks (Suc k) a'"
    using assemble_fragment [OF Suc.prems(1) k assms(3-5)] by blast
  have "n = length chunks - Suc k" using Suc.hyps(2) by simp
  then show ?case using Suc.hyps(1) [OF _ a'(2)] k a'(1) by (simp add: upt_conv_Cons)
qed

lemma sum_list_int: "sum_list (map (\<lambda>x. int (f x)) xs) = int (sum_list (map f xs))"
  by (induction xs) simp_all

text \<open>A depacketizer that can take the fragments, and has seen nothing yet.\<close>

definition fragments_fit :: "depacketizer \<Rightarrow> rtp_packet \<Rightarrow> bytes list \<Rightarrow> bool" where
  "fragments_fit d base chunks \<longleftrightarrow>
     2 \<le> length chunks \<and> length chunks \<le> 65536 \<and> int (length chunks) \<le> vl_unit_packets (dp_limits d) \<and>
     (\<forall>c \<in> set chunks. c \<noteq> [] \<and> int (length c + 2) \<le> vl_packet_bytes (dp_limits d)) \<and>
     int (length (concat chunks) + 2 * length chunks) \<le> vl_unit_bytes (dp_limits d) \<and>
     int (5 + length (concat chunks)) \<le> vl_unit_bytes (dp_limits d) \<and>
     rp_generation base = dp_generation d \<and> rp_received base \<noteq> 0"

definition untouched :: "depacketizer \<Rightarrow> bool" where
  "untouched d \<longleftrightarrow> dp_pending d = None \<and> \<not> dp_have_last d \<and> \<not> dp_discontinuity d \<and> dp_sps d = [] \<and> dp_pps d = []"

definition fragment_state :: "depacketizer \<Rightarrow> rtp_packet \<Rightarrow> u8 \<Rightarrow> bytes list \<Rightarrow> nat list \<Rightarrow> depacketizer" where
  "fragment_state d base h chunks ks =
     (if ks = [] then d else d\<lparr>dp_pending := Some (fragment_unit base h chunks ks)\<rparr>)"

lemma fragment_bytes:
  assumes "distinct ks" "set ks \<subseteq> {..<length chunks}"
  shows "sum_list (map (\<lambda>k. length (fragment h chunks k)) ks) \<le> length (concat chunks) + 2 * length chunks"
proof -
  have "sum_list (map (\<lambda>k. length (fragment h chunks k)) ks) = (\<Sum>k \<in> set ks. length (chunks ! k) + 2)"
    using assms(1) by (simp add: sum_list_distinct_conv_sum_set)
  also have "\<dots> \<le> (\<Sum>k \<in> {..<length chunks}. length (chunks ! k) + 2)"
    using assms(2) by (intro sum_mono2) auto
  also have "\<dots> = length (concat chunks) + 2 * length chunks"
    by (simp only: length_concat sum_list_sum_nth sum.distrib lessThan_atLeast0) simp
  finally show ?thesis .
qed

text \<open>A packet of the pending timestamp, or the first of all, that the limits let in.\<close>

lemma push_accept:
  assumes "rp_generation p = dp_generation d" "rp_received p \<noteq> 0" "rp_payload p \<noteq> []"
    "int (length (rp_payload p)) \<le> vl_packet_bytes (dp_limits d)" "\<not> dp_have_last d"
    "(dp_pending d = None \<and> u = new_unit p) \<or> (dp_pending d = Some u \<and> pu_timestamp u = rp_timestamp p)"
    "rp_sequence p \<notin> fst ` set (pu_packets u)"
    "pu_bytes u + int (length (rp_payload p)) \<le> vl_unit_bytes (dp_limits d)"
    "int (length (pu_packets u)) < vl_unit_packets (dp_limits d)"
    "u1 = u\<lparr>pu_bytes := pu_bytes u + int (length (rp_payload p)), pu_packets := (rp_sequence p, p) # pu_packets u,
            pu_marker := (if rp_marker p then Some (rp_sequence p) else pu_marker u)\<rparr>"
    "d2 = d\<lparr>dp_pending := Some u1\<rparr>"
  shows "push p d = (case pu_marker u1 of None \<Rightarrow> (Inr None, d2) | Some m \<Rightarrow> complete_unit d2 u1 m)"
proof -
  have disc: "d\<lparr>dp_pending := x, dp_discontinuity := dp_discontinuity d\<rparr> = d\<lparr>dp_pending := x\<rparr>" for x by (cases d) simp
  from assms(6) show ?thesis
  proof (elim disjE conjE)
    assume "dp_pending d = None" "u = new_unit p"
    then show ?thesis using assms(1-5,7-9) unfolding assms(10,11)
      by (simp add: push_def Let_def disc) (simp split: option.splits)
  next
    assume "dp_pending d = Some u" "pu_timestamp u = rp_timestamp p"
    then show ?thesis using assms(1-5,7-9) unfolding assms(10,11)
      by (simp add: push_def Let_def disc) (simp split: option.splits)
  qed
qed

lemma push_fragment:
  fixes d base h chunks k ks
  defines "u \<equiv> fragment_unit base h chunks (k # ks)" and "d2 \<equiv> d\<lparr>dp_pending := Some (fragment_unit base h chunks (k # ks))\<rparr>"
  assumes "fragments_fit d base chunks" "untouched d" "distinct (k # ks)" "set (k # ks) \<subseteq> {..<length chunks}"
  shows "push (fragment_packet base h chunks k) (fragment_state d base h chunks ks) =
    (case pu_marker u of None \<Rightarrow> (Inr None, d2) | Some m \<Rightarrow> complete_unit d2 u m)"
proof -
  have k: "chunks ! k \<noteq> []" "int (length (chunks ! k) + 2) \<le> vl_packet_bytes (dp_limits d)"
    using assms(3,6) by (auto simp: fragments_fit_def)
  have "int (sum_list (map (\<lambda>k. length (fragment h chunks k)) (k # ks))) \<le> vl_unit_bytes (dp_limits d)"
    using fragment_bytes [OF assms(5,6), of h] assms(3) by (auto simp: fragments_fit_def)
  then have bytes: "sum_list (map (\<lambda>k. int (length (fragment h chunks k))) (k # ks)) \<le> vl_unit_bytes (dp_limits d)"
    by (simp only: sum_list_int)
  have "card (set (k # ks)) \<le> length chunks" using assms(6) by (metis card_lessThan card_mono finite_lessThan)
  then have count: "int (length ks) < vl_unit_packets (dp_limits d)"
    using assms(3,5) by (simp add: fragments_fit_def distinct_card del: set_simps)
  have new: "fragment_seq base k \<notin> fragment_seq base ` set ks"
  proof
    assume "fragment_seq base k \<in> fragment_seq base ` set ks"
    then obtain j where j: "j \<in> set ks" "fragment_seq base k = fragment_seq base j" by auto
    have "k < 65536" "j < 65536" using assms(3,6) j(1) by (auto simp: fragments_fit_def)
    then show False using j assms(5) fragment_seq_inj by auto
  qed
  show ?thesis unfolding u_def d2_def
  proof (rule push_accept [where u = "fragment_unit base h chunks ks"])
    show "fragment_unit base h chunks (k # ks) = fragment_unit base h chunks ks
      \<lparr>pu_bytes := pu_bytes (fragment_unit base h chunks ks) + int (length (rp_payload (fragment_packet base h chunks k))),
       pu_packets := (rp_sequence (fragment_packet base h chunks k), fragment_packet base h chunks k) # pu_packets (fragment_unit base h chunks ks),
       pu_marker := (if rp_marker (fragment_packet base h chunks k) then Some (rp_sequence (fragment_packet base h chunks k))
                     else pu_marker (fragment_unit base h chunks ks))\<rparr>"
      by (auto simp: fragment_unit_def)
  qed (use assms(3,4) k bytes count new in
      \<open>auto simp: fragments_fit_def untouched_def fragment_state_def fragment_unit_def new_unit_def image_comp comp_def algebra_simps\<close>)
qed

lemma assemble_annexb:
  assumes "assemble_packets (vl_unit_bytes (dp_limits d)) ps
      \<lparr>as_annexb = [], as_sps = dp_sps d, as_pps = dp_pps d, as_has_sps = False, as_has_pps = False,
        as_keyframe = False, as_picture = False, as_fragmented = False, as_fragment_type = 0\<rparr> = (None, a)"
    "as_sps a = []"
  shows "\<exists>au. fst (assemble d u ps) = Inr au \<and> au_annexb au = as_annexb a"
  using assms by (auto simp: assemble_def Let_def)

lemma complete_fragments:
  fixes d base h chunks ks
  defines "u \<equiv> fragment_unit base h chunks ks" and "d2 \<equiv> d\<lparr>dp_pending := Some (fragment_unit base h chunks ks)\<rparr>"
  assumes "fragments_fit d base chunks" "untouched d" "\<forall>c \<in> set chunks. c \<noteq> []" "distinct ks" "set ks \<subseteq> {..<length chunks}"
    "length chunks - 1 \<in> set ks"
  shows "if set ks = {..<length chunks}
    then \<exists>au d3. complete_unit d2 u (fragment_seq base (length chunks - 1)) = (Inr (Some au), d3) \<and> au_annexb au = annexBStartCode @ h # concat chunks
    else complete_unit d2 u (fragment_seq base (length chunks - 1)) = (Inr None, d2)"
proof -
  note fit = assms(3) [unfolded fragments_fit_def]
  then have n: "0 < length chunks" by linarith
  have ordered: "ordered_packets (pu_packets u) (fragment_seq base (length chunks - 1)) (vl_unit_packets (dp_limits d)) =
      (if set ks = {..<length chunks} then Some (map (fragment_packet base h chunks) [0..<length chunks]) else None)"
    unfolding u_def by (rule ordered_fragments) (use assms fit in auto)
  show ?thesis
  proof (cases "set ks = {..<length chunks}")
    case True
    let ?a0 = "\<lparr>as_annexb = [], as_sps = dp_sps d2, as_pps = dp_pps d2, as_has_sps = False, as_has_pps = False,
        as_keyframe = False, as_picture = False, as_fragmented = False, as_fragment_type = 0\<rparr>"
    have "fragment_progress h chunks 0 ?a0" using assms(4) by (simp add: fragment_progress_def untouched_def d2_def)
    then obtain a' where a': "assemble_packets (vl_unit_bytes (dp_limits d2)) (map (fragment_packet base h chunks) [0..<length chunks]) ?a0 = (None, a')"
      "fragment_progress h chunks (length chunks) a'"
      using assemble_fragments [of h chunks 0 ?a0 "vl_unit_bytes (dp_limits d2)" base] fit assms(5) by (auto simp: d2_def)
    have "as_sps a' = []" "as_annexb a' = annexBStartCode @ h # concat chunks"
      using a'(2) n by (simp_all add: fragment_progress_def)
    then have "\<exists>au d3. assemble d2 u (map (fragment_packet base h chunks) [0..<length chunks]) = (Inr au, d3) \<and>
        au_annexb au = annexBStartCode @ h # concat chunks"
      using assemble_annexb [OF a'(1)] by (metis prod.collapse)
    then obtain au d3 where "assemble d2 u (map (fragment_packet base h chunks) [0..<length chunks]) = (Inr au, d3)"
      "au_annexb au = annexBStartCode @ h # concat chunks" by blast
    then show ?thesis using ordered True by (simp add: complete_unit_def d2_def Let_def)
  qed (use ordered in \<open>simp add: complete_unit_def d2_def\<close>)
qed

lemma fragments_run:
  assumes "fragments_fit d base chunks" "untouched d" "distinct (ks @ ds)"
    "set ks \<union> set ds = {..<length chunks}" "ks \<noteq> []"
  shows "map au_annexb (depack_run (fragment_state d base h chunks ds) (map (fragment_packet base h chunks) ks)) =
    [annexBStartCode @ h # concat chunks]"
  using assms(3-5)
proof (induction ks arbitrary: ds)
  case (Cons k ks)
  let ?n = "length chunks"
  have part: "distinct (k # ds)" "set (k # ds) \<subseteq> {..<?n}" using Cons.prems by auto
  have full: "set (k # ds) = {..<?n} \<longleftrightarrow> ks = []"
  proof
    assume "set (k # ds) = {..<?n}"
    then have "set ks \<subseteq> set (k # ds)" using Cons.prems(2) by auto
    then show "ks = []" using Cons.prems(1) by (cases ks) auto
  qed (use Cons.prems(2) in auto)
  have full_not: "set (k # ds) \<noteq> {..<?n}" if "ks \<noteq> []" using full that by blast
  have ne: "\<forall>c \<in> set chunks. c \<noteq> []" using assms(1) by (auto simp: fragments_fit_def)
  note push = push_fragment [OF assms(1,2) part, of h]
  have next_state: "fragment_state d base h chunks (k # ds) = d\<lparr>dp_pending := Some (fragment_unit base h chunks (k # ds))\<rparr>"
    by (simp add: fragment_state_def)
  have IH: "map au_annexb (depack_run (fragment_state d base h chunks (k # ds)) (map (fragment_packet base h chunks) ks)) =
      [annexBStartCode @ h # concat chunks]" if "ks \<noteq> []"
    by (rule Cons.IH) (use Cons.prems that in auto)
  show ?case
  proof (cases "?n - 1 \<in> set (k # ds)")
    case True
    have marker: "pu_marker (fragment_unit base h chunks (k # ds)) = Some (fragment_seq base (?n - 1))"
      using True by (simp add: fragment_unit_def)
    note complete = complete_fragments [OF assms(1,2) ne part True, of h]
    show ?thesis
    proof (cases "ks = []")
      case True
      obtain au d3 where "complete_unit (d\<lparr>dp_pending := Some (fragment_unit base h chunks (k # ds))\<rparr>)
          (fragment_unit base h chunks (k # ds)) (fragment_seq base (?n - 1)) = (Inr (Some au), d3)"
        "au_annexb au = annexBStartCode @ h # concat chunks"
        using complete [unfolded if_P [OF iffD2 [OF full True]]] by blast
      then show ?thesis using push marker True by simp
    next
      case False
      have "push (fragment_packet base h chunks k) (fragment_state d base h chunks ds) = (Inr None, fragment_state d base h chunks (k # ds))"
        unfolding push next_state marker option.case
        by (rule complete [unfolded if_not_P [OF full_not [OF False]]])
      then show ?thesis using IH [OF False] by simp
    qed
  next
    case False
    have "?n - 1 \<in> {..<?n}" using assms(1) by (auto simp: fragments_fit_def)
    then have "ks \<noteq> []" using False full by blast
    moreover have "pu_marker (fragment_unit base h chunks (k # ds)) = None" using False by (simp add: fragment_unit_def)
    ultimately show ?thesis using push IH by (simp flip: next_state)
  qed
qed simp

section \<open>Small units\<close>

lemma new_depacketizer_untouched:
  assumes "new_depacketizer g l = Inr d"
  shows "untouched d" "dp_generation d = g" "dp_limits d = with_defaults l"
  using assms by (auto simp: new_depacketizer_def untouched_def Let_def split: if_splits)

text \<open>A packet that carries one whole NAL unit, and that the receiver can take.\<close>

definition single_nal :: "depacketizer \<Rightarrow> rtp_packet \<Rightarrow> bool" where
  "single_nal d p \<longleftrightarrow> rp_generation p = dp_generation d \<and> rp_received p \<noteq> 0 \<and> rp_payload p \<noteq> [] \<and>
     0 < nal_type (hd (rp_payload p)) \<and> nal_type (hd (rp_payload p)) < 24 \<and>
     int (length (rp_payload p)) \<le> vl_packet_bytes (dp_limits d)"

lemma single_nal_not_fragment: "single_nal d p \<Longrightarrow> \<not> isFUAPayload (rp_payload p)"
  by (cases "rp_payload p") (auto simp: single_nal_def isFUAPayload_def)

definition blank_assembly :: assembly where
  "blank_assembly = \<lparr>as_annexb = [], as_sps = [], as_pps = [], as_has_sps = False, as_has_pps = False,
     as_keyframe = False, as_picture = False, as_fragmented = False, as_fragment_type = 0\<rparr>"

lemma assemble_single:
  assumes "single_nal d p" "\<not> as_fragmented a"
    "int (length (as_annexb a)) + 4 + int (length (rp_payload p)) \<le> limit"
  shows "\<exists>a'. assemble_packet limit (rp_payload p) a = (None, a') \<and> \<not> as_fragmented a' \<and>
    as_annexb a' = as_annexb a @ annexBStartCode @ rp_payload p \<and>
    (as_keyframe a' \<and> \<not> (as_has_sps a' \<and> as_has_pps a') \<longrightarrow> as_keyframe a \<or> (as_sps a' = as_sps a \<and> as_pps a' = as_pps a))"
  using assms by (auto simp: single_nal_def assemble_packet_def append_nal_def Let_def)

lemma push_single:
  assumes "single_nal d q" "untouched d" "rp_marker q" "int (length (rp_payload q)) + 4 \<le> vl_unit_bytes (dp_limits d)"
    "1 \<le> vl_unit_packets (dp_limits d)"
  shows "\<exists>au d'. push q d = (Inr (Some au), d') \<and> au_annexb au = annexBStartCode @ rp_payload q \<and>
    dp_generation d' = dp_generation d \<and> dp_limits d' = dp_limits d \<and> dp_have_last d' \<and> dp_last_timestamp d' = rp_timestamp q"
proof -
  let ?u1 = "(new_unit q)\<lparr>pu_bytes := pu_bytes (new_unit q) + int (length (rp_payload q)),
    pu_packets := (rp_sequence q, q) # pu_packets (new_unit q), pu_marker := (if rp_marker q then Some (rp_sequence q) else pu_marker (new_unit q))\<rparr>"
  let ?d2 = "d\<lparr>dp_pending := Some ?u1\<rparr>"
  have "push q d = (case pu_marker ?u1 of None \<Rightarrow> (Inr None, ?d2) | Some m \<Rightarrow> complete_unit ?d2 ?u1 m)"
    by (rule push_accept [where u = "new_unit q"]) (use assms in \<open>auto simp: single_nal_def untouched_def new_unit_def\<close>)
  then have push: "push q d = complete_unit ?d2 ?u1 (rp_sequence q)" using assms(3) by simp
  have ordered: "ordered_packets (pu_packets ?u1) (rp_sequence q) (vl_unit_packets (dp_limits ?d2)) = Some [q]"
    using assms(5) single_nal_not_fragment [OF assms(1)] by (simp add: ordered_packets_def new_unit_def)
  obtain a' where a': "assemble_packet (vl_unit_bytes (dp_limits d)) (rp_payload q) blank_assembly = (None, a')" "\<not> as_fragmented a'"
    "as_annexb a' = annexBStartCode @ rp_payload q" "as_keyframe a' \<and> \<not> (as_has_sps a' \<and> as_has_pps a') \<Longrightarrow> as_sps a' = []"
    using assemble_single [OF assms(1), of blank_assembly "vl_unit_bytes (dp_limits d)"] assms(4) by (auto simp: blank_assembly_def)
  have "assemble_packets (vl_unit_bytes (dp_limits ?d2)) [q] blank_assembly = (None, a')" using a' by simp
  then show ?thesis using a'(3,4) assms(2) ordered unfolding push complete_unit_def
    by (auto simp: assemble_def Let_def blank_assembly_def [symmetric] untouched_def new_unit_def)
qed

lemma push_pair:
  assumes "single_nal d p" "single_nal d q" "untouched d" "rp_marker q" "\<not> rp_marker p" "rp_timestamp p = rp_timestamp q"
    "rp_sequence q = rp_sequence p + 1" "2 \<le> vl_unit_packets (dp_limits d)"
    "int (length (rp_payload p) + length (rp_payload q)) + 8 \<le> vl_unit_bytes (dp_limits d)"
  shows "map au_annexb (depack_run d [p, q]) = [annexBStartCode @ rp_payload p @ annexBStartCode @ rp_payload q]"
proof -
  let ?u1 = "(new_unit p)\<lparr>pu_bytes := pu_bytes (new_unit p) + int (length (rp_payload p)),
    pu_packets := (rp_sequence p, p) # pu_packets (new_unit p), pu_marker := (if rp_marker p then Some (rp_sequence p) else pu_marker (new_unit p))\<rparr>"
  let ?d1 = "d\<lparr>dp_pending := Some ?u1\<rparr>"
  let ?u2 = "?u1\<lparr>pu_bytes := pu_bytes ?u1 + int (length (rp_payload q)),
    pu_packets := (rp_sequence q, q) # pu_packets ?u1, pu_marker := (if rp_marker q then Some (rp_sequence q) else pu_marker ?u1)\<rparr>"
  let ?d2 = "?d1\<lparr>dp_pending := Some ?u2\<rparr>"
  have "push p d = (case pu_marker ?u1 of None \<Rightarrow> (Inr None, ?d1) | Some m \<Rightarrow> complete_unit ?d1 ?u1 m)"
    by (rule push_accept [where u = "new_unit p"]) (use assms in \<open>auto simp: single_nal_def untouched_def new_unit_def\<close>)
  then have push1: "push p d = (Inr None, ?d1)" using assms(5) by (simp add: new_unit_def)
  have "push q ?d1 = (case pu_marker ?u2 of None \<Rightarrow> (Inr None, ?d2) | Some m \<Rightarrow> complete_unit ?d2 ?u2 m)"
    by (rule push_accept [where u = ?u1]) (use assms in \<open>auto simp: single_nal_def untouched_def new_unit_def\<close>)
  then have push2: "push q ?d1 = complete_unit ?d2 ?u2 (rp_sequence q)" using assms(4) by simp
  have ordered: "ordered_packets (pu_packets ?u2) (rp_sequence q) (vl_unit_packets (dp_limits ?d2)) = Some [p, q]"
    using assms(7,8) single_nal_not_fragment [OF assms(1)] by (simp add: ordered_packets_def new_unit_def)
  let ?l = "vl_unit_bytes (dp_limits d)"
  obtain a where a: "assemble_packet ?l (rp_payload p) blank_assembly = (None, a)" "\<not> as_fragmented a" "as_annexb a = annexBStartCode @ rp_payload p"
    using assemble_single [OF assms(1), of blank_assembly ?l] assms(9) by (auto simp: blank_assembly_def)
  obtain a' where a': "assemble_packet ?l (rp_payload q) a = (None, a')" "\<not> as_fragmented a'"
    "as_annexb a' = annexBStartCode @ rp_payload p @ annexBStartCode @ rp_payload q"
    using assemble_single [OF assms(2) a(2), of ?l] assms(9) a(3) by auto
  have sets: "as_keyframe a' \<Longrightarrow> as_sps a' = [] \<or> as_pps a' = []"
    using a(1) a'(1) assms(1,2)
    by (auto simp: assemble_packet_def append_nal_def Let_def single_nal_def blank_assembly_def split: if_splits)
  have "assemble_packets (vl_unit_bytes (dp_limits ?d2)) [p, q] blank_assembly = (None, a')" using a a' by simp
  then have "\<exists>au d'. push q ?d1 = (Inr (Some au), d') \<and> au_annexb au = as_annexb a'"
    using sets assms(3) ordered unfolding push2 complete_unit_def
    by (auto simp: assemble_def Let_def blank_assembly_def [symmetric] untouched_def new_unit_def)
  then show ?thesis using push1 a'(3) by auto
qed

section \<open>Properties\<close>

text \<open>
  whatever packets arrive, in whatever order, the emitted access units carry the receiver's
  generation, stay within the byte limit, come in the order of their timestamps (across a wrap), and
  two units that are not marked discontinuous have adjacent sequence numbers.
\<close>

theorem units_in_order:
  assumes "new_depacketizer g l = Inr d"
  shows "unit_chain (depack_run d ps) \<and> list_all (unit_ok g (with_defaults l)) (depack_run d ps)"
  using depack_run_chain [OF new_depacketizer_inv [OF assms], of ps] new_depacketizer_untouched [OF assms] by simp

definition example_limits :: video_limits where
  "example_limits = \<lparr>vl_packet_bytes = 0, vl_unit_bytes = 100, vl_unit_packets = 0, vl_width = 0, vl_height = 0,
     vl_pixels = 0, vl_freshness = 0, vl_pli_interval = 0\<rparr>"

definition example_packet :: "u16 \<Rightarrow> u32 \<Rightarrow> bool \<Rightarrow> bytes \<Rightarrow> rtp_packet" where
  "example_packet s t m p = \<lparr>rp_generation = 1, rp_sequence = s, rp_timestamp = t, rp_marker = m, rp_received = 7, rp_payload = p\<rparr>"

definition example_receiver :: depacketizer where
  "example_receiver = (case new_depacketizer 1 example_limits of Inr d \<Rightarrow> d | Inl _ \<Rightarrow> undefined)"

lemma example_receiver: "new_depacketizer 1 example_limits = Inr example_receiver"
  by (simp add: example_receiver_def new_depacketizer_def example_limits_def with_defaults_def validate_video_limits_def
      defaultMaxPacket_def defaultMaxPackets_def defaultMaxWidth_def defaultMaxHeight_def defaultMaxPixels_def Let_def)

theorem units_in_order_witness:
  "unit_chain (depack_run example_receiver [example_packet 65535 4294967295 True [1, 9], example_packet 0 0 True [1, 8]]) \<and>
   map au_discontinuity (depack_run example_receiver
     [example_packet 65535 4294967295 True [1, 9], example_packet 0 0 True [1, 8]]) = [False, False]"
  using units_in_order [OF example_receiver, of "[example_packet 65535 4294967295 True [1, 9], example_packet 0 0 True [1, 8]]"]
  by (intro conjI) (blast, code_simp)

text \<open>
  C35: the fragments of one NAL unit, in any order of arrival, with or without a wrap of the sequence
  number, give exactly one access unit, and its bytes are the start code and the NAL unit.
\<close>

theorem fragments_reassemble_in_any_order:
  assumes "new_depacketizer g l = Inr d" "fragments_fit d base chunks" "mset ks = mset [0..<length chunks]"
  shows "map au_annexb (depack_run d (map (fragment_packet base h chunks) ks)) = [annexBStartCode @ h # concat chunks]"
proof -
  have "distinct ks" "set ks = {..<length chunks}"
    using assms(3) by (metis distinct_upt mset_eq_imp_distinct_iff, metis atLeast_upt mset_eq_setD)
  moreover have "0 \<in> set ks" using assms(2) \<open>set ks = _\<close> by (auto simp: fragments_fit_def)
  then have "ks \<noteq> []" by auto
  ultimately show ?thesis
    using fragments_run [OF assms(2) new_depacketizer_untouched(1) [OF assms(1)], of ks "[]" h] by (simp add: fragment_state_def)
qed

theorem fragments_reassemble_in_any_order_witness:
  "map au_annexb (depack_run example_receiver (map (fragment_packet (example_packet 65534 5 False []) 0x65 [[1, 2], [3], [4, 5]]) [2, 0, 1])) =
     [annexBStartCode @ 0x65 # concat [[1, 2], [3], [4, 5]]]"
proof (rule fragments_reassemble_in_any_order [OF example_receiver])
  show "fragments_fit example_receiver (example_packet 65534 5 False []) [[1, 2], [3], [4, 5]]" by code_simp
qed simp

text \<open>
  a unit of two whole NAL units is emitted without its first one when the marker packet arrives
  first: a marker packet alone counts as a contiguous sequence, and the first packet is then late.
\<close>

theorem early_marker_truncates_unit:
  assumes "new_depacketizer g l = Inr d" "single_nal d p" "single_nal d q" "rp_marker q" "\<not> rp_marker p"
    "rp_timestamp p = rp_timestamp q" "rp_sequence q = rp_sequence p + 1" "2 \<le> vl_unit_packets (dp_limits d)"
    "int (length (rp_payload p) + length (rp_payload q)) + 8 \<le> vl_unit_bytes (dp_limits d)"
  shows "map au_annexb (depack_run d [p, q]) = [annexBStartCode @ rp_payload p @ annexBStartCode @ rp_payload q] \<and>
    map au_annexb (depack_run d [q, p]) = [annexBStartCode @ rp_payload q]"
proof
  note fresh = new_depacketizer_untouched [OF assms(1)]
  show "map au_annexb (depack_run d [p, q]) = [annexBStartCode @ rp_payload p @ annexBStartCode @ rp_payload q]"
    by (rule push_pair) (use assms fresh in auto)
  obtain au d' where q: "push q d = (Inr (Some au), d')" "au_annexb au = annexBStartCode @ rp_payload q"
    "dp_generation d' = dp_generation d" "dp_limits d' = dp_limits d" "dp_have_last d'" "dp_last_timestamp d' = rp_timestamp q"
    using push_single [OF assms(3) fresh(1) assms(4)] assms(8,9) by auto
  have "push p d' = (Inr None, d')" using q assms(2,6) by (simp add: push_def single_nal_def)
  then show "map au_annexb (depack_run d [q, p]) = [annexBStartCode @ rp_payload q]" using q by simp
qed

theorem early_marker_truncates_unit_witness:
  "map au_annexb (depack_run example_receiver [example_packet 4 5 False [0x61, 1], example_packet 5 5 True [0x61, 2]]) =
     [[0, 0, 0, 1, 0x61, 1, 0, 0, 0, 1, 0x61, 2]] \<and>
   map au_annexb (depack_run example_receiver [example_packet 5 5 True [0x61, 2], example_packet 4 5 False [0x61, 1]]) =
     [[0, 0, 0, 1, 0x61, 2]]"
proof -
  have fits: "single_nal example_receiver (example_packet 4 5 False [0x61, 1])" "single_nal example_receiver (example_packet 5 5 True [0x61, 2])"
    "2 \<le> vl_unit_packets (dp_limits example_receiver)" "12 \<le> vl_unit_bytes (dp_limits example_receiver)"
    by code_simp+
  show ?thesis
    using early_marker_truncates_unit [OF example_receiver fits(1,2)] fits(3,4)
    by (simp add: example_packet_def annexBStartCode_def)
qed

text \<open>
  a packet that is rejected as malformed still replaces the cached parameter set, which later
  keyframes reuse: an aggregation packet with a sequence parameter set and a stray last byte.
\<close>

theorem rejected_packet_replaces_parameter_set:
  assumes "new_depacketizer g l = Inr d" "rp_payload p = 24 # hi # lo # sps @ [x]" "256 * unat hi + unat lo = length sps"
    "sps \<noteq> []" "nal_type (hd sps) = 7" "rp_marker p" "rp_generation p = g" "rp_received p \<noteq> 0"
    "int (length sps + 4) \<le> vl_packet_bytes (dp_limits d)" "int (length sps + 4) \<le> vl_unit_bytes (dp_limits d)"
    "1 \<le> vl_unit_packets (dp_limits d)"
  shows "fst (push p d) = Inl [ErrInvalidPacket] \<and> dp_sps (snd (push p d)) = sps"
proof -
  note fresh = new_depacketizer_untouched [OF assms(1)]
  let ?u1 = "(new_unit p)\<lparr>pu_bytes := pu_bytes (new_unit p) + int (length (rp_payload p)),
    pu_packets := (rp_sequence p, p) # pu_packets (new_unit p), pu_marker := (if rp_marker p then Some (rp_sequence p) else pu_marker (new_unit p))\<rparr>"
  let ?d2 = "d\<lparr>dp_pending := Some ?u1\<rparr>"
  have "push p d = (case pu_marker ?u1 of None \<Rightarrow> (Inr None, ?d2) | Some m \<Rightarrow> complete_unit ?d2 ?u1 m)"
    by (rule push_accept [where u = "new_unit p"]) (use assms fresh in \<open>auto simp: untouched_def new_unit_def\<close>)
  then have push: "push p d = complete_unit ?d2 ?u1 (rp_sequence p)" using assms(6) by simp
  have "\<not> isFUAPayload (rp_payload p)" using assms(2) by (simp add: isFUAPayload_def nal_type_def)
  then have ordered: "ordered_packets (pu_packets ?u1) (rp_sequence p) (vl_unit_packets (dp_limits ?d2)) = Some [p]"
    using assms(11) by (simp add: ordered_packets_def new_unit_def)
  have "nal_type 24 = 24" by (simp add: nal_type_def)
  then have "\<exists>a. assemble_packet (vl_unit_bytes (dp_limits d)) (rp_payload p) blank_assembly = (Some [ErrInvalidPacket], a) \<and> as_sps a = sps"
    using assms(2-5,10) by (simp add: assemble_packet_def blank_assembly_def append_nal_def Let_def)
  then show ?thesis using ordered fresh(1) unfolding push complete_unit_def
    by (auto simp: assemble_def Let_def blank_assembly_def [symmetric] untouched_def)
qed

theorem rejected_packet_replaces_parameter_set_witness:
  "fst (push (example_packet 4 5 True [24, 0, 2, 0x67, 1, 9]) example_receiver) = Inl [ErrInvalidPacket] \<and>
   dp_sps (snd (push (example_packet 4 5 True [24, 0, 2, 0x67, 1, 9]) example_receiver)) = [0x67, 1]"
proof (rule rejected_packet_replaces_parameter_set [OF example_receiver, where hi = 0 and lo = 2 and x = 9])
  show "int (length [0x67, 1 :: u8] + 4) \<le> vl_packet_bytes (dp_limits example_receiver)"
    "int (length [0x67, 1 :: u8] + 4) \<le> vl_unit_bytes (dp_limits example_receiver)"
    "1 \<le> vl_unit_packets (dp_limits example_receiver)" by code_simp+
qed (simp_all add: example_packet_def nal_type_def)

end
