(* ===== verification/Sps.thy ===== *)
theory Sps
  imports Depacketizer "HOL-Library.State_Monad"
begin

text \<open>
  \<open>internal/video/sps_validate.go\<close>: the bounded parser of H.264 sequence parameter sets, with the
  colour record of \<open>stream_image.go\<close>. The bit reader is a state monad over \<open>rbsp\<close>; each reader
  is proved against the bit string it consumes.
\<close>

section \<open>The bit reader\<close>

record rbsp =
  rb_data :: bytes
  rb_pos :: nat
  rb_err :: bool

text \<open>\<open>newRBSP\<close> drops the emulation prevention bytes.\<close>

fun strip_emulation :: "nat \<Rightarrow> bytes \<Rightarrow> bytes" where
  "strip_emulation zeros [] = []"
| "strip_emulation zeros (v # vs) =
     (if zeros = 2 \<and> v = 3 then strip_emulation 0 vs
      else v # strip_emulation (if v = 0 then Suc zeros else 0) vs)"

definition newRBSP :: "bytes \<Rightarrow> rbsp" where
  "newRBSP src = \<lparr>rb_data = strip_emulation 0 src, rb_pos = 0, rb_err = False\<rparr>"

fun read_loop :: "bytes \<Rightarrow> nat \<Rightarrow> nat \<Rightarrow> u32 \<Rightarrow> u32" where
  "read_loop data pos 0 v = v"
| "read_loop data pos (Suc n) v =
     read_loop data (Suc pos) n (push_bit 1 v OR ucast (drop_bit (7 - pos mod 8) (data ! (pos div 8)) AND 1))"

definition rb_read :: "nat \<Rightarrow> (rbsp, u32) state" where
  "rb_read n = State (\<lambda>b.
     if rb_err b \<or> n > 32 \<or> rb_pos b + n > length (rb_data b) * 8 then (0, b\<lparr>rb_err := True\<rparr>)
     else (read_loop (rb_data b) (rb_pos b) n 0, b\<lparr>rb_pos := rb_pos b + n\<rparr>))"

text \<open>The loop of \<open>ue\<close>: the number of leading zeros, or \<open>None\<close> after the thirty-first.\<close>

function ue_zeros :: "nat \<Rightarrow> rbsp \<Rightarrow> nat option \<times> rbsp" where
  "ue_zeros zeros b =
     (if rb_err b then (Some zeros, b)
      else
        (case run_state (rb_read 1) b of
           (v, b1) \<Rightarrow>
             if v \<noteq> 0 then (Some zeros, b1)
             else if Suc zeros > 30 then (None, b1\<lparr>rb_err := True\<rparr>)
             else ue_zeros (Suc zeros) b1))"
  by pat_completeness auto
termination by (relation "measure (\<lambda>(zeros, b). 31 - zeros)") auto

declare ue_zeros.simps [simp del]

definition rb_ue :: "(rbsp, u32) state" where
  "rb_ue = do {
     found \<leftarrow> State (ue_zeros 0);
     (case found of
        None \<Rightarrow> State_Monad.return 0
      | Some zeros \<Rightarrow> do { v \<leftarrow> rb_read zeros; State_Monad.return (push_bit zeros 1 - 1 + v) })
   }"

definition rb_se :: "(rbsp, int) state" where
  "rb_se = do {
     u \<leftarrow> rb_ue;
     State_Monad.return (if u AND 1 \<noteq> 0 then uint (u + 1) sdiv 2 else (- uint u) sdiv 2)
   }"

section \<open>The parser\<close>

record stream_color =
  sc_matrix :: u32
  sc_full :: bool

definition no_color :: stream_color where
  "no_color = \<lparr>sc_matrix = 0, sc_full = False\<rparr>"

text \<open>\<open>return bad()\<close> when the condition holds.\<close>

definition bad_if :: "bool \<Rightarrow> ('s, video_errors + 'a) state \<Rightarrow> ('s, video_errors + 'a) state" where
  "bad_if c k = (if c then State_Monad.return (Inl [ErrDecodeFailed]) else k)"

fun scaling_list :: "nat \<Rightarrow> int \<Rightarrow> int \<Rightarrow> (rbsp, unit) state" where
  "scaling_list 0 previous following = State_Monad.return ()"
| "scaling_list (Suc n) previous following = do {
     s \<leftarrow> (if following \<noteq> 0 then do { d \<leftarrow> rb_se; State_Monad.return ((previous + d + 256) smod 256) }
          else State_Monad.return following);
     scaling_list n (if s \<noteq> 0 then s else previous) s
   }"

fun scaling_lists :: "nat list \<Rightarrow> (rbsp, unit) state" where
  "scaling_lists [] = State_Monad.return ()"
| "scaling_lists (i # is) = do {
     present \<leftarrow> rb_read 1;
     (if present = 0 then State_Monad.return () else scaling_list (if i \<ge> 6 then 64 else 16) 8 8);
     scaling_lists is
   }"

fun skip_se :: "nat \<Rightarrow> (rbsp, unit) state" where
  "skip_se 0 = State_Monad.return ()"
| "skip_se (Suc n) = do { rb_se; skip_se n }"

text \<open>
  The parts of \<open>parseSPSBoundsColor\<close>, each with the rest of the function as its continuation: the
  profile's header, the picture order count, the cropping and the colour description.
\<close>

definition parse_profile :: "u32 \<Rightarrow> (rbsp, video_errors + 'a) state \<Rightarrow> (rbsp, video_errors + 'a) state" where
  "parse_profile profile k =
     (if profile = 66 \<or> profile = 77 \<or> profile = 88 then k
      else if profile = 100 then do {
        chroma \<leftarrow> rb_ue;
        bad_if (chroma \<noteq> 1) (do {
          luma_depth \<leftarrow> rb_ue;
          bad_if (luma_depth \<noteq> 0) (do {
            chroma_depth \<leftarrow> rb_ue;
            bad_if (chroma_depth \<noteq> 0) (do {
              bypass \<leftarrow> rb_read 1;
              bad_if (bypass \<noteq> 0) (do {
                matrices \<leftarrow> rb_read 1;
                (if matrices \<noteq> 0 then scaling_lists [0..<8] else State_Monad.return ());
                k
              })
            })
          })
        })
      }
      else State_Monad.return (Inl [ErrDecodeFailed]))"

definition parse_order_count :: "(rbsp, video_errors + 'a) state \<Rightarrow> (rbsp, video_errors + 'a) state" where
  "parse_order_count k = do {
     kind \<leftarrow> rb_ue;
     (if kind = 0 then do { bits \<leftarrow> rb_ue; bad_if (bits > 12) k }
      else if kind = 1 then do {
        rb_read 1;
        rb_se;
        rb_se;
        n \<leftarrow> rb_ue;
        bad_if (n > 255) (do { skip_se (unat n); k })
      }
      else if kind = 2 then k
      else State_Monad.return (Inl [ErrDecodeFailed]))
   }"

text \<open>\<open>uint64(b.ue()) * 2\<close>.\<close>

definition crop_units :: "(rbsp, int) state" where
  "crop_units = do { u \<leftarrow> rb_ue; State_Monad.return (uint u * 2) }"

definition parse_cropping :: "(rbsp, int \<times> int \<times> int \<times> int) state" where
  "parse_cropping = do {
     present \<leftarrow> rb_read 1;
     (if present \<noteq> 0 then do {
        left \<leftarrow> crop_units;
        right \<leftarrow> crop_units;
        top \<leftarrow> crop_units;
        bottom \<leftarrow> crop_units;
        State_Monad.return (left, right, top, bottom)
      }
      else State_Monad.return (0, 0, 0, 0))
   }"

definition parse_color :: "(rbsp, stream_color) state" where
  "parse_color = do {
     vui \<leftarrow> rb_read 1;
     (if vui \<noteq> 0 then do {
        aspect \<leftarrow> rb_read 1;
        (if aspect \<noteq> 0 then do {
           idc \<leftarrow> rb_read 8;
           (if idc = 255 then do { rb_read 16; rb_read 16; State_Monad.return () } else State_Monad.return ())
         }
         else State_Monad.return ());
        overscan \<leftarrow> rb_read 1;
        (if overscan \<noteq> 0 then do { rb_read 1; State_Monad.return () } else State_Monad.return ());
        signal \<leftarrow> rb_read 1;
        (if signal \<noteq> 0 then do {
           rb_read 3;
           full \<leftarrow> rb_read 1;
           description \<leftarrow> rb_read 1;
           (if description \<noteq> 0 then do {
              rb_read 8;
              rb_read 8;
              matrix \<leftarrow> rb_read 8;
              State_Monad.return \<lparr>sc_matrix = matrix, sc_full = full \<noteq> 0\<rparr>
            }
            else State_Monad.return \<lparr>sc_matrix = 0, sc_full = full \<noteq> 0\<rparr>)
         }
         else State_Monad.return no_color)
      }
      else State_Monad.return no_color)
   }"

text \<open>\<open>uint64(int)\<close>.\<close>

abbreviation (input) u64_of :: "int \<Rightarrow> int" where "u64_of x \<equiv> x mod 2 ^ 64"

definition exceeds :: "video_limits \<Rightarrow> int \<Rightarrow> int \<Rightarrow> int \<Rightarrow> int \<Rightarrow> bool" where
  "exceeds l w h cw ch \<longleftrightarrow>
     w > u64_of (min (vl_width l) defaultMaxWidth) \<or> h > u64_of (min (vl_height l) defaultMaxHeight) \<or>
     u64_of (w * h) > u64_of (min (vl_pixels l) defaultMaxPixels) \<or>
     u64_of (cw * ch) > defaultMaxWidth * ((defaultMaxHeight + 15) div 16 * 16)"

definition reader_failed :: "(rbsp, bool) state" where
  "reader_failed = State (\<lambda>b. (rb_err b, b))"

definition finish_color ::
    "bool \<Rightarrow> int \<Rightarrow> int \<Rightarrow> u32 \<Rightarrow> (rbsp, video_errors + int \<times> int \<times> u32 \<times> stream_color) state" where
  "finish_color wanted w h sid =
     (if wanted then do {
        col \<leftarrow> parse_color;
        failed \<leftarrow> reader_failed;
        bad_if failed
          (bad_if (sc_matrix col \<notin> {0, 1, 2, 5, 6, 9}) (State_Monad.return (Inr (w, h, sid, col))))
      }
      else State_Monad.return (Inr (w, h, sid, no_color)))"

text \<open>The function; \<open>wanted\<close> says that the caller passed a place for the colour.\<close>

definition parse_sps :: "video_limits \<Rightarrow> bool \<Rightarrow> (rbsp, video_errors + int \<times> int \<times> u32 \<times> stream_color) state" where
  "parse_sps l wanted = do {
     profile \<leftarrow> rb_read 8;
     rb_read 8;
     rb_read 8;
     sid \<leftarrow> rb_ue;
     bad_if (sid > 31) (parse_profile profile (do {
       frame_num \<leftarrow> rb_ue;
       bad_if (frame_num > 12) (parse_order_count (do {
         refs \<leftarrow> rb_ue;
         bad_if (refs > 16) (do {
           rb_read 1;
           mw \<leftarrow> rb_ue;
           mh \<leftarrow> rb_ue;
           frames_only \<leftarrow> rb_read 1;
           bad_if (frames_only \<noteq> 1) (do {
             rb_read 1;
             crop \<leftarrow> parse_cropping;
             failed \<leftarrow> reader_failed;
             (let cw = (uint mw + 1) * 16; ch = (uint mh + 1) * 16; (left, right, top, bottom) = crop
              in bad_if (failed \<or> left + right \<ge> cw \<or> top + bottom \<ge> ch)
                   (bad_if (left \<noteq> 0 \<or> top \<noteq> 0 \<or> right \<ge> 16 \<or> bottom \<ge> 16)
                      (if exceeds l (cw - right) (ch - bottom) cw ch
                       then State_Monad.return (Inl [ErrDimensionsExceeded])
                       else finish_color wanted (cw - right) (ch - bottom) sid)))
           })
         })
       }))
     }))
   }"

definition parseSPSBoundsColor ::
    "bytes \<Rightarrow> video_limits \<Rightarrow> bool \<Rightarrow> video_errors + int \<times> int \<times> u32 \<times> stream_color" where
  "parseSPSBoundsColor nalu l wanted = fst (run_state (parse_sps l wanted) (newRBSP (tl nalu)))"


section \<open>Readers as functions of the bits they consume\<close>

text \<open>The bits of a byte and of the unread data, most significant first.\<close>

definition byte_bits :: "u8 \<Rightarrow> bool list" where
  "byte_bits w = map (bit w) (rev [0..<8])"

definition data_bits :: "bytes \<Rightarrow> bool list" where
  "data_bits data = concat (map byte_bits data)"

definition rb_bits :: "rbsp \<Rightarrow> bool list" where
  "rb_bits b = drop (rb_pos b) (data_bits (rb_data b))"

definition rb_ok :: "rbsp \<Rightarrow> bool" where
  "rb_ok b \<longleftrightarrow> \<not> rb_err b \<and> rb_pos b \<le> length (rb_data b) * 8"

definition next_bit :: "u32 \<Rightarrow> bool \<Rightarrow> u32" where
  "next_bit v x = push_bit 1 v OR of_bool x"

definition bits_val :: "bool list \<Rightarrow> u32" where
  "bits_val xs = foldl next_bit 0 xs"

text \<open>A reader that, on data that starts with the bits \<open>xs\<close>, consumes just these and returns \<open>v\<close>.\<close>

definition yields :: "(rbsp, 'a) state \<Rightarrow> bool list \<Rightarrow> 'a \<Rightarrow> bool" where
  "yields m xs v \<longleftrightarrow>
     (\<forall>b rest. rb_ok b \<and> rb_bits b = xs @ rest \<longrightarrow>
        (\<exists>b'. run_state m b = (v, b') \<and> rb_ok b' \<and> rb_bits b' = rest))"

lemma byte_bits_length [simp]: "length (byte_bits w) = 8"
  by (simp add: byte_bits_def)

lemma data_bits_length [simp]: "length (data_bits data) = length data * 8"
  by (induction data) (simp_all add: data_bits_def)

lemma data_bits_Cons: "data_bits (w # data) = byte_bits w @ data_bits data"
  by (simp add: data_bits_def)

lemma data_bits_nth:
  "i < length data * 8 \<Longrightarrow> data_bits data ! i = bit (data ! (i div 8)) (7 - i mod 8)"
proof (induction data arbitrary: i)
  case (Cons w data)
  show ?case
  proof (cases "i < 8")
    case True
    then show ?thesis by (simp add: data_bits_Cons nth_append byte_bits_def rev_nth)
  next
    case False
    then obtain j where "i = 8 + j" by (metis le_add_diff_inverse not_less)
    moreover have "(8 + j) div 8 = Suc (j div 8)" "(8 + j) mod 8 = j mod 8" by simp_all
    ultimately show ?thesis using Cons by (simp add: data_bits_Cons nth_append)
  qed
qed (simp add: data_bits_def)

lemma one_bit: "ucast (drop_bit k (w :: u8) AND 1) = (of_bool (bit w k) :: u32)"
  by (simp add: and_one_eq bit_iff_odd_drop_bit mod_2_eq_odd)

lemma read_loop_bits:
  "pos + n \<le> length data * 8 \<Longrightarrow> read_loop data pos n v = foldl next_bit v (take n (drop pos (data_bits data)))"
proof (induction n arbitrary: pos v)
  case (Suc n)
  then have "drop pos (data_bits data) = data_bits data ! pos # drop (Suc pos) (data_bits data)"
    by (simp add: Cons_nth_drop_Suc)
  then show ?case using Suc data_bits_nth [of pos data] by (simp add: one_bit next_bit_def)
qed simp



lemma yields_bind:
  assumes "yields m xs v" "yields (f v) ys u"
  shows "yields (State_Monad.bind m f) (xs @ ys) u"
  unfolding yields_def
proof (intro allI impI)
  fix b rest
  assume b: "rb_ok b \<and> rb_bits b = (xs @ ys) @ rest"
  then obtain b1 where b1: "run_state m b = (v, b1)" "rb_ok b1" "rb_bits b1 = ys @ rest"
    using assms(1) by (auto simp: yields_def)
  with assms(2) show "\<exists>b'. run_state (State_Monad.bind m f) b = (u, b') \<and> rb_ok b' \<and> rb_bits b' = rest"
    by (auto simp: yields_def State_Monad.bind_def)
qed

lemma yields_read:
  assumes "length xs = n" "n \<le> 32"
  shows "yields (rb_read n) xs (bits_val xs)"
  unfolding yields_def
proof (intro allI impI)
  fix b rest
  assume b: "rb_ok b \<and> rb_bits b = xs @ rest"
  then have len: "length (drop (rb_pos b) (data_bits (rb_data b))) = n + length rest" using assms(1) by (simp add: rb_bits_def)
  then have fits: "rb_pos b + n \<le> length (rb_data b) * 8" using b unfolding rb_ok_def length_drop data_bits_length by linarith
  have "take n (drop (rb_pos b) (data_bits (rb_data b))) = xs" "drop n (drop (rb_pos b) (data_bits (rb_data b))) = rest"
    using b assms(1) by (simp_all add: rb_bits_def)
  then show "\<exists>b'. run_state (rb_read n) b = (bits_val xs, b') \<and> rb_ok b' \<and> rb_bits b' = rest"
    using b fits assms(2) by (simp add: rb_read_def rb_ok_def rb_bits_def read_loop_bits bits_val_def add.commute)
qed

text \<open>Exp-Golomb codes.\<close>

fun nat_bits :: "nat \<Rightarrow> nat \<Rightarrow> bool list" where
  "nat_bits 0 n = []"
| "nat_bits (Suc k) n = bit n k # nat_bits k n"

fun log_floor :: "nat \<Rightarrow> nat" where
  "log_floor n = (if n < 2 then 0 else Suc (log_floor (n div 2)))"

declare log_floor.simps [simp del]

definition golomb :: "nat \<Rightarrow> bool list" where
  "golomb n = (let k = log_floor (Suc n) in replicate k False @ True # nat_bits k (Suc n))"

lemma log_floor_bounds: "0 < n \<Longrightarrow> 2 ^ log_floor n \<le> n \<and> n < 2 ^ Suc (log_floor n)"
proof (induction n rule: log_floor.induct)
  case (1 n)
  show ?case
  proof (cases "n < 2")
    case False
    with 1 have "2 ^ log_floor (n div 2) \<le> n div 2 \<and> n div 2 < 2 ^ Suc (log_floor (n div 2))" by simp
    with False show ?thesis by (subst (1 2) log_floor.simps) auto
  qed (use 1 in \<open>simp add: log_floor.simps\<close>)
qed

lemma next_bit_arith: "next_bit v x = 2 * v + of_bool x"
  by (cases x) (simp_all add: next_bit_def push_bit_eq_mult or_one_eq mult.commute)

lemma next_bits_arith:
  "foldl next_bit v (nat_bits k n) = v * 2 ^ k + of_nat (n mod 2 ^ k)"
proof (induction k arbitrary: v)
  case (Suc k)
  have "n mod 2 ^ Suc k = of_bool (bit n k) * 2 ^ k + n mod 2 ^ k"
    using mod_mult2_eq [of n "2 ^ k" 2] by (simp add: bit_iff_odd mod2_eq_if mult.commute)
  then show ?case using Suc [of "next_bit v (bit n k)"] by (simp add: next_bit_arith algebra_simps)
qed simp

lemma nat_bits_length [simp]: "length (nat_bits k n) = k"
  by (induction k) simp_all

lemma bits_val_nat_bits: "n < 2 ^ k \<Longrightarrow> bits_val (nat_bits k n) = of_nat n"
  by (simp add: bits_val_def next_bits_arith)

lemma yields_number: "k \<le> 32 \<Longrightarrow> n < 2 ^ k \<Longrightarrow> yields (rb_read k) (nat_bits k n) (of_nat n)"
  using yields_read [of "nat_bits k n" k] by (simp add: bits_val_nat_bits)

lemma yields_flag: "yields (rb_read 1) [x] (of_bool x)"
  using yields_read [of "[x]" 1] by (simp add: bits_val_def next_bit_arith)

lemma ue_zeros_found:
  "rb_ok b \<Longrightarrow> rb_bits b = replicate k False @ True # rest \<Longrightarrow> zeros + k \<le> 30 \<Longrightarrow>
     \<exists>b'. ue_zeros zeros b = (Some (zeros + k), b') \<and> rb_ok b' \<and> rb_bits b' = rest"
proof (induction k arbitrary: zeros b)
  case 0
  obtain b1 where "run_state (rb_read 1) b = (1, b1)" "rb_ok b1" "rb_bits b1 = rest"
    using yields_flag [of True] 0 by (auto simp: yields_def)
  then show ?case using 0 by (subst ue_zeros.simps) (simp add: rb_ok_def)
next
  case (Suc k)
  obtain b1 where b1: "run_state (rb_read 1) b = (0, b1)" "rb_ok b1" "rb_bits b1 = replicate k False @ True # rest"
    using yields_flag [of False] Suc.prems by (auto simp: yields_def)
  with Suc.IH [of b1 "Suc zeros"] Suc.prems show ?case by (subst ue_zeros.simps) (auto simp: rb_ok_def)
qed

lemma yields_ue:
  assumes "Suc n < 2 ^ 31"
  shows "yields rb_ue (golomb n) (of_nat n)"
proof -
  let ?k = "log_floor (Suc n)"
  have k: "2 ^ ?k \<le> Suc n" "Suc n < 2 ^ Suc ?k" using log_floor_bounds [of "Suc n"] by simp_all
  then have "(2 :: nat) ^ ?k < 2 ^ 31" using assms by simp
  then have "?k < 31" by (rule power_less_imp_less_exp [rotated]) simp
  then have k30: "?k \<le> 30" by simp
  have val: "push_bit ?k 1 - 1 + bits_val (nat_bits ?k (Suc n)) = (of_nat n :: u32)"
  proof -
    have "Suc n mod 2 ^ ?k = Suc n - 2 ^ ?k" using k by (simp add: mod_if)
    moreover have "(of_nat (Suc n - 2 ^ ?k) :: u32) = of_nat (Suc n) - 2 ^ ?k" using k(1) by (simp add: of_nat_diff)
    ultimately show ?thesis by (simp add: bits_val_def next_bits_arith push_bit_eq_mult)
  qed
  show ?thesis
    unfolding yields_def golomb_def Let_def
  proof (intro allI impI)
    fix b rest
    assume b: "rb_ok b \<and> rb_bits b = (replicate ?k False @ True # nat_bits ?k (Suc n)) @ rest"
    then obtain b1 where b1: "ue_zeros 0 b = (Some ?k, b1)" "rb_ok b1" "rb_bits b1 = nat_bits ?k (Suc n) @ rest"
      using ue_zeros_found [of b ?k _ 0] k30 by auto
    then obtain b2 where "run_state (rb_read ?k) b1 = (bits_val (nat_bits ?k (Suc n)), b2)" "rb_ok b2" "rb_bits b2 = rest"
      using yields_read [of "nat_bits ?k (Suc n)" ?k] k30 by (auto simp: yields_def)
    then show "\<exists>b'. run_state rb_ue b = (of_nat n, b') \<and> rb_ok b' \<and> rb_bits b' = rest"
      using b1 val by (simp add: rb_ue_def)
  qed
qed

section \<open>Round trips\<close>








lemma yields_skip: "yields m xs v \<Longrightarrow> yields k ys u \<Longrightarrow> yields (State_Monad.bind m (\<lambda>_. k)) (xs @ ys) u"
  by (rule yields_bind)



lemma yields_ue_then:
  "Suc n < 2 ^ 31 \<Longrightarrow> yields (f (of_nat n)) ys u \<Longrightarrow> yields (State_Monad.bind rb_ue f) (golomb n @ ys) u"
  by (rule yields_bind [OF yields_ue])

lemma yields_number_then:
  "k \<le> 32 \<Longrightarrow> n < 2 ^ k \<Longrightarrow> yields (f (of_nat n)) ys u \<Longrightarrow>
     yields (State_Monad.bind (rb_read k) f) (nat_bits k n @ ys) u"
  by (rule yields_bind [OF yields_number])

lemma yields_flag_then:
  "yields (f (of_bool x)) ys u \<Longrightarrow> yields (State_Monad.bind (rb_read 1) f) (x # ys) u"
  using yields_bind [OF yields_flag] by fastforce


lemmas yields_then = yields_ue_then yields_number_then yields_flag_then







section \<open>What a parsed parameter set satisfies\<close>

definition sps_ok :: "video_limits \<Rightarrow> video_errors + int \<times> int \<times> u32 \<times> stream_color \<Rightarrow> bool" where
  "sps_ok l r \<longleftrightarrow>
     (case r of Inl e \<Rightarrow> True
      | Inr (w, h, sid, col) \<Rightarrow>
          0 < w \<and> w \<le> vl_width l \<and> w \<le> defaultMaxWidth \<and> 0 < h \<and> h \<le> vl_height l \<and> h \<le> defaultMaxHeight \<and>
          w * h \<le> vl_pixels l \<and> w * h \<le> defaultMaxPixels \<and> sid \<le> 31 \<and> sc_matrix col \<in> {0, 1, 2, 5, 6, 9})"

lemma pred_return: "P x \<Longrightarrow> pred_state P (State_Monad.return x)"
  by (rule pred_stateI) simp

lemma pred_bad_if: "(\<not> c \<Longrightarrow> pred_state (sps_ok l) k) \<Longrightarrow> pred_state (sps_ok l) (bad_if c k)"
  by (auto simp: bad_if_def sps_ok_def intro!: pred_return)

lemma pred_then: "(\<And>x. pred_state P (f x)) \<Longrightarrow> pred_state P (State_Monad.bind m f)"
  by (rule bind_predI, rule pred_stateI) blast

lemma pred_profile: "pred_state (sps_ok l) k \<Longrightarrow> pred_state (sps_ok l) (parse_profile p k)"
  unfolding parse_profile_def
  by (auto intro!: pred_then pred_bad_if pred_return simp: sps_ok_def)

lemma pred_order_count: "pred_state (sps_ok l) k \<Longrightarrow> pred_state (sps_ok l) (parse_order_count k)"
  unfolding parse_order_count_def
  by (auto intro!: pred_then pred_bad_if pred_return simp: sps_ok_def)

lemma within_limits:
  assumes "\<not> exceeds l w h cw ch" "validate_video_limits l = None" "0 < w" "0 < h"
  shows "w \<le> vl_width l \<and> w \<le> defaultMaxWidth \<and> h \<le> vl_height l \<and> h \<le> defaultMaxHeight \<and> w * h \<le> vl_pixels l \<and>
    w * h \<le> defaultMaxPixels"
proof -
  have l: "0 < vl_width l" "0 < vl_height l" "0 < vl_pixels l"
    using assms(2) by (auto simp: validate_video_limits_def split: if_splits)
  have u: "min a b mod 2 ^ 64 = min a b" if "0 < a" "0 < b" "b < 2 ^ 64" for a b :: int using that by simp
  have w: "w \<le> min (vl_width l) defaultMaxWidth" "h \<le> min (vl_height l) defaultMaxHeight"
    using assms(1) l by (auto simp: exceeds_def u defaultMaxWidth_def defaultMaxHeight_def)
  then have "w * h \<le> defaultMaxWidth * defaultMaxHeight" using assms(3,4) by (intro mult_mono) auto
  then have "w * h < 2 ^ 64" by (simp add: defaultMaxWidth_def defaultMaxHeight_def)
  moreover have "w * h mod 2 ^ 64 \<le> min (vl_pixels l) defaultMaxPixels mod 2 ^ 64" using assms(1) by (simp add: exceeds_def)
  ultimately have "w * h \<le> min (vl_pixels l) defaultMaxPixels"
    using l(3) assms(3,4) by (simp add: u defaultMaxPixels_def)
  with w show ?thesis by simp
qed

lemma pred_parse_sps:
  assumes "validate_video_limits l = None"
  shows "pred_state (sps_ok l) (parse_sps l wanted)"
proof -
  have color: "pred_state (sps_ok l) (finish_color wanted w h sid)"
    if "\<not> exceeds l w h cw ch" "0 < w" "0 < h" "\<not> sid > 31" for w h cw ch sid
    using within_limits [OF that(1) assms that(2,3)] that
    by (auto simp: finish_color_def sps_ok_def no_color_def not_less intro!: pred_then pred_bad_if pred_return)
  show ?thesis
    unfolding parse_sps_def
    by (intro pred_then pred_bad_if pred_profile pred_order_count)
      (auto simp: Let_def sps_ok_def split: prod.splits intro!: pred_bad_if pred_return color)
qed

lemma accepted_sps_bounds:
  assumes "parseSPSBoundsColor nalu l wanted = Inr (w, h, sid, col)" and "validate_video_limits l = None"
  shows "0 < w \<and> w \<le> vl_width l \<and> w \<le> defaultMaxWidth \<and> 0 < h \<and> h \<le> vl_height l \<and> h \<le> defaultMaxHeight \<and>
    w * h \<le> vl_pixels l \<and> w * h \<le> defaultMaxPixels \<and> sid \<le> 31 \<and> sc_matrix col \<in> {0, 1, 2, 5, 6, 9}"
  using pred_state_run_state [OF pred_parse_sps [OF assms(2)], of wanted "newRBSP (tl nalu)"] assms(1)
  by (simp add: parseSPSBoundsColor_def sps_ok_def)

section \<open>Properties\<close>


definition ex_limits :: video_limits where
  "ex_limits = with_defaults \<lparr>vl_packet_bytes = 0, vl_unit_bytes = 0, vl_unit_packets = 0, vl_width = 0,
     vl_height = 0, vl_pixels = 0, vl_freshness = 0, vl_pli_interval = 0\<rparr>"


definition ex_sps_bytes :: bytes where
  "ex_sps_bytes = [66, 192, 40, 218, 1, 224, 8, 159, 149]"



text \<open>
  C36: whatever bytes arrive, a parameter set that is accepted announces a picture of at least one pixel
  within the configured and the built-in limits, so what the decoder allocates is bounded.
\<close>

theorem accepted_sps_is_bounded:
  assumes "parseSPSBoundsColor nalu l wanted = Inr (w, h, sid, col)" and "validate_video_limits l = None"
  shows "0 < w \<and> w \<le> vl_width l \<and> w \<le> defaultMaxWidth \<and> 0 < h \<and> h \<le> vl_height l \<and> h \<le> defaultMaxHeight \<and>
    w * h \<le> vl_pixels l \<and> w * h \<le> defaultMaxPixels \<and> sid \<le> 31 \<and> sc_matrix col \<in> {0, 1, 2, 5, 6, 9}"
  using assms by (rule accepted_sps_bounds)

theorem accepted_sps_is_bounded_witness: "sc_matrix (snd (snd (snd (projr (parseSPSBoundsColor (103 # ex_sps_bytes) ex_limits True))))) \<in> {0, 1, 2, 5, 6, 9}"
proof -
  have "\<not> isl (parseSPSBoundsColor (103 # ex_sps_bytes) ex_limits True)" by code_simp
  then obtain w h sid col where "parseSPSBoundsColor (103 # ex_sps_bytes) ex_limits True = Inr (w, h, sid, col)"
    by (cases "parseSPSBoundsColor (103 # ex_sps_bytes) ex_limits True") auto
  moreover have "validate_video_limits ex_limits = None" by code_simp
  ultimately show ?thesis using accepted_sps_is_bounded by fastforce
qed

end
