(* ===== verification/Decoder.thy ===== *)
theory Decoder
  imports Sps "HOL-Library.Multiset"
begin

text \<open>
  The embedded H.264 decoder: the admission of access units (\<open>internal/video/stream_validate.go\<close>),
  the driver of the WebAssembly codec (\<open>embedded_decoder.go\<close>) and the decoded picture
  (\<open>stream_image.go\<close>). The codec is outside: every call of it is answered by \<open>env\<close>.
\<close>

section \<open>State\<close>

datatype pipeline_error =
    PipeVideo video_error | ErrVideoUnavailable | ErrPipelineClosed | ErrFrameStale | PipeOutside nat

type_synonym pipeline_errors = "pipeline_error list"

text \<open>
  The fields of \<open>embeddedDecoder\<close>; \<open>ed_runtime\<close> stands for the runtime with its compiled module,
  \<open>ed_tick\<close> counts the answers taken from outside.
\<close>

record decoder =
  ed_drained :: bool
  ed_closed :: bool
  ed_runtime :: bool
  ed_module :: bool
  ed_serial :: u64
  ed_sources :: "(u64 \<times> access_unit) list"
  ed_width :: int
  ed_height :: int
  ed_color :: stream_color
  ed_tick :: nat

definition new_decoder :: decoder where
  "new_decoder =
     \<lparr>ed_drained = False, ed_closed = False, ed_runtime = False, ed_module = False, ed_serial = 0, ed_sources = [],
      ed_width = 0, ed_height = 0, ed_color = no_color, ed_tick = 0\<rparr>"

definition dropModule :: "decoder \<Rightarrow> decoder" where
  "dropModule d =
     d\<lparr>ed_module := False, ed_drained := False, ed_sources := [], ed_width := 0, ed_height := 0, ed_color := no_color\<rparr>"

definition closeRuntime :: "decoder \<Rightarrow> decoder" where
  "closeRuntime d = (dropModule d)\<lparr>ed_runtime := False\<rparr>"

section \<open>Admission\<close>

text \<open>\<open>bytes.Index(data, []byte{0, 0, 1})\<close> and \<open>bytes.TrimRight(data, "\x00")\<close>.\<close>

fun index_start :: "bytes \<Rightarrow> nat option" where
  "index_start [] = None"
| "index_start (x # xs) = (if take 3 (x # xs) = [0, 0, 1] then Some 0 else map_option Suc (index_start xs))"

definition trim_right :: "bytes \<Rightarrow> bytes" where
  "trim_right xs = rev (dropWhile (\<lambda>v. v = 0) (rev xs))"

text \<open>The variables of the loop of \<open>validate\<close>.\<close>

record scan =
  sn_width :: int
  sn_height :: int
  sn_color :: stream_color
  sn_sps :: bool
  sn_pps :: bool
  sn_vcl :: bool
  sn_idr :: bool
  sn_count :: int

definition slice_header :: "(rbsp, u32 \<times> u32 \<times> u32 \<times> bool) state" where
  "slice_header = do {
     first \<leftarrow> rb_ue;
     kind \<leftarrow> rb_ue;
     pid \<leftarrow> rb_ue;
     failed \<leftarrow> reader_failed;
     State_Monad.return (first, kind, pid, failed)
   }"

definition check_slice :: "decoder \<Rightarrow> bytes \<Rightarrow> scan \<Rightarrow> video_errors + scan" where
  "check_slice d n s =
     (let bad = Inl [ErrDecodeFailed]; isIDR = (nal_type (n ! 0) = 5)
      in if sn_vcl s \<and> isIDR \<noteq> sn_idr s then bad
         else if isIDR \<and> (\<not> sn_sps s \<or> \<not> sn_pps s) then bad
         else
           (case fst (run_state slice_header (newRBSP (take 127 (tl n)))) of
              (first, kind, pid, failed) \<Rightarrow>
                if failed \<or> kind > 9 \<or> pid > 255 \<or> (\<not> sn_vcl s \<and> first \<noteq> 0) \<or> (sn_vcl s \<and> first = 0) then bad
                else if isIDR \<and> kind mod 5 \<noteq> 2 then bad
                else if \<not> isIDR \<and> (ed_width d = 0 \<or> sn_sps s \<or> sn_pps s) then bad
                else Inr (s\<lparr>sn_vcl := True, sn_idr := isIDR\<rparr>)))"

definition check_unit :: "video_limits \<Rightarrow> decoder \<Rightarrow> bytes \<Rightarrow> scan \<Rightarrow> video_errors + scan" where
  "check_unit l d n s0 =
     (let bad = Inl [ErrDecodeFailed]; s = s0\<lparr>sn_count := sn_count s0 + 1\<rparr>
      in if length n < 2 \<or> (n ! 0) AND 0x80 \<noteq> 0 \<or> sn_count s > min (vl_unit_packets l) defaultMaxPackets then bad
         else
           let t = nal_type (n ! 0)
           in if t = 7 then
                (if sn_sps s \<or> sn_pps s \<or> sn_vcl s \<or> length n > 4096 then bad
                 else
                   (case parseSPSBoundsColor n l True of
                      Inl e \<Rightarrow> Inl e
                    | Inr (w, h, _, col) \<Rightarrow>
                        Inr (s\<lparr>sn_width := w, sn_height := h, sn_color := col, sn_sps := True\<rparr>)))
              else if t = 8 then
                (if \<not> sn_sps s \<or> sn_pps s \<or> sn_vcl s \<or> length n > 4096 then bad else Inr (s\<lparr>sn_pps := True\<rparr>))
              else if t = 1 \<or> t = 5 then check_slice d n s
              else if t = 6 \<or> t = 9 \<or> t = 12 then Inr s
              else bad)"

lemma index_start_length: "index_start xs = Some i \<Longrightarrow> i + 3 \<le> length xs"
proof (induction xs arbitrary: i)
  case (Cons x xs)
  show ?case
  proof (cases "take 3 (x # xs) = [0, 0, 1]")
    case True
    then have "length (take 3 (x # xs)) = 3" by simp
    then show ?thesis using Cons.prems True by simp
  qed (use Cons in \<open>auto split: if_splits\<close>)
qed simp

function scan_units :: "video_limits \<Rightarrow> decoder \<Rightarrow> bytes \<Rightarrow> scan \<Rightarrow> video_errors + scan" where
  "scan_units l d data s =
     (if data = [] then Inr s
      else
        (case index_start data of
           None \<Rightarrow> Inl [ErrDecodeFailed]
         | Some i \<Rightarrow>
             if list_ex (\<lambda>v. v \<noteq> 0) (take i data) then Inl [ErrDecodeFailed]
             else
               let rest = drop (i + 3) data;
                   stop = (case index_start rest of None \<Rightarrow> length rest | Some j \<Rightarrow> j)
               in (case check_unit l d (trim_right (take stop rest)) s of
                     Inl e \<Rightarrow> Inl e
                   | Inr s1 \<Rightarrow> scan_units l d (drop stop rest) s1)))"
  by pat_completeness auto
termination
  by (relation "measure (\<lambda>(l, d, data, s). length data)") (auto dest!: index_start_length split: option.splits)

declare scan_units.simps [simp del]

record decode_request =
  dq_unit :: access_unit
  dq_end :: bool
  dq_limits :: video_limits

definition validate_request :: "decode_request \<Rightarrow> decoder \<Rightarrow> video_errors option \<times> decoder" where
  "validate_request rq d =
     (let l = with_defaults (dq_limits rq); data = au_annexb (dq_unit rq)
      in case validate_video_limits l of
           Some e \<Rightarrow> (Some e, d)
         | None \<Rightarrow>
             if data = [] \<and> dq_end rq \<and> ed_module d then (None, d)
             else if int (length data) > min (vl_unit_bytes l) defaultMaxAU then (Some [ErrAccessUnitTooLarge], d)
             else
               (case scan_units l d data
                       \<lparr>sn_width = ed_width d, sn_height = ed_height d, sn_color = ed_color d, sn_sps = False,
                        sn_pps = False, sn_vcl = False, sn_idr = False, sn_count = 0\<rparr> of
                  Inl e \<Rightarrow> (Some e, d)
                | Inr s \<Rightarrow>
                    if \<not> sn_vcl s \<or> sn_idr s \<noteq> au_keyframe (dq_unit rq) \<or> sn_width s = 0 \<or> sn_height s = 0
                    then (Some [ErrDecodeFailed], d)
                    else if sn_width s > vl_width l \<or> sn_height s > vl_height l \<or>
                            i64 (sn_width s * sn_height s) > vl_pixels l
                    then (Some [ErrDimensionsExceeded], d)
                    else
                      let d1 = (if ed_width d \<noteq> 0 \<and>
                                   (sn_width s \<noteq> ed_width d \<or> sn_height s \<noteq> ed_height d \<or> sn_color s \<noteq> ed_color d)
                                then dropModule d else d)
                      in (None, d1\<lparr>ed_width := sn_width s, ed_height := sn_height s, ed_color := sn_color s\<rparr>)))"

section \<open>What admission accepts\<close>

text \<open>The units of an Annex B byte stream, as the loop splits it.\<close>

function annexb_units :: "bytes \<Rightarrow> bytes list option" where
  "annexb_units data =
     (if data = [] then Some []
      else
        (case index_start data of
           None \<Rightarrow> None
         | Some i \<Rightarrow>
             if list_ex (\<lambda>v. v \<noteq> 0) (take i data) then None
             else
               let rest = drop (i + 3) data;
                   stop = (case index_start rest of None \<Rightarrow> length rest | Some j \<Rightarrow> j)
               in map_option ((#) (trim_right (take stop rest))) (annexb_units (drop stop rest))))"
  by pat_completeness auto
termination
  by (relation "measure length") (auto dest!: index_start_length split: option.splits)

declare annexb_units.simps [simp del]

fun check_units :: "video_limits \<Rightarrow> decoder \<Rightarrow> bytes list \<Rightarrow> scan \<Rightarrow> video_errors + scan" where
  "check_units l d [] s = Inr s"
| "check_units l d (n # ns) s = (case check_unit l d n s of Inl e \<Rightarrow> Inl e | Inr s1 \<Rightarrow> check_units l d ns s1)"

lemma scan_units_split:
  "scan_units l d data s = Inr s' \<longleftrightarrow> (\<exists>ns. annexb_units data = Some ns \<and> check_units l d ns s = Inr s')"
proof (induction l d data s rule: scan_units.induct)
  case (1 l d data s)
  show ?case
  proof (cases "data = []")
    case True
    then show ?thesis by (simp add: scan_units.simps annexb_units.simps)
  next
    case ne: False
    show ?thesis
    proof (cases "index_start data")
      case None
      then show ?thesis using ne by (simp add: scan_units.simps [of l d data] annexb_units.simps [of data])
    next
      case (Some i)
      show ?thesis
      proof (cases "list_ex (\<lambda>v. v \<noteq> 0) (take i data)")
        case True
        then show ?thesis using ne Some by (simp add: scan_units.simps [of l d data] annexb_units.simps [of data])
      next
        case False
        let ?rest = "drop (i + 3) data"
        let ?stop = "case index_start ?rest of None \<Rightarrow> length ?rest | Some j \<Rightarrow> j"
        let ?n = "trim_right (take ?stop ?rest)"
        show ?thesis
        proof (cases "check_unit l d ?n s")
          case (Inl e)
          then show ?thesis using ne Some False
            by (auto simp: scan_units.simps [of l d data] annexb_units.simps [of data] Let_def)
        next
          case (Inr s1)
          show ?thesis using 1 [OF ne Some False refl refl Inr] ne Some False Inr
            by (auto simp: scan_units.simps [of l d data] annexb_units.simps [of data] Let_def)
        qed
      qed
    qed
  qed
qed

definition coded_types :: "bytes list \<Rightarrow> u8 list" where
  "coded_types ns = filter (\<lambda>t. t \<notin> {6, 9, 12}) (map (\<lambda>n. nal_type (n ! 0)) ns)"

text \<open>How far a unit has been read, and the coded types seen so far.\<close>

inductive shape :: "decoder \<Rightarrow> scan \<Rightarrow> u8 list \<Rightarrow> bool" for d where
  nothing: "\<not> sn_sps s \<Longrightarrow> \<not> sn_pps s \<Longrightarrow> \<not> sn_vcl s \<Longrightarrow> shape d s []"
| sps: "sn_sps s \<Longrightarrow> \<not> sn_pps s \<Longrightarrow> \<not> sn_vcl s \<Longrightarrow> shape d s [7]"
| pps: "sn_sps s \<Longrightarrow> sn_pps s \<Longrightarrow> \<not> sn_vcl s \<Longrightarrow> shape d s [7, 8]"
| idr: "sn_sps s \<Longrightarrow> sn_pps s \<Longrightarrow> sn_vcl s \<Longrightarrow> sn_idr s \<Longrightarrow> shape d s (7 # 8 # replicate (Suc k) 5)"
| inter: "\<not> sn_sps s \<Longrightarrow> \<not> sn_pps s \<Longrightarrow> sn_vcl s \<Longrightarrow> \<not> sn_idr s \<Longrightarrow> ed_width d \<noteq> 0 \<Longrightarrow>
    shape d s (replicate (Suc k) 1)"

text \<open>The geometry is the decoder's until a parameter set announces another within the limits.\<close>

definition scan_ok :: "video_limits \<Rightarrow> decoder \<Rightarrow> scan \<Rightarrow> bool" where
  "scan_ok l d s \<longleftrightarrow>
     (if sn_sps s
      then 0 < sn_width s \<and> sn_width s \<le> vl_width l \<and> sn_width s \<le> defaultMaxWidth \<and>
           0 < sn_height s \<and> sn_height s \<le> vl_height l \<and> sn_height s \<le> defaultMaxHeight
      else sn_width s = ed_width d \<and> sn_height s = ed_height d \<and> sn_color s = ed_color d)"

lemma check_slice_result:
  assumes "check_slice d n s = Inr s1"
  shows "s1 = s\<lparr>sn_vcl := True, sn_idr := (nal_type (n ! 0) = 5)\<rparr>"
    "sn_vcl s \<Longrightarrow> sn_idr s \<longleftrightarrow> nal_type (n ! 0) = 5"
    "nal_type (n ! 0) = 5 \<Longrightarrow> sn_sps s \<and> sn_pps s"
    "nal_type (n ! 0) \<noteq> 5 \<Longrightarrow> ed_width d \<noteq> 0 \<and> \<not> sn_sps s \<and> \<not> sn_pps s"
  using assms by (auto simp: check_slice_def Let_def split: prod.splits if_splits)

lemma check_unit_cases:
  assumes "check_unit l d n s = Inr s1"
  obtains
    (sps) w h sid col where "nal_type (n ! 0) = 7" "\<not> sn_sps s" "\<not> sn_pps s" "\<not> sn_vcl s"
      "parseSPSBoundsColor n l True = Inr (w, h, sid, col)"
      "s1 = s\<lparr>sn_count := sn_count s + 1, sn_width := w, sn_height := h, sn_color := col, sn_sps := True\<rparr>"
  | (pps) "nal_type (n ! 0) = 8" "sn_sps s" "\<not> sn_pps s" "\<not> sn_vcl s"
      "s1 = s\<lparr>sn_count := sn_count s + 1, sn_pps := True\<rparr>"
  | (slice) "nal_type (n ! 0) \<in> {1, 5}" "check_slice d n (s\<lparr>sn_count := sn_count s + 1\<rparr>) = Inr s1"
  | (other) "nal_type (n ! 0) \<in> {6, 9, 12}" "s1 = s\<lparr>sn_count := sn_count s + 1\<rparr>"
  using assms by (auto simp: check_unit_def Let_def split: if_splits sum.splits prod.splits)

lemma check_unit_count:
  assumes "check_unit l d n s = Inr s1"
  shows "sn_count s1 = sn_count s + 1 \<and> sn_count s1 \<le> min (vl_unit_packets l) defaultMaxPackets"
proof -
  have "sn_count s + 1 \<le> min (vl_unit_packets l) defaultMaxPackets"
    using assms by (auto simp: check_unit_def Let_def split: if_splits)
  with assms show ?thesis by (cases rule: check_unit_cases) (auto dest: check_slice_result(1))
qed

lemma check_unit_shape:
  assumes "check_unit l d n s = Inr s1" "shape d s ts"
  shows "shape d s1 (ts @ coded_types [n])"
  using assms(1)
proof (cases rule: check_unit_cases)
  case (sps w h sid col)
  then have "ts = []" using assms(2) by (auto elim: shape.cases)
  then show ?thesis using sps by (auto simp: coded_types_def intro: shape.sps)
next
  case pps
  then have "ts = [7]" using assms(2) by (auto elim: shape.cases)
  then show ?thesis using pps by (auto simp: coded_types_def intro: shape.pps)
next
  case slice
  note r = check_slice_result [OF slice(2)]
  show ?thesis
  proof (cases "nal_type (n ! 0) = 5")
    case True
    with r assms(2) have "ts = [7, 8] \<or> (\<exists>k. ts = 7 # 8 # replicate (Suc k) 5)" by (auto elim!: shape.cases)
    then obtain k where "ts = 7 # 8 # replicate k 5" by (metis replicate_0)
    moreover have "shape d s1 (7 # 8 # replicate (Suc k) 5)" using r(1,3) True by (intro shape.idr) auto
    ultimately show ?thesis using True by (simp add: coded_types_def replicate_append_same)
  next
    case False
    with slice(1) have one: "nal_type (n ! 0) = 1" by simp
    from False r assms(2) have "ts = [] \<or> (\<exists>k. ts = replicate (Suc k) 1)" by (auto elim!: shape.cases)
    then obtain k where "ts = replicate k 1" by (metis replicate_0)
    moreover have "shape d s1 (replicate (Suc k) 1)" using r(1,4) False by (intro shape.inter) auto
    ultimately show ?thesis using one by (simp add: coded_types_def replicate_append_same)
  qed
next
  case other
  then show ?thesis using assms(2) by (auto simp: coded_types_def elim!: shape.cases intro: shape.intros)
qed

lemma check_unit_ok:
  assumes "check_unit l d n s = Inr s1" "scan_ok l d s" "validate_video_limits l = None"
  shows "scan_ok l d s1"
  using assms(1)
proof (cases rule: check_unit_cases)
  case (sps w h sid col)
  with accepted_sps_bounds [OF sps(5) assms(3)] show ?thesis by (simp add: scan_ok_def)
qed (use assms(2) in \<open>auto simp: scan_ok_def dest: check_slice_result(1)\<close>)

lemma check_units_result:
  assumes "check_units l d ns s = Inr s'" "shape d s ts" "scan_ok l d s" "validate_video_limits l = None"
    "sn_count s \<le> min (vl_unit_packets l) defaultMaxPackets"
  shows "shape d s' (ts @ coded_types ns) \<and> scan_ok l d s' \<and> sn_count s' = sn_count s + int (length ns) \<and>
    sn_count s' \<le> min (vl_unit_packets l) defaultMaxPackets"
  using assms
proof (induction ns arbitrary: s ts)
  case Nil
  then show ?case by (simp add: coded_types_def)
next
  case (Cons n ns)
  then obtain s1 where s1: "check_unit l d n s = Inr s1" "check_units l d ns s1 = Inr s'" by (auto split: sum.splits)
  have split: "coded_types (n # ns) = coded_types [n] @ coded_types ns" by (simp add: coded_types_def)
  show ?case
    using Cons.IH [OF s1(2) check_unit_shape [OF s1(1) Cons.prems(2)] check_unit_ok [OF s1(1) Cons.prems(3,4)] Cons.prems(4)]
      check_unit_count [OF s1(1)] split by simp
qed

section \<open>The codec\<close>

text \<open>
  An answer from outside: whether the context is done, whether the call succeeded, what it returned, the
  nine words of the output header and the bytes of a plane.
\<close>

record dec_answer =
  da_cancelled :: "pipeline_errors option"
  da_ok :: bool
  da_closed :: bool
  da_value :: u64
  da_header :: "nat \<Rightarrow> u32"
  da_plane :: bytes

type_synonym dec_env = "nat \<Rightarrow> dec_answer"

record picture =
  pc_width :: int
  pc_height :: int
  pc_planes :: "bytes list"
  pc_color :: stream_color

record decoded =
  de_image :: "picture option"
  de_source :: "access_unit option"
  de_pending :: bool

definition still_pending :: decoded where
  "still_pending = \<lparr>de_image = None, de_source = None, de_pending = True\<rparr>"

definition ask_codec :: "dec_env \<Rightarrow> decoder \<Rightarrow> dec_answer \<times> decoder" where
  "ask_codec env d = (env (ed_tick d), d\<lparr>ed_tick := Suc (ed_tick d)\<rparr>)"

type_synonym 'a codec = "(pipeline_errors + 'a) \<times> decoder"

definition and_next :: "'a codec \<Rightarrow> ('a \<Rightarrow> decoder \<Rightarrow> 'b codec) \<Rightarrow> 'b codec" where
  "and_next r k = (case r of (Inl e, d) \<Rightarrow> (Inl e, d) | (Inr x, d) \<Rightarrow> k x d)"

text \<open>\<open>if err := ctx.Err(); err != nil { return }\<close>.\<close>

definition check_context :: "dec_env \<Rightarrow> decoder \<Rightarrow> unit codec" where
  "check_context env d =
     (let (a, d1) = ask_codec env d in (case da_cancelled a of Some e \<Rightarrow> (Inl e, d1) | None \<Rightarrow> (Inr (), d1)))"

text \<open>The closure \<open>fail\<close>: the instance is dropped, the context's error wins.\<close>

definition fail_codec :: "dec_env \<Rightarrow> pipeline_errors \<Rightarrow> decoder \<Rightarrow> 'a codec" where
  "fail_codec env cause d =
     (let (a, d1) = ask_codec env (dropModule d)
      in (Inl (case da_cancelled a of Some e \<Rightarrow> e | None \<Rightarrow> PipeVideo ErrDecodeFailed # cause), d1))"

definition codec_call :: "dec_env \<Rightarrow> decoder \<Rightarrow> dec_answer codec" where
  "codec_call env d = (let (a, d1) = ask_codec env d in if da_ok a then (Inr a, d1) else fail_codec env [PipeOutside 0] d1)"

definition open_runtime :: "dec_env \<Rightarrow> decoder \<Rightarrow> unit codec" where
  "open_runtime env d =
     (if ed_runtime d then (Inr (), d)
      else
        (let (wasi, d1) = ask_codec env d
         in if \<not> da_ok wasi then (Inl [PipeVideo ErrDecodeFailed], closeRuntime d1)
            else
              (let (compiled, d2) = ask_codec env d1
               in if \<not> da_ok compiled
                  then (Inl (case da_cancelled compiled of Some e \<Rightarrow> e | None \<Rightarrow> [PipeVideo ErrDecodeFailed]),
                        closeRuntime d2)
                  else (Inr (), d2\<lparr>ed_runtime := True\<rparr>))))"

definition open_module :: "dec_env \<Rightarrow> decoder \<Rightarrow> unit codec" where
  "open_module env d =
     (let (state, d1) = ask_codec env d
      in if ed_module d1 \<and> \<not> da_closed state then (Inr (), d1)
         else
           (let (a, d2) = ask_codec env d1
            in if da_ok a then (Inr (), d2\<lparr>ed_module := True\<rparr>)
               else (Inl (case da_cancelled a of Some e \<Rightarrow> e | None \<Rightarrow> [PipeVideo ErrDecodeFailed]), dropModule d2)))"

definition bounded_dimensions :: "int \<Rightarrow> int \<Rightarrow> video_limits \<Rightarrow> video_errors option" where
  "bounded_dimensions w h l =
     (if w \<le> 0 \<or> h \<le> 0 \<or> w > vl_width l \<or> h > vl_height l \<or> w > vl_pixels l sdiv h
      then Some [ErrDimensionsExceeded] else None)"

definition copy_plane :: "bytes \<Rightarrow> nat \<Rightarrow> nat \<Rightarrow> nat \<Rightarrow> bytes" where
  "copy_plane plane stride pw ph = concat (map (\<lambda>y. take pw (drop (y * stride) plane)) [0..<ph])"

text \<open>
  The loop over the three planes. \<open>Memory.Read\<close> gives exactly the bytes asked for, or fails.
\<close>

fun read_planes :: "dec_env \<Rightarrow> (nat \<Rightarrow> u32) \<Rightarrow> int \<Rightarrow> int \<Rightarrow> nat list \<Rightarrow> decoder \<Rightarrow> bytes list codec" where
  "read_planes env word w h [] d = (Inr [], d)"
| "read_planes env word w h (i # is) d =
     (let pw = (if i > 0 then (w + 1) div 2 else w);
          ph = (if i > 0 then (h + 1) div 2 else h);
          stride = uint (if i > 0 then word 3 else word 2)
      in if stride < pw \<or> stride > 16384 then fail_codec env [PipeOutside 1] d
         else
           (let (a, d1) = ask_codec env d
            in if \<not> da_ok a \<or> int (length (da_plane a)) \<noteq> ((ph - 1) * stride + pw) mod 2 ^ 32
               then fail_codec env [PipeOutside 2] d1
               else and_next (read_planes env word w h is d1)
                      (\<lambda>planes d2. (Inr (copy_plane (da_plane a) (nat stride) (nat pw) (nat ph) # planes), d2))))"

declare read_planes.simps [simp del]

text \<open>What follows the read of the header: its checks, the source and the planes.\<close>

definition emit_frame :: "dec_env \<Rightarrow> video_limits \<Rightarrow> dec_answer \<Rightarrow> decoder \<Rightarrow> decoded codec" where
  "emit_frame env limits a d =
     (let word = da_header a; w = uint (word 0); h = uint (word 1)
      in if w = 0 then (Inr still_pending, d)
         else
           (case bounded_dimensions w h (with_defaults limits) of
              Some e \<Rightarrow> fail_codec env (map PipeVideo e) d
            | None \<Rightarrow>
                if w \<noteq> ed_width d \<or> h \<noteq> ed_height d then fail_codec env [PipeOutside 3] d
                else
                  let token = ucast (word 7) OR push_bit 32 (ucast (word 8))
                  in (case map_of (ed_sources d) token of
                        None \<Rightarrow> fail_codec env [PipeOutside 4] d
                      | Some src \<Rightarrow>
                          and_next
                            (read_planes env word w h [0, 1, 2]
                               (d\<lparr>ed_sources := filter (\<lambda>(k, _). k \<noteq> token) (ed_sources d)\<rparr>))
                            (\<lambda>planes d2.
                               (Inr \<lparr>de_image = Some \<lparr>pc_width = w, pc_height = h, pc_planes = planes, pc_color = ed_color d\<rparr>,
                                     de_source = Some src, de_pending = False\<rparr>, d2)))))"

definition read_output :: "dec_env \<Rightarrow> video_limits \<Rightarrow> decoder \<Rightarrow> decoded codec" where
  "read_output env limits d = and_next (codec_call env d) (emit_frame env limits)"

text \<open>The unit is handed to the codec: its source is registered under the next serial number.\<close>

definition register_source :: "decode_request \<Rightarrow> decoder \<Rightarrow> decoder" where
  "register_source rq d =
     (let serial = ed_serial d + 1;
          d1 = d\<lparr>ed_serial := serial\<rparr>
      in if au_annexb (dq_unit rq) = [] then d1
         else d1\<lparr>ed_sources := (serial, (dq_unit rq)\<lparr>au_annexb := []\<rparr>) #
                    filter (\<lambda>(k, _). k \<noteq> serial) (ed_sources d1)\<rparr>)"

definition run_codec :: "dec_env \<Rightarrow> decode_request \<Rightarrow> decoder \<Rightarrow> decoded codec" where
  "run_codec env rq d =
     and_next (codec_call env d) (\<lambda>_ d1. and_next (codec_call env d1) (\<lambda>_ d2.
       let d3 = register_source rq d2
       in if length (ed_sources d3) > 32 then fail_codec env [PipeOutside 5] d3
          else
            and_next (codec_call env (if dq_end rq then d3\<lparr>ed_drained := True\<rparr> else d3)) (\<lambda>status d4.
              if (ucast (da_value status) :: u32) \<noteq> 0 then fail_codec env [PipeOutside 6] d4
              else and_next (codec_call env d4) (\<lambda>_ d5. read_output env (dq_limits rq) d5))))"

definition decode :: "dec_env \<Rightarrow> decode_request \<Rightarrow> decoder \<Rightarrow> decoded codec" where
  "decode env rq d0 =
     and_next (check_context env d0) (\<lambda>_ d1.
       if ed_closed d1 then (Inl [ErrPipelineClosed], d1)
       else
         and_next (check_context env d1) (\<lambda>_ d2.
           let d3 = (if ed_drained d2 \<and> au_annexb (dq_unit rq) \<noteq> [] then dropModule d2 else d2)
           in (case validate_request rq d3 of
                 (Some e, d4) \<Rightarrow> (Inl (map PipeVideo e), d4)
               | (None, d4) \<Rightarrow>
                   and_next (open_runtime env d4) (\<lambda>_ d5.
                     and_next (check_context env d5) (\<lambda>_ d6.
                       and_next (open_module env d6) (\<lambda>_ d7. run_codec env rq d7))))))"

definition decoder_reset :: "decoder \<Rightarrow> decoder" where
  "decoder_reset d = dropModule d"

definition decoder_close :: "decoder \<Rightarrow> decoder" where
  "decoder_close d = closeRuntime (d\<lparr>ed_closed := True\<rparr>)"

section \<open>The picture\<close>





section \<open>Reasoning about the driver\<close>

text \<open>
  From \<open>P\<close>, \<open>f\<close> ends in \<open>Q\<close> with its result, or in \<open>E\<close> with an error.
\<close>

definition triple ::
    "(decoder \<Rightarrow> bool) \<Rightarrow> (decoder \<Rightarrow> 'a codec) \<Rightarrow> ('a \<Rightarrow> decoder \<Rightarrow> bool) \<Rightarrow> (decoder \<Rightarrow> bool) \<Rightarrow> bool" where
  "triple P f Q E \<longleftrightarrow> (\<forall>d. P d \<longrightarrow> (case f d of (Inl e, d') \<Rightarrow> E d' | (Inr x, d') \<Rightarrow> Q x d'))"

lemma triple_next:
  assumes "triple P f R E" "\<And>x. triple (R x) (k x) Q E"
  shows "triple P (\<lambda>d. and_next (f d) k) Q E"
  unfolding triple_def
proof (intro allI impI)
  fix d
  assume "P d"
  with assms(1) have f: "case f d of (Inl e, d') \<Rightarrow> E d' | (Inr x, d') \<Rightarrow> R x d'" by (simp add: triple_def)
  show "case and_next (f d) k of (Inl e, d') \<Rightarrow> E d' | (Inr x, d') \<Rightarrow> Q x d'"
  proof (cases "f d")
    case (Pair r d1)
    then show ?thesis using f assms(2) by (cases r) (auto simp: and_next_def triple_def)
  qed
qed

lemma triple_weaken: "triple P f Q E \<Longrightarrow> (\<And>d. P' d \<Longrightarrow> P d) \<Longrightarrow> triple P' f Q E"
  by (simp add: triple_def)

lemma triple_case:
  "triple P f Q E \<Longrightarrow> P d \<Longrightarrow> f d = (r, d') \<Longrightarrow> (case (r, d') of (Inl e, d') \<Rightarrow> E d' | (Inr x, d') \<Rightarrow> Q x d')"
  unfolding triple_def by metis

lemma triple_error:
  assumes "triple P f Q E" "\<And>d. E d \<Longrightarrow> E' d"
  shows "triple P f Q E'"
  unfolding triple_def
proof (intro allI impI)
  fix d
  assume "P d"
  then show "case f d of (Inl e, d') \<Rightarrow> E' d' | (Inr x, d') \<Rightarrow> Q x d'"
    using assms(1) assms(2) by (cases "f d"; cases "fst (f d)") (auto simp: triple_def)
qed


lemma tripleE: "triple P f Q E \<Longrightarrow> P d \<Longrightarrow> f d = (Inl e, d') \<Longrightarrow> E d'"
  by (force simp: triple_def)

lemma triple_if: "(c \<Longrightarrow> triple P f Q E) \<Longrightarrow> (\<not> c \<Longrightarrow> triple P g Q E) \<Longrightarrow> triple P (\<lambda>d. if c then f d else g d) Q E"
  by (simp add: triple_def)

text \<open>
  The state between two steps: the registered sources are among \<open>S\<close>, each under its own number and at
  most \<open>n\<close> of them, and the geometry is within the built-in limits.
\<close>

definition geometry_ok :: "decoder \<Rightarrow> bool" where
  "geometry_ok d \<longleftrightarrow> 0 \<le> ed_width d \<and> ed_width d \<le> defaultMaxWidth \<and> 0 \<le> ed_height d \<and> ed_height d \<le> defaultMaxHeight"

definition sources_in :: "nat \<Rightarrow> access_unit multiset \<Rightarrow> decoder \<Rightarrow> bool" where
  "sources_in n S d \<longleftrightarrow>
     distinct (map fst (ed_sources d)) \<and> length (ed_sources d) \<le> n \<and> mset (map snd (ed_sources d)) \<subseteq># S \<and> geometry_ok d"

lemma sources_in_frame [simp]:
  "sources_in n S (d\<lparr>ed_tick := t\<rparr>) = sources_in n S d" "sources_in n S (d\<lparr>ed_runtime := b\<rparr>) = sources_in n S d"
  "sources_in n S (d\<lparr>ed_module := b\<rparr>) = sources_in n S d" "sources_in n S (d\<lparr>ed_drained := b\<rparr>) = sources_in n S d"
  "sources_in n S (d\<lparr>ed_closed := b\<rparr>) = sources_in n S d" "sources_in n S (d\<lparr>ed_serial := k\<rparr>) = sources_in n S d"
  by (simp_all add: sources_in_def geometry_ok_def)

lemma sources_in_more: "sources_in n S d \<Longrightarrow> sources_in n (add_mset u S) d"
  unfolding sources_in_def
  by (metis add_mset_add_single mset_subset_eq_add_left subset_mset.order_trans)

lemma dropModule_in [simp]: "sources_in n S (dropModule d)" "sources_in n S (closeRuntime d)"
  by (simp_all add: sources_in_def dropModule_def closeRuntime_def geometry_ok_def defaultMaxWidth_def defaultMaxHeight_def)

lemma ask_codec_in [simp]: "sources_in n S (snd (ask_codec env d)) = sources_in n S d"
  by (simp add: ask_codec_def)

lemma fail_codec_in: "triple P (fail_codec env cause) Q (sources_in n S)"
  by (simp add: triple_def fail_codec_def case_prod_unfold Let_def)

lemma check_context_in: "triple (sources_in n S) (check_context env) (\<lambda>_. sources_in n S) (sources_in n S)"
  by (auto simp: triple_def check_context_def case_prod_unfold Let_def split: option.splits)

lemma codec_call_in: "triple (sources_in n S) (codec_call env) (\<lambda>_. sources_in n S) (sources_in m T)"
  by (auto simp: triple_def codec_call_def fail_codec_def case_prod_unfold Let_def)

lemma open_runtime_in: "triple (sources_in n S) (open_runtime env) (\<lambda>_. sources_in n S) (sources_in n S)"
  by (auto simp: triple_def open_runtime_def case_prod_unfold Let_def)

lemma open_module_in: "triple (sources_in n S) (open_module env) (\<lambda>_. sources_in n S) (sources_in n S)"
  by (auto simp: triple_def open_module_def case_prod_unfold Let_def)

lemma triple_pure: "(\<And>d. P d \<Longrightarrow> Q x d) \<Longrightarrow> triple P (\<lambda>d. (Inr x, d)) Q E"
  by (simp add: triple_def)

lemma copy_plane_length:
  assumes "length plane = (ph - 1) * stride + pw" "pw \<le> stride"
  shows "length (copy_plane plane stride pw ph) = ph * pw"
proof -
  have "length (take pw (drop (y * stride) plane)) = pw" if "y < ph" for y
  proof -
    have "y * stride \<le> (ph - 1) * stride" using that by (intro mult_right_mono) auto
    then have "pw \<le> length plane - y * stride" using assms(1) by linarith
    then show ?thesis by (simp only: length_take length_drop min.absorb2)
  qed
  then have "map (length \<circ> (\<lambda>y. take pw (drop (y * stride) plane))) [0..<ph] = map (\<lambda>_. pw) [0..<ph]" by simp
  then have "sum_list (map (length \<circ> (\<lambda>y. take pw (drop (y * stride) plane))) [0..<ph]) = ph * pw"
    by (simp add: map_replicate_const sum_list_replicate)
  then show ?thesis by (simp add: copy_plane_def length_concat)
qed

definition plane_sizes :: "int \<Rightarrow> int \<Rightarrow> nat list \<Rightarrow> nat list" where
  "plane_sizes w h is =
     map (\<lambda>i. if i > 0 then nat ((h + 1) div 2) * nat ((w + 1) div 2) else nat h * nat w) is"

lemma read_planes_in:
  assumes "0 < w" "w \<le> defaultMaxWidth" "0 < h" "h \<le> defaultMaxHeight"
  shows "triple (sources_in n S) (read_planes env word w h is)
    (\<lambda>planes d. sources_in n S d \<and> map length planes = plane_sizes w h is) (sources_in n S)"
proof (induction "is")
  case Nil
  show ?case by (simp add: triple_def plane_sizes_def read_planes.simps)
next
  case (Cons i "is")
  define pw where "pw = (if i > 0 then (w + 1) div 2 else w)"
  define ph where "ph = (if i > 0 then (h + 1) div 2 else h)"
  define stride where "stride = uint (if i > 0 then word 3 else word 2)"
  have "0 \<le> stride" by (simp add: stride_def)
  have ph: "0 < ph" "ph \<le> 2160" and pw: "0 < pw" "pw \<le> 4096"
    using assms by (auto simp: ph_def pw_def defaultMaxWidth_def defaultMaxHeight_def)
  have sizes: "plane_sizes w h (i # is) = nat ph * nat pw # plane_sizes w h is"
    by (simp add: plane_sizes_def ph_def pw_def)
  show ?case
    unfolding triple_def
  proof (intro allI impI)
    fix d
    assume d: "sources_in n S d"
    obtain a d1 where a: "ask_codec env d = (a, d1)" by fastforce
    then have d1: "sources_in n S d1" using d ask_codec_in [of n S env d] by simp
    let ?good = "\<lambda>r. case r of (Inl e, d') \<Rightarrow> sources_in n S d'
        | (Inr x, d') \<Rightarrow> sources_in n S d' \<and> map length x = plane_sizes w h (i # is)"
    have bad: "?good (fail_codec env cause b)" for cause b
      by (simp add: fail_codec_def case_prod_unfold Let_def)
    have step: "read_planes env word w h (i # is) d =
        (if stride < pw \<or> stride > 16384 then fail_codec env [PipeOutside 1] d
         else if \<not> da_ok a \<or> int (length (da_plane a)) \<noteq> ((ph - 1) * stride + pw) mod 2 ^ 32
         then fail_codec env [PipeOutside 2] d1
         else and_next (read_planes env word w h is d1)
                (\<lambda>planes d2. (Inr (copy_plane (da_plane a) (nat stride) (nat pw) (nat ph) # planes), d2)))"
      by (simp only: read_planes.simps Let_def a prod.case pw_def ph_def stride_def)
    show "?good (read_planes env word w h (i # is) d)"
    proof (cases "stride < pw \<or> stride > 16384 \<or> \<not> da_ok a \<or>
        int (length (da_plane a)) \<noteq> ((ph - 1) * stride + pw) mod 2 ^ 32")
      case True
      then have "read_planes env word w h (i # is) d \<in> {fail_codec env [PipeOutside 1] d, fail_codec env [PipeOutside 2] d1}"
        unfolding step using True by auto
      then show ?thesis using bad by (elim insertE emptyE) (simp_all only:)
    next
      case False
      have "(ph - 1) * stride \<le> 2160 * 16384" using ph False \<open>0 \<le> stride\<close> by (intro mult_mono) auto
      moreover have nonneg: "0 \<le> (ph - 1) * stride" using ph \<open>0 \<le> stride\<close> by simp
      ultimately have len: "int (length (da_plane a)) = (ph - 1) * stride + pw" using False pw by simp
      have "int ((nat ph - 1) * nat stride + nat pw) = (ph - 1) * stride + pw" using ph pw \<open>0 \<le> stride\<close> by (simp add: of_nat_diff)
      then have "length (da_plane a) = (nat ph - 1) * nat stride + nat pw" using len by linarith
      then have "length (copy_plane (da_plane a) (nat stride) (nat pw) (nat ph)) = nat ph * nat pw"
        using False by (intro copy_plane_length) auto
      moreover have "case read_planes env word w h is d1 of (Inl e, d') \<Rightarrow> sources_in n S d'
          | (Inr x, d') \<Rightarrow> sources_in n S d' \<and> map length x = plane_sizes w h is"
        using Cons.IH d1 by (simp add: triple_def)
      ultimately show ?thesis
        unfolding step using False by (auto simp: and_next_def sizes split: prod.splits sum.splits)
    qed
  qed
qed

text \<open>A picture is complete when its planes have the sizes its dimensions ask for.\<close>

definition picture_ok :: "picture \<Rightarrow> bool" where
  "picture_ok p \<longleftrightarrow> 0 < pc_width p \<and> pc_width p \<le> defaultMaxWidth \<and> 0 < pc_height p \<and> pc_height p \<le> defaultMaxHeight \<and>
     map length (pc_planes p) = plane_sizes (pc_width p) (pc_height p) [0, 1, 2]"

text \<open>What a decoded frame takes from the registered sources.\<close>

definition took :: "decoded \<Rightarrow> access_unit multiset" where
  "took r = (case de_source r of None \<Rightarrow> {#} | Some u \<Rightarrow> {#u#})"

definition outcome_ok :: "nat \<Rightarrow> access_unit multiset \<Rightarrow> decoded \<Rightarrow> decoder \<Rightarrow> bool" where
  "outcome_ok n S r d \<longleftrightarrow>
     took r \<subseteq># S \<and> sources_in n (S - took r) d \<and> (de_image r = None \<longleftrightarrow> de_source r = None) \<and>
     (case de_image r of None \<Rightarrow> True | Some p \<Rightarrow> picture_ok p)"

lemma mset_filter_key:
  assumes "distinct (map fst xs)" "map_of xs k = Some v"
  shows "mset (map snd xs) = add_mset v (mset (map snd (filter (\<lambda>(k', _). k' \<noteq> k) xs)))"
  using assms
proof (induction xs)
  case (Cons x xs)
  show ?case
  proof (cases "fst x = k")
    case True
    then have "filter (\<lambda>(k', _). k' \<noteq> k) xs = xs"
      using Cons.prems(1) by (intro filter_True) (auto simp: rev_image_eqI)
    then show ?thesis using True Cons.prems by (cases x) simp
  next
    case False
    then show ?thesis using Cons by (cases x) auto
  qed
qed simp

lemma take_source:
  assumes "sources_in n S d" "map_of (ed_sources d) k = Some u"
  shows "u \<in># S \<and> sources_in n (S - {#u#}) (d\<lparr>ed_sources := filter (\<lambda>(k', _). k' \<noteq> k) (ed_sources d)\<rparr>)"
proof -
  let ?rest = "filter (\<lambda>(k', _). k' \<noteq> k) (ed_sources d)"
  have m: "mset (map snd (ed_sources d)) = add_mset u (mset (map snd ?rest))"
    using assms by (intro mset_filter_key) (auto simp: sources_in_def)
  have "add_mset u (mset (map snd ?rest)) \<subseteq># S" using assms(1) unfolding sources_in_def m by simp
  then have "u \<in># S" "mset (map snd ?rest) \<subseteq># S - {#u#}"
    by (auto simp: insert_subset_eq_iff)
  moreover have "distinct (map fst ?rest)" using assms(1) by (auto simp: sources_in_def distinct_map intro: inj_on_subset)
  moreover have "length ?rest \<le> n" using assms(1) length_filter_le [of "\<lambda>(k', _). k' \<noteq> k" "ed_sources d"]
    unfolding sources_in_def by (meson le_trans)
  ultimately show ?thesis using assms(1) by (auto simp: sources_in_def geometry_ok_def)
qed

lemma emit_frame_in: "triple (sources_in n S) (emit_frame env l a) (outcome_ok n S) (sources_in n S)"
  unfolding triple_def
proof (intro allI impI)
  fix d
  assume d: "sources_in n S d"
  let ?w = "uint (da_header a 0)" and ?h = "uint (da_header a 1)"
  let ?token = "ucast (da_header a 7) OR push_bit 32 (ucast (da_header a 8))"
  let ?good = "\<lambda>r. case r of (Inl e, d') \<Rightarrow> sources_in n S d' | (Inr x, d') \<Rightarrow> outcome_ok n S x d'"
  have bad: "?good (fail_codec env cause d)" for cause by (simp add: fail_codec_def case_prod_unfold Let_def)
  consider (waiting) "?w = 0"
    | (refused) "?w \<noteq> 0" "bounded_dimensions ?w ?h (with_defaults l) \<noteq> None \<or> ?w \<noteq> ed_width d \<or> ?h \<noteq> ed_height d \<or>
        map_of (ed_sources d) ?token = None"
    | (frame) src where "?w \<noteq> 0" "bounded_dimensions ?w ?h (with_defaults l) = None" "?w = ed_width d" "?h = ed_height d"
        "map_of (ed_sources d) ?token = Some src"
    by blast
  then show "?good (emit_frame env l a d)"
  proof cases
    case waiting
    then show ?thesis using d by (simp add: emit_frame_def outcome_ok_def took_def still_pending_def)
  next
    case refused
    then show ?thesis using bad by (auto simp: emit_frame_def Let_def split: option.splits)
  next
    case (frame src)
    let ?d = "d\<lparr>ed_sources := filter (\<lambda>(k, _). k \<noteq> ?token) (ed_sources d)\<rparr>"
    have dims: "0 < ?w" "?w \<le> defaultMaxWidth" "0 < ?h" "?h \<le> defaultMaxHeight"
      using frame d by (auto simp: bounded_dimensions_def sources_in_def geometry_ok_def split: if_splits)
    note src = take_source [OF d frame(5)]
    obtain r d' where r: "read_planes env (da_header a) ?w ?h [0, 1, 2] ?d = (r, d')" by fastforce
    have eq: "emit_frame env l a d =
        and_next (read_planes env (da_header a) ?w ?h [0, 1, 2] ?d)
          (\<lambda>planes d2. (Inr \<lparr>de_image = Some \<lparr>pc_width = ?w, pc_height = ?h, pc_planes = planes, pc_color = ed_color d\<rparr>,
              de_source = Some src, de_pending = False\<rparr>, d2))"
      unfolding emit_frame_def Let_def using frame by simp
    have after: "case (r, d') of (Inl e, d') \<Rightarrow> sources_in n (S - {#src#}) d'
        | (Inr x, d') \<Rightarrow> sources_in n (S - {#src#}) d' \<and> map length x = plane_sizes ?w ?h [0, 1, 2]"
      by (rule triple_case [OF read_planes_in [OF dims] src [THEN conjunct2] r])
    have less: "sources_in n (S - {#src#}) b \<Longrightarrow> sources_in n S b" for b
      by (meson sources_in_def diff_subset_eq_self subset_mset.order_trans)
    show ?thesis
    proof (cases r)
      case (Inl e)
      then show ?thesis using after less unfolding eq r by (simp add: and_next_def)
    next
      case (Inr planes)
      then show ?thesis using after src dims unfolding eq r
        by (simp add: and_next_def outcome_ok_def took_def picture_ok_def)
    qed
  qed
qed

lemma read_output_in: "triple (sources_in n S) (read_output env l) (outcome_ok n S) (sources_in n S)"
  unfolding read_output_def by (rule triple_next [OF codec_call_in emit_frame_in])

lemma register_source_in:
  assumes "sources_in n S d"
  shows "sources_in (Suc n) (add_mset ((dq_unit rq)\<lparr>au_annexb := []\<rparr>) S) (register_source rq d)"
proof -
  have more: "mset (map snd (ed_sources d)) \<subseteq># add_mset u S" for u
    using assms by (metis sources_in_def mset_subset_eq_add_mset_cancel subset_mset.order_trans add_mset_add_single mset_subset_eq_add_left)
  show ?thesis
  proof (cases "au_annexb (dq_unit rq) = []")
    case True
    then show ?thesis using assms more by (simp add: register_source_def sources_in_def geometry_ok_def)
  next
    case False
    let ?kept = "filter (\<lambda>(k, _). k \<noteq> ed_serial d + 1) (ed_sources d)"
    have "length ?kept \<le> n" using assms length_filter_le unfolding sources_in_def by (meson le_trans)
    moreover have "distinct (map fst ?kept)" "ed_serial d + 1 \<notin> set (map fst ?kept)"
      using assms by (auto simp: sources_in_def distinct_map intro: inj_on_subset)
    moreover have "mset (map snd ?kept) \<subseteq># S"
      using assms image_mset_subseteq_mono [OF multiset_filter_subset]
      by (metis (no_types, lifting) sources_in_def mset_filter mset_map subset_mset.order_trans)
    ultimately show ?thesis using False assms
      by (simp add: register_source_def sources_in_def geometry_ok_def Let_def)
  qed
qed

lemma run_codec_in:
  "triple (sources_in 32 S) (run_codec env rq) (outcome_ok 32 (add_mset ((dq_unit rq)\<lparr>au_annexb := []\<rparr>) S))
     (sources_in 32 (add_mset ((dq_unit rq)\<lparr>au_annexb := []\<rparr>) S))"
    (is "triple _ _ (outcome_ok 32 ?T) _")
proof -
  have drained: "triple (sources_in 32 ?T) (\<lambda>d. codec_call env (if dq_end rq then d\<lparr>ed_drained := True\<rparr> else d))
      (\<lambda>_. sources_in 32 ?T) (sources_in 32 ?T)"
    using codec_call_in [of 32 ?T env 32 ?T] by (auto simp: triple_def)
  have codec: "triple (sources_in 32 ?T)
     (\<lambda>d. and_next (codec_call env (if dq_end rq then d\<lparr>ed_drained := True\<rparr> else d)) (\<lambda>status d4.
        if (ucast (da_value status) :: u32) \<noteq> 0 then fail_codec env [PipeOutside 6] d4
        else and_next (codec_call env d4) (\<lambda>_ d5. read_output env (dq_limits rq) d5)))
     (outcome_ok 32 ?T) (sources_in 32 ?T)"
    by (intro triple_next [OF drained] triple_if fail_codec_in triple_next [OF codec_call_in read_output_in])
  have registered: "triple (sources_in 32 S)
     (\<lambda>d2. let d3 = register_source rq d2
       in if length (ed_sources d3) > 32 then fail_codec env [PipeOutside 5] d3
          else and_next (codec_call env (if dq_end rq then d3\<lparr>ed_drained := True\<rparr> else d3)) (\<lambda>status d4.
              if (ucast (da_value status) :: u32) \<noteq> 0 then fail_codec env [PipeOutside 6] d4
              else and_next (codec_call env d4) (\<lambda>_ d5. read_output env (dq_limits rq) d5)))
     (outcome_ok 32 ?T) (sources_in 32 ?T)"
    unfolding triple_def Let_def
  proof (intro allI impI)
    fix d
    assume "sources_in 32 S d"
    then have r: "sources_in 33 ?T (register_source rq d)" using register_source_in by fastforce
    show "case (if length (ed_sources (register_source rq d)) > 32 then fail_codec env [PipeOutside 5] (register_source rq d)
        else and_next (codec_call env (if dq_end rq then (register_source rq d)\<lparr>ed_drained := True\<rparr> else register_source rq d))
          (\<lambda>status d4. if (ucast (da_value status) :: u32) \<noteq> 0 then fail_codec env [PipeOutside 6] d4
             else and_next (codec_call env d4) (\<lambda>_ d5. read_output env (dq_limits rq) d5))) of
      (Inl e, d') \<Rightarrow> sources_in 32 ?T d' | (Inr x, d') \<Rightarrow> outcome_ok 32 ?T x d'"
    proof (cases "length (ed_sources (register_source rq d)) > 32")
      case True
      then show ?thesis by (simp add: fail_codec_def case_prod_unfold Let_def)
    next
      case False
      then have "sources_in 32 ?T (register_source rq d)" using r by (simp add: sources_in_def)
      then show ?thesis using codec False by (simp add: triple_def)
    qed
  qed
  show ?thesis
    unfolding run_codec_def by (intro triple_next [OF codec_call_in] registered)
qed

lemma validate_in:
  assumes "sources_in n S d" "validate_request rq d = (e, d')"
  shows "sources_in n S d'"
proof (cases "d' = d")
  case False
  let ?l = "with_defaults (dq_limits rq)"
  let ?s0 = "\<lparr>sn_width = ed_width d, sn_height = ed_height d, sn_color = ed_color d, sn_sps = False,
      sn_pps = False, sn_vcl = False, sn_idr = False, sn_count = 0\<rparr>"
  obtain s where l: "validate_video_limits ?l = None" and s: "scan_units ?l d (au_annexb (dq_unit rq)) ?s0 = Inr s"
      "d' = (if ed_width d \<noteq> 0 \<and> (sn_width s \<noteq> ed_width d \<or> sn_height s \<noteq> ed_height d \<or> sn_color s \<noteq> ed_color d)
         then dropModule d else d)\<lparr>ed_width := sn_width s, ed_height := sn_height s, ed_color := sn_color s\<rparr>"
    using assms(2) False by (auto simp: validate_request_def Let_def split: option.splits sum.splits if_splits)
  then obtain ns where ns: "check_units ?l d ns ?s0 = Inr s" by (auto simp: scan_units_split)
  have "0 \<le> min (vl_unit_packets ?l) defaultMaxPackets"
    using l by (auto simp: validate_video_limits_def defaultMaxPackets_def split: if_splits)
  then have "scan_ok ?l d s"
    using check_units_result [OF ns shape.nothing _ l] by (simp add: scan_ok_def)
  then have "0 \<le> sn_width s" "sn_width s \<le> defaultMaxWidth" "0 \<le> sn_height s" "sn_height s \<le> defaultMaxHeight"
    using assms(1) by (auto simp: scan_ok_def sources_in_def geometry_ok_def split: if_splits)
  then show ?thesis using assms(1) s(2) by (auto simp: sources_in_def geometry_ok_def dropModule_def)
qed (use assms in simp)

lemma decode_in:
  "triple (sources_in 32 S) (decode env rq) (outcome_ok 32 (add_mset ((dq_unit rq)\<lparr>au_annexb := []\<rparr>) S))
     (sources_in 32 (add_mset ((dq_unit rq)\<lparr>au_annexb := []\<rparr>) S))"
    (is "triple ?P _ ?Q ?E")
proof -
  note mono = triple_error [OF _ sources_in_more]
  have opened: "triple ?P (\<lambda>d4. and_next (open_runtime env d4) (\<lambda>_ d5. and_next (check_context env d5) (\<lambda>_ d6.
      and_next (open_module env d6) (\<lambda>_ d7. run_codec env rq d7)))) ?Q ?E"
    by (intro triple_next [OF mono [OF open_runtime_in]] triple_next [OF mono [OF check_context_in]]
        triple_next [OF mono [OF open_module_in]] run_codec_in)
  have admitted: "triple ?P (\<lambda>d2. let d3 = (if ed_drained d2 \<and> au_annexb (dq_unit rq) \<noteq> [] then dropModule d2 else d2)
      in (case validate_request rq d3 of
            (Some e, d4) \<Rightarrow> (Inl (map PipeVideo e), d4)
          | (None, d4) \<Rightarrow> and_next (open_runtime env d4) (\<lambda>_ d5. and_next (check_context env d5) (\<lambda>_ d6.
                and_next (open_module env d6) (\<lambda>_ d7. run_codec env rq d7))))) ?Q ?E"
    unfolding triple_def Let_def
  proof (intro allI impI)
    fix d
    assume d: "?P d"
    let ?d = "if ed_drained d \<and> au_annexb (dq_unit rq) \<noteq> [] then dropModule d else d"
    obtain e d4 where v: "validate_request rq ?d = (e, d4)" by fastforce
    have "?P d4" using validate_in [OF _ v, of 32 S] d by simp
    moreover have "?P d4 \<Longrightarrow> ?E d4" by (rule sources_in_more)
    ultimately show "case (case validate_request rq ?d of
            (Some e, d4) \<Rightarrow> (Inl (map PipeVideo e), d4)
          | (None, d4) \<Rightarrow> and_next (open_runtime env d4) (\<lambda>_ d5. and_next (check_context env d5) (\<lambda>_ d6.
                and_next (open_module env d6) (\<lambda>_ d7. run_codec env rq d7)))) of
        (Inl e, d') \<Rightarrow> ?E d' | (Inr x, d') \<Rightarrow> ?Q x d'"
      using opened by (cases e) (simp_all add: v triple_def)
  qed
  have closed: "triple ?P (\<lambda>d1. if ed_closed d1 then (Inl [ErrPipelineClosed], d1)
      else and_next (check_context env d1) (\<lambda>_ d2.
        let d3 = (if ed_drained d2 \<and> au_annexb (dq_unit rq) \<noteq> [] then dropModule d2 else d2)
        in (case validate_request rq d3 of
              (Some e, d4) \<Rightarrow> (Inl (map PipeVideo e), d4)
            | (None, d4) \<Rightarrow> and_next (open_runtime env d4) (\<lambda>_ d5. and_next (check_context env d5) (\<lambda>_ d6.
                  and_next (open_module env d6) (\<lambda>_ d7. run_codec env rq d7)))))) ?Q ?E"
  proof -
    have "?P d \<Longrightarrow> ?E d" for d by (rule sources_in_more)
    then show ?thesis
      using triple_next [OF mono [OF check_context_in] admitted] by (simp add: triple_def)
  qed
  show ?thesis
    unfolding decode_def by (rule triple_next [OF mono [OF check_context_in] closed])
qed

text \<open>A sequence of calls on one decoder, with the units of the frames it gave out.\<close>

datatype decoder_op = OpDecode decode_request | OpResetDecoder | OpCloseDecoder

definition decoder_step :: "dec_env \<Rightarrow> decoder_op \<Rightarrow> decoder \<Rightarrow> access_unit multiset \<times> decoder" where
  "decoder_step env p d =
     (case p of
        OpDecode rq \<Rightarrow> (case decode env rq d of (Inl _, d') \<Rightarrow> ({#}, d') | (Inr r, d') \<Rightarrow> (took r, d'))
      | OpResetDecoder \<Rightarrow> ({#}, decoder_reset d)
      | OpCloseDecoder \<Rightarrow> ({#}, decoder_close d))"

fun decoder_run :: "dec_env \<Rightarrow> decoder_op list \<Rightarrow> decoder \<Rightarrow> access_unit multiset \<times> decoder" where
  "decoder_run env [] d = ({#}, d)"
| "decoder_run env (p # ps) d =
     (let (out, d1) = decoder_step env p d; (outs, d2) = decoder_run env ps d1 in (out + outs, d2))"

fun submitted :: "decoder_op list \<Rightarrow> access_unit multiset" where
  "submitted [] = {#}"
| "submitted (OpDecode rq # ps) = add_mset ((dq_unit rq)\<lparr>au_annexb := []\<rparr>) (submitted ps)"
| "submitted (_ # ps) = submitted ps"

lemma decoder_step_in:
  assumes "sources_in 32 S d" "decoder_step env p d = (out, d')"
  shows "\<exists>T. out + T \<subseteq># S + submitted [p] \<and> sources_in 32 T d'"
proof (cases p)
  case (OpDecode rq)
  let ?u = "(dq_unit rq)\<lparr>au_annexb := []\<rparr>"
  obtain r d1 where r: "decode env rq d = (r, d1)" by fastforce
  note c = triple_case [OF decode_in assms(1) r]
  show ?thesis
  proof (cases r)
    case (Inl e)
    then show ?thesis using c assms(2) OpDecode r
      by (intro exI [of _ "add_mset ?u S"]) (auto simp: decoder_step_def)
  next
    case (Inr x)
    then show ?thesis using c assms(2) OpDecode r
      by (intro exI [of _ "add_mset ?u S - took x"])
        (auto simp: decoder_step_def outcome_ok_def subset_mset.add_diff_inverse)
  qed
qed (use assms(2) in \<open>auto simp: decoder_step_def decoder_reset_def decoder_close_def intro!: exI [of _ S]\<close>)

lemma submitted_Cons: "submitted (p # ps) = submitted [p] + submitted ps"
  by (cases p) simp_all

lemma decoder_run_in:
  assumes "sources_in 32 S d" "decoder_run env ps d = (out, d')"
  shows "\<exists>T. out + T \<subseteq># S + submitted ps \<and> sources_in 32 T d'"
  using assms
proof (induction ps arbitrary: S d out)
  case (Cons p ps)
  obtain o1 d1 where s: "decoder_step env p d = (o1, d1)" by fastforce
  obtain o2 where rest: "decoder_run env ps d1 = (o2, d')" "out = o1 + o2" using Cons.prems(2) s by (auto split: prod.splits)
  obtain T1 where T1: "o1 + T1 \<subseteq># S + submitted [p]" "sources_in 32 T1 d1" using decoder_step_in [OF Cons.prems(1) s] by blast
  obtain T where T: "o2 + T \<subseteq># T1 + submitted ps" "sources_in 32 T d'" using Cons.IH [OF T1(2) rest(1)] by blast
  have "out + T = o1 + (o2 + T)" by (simp add: rest(2) add.assoc)
  also have "\<dots> \<subseteq># o1 + (T1 + submitted ps)" using T(1) by (rule subset_mset.add_left_mono)
  also have "\<dots> = (o1 + T1) + submitted ps" by (simp add: add.assoc)
  also have "\<dots> \<subseteq># (S + submitted [p]) + submitted ps" using T1(1) by (rule subset_mset.add_right_mono)
  also have "\<dots> = S + submitted (p # ps)" by (simp add: submitted_Cons [of p ps] add.assoc)
  finally show ?case using T(2) by blast
qed auto


section \<open>Properties\<close>

text \<open>
  C34: an access unit that is handed to the codec is complete and decodable from the state the codec has:
  apart from delimiters and supplemental data it is either one parameter set pair followed only by key
  slices, or only inter slices on a known geometry, which it leaves as it is; and the geometry is within
  the limits.
\<close>

theorem admitted_unit_is_decodable:
  assumes "validate_request rq d = (None, d')" and "au_annexb (dq_unit rq) \<noteq> []"
  shows "\<exists>ns k. annexb_units (au_annexb (dq_unit rq)) = Some ns \<and>
    int (length ns) \<le> vl_unit_packets (with_defaults (dq_limits rq)) \<and>
    coded_types ns = (if au_keyframe (dq_unit rq) then 7 # 8 # replicate (Suc k) 5 else replicate (Suc k) 1) \<and>
    (\<not> au_keyframe (dq_unit rq) \<longrightarrow> ed_width d \<noteq> 0 \<and> d' = d) \<and>
    ed_width d' \<noteq> 0 \<and> ed_width d' \<le> vl_width (with_defaults (dq_limits rq)) \<and>
    ed_height d' \<noteq> 0 \<and> ed_height d' \<le> vl_height (with_defaults (dq_limits rq))"
proof -
  let ?l = "with_defaults (dq_limits rq)" and ?key = "au_keyframe (dq_unit rq)"
  let ?s0 = "\<lparr>sn_width = ed_width d, sn_height = ed_height d, sn_color = ed_color d, sn_sps = False,
      sn_pps = False, sn_vcl = False, sn_idr = False, sn_count = 0\<rparr>"
  obtain s where l: "validate_video_limits ?l = None" and s: "scan_units ?l d (au_annexb (dq_unit rq)) ?s0 = Inr s"
    and fin: "sn_vcl s" "sn_idr s = ?key" "sn_width s \<noteq> 0" "sn_height s \<noteq> 0" "sn_width s \<le> vl_width ?l" "sn_height s \<le> vl_height ?l"
      "d' = (if ed_width d \<noteq> 0 \<and> (sn_width s \<noteq> ed_width d \<or> sn_height s \<noteq> ed_height d \<or> sn_color s \<noteq> ed_color d)
         then dropModule d else d)\<lparr>ed_width := sn_width s, ed_height := sn_height s, ed_color := sn_color s\<rparr>"
    using assms by (auto simp: validate_request_def Let_def split: option.splits sum.splits if_splits)
  obtain ns where ns: "annexb_units (au_annexb (dq_unit rq)) = Some ns" "check_units ?l d ns ?s0 = Inr s"
    using s by (auto simp: scan_units_split)
  have "0 \<le> min (vl_unit_packets ?l) defaultMaxPackets"
    using l by (auto simp: validate_video_limits_def defaultMaxPackets_def split: if_splits)
  then have r: "shape d s (coded_types ns)" "scan_ok ?l d s" "int (length ns) \<le> vl_unit_packets ?l"
    using check_units_result [OF ns(2) shape.nothing _ l] by (auto simp: scan_ok_def)
  from r(1) fin(1,2) obtain k where k: "coded_types ns = (if ?key then 7 # 8 # replicate (Suc k) 5 else replicate (Suc k) 1)"
      "\<not> ?key \<Longrightarrow> \<not> sn_sps s \<and> ed_width d \<noteq> 0"
    by (cases rule: shape.cases) auto
  have "d' = d" if "\<not> ?key" using fin(7) k(2) [OF that] r(2) by (simp add: scan_ok_def)
  with ns(1) r(3) k fin show ?thesis by (intro exI [of _ ns] exI [of _ k]) (auto simp: dropModule_def)
qed

text \<open>
  C29: every frame a decoder gives out belongs to a unit that was submitted to it, and no unit is given out
  twice, over any sequence of decodes, resets and closes and whatever the codec answers; it never remembers
  more than 32 units.
\<close>

theorem frames_are_submitted_units:
  "case decoder_run env ps new_decoder of (out, d) \<Rightarrow>
     out + mset (map snd (ed_sources d)) \<subseteq># submitted ps \<and> length (ed_sources d) \<le> 32"
proof -
  obtain out d where r: "decoder_run env ps new_decoder = (out, d)" by fastforce
  have "sources_in 32 {#} new_decoder"
    by (simp add: sources_in_def new_decoder_def geometry_ok_def defaultMaxWidth_def defaultMaxHeight_def)
  then obtain T where T: "out + T \<subseteq># submitted ps" "sources_in 32 T d" using decoder_run_in [OF _ r] by force
  then have "out + mset (map snd (ed_sources d)) \<subseteq># out + T" by (simp add: sources_in_def)
  then have "out + mset (map snd (ed_sources d)) \<subseteq># submitted ps" using T(1) by (rule subset_mset.order_trans)
  then show ?thesis using T(2) by (simp add: r sources_in_def)
qed


section \<open>A decoder at work\<close>

text \<open>A key picture of two by two pixels: a parameter set pair and one slice.\<close>

definition ex_key_unit :: access_unit where
  "ex_key_unit =
     \<lparr>au_generation = 1, au_rtp_time = 90, au_first = 1, au_last = 1, au_received = 5,
      au_annexb = [0, 0, 0, 1, 103] @ [66, 192, 40, 218, 126, 34, 33] @ [0, 0, 1, 104, 206, 6, 0, 0, 1, 101, 136, 128],
      au_has_sps = True, au_has_pps = True, au_keyframe = True, au_decodable = True, au_reused = False,
      au_discontinuity = False\<rparr>"

definition ex_decode :: decode_request where
  "ex_decode = \<lparr>dq_unit = ex_key_unit, dq_end = False, dq_limits = ex_limits\<rparr>"


theorem admitted_unit_is_decodable_witness:
  "\<exists>ns k. annexb_units (au_annexb ex_key_unit) = Some ns \<and> coded_types ns = 7 # 8 # replicate (Suc k) 5"
proof -
  have "fst (validate_request ex_decode new_decoder) = None" by code_simp
  then obtain d' where "validate_request ex_decode new_decoder = (None, d')" by (metis prod.collapse)
  from admitted_unit_is_decodable [OF this] show ?thesis by (auto simp: ex_decode_def ex_key_unit_def)
qed


end
