(* ===== verification/Pipeline.thy ===== *)
theory Pipeline
  imports Decoder
begin

text \<open>
  The video pipeline (\<open>internal/video/pipeline.go\<close>, \<open>live.go\<close>): packets in, decoded pictures out, with
  the decoder's worker, the waiters and the lifecycle calls running at the same time. Each critical section
  is one step; a run is any sequence of steps, with what the decoder, the clock and the contexts answer as
  parameters of the step. Wake-ups are not modelled beyond the channel they close: a waiter that is not
  woken only waits longer.
\<close>

section \<open>State\<close>

record frame =
  fr_id :: string
  fr_number :: u64
  fr_generation :: u64
  fr_rtp_time :: u32
  fr_first :: u16
  fr_last :: u16
  fr_received :: time
  fr_decoded :: time
  fr_width :: int
  fr_height :: int
  fr_keyframe :: bool
  fr_discontinuity :: bool
  fr_image :: picture

record queued =
  qu_chain :: u64
  qu_unit :: access_unit

text \<open>
  Where the goroutine that owns the decoder stands: it holds a unit, it has passed the first check of
  \<open>decodeUnit\<close> at a chain, it is inside the decoder, or (live) it is back with an error or none.
\<close>

datatype worker =
    Idle | Taken queued | Entered queued u64 | Decoding queued u64 | Finished queued "pipeline_errors option"

text \<open>
  The fields of \<open>Pipeline\<close>; \<open>pl_over\<close> is \<open>liveCtx.Err()\<close>, \<open>pl_notify\<close> says that the
  notification channel is open and \<open>pl_panicked\<close> that it was closed twice. \<open>pl_accepted\<close> and
  \<open>pl_fed\<close> are history: the units accepted and handed to the decoder on the current chain.
\<close>

record pipeline =
  pl_worker :: worker
  pl_resetting :: bool
  pl_target :: u64
  pl_live :: bool
  pl_over :: "pipeline_errors option"
  pl_pending :: "queued list"
  pl_pending_bytes :: int
  pl_chain :: u64
  pl_synced :: bool
  pl_decoder_chain :: u64
  pl_live_error :: "pipeline_errors option"
  pl_live_error_at :: time
  pl_generation :: u64
  pl_limits :: video_limits
  pl_depacketizer :: depacketizer
  pl_requester :: bool
  pl_latest :: "frame option"
  pl_notify :: bool
  pl_panicked :: bool
  pl_closed :: bool
  pl_frame_id :: u64
  pl_last_pli :: time
  pl_accepted :: "access_unit list"
  pl_fed :: "access_unit list"

definition new_pipeline :: "string \<Rightarrow> u64 \<Rightarrow> video_limits \<Rightarrow> bool \<Rightarrow> bool \<Rightarrow> pipeline_errors + pipeline" where
  "new_pipeline device generation l0 decoder requester =
     (let l = with_defaults l0
      in if device = [] \<or> \<not> decoder \<or> generation = 0 \<or> validate_video_limits l \<noteq> None
         then Inl [PipeVideo ErrInvalidConfig]
         else
           (case new_depacketizer generation l of
              Inl e \<Rightarrow> Inl (map PipeVideo e)
            | Inr d \<Rightarrow>
                Inr \<lparr>pl_worker = Idle, pl_resetting = False, pl_target = 0, pl_live = False, pl_over = None,
                     pl_pending = [], pl_pending_bytes = 0, pl_chain = 1, pl_synced = False, pl_decoder_chain = 1,
                     pl_live_error = None, pl_live_error_at = 0, pl_generation = generation, pl_limits = l,
                     pl_depacketizer = d, pl_requester = requester, pl_latest = None, pl_notify = True,
                     pl_panicked = False, pl_closed = False, pl_frame_id = 0, pl_last_pli = 0, pl_accepted = [],
                     pl_fed = []\<rparr>))"

text \<open>\<open>close(p.notify)\<close>, alone and with a fresh channel after it.\<close>

definition close_notify :: "pipeline \<Rightarrow> pipeline" where
  "close_notify p = (if pl_notify p then p\<lparr>pl_notify := False\<rparr> else p\<lparr>pl_panicked := True\<rparr>)"

definition renew_notify :: "pipeline \<Rightarrow> pipeline" where
  "renew_notify p = (close_notify p)\<lparr>pl_notify := True\<rparr>"

definition breakChain :: "pipeline \<Rightarrow> pipeline" where
  "breakChain p =
     renew_notify (p\<lparr>pl_chain := pl_chain p + 1, pl_synced := False, pl_pending := [], pl_pending_bytes := 0,
                     pl_latest := None, pl_accepted := [], pl_fed := []\<rparr>)"

section \<open>Receiving\<close>

text \<open>A decodable unit joins the chain: a key unit drops what is queued before it.\<close>

definition enqueue :: "bool \<Rightarrow> access_unit \<Rightarrow> pipeline \<Rightarrow> (pipeline_errors + queued option) \<times> pipeline" where
  "enqueue live u p1 =
     (let p2 = (if au_keyframe u then p1\<lparr>pl_pending := [], pl_pending_bytes := 0, pl_synced := True\<rparr> else p1);
          q = \<lparr>qu_chain = pl_chain p2, qu_unit = u\<rparr>;
          size = int (length (au_annexb u));
          p3 = p2\<lparr>pl_accepted := pl_accepted p2 @ [u]\<rparr>
      in if \<not> live then (Inr (Some q), p3)
         else if length (pl_pending p2) \<ge> 32 \<or> pl_pending_bytes p2 + size > vl_unit_bytes (pl_limits p2)
         then (Inl [ErrVideoUnavailable], breakChain p2)
         else (Inr (Some q), p3\<lparr>pl_pending := pl_pending p2 @ [q], pl_pending_bytes := pl_pending_bytes p2 + size\<rparr>))"

definition accept_unit :: "bool \<Rightarrow> access_unit \<Rightarrow> pipeline \<Rightarrow> (pipeline_errors + queued option) \<times> pipeline" where
  "accept_unit live u p0 =
     (let p1 = (if au_discontinuity u then breakChain p0 else p0)
      in if \<not> au_decodable u then (Inl [ErrVideoUnavailable], p1)
         else if \<not> au_keyframe u \<and> \<not> pl_synced p1 then (Inl [ErrVideoUnavailable], p1)
         else enqueue live u p1)"

definition receive ::
    "bool \<Rightarrow> pipeline_errors option \<Rightarrow> rtp_packet \<Rightarrow> pipeline \<Rightarrow> (pipeline_errors + queued option) \<times> pipeline" where
  "receive live ctx packet p =
     (if pl_closed p then (Inl [ErrPipelineClosed], p)
      else if pl_live p \<noteq> live then (Inl [PipeVideo ErrInvalidConfig], p)
      else if pl_resetting p then (Inl [ErrVideoUnavailable], p)
      else if live \<and> pl_over p \<noteq> None then (Inl (ErrVideoUnavailable # the (pl_over p)), p)
      else if ctx \<noteq> None then (Inl (the ctx), p)
      else
        (case push packet (pl_depacketizer p) of
           (Inl e, d) \<Rightarrow>
             (let p1 = p\<lparr>pl_depacketizer := d\<rparr>
              in (Inl (map PipeVideo e), if ErrGenerationMismatch \<in> set e then p1 else breakChain p1))
         | (Inr None, d) \<Rightarrow> (Inr None, p\<lparr>pl_depacketizer := d\<rparr>)
         | (Inr (Some u), d) \<Rightarrow> accept_unit live u (p\<lparr>pl_depacketizer := d\<rparr>)))"

section \<open>Decoding\<close>

text \<open>What the decoder and the outside answer to one unit.\<close>

record publish_answer =
  pa_result :: "pipeline_errors + decoded"
  pa_cancelled :: "pipeline_errors option"
  pa_now :: time
  pa_id :: "pipeline_errors + string"

text \<open>The three critical sections of \<open>decodeUnit\<close>: the entry, the chain's reset, the publication.\<close>

definition decode_enter :: "queued \<Rightarrow> pipeline \<Rightarrow> pipeline_errors + u64" where
  "decode_enter q p =
     (if pl_closed p then Inl [ErrPipelineClosed]
      else if pl_resetting p \<or> au_generation (qu_unit q) \<noteq> pl_generation p \<or> (qu_chain q \<noteq> 0 \<and> qu_chain q \<noteq> pl_chain p)
      then Inl [PipeVideo ErrGenerationMismatch]
      else Inr (pl_chain p))"

definition decode_prepare :: "u64 \<Rightarrow> pipeline_errors option \<Rightarrow> pipeline \<Rightarrow> pipeline_errors option \<times> pipeline" where
  "decode_prepare chain reset p =
     (if pl_decoder_chain p \<noteq> chain
      then (case reset of Some e \<Rightarrow> (Some e, p) | None \<Rightarrow> (None, p\<lparr>pl_decoder_chain := chain\<rparr>))
      else (None, p))"

definition make_frame :: "string \<Rightarrow> time \<Rightarrow> access_unit \<Rightarrow> picture \<Rightarrow> pipeline \<Rightarrow> frame" where
  "make_frame i now u pic p =
     \<lparr>fr_id = i, fr_number = pl_frame_id p + 1, fr_generation = au_generation u, fr_rtp_time = au_rtp_time u,
      fr_first = au_first u, fr_last = au_last u, fr_received = au_received u, fr_decoded = now,
      fr_width = pc_width pic, fr_height = pc_height pic, fr_keyframe = au_keyframe u,
      fr_discontinuity = au_discontinuity u, fr_image = pic\<rparr>"

definition decode_publish ::
    "publish_answer \<Rightarrow> queued \<Rightarrow> u64 \<Rightarrow> pipeline \<Rightarrow> (pipeline_errors + frame option) \<times> pipeline" where
  "decode_publish a q chain p =
     (if pl_closed p then (Inl [ErrPipelineClosed], p)
      else if pl_resetting p \<or> au_generation (qu_unit q) \<noteq> pl_generation p \<or> chain \<noteq> pl_chain p
      then (Inl [PipeVideo ErrGenerationMismatch], p)
      else
        (case pa_result a of
           Inl e \<Rightarrow> (Inl (case pa_cancelled a of Some c \<Rightarrow> c | None \<Rightarrow> PipeVideo ErrDecodeFailed # e), p)
         | Inr r \<Rightarrow>
             if de_pending r then (Inr None, p)
             else
               let u = (case de_source r of None \<Rightarrow> qu_unit q | Some s \<Rightarrow> s)
               in if au_generation u \<noteq> pl_generation p then (Inl [PipeVideo ErrGenerationMismatch], p)
                  else
                    (case de_image r of
                       None \<Rightarrow> (Inl [PipeVideo ErrDecodeFailed], p)
                     | Some pic \<Rightarrow>
                         (case bounded_dimensions (pc_width pic) (pc_height pic) (pl_limits p) of
                            Some e \<Rightarrow> (Inl (map PipeVideo e), p)
                          | None \<Rightarrow>
                              (case pa_id a of
                                 Inl e \<Rightarrow> (Inl e, p)
                               | Inr i \<Rightarrow>
                                   let f = make_frame i (pa_now a) u pic p;
                                       p1 = p\<lparr>pl_frame_id := fr_number f\<rparr>
                                   in if (case pl_latest p of None \<Rightarrow> False
                                          | Some o' \<Rightarrow> sint (fr_rtp_time f - fr_rtp_time o') < 0)
                                      then (Inr None, p1)
                                      else (Inr (Some f), renew_notify (p1\<lparr>pl_latest := Some f\<rparr>)))))))"

text \<open>What \<open>runLive\<close> does after \<open>decodeUnit\<close> returned.\<close>

definition live_done :: "queued \<Rightarrow> pipeline_errors option \<Rightarrow> pipeline \<Rightarrow> pipeline" where
  "live_done q err p =
     (if \<not> pl_closed p \<and> \<not> pl_resetting p \<and> au_generation (qu_unit q) = pl_generation p \<and> qu_chain q = pl_chain p
      then
        let p1 = (case err of
              Some e \<Rightarrow> breakChain (p\<lparr>pl_live_error := Some (PipeVideo ErrDecodeFailed # e)\<rparr>)
            | None \<Rightarrow> p\<lparr>pl_live_error := None\<rparr>)
        in renew_notify (p1\<lparr>pl_live_error_at := au_received (qu_unit q)\<rparr>)
      else p)"

section \<open>Waiting\<close>

record observe_request =
  or_generation :: u64
  or_freshness :: duration
  or_not_before :: time

datatype await_outcome = AwaitReturns "pipeline_errors + frame" | AwaitWaits

definition usable :: "time \<Rightarrow> duration \<Rightarrow> time \<Rightarrow> frame \<Rightarrow> bool" where
  "usable not_before freshness now f \<longleftrightarrow>
     (not_before = 0 \<or> not_before \<le> fr_received f) \<and> fr_received f \<noteq> 0 \<and> fr_received f \<le> now \<and>
     time_sub now (fr_received f) \<le> freshness"

definition pli_due :: "time \<Rightarrow> pipeline \<Rightarrow> bool" where
  "pli_due now p \<longleftrightarrow> pl_last_pli p = 0 \<or> time_sub now (pl_last_pli p) \<ge> vl_pli_interval (pl_limits p)"

definition is_decoding :: "pipeline \<Rightarrow> bool" where
  "is_decoding p \<longleftrightarrow> (case pl_worker p of Entered _ _ \<Rightarrow> True | Decoding _ _ \<Rightarrow> True | _ \<Rightarrow> False)"

text \<open>No usable frame: the live error, the request for a keyframe, the wait.\<close>

definition await_rest ::
    "observe_request \<Rightarrow> time \<Rightarrow> pipeline_errors option \<Rightarrow> duration \<Rightarrow> pipeline \<Rightarrow> await_outcome \<times> bool \<times> pipeline" where
  "await_rest rq now pli freshness p =
     (if pl_live_error p \<noteq> None \<and> (or_not_before rq = 0 \<or> or_not_before rq \<le> pl_live_error_at p)
      then (AwaitReturns (Inl (the (pl_live_error p))), False, p)
      else
        let stale = (case pl_latest p of None \<Rightarrow> True | Some f \<Rightarrow> time_sub now (fr_received f) > freshness);
            request = pl_requester p \<and>
              (\<not> pl_live p \<or> (\<not> is_decoding p \<and> pl_pending p = [] \<and> (\<not> pl_synced p \<or> stale))) \<and> pli_due now p;
            p1 = (if request then p\<lparr>pl_last_pli := now\<rparr> else p)
        in if request \<and> pli \<noteq> None then (AwaitReturns (Inl (the pli)), True, p1) else (AwaitWaits, request, p1))"

text \<open>
  One round of \<open>AwaitObservation\<close>: the result or the wait, whether a keyframe was requested, and the
  state. \<open>pli\<close> is what the request answers.
\<close>

definition await_round ::
    "observe_request \<Rightarrow> pipeline_errors option \<Rightarrow> time \<Rightarrow> pipeline_errors option \<Rightarrow> pipeline \<Rightarrow>
       await_outcome \<times> bool \<times> pipeline" where
  "await_round rq ctx now pli p =
     (if or_freshness rq < 0 then (AwaitReturns (Inl [PipeVideo ErrInvalidConfig]), False, p)
      else if ctx \<noteq> None then (AwaitReturns (Inl (the ctx)), False, p)
      else if pl_closed p then (AwaitReturns (Inl [ErrPipelineClosed]), False, p)
      else if or_generation rq \<noteq> pl_generation p then (AwaitReturns (Inl [PipeVideo ErrGenerationMismatch]), False, p)
      else if pl_live p \<and> pl_over p \<noteq> None then (AwaitReturns (Inl (ErrVideoUnavailable # the (pl_over p))), False, p)
      else
        let freshness = (if or_freshness rq = 0 then vl_freshness (pl_limits p) else or_freshness rq)
        in (case pl_latest p of
              Some f \<Rightarrow>
                if usable (or_not_before rq) freshness now f then (AwaitReturns (Inr f), False, p) else await_rest rq now pli freshness p
            | None \<Rightarrow> await_rest rq now pli freshness p))"

text \<open>The error of a wait that ended with its context; \<open>deadline\<close> says that it was the deadline.\<close>

definition await_ended :: "bool \<Rightarrow> pipeline_errors option \<Rightarrow> pipeline_errors \<Rightarrow> bool \<Rightarrow> pipeline_errors" where
  "await_ended deadline cause err had_frame =
     (if deadline then (case cause of None \<Rightarrow> [] | Some c \<Rightarrow> c) @ [if had_frame then ErrFrameStale else ErrVideoUnavailable]
      else case cause of Some c \<Rightarrow> c | None \<Rightarrow> err)"

text \<open>The idle round of \<open>runLive\<close>, which reads the clock three times.\<close>

definition idle_round :: "time \<Rightarrow> time \<Rightarrow> pipeline \<Rightarrow> bool \<times> pipeline" where
  "idle_round now later p =
     (let request = \<not> pl_synced p \<and> pl_requester p \<and> \<not> pl_resetting p \<and> pli_due now p
      in (request, if request then p\<lparr>pl_last_pli := later\<rparr> else p))"

definition matches_geometry :: "u64 \<Rightarrow> int \<Rightarrow> int \<Rightarrow> pipeline \<Rightarrow> bool" where
  "matches_geometry g w h p \<longleftrightarrow>
     \<not> pl_closed p \<and> \<not> pl_resetting p \<and>
     (case pl_latest p of None \<Rightarrow> False
      | Some f \<Rightarrow> w > 0 \<and> h > 0 \<and> g = pl_generation p \<and> g = fr_generation f \<and> w = fr_width f \<and> h = fr_height f)"

definition has_recent_frame :: "time \<Rightarrow> time \<Rightarrow> pipeline \<Rightarrow> bool" where
  "has_recent_frame now later p \<longleftrightarrow>
     \<not> pl_closed p \<and> \<not> pl_resetting p \<and>
     (case pl_latest p of None \<Rightarrow> False
      | Some f \<Rightarrow> time_sub now (fr_received f) \<ge> 0 \<and> time_sub later (fr_received f) \<le> millis 250)"

section \<open>Lifecycle\<close>

definition start_live :: "pipeline_errors option \<Rightarrow> pipeline \<Rightarrow> pipeline_errors option \<times> pipeline" where
  "start_live ctx p =
     (if pl_closed p then (Some [ErrPipelineClosed], p)
      else if pl_live p then (Some [PipeVideo ErrInvalidConfig], p)
      else if ctx \<noteq> None then (ctx, p)
      else (None, p\<lparr>pl_live := True\<rparr>))"

text \<open>\<open>Reset\<close>: the fence, and what follows once the decoder's worker is out.\<close>

definition reset_begin :: "u64 \<Rightarrow> pipeline \<Rightarrow> pipeline_errors option \<times> pipeline" where
  "reset_begin g p =
     (if pl_closed p then (Some [ErrPipelineClosed], p)
      else if g = 0 \<or> g = pl_generation p then (Some [PipeVideo ErrInvalidConfig], p)
      else (None, renew_notify ((breakChain (p\<lparr>pl_resetting := True, pl_target := g, pl_latest := None\<rparr>))
                     \<lparr>pl_live_error := None, pl_live_error_at := 0\<rparr>)))"

definition reset_end :: "pipeline_errors option \<Rightarrow> pipeline \<Rightarrow> pipeline_errors option \<times> pipeline" where
  "reset_end decoder p =
     (let (err, p1) =
        (case decoder of
           Some e \<Rightarrow> (Some e, p)
         | None \<Rightarrow>
             (case depacketizer_reset (pl_target p) (pl_depacketizer p) of
                (Some e, d) \<Rightarrow> (Some (map PipeVideo e), p\<lparr>pl_depacketizer := d\<rparr>)
              | (None, d) \<Rightarrow>
                  (None, p\<lparr>pl_depacketizer := d, pl_generation := pl_target p, pl_latest := None, pl_last_pli := 0\<rparr>)))
      in (err, renew_notify (p1\<lparr>pl_resetting := False\<rparr>)))"

definition pipeline_close :: "pipeline \<Rightarrow> pipeline" where
  "pipeline_close p =
     (if pl_closed p then p
      else close_notify (p\<lparr>pl_closed := True, pl_pending := [], pl_pending_bytes := 0\<rparr>))"

text \<open>The deferred end of \<open>runLive\<close>.\<close>

definition live_exit :: "pipeline \<Rightarrow> pipeline" where
  "live_exit p =
     (let p1 = p\<lparr>pl_pending := [], pl_pending_bytes := 0\<rparr> in if pl_closed p then p1 else renew_notify p1)"

section \<open>Steps\<close>

text \<open>
  \<open>pushMu\<close> is held by the worker between its entry and its return, without live ingestion from the
  packet on, and by the end of a reset; \<open>lifecycleMu\<close> keeps resets, closes and the start apart. A step
  that its locks do not allow changes nothing.
\<close>

datatype pipe_op =
    OpReceive "pipeline_errors option" rtp_packet | OpTake | OpEnter | OpPrepare "pipeline_errors option"
  | OpPublish publish_answer | OpLiveDone | OpLiveExit
  | OpAwait observe_request "pipeline_errors option" time "pipeline_errors option" | OpIdle time time
  | OpStartLive "pipeline_errors option" | OpStreamEnds pipeline_errors | OpResetBegin u64
  | OpResetEnd "pipeline_errors option" | OpClosePipeline

definition take_unit :: "pipeline \<Rightarrow> pipeline" where
  "take_unit p =
     (case pl_pending p of
        [] \<Rightarrow> p
      | q # qs \<Rightarrow>
          if pl_worker p = Idle \<and> pl_live p \<and> \<not> pl_closed p \<and> pl_over p = None \<and> \<not> pl_resetting p
          then p\<lparr>pl_worker := Taken q, pl_pending := qs,
                 pl_pending_bytes := pl_pending_bytes p - int (length (au_annexb (qu_unit q)))\<rparr>
          else p)"

text \<open>The worker is back from \<open>decodeUnit\<close>: \<open>runLive\<close> goes on, \<open>Push\<close> returns.\<close>

definition worker_back :: "queued \<Rightarrow> pipeline_errors option \<Rightarrow> pipeline \<Rightarrow> pipeline" where
  "worker_back q err p = p\<lparr>pl_worker := (if pl_live p then Finished q err else Idle)\<rparr>"

definition feed :: "queued \<Rightarrow> u64 \<Rightarrow> pipeline \<Rightarrow> pipeline" where
  "feed q chain p =
     p\<lparr>pl_worker := Decoding q chain,
       pl_fed := (if chain = pl_chain p then pl_fed p @ [qu_unit q] else pl_fed p)\<rparr>"

definition left_error :: "'e + 'a \<Rightarrow> 'e option" where
  "left_error r = (case r of Inl e \<Rightarrow> Some e | Inr _ \<Rightarrow> None)"

definition receive_step :: "pipeline_errors option \<Rightarrow> rtp_packet \<Rightarrow> pipeline \<Rightarrow> pipeline" where
  "receive_step ctx packet p =
     (if pl_live p then snd (receive True ctx packet p)
      else if pl_worker p \<noteq> Idle then p
      else
        (case receive False ctx packet p of
           (Inr (Some q), p1) \<Rightarrow> p1\<lparr>pl_worker := Taken q\<rparr>
         | (_, p1) \<Rightarrow> p1))"

definition enter_step :: "pipeline \<Rightarrow> pipeline" where
  "enter_step p =
     (case pl_worker p of
        Taken q \<Rightarrow>
          (case decode_enter q p of
             Inl e \<Rightarrow> worker_back q (Some e) p
           | Inr chain \<Rightarrow> p\<lparr>pl_worker := Entered q chain\<rparr>)
      | _ \<Rightarrow> p)"

definition prepare_step :: "pipeline_errors option \<Rightarrow> pipeline \<Rightarrow> pipeline" where
  "prepare_step reset p =
     (case pl_worker p of
        Entered q chain \<Rightarrow>
          (case decode_prepare chain reset p of
             (Some e, p1) \<Rightarrow> worker_back q (Some e) p1
           | (None, p1) \<Rightarrow> feed q chain p1)
      | _ \<Rightarrow> p)"

definition publish_step :: "publish_answer \<Rightarrow> pipeline \<Rightarrow> pipeline" where
  "publish_step a p =
     (case pl_worker p of
        Decoding q chain \<Rightarrow> (case decode_publish a q chain p of (r, p1) \<Rightarrow> worker_back q (left_error r) p1)
      | _ \<Rightarrow> p)"

definition done_step :: "pipeline \<Rightarrow> pipeline" where
  "done_step p = (case pl_worker p of Finished q err \<Rightarrow> (live_done q err p)\<lparr>pl_worker := Idle\<rparr> | _ \<Rightarrow> p)"

definition exit_step :: "pipeline \<Rightarrow> pipeline" where
  "exit_step p = (if pl_live p \<and> pl_worker p = Idle \<and> (pl_closed p \<or> pl_over p \<noteq> None) then live_exit p else p)"

definition idle_step :: "time \<Rightarrow> time \<Rightarrow> pipeline \<Rightarrow> pipeline" where
  "idle_step now later p =
     (if pl_live p \<and> pl_worker p = Idle \<and> \<not> pl_closed p \<and> pl_over p = None \<and> (pl_pending p = [] \<or> pl_resetting p)
      then snd (idle_round now later p) else p)"

definition over_step :: "pipeline_errors \<Rightarrow> pipeline \<Rightarrow> pipeline" where
  "over_step e p = (if pl_live p \<and> pl_over p = None then p\<lparr>pl_over := Some e\<rparr> else p)"

definition reset_end_step :: "pipeline_errors option \<Rightarrow> pipeline \<Rightarrow> pipeline" where
  "reset_end_step decoder p =
     (if pl_resetting p \<and> \<not> is_decoding p \<and> (pl_live p \<or> pl_worker p = Idle) then snd (reset_end decoder p) else p)"

definition pipe_step :: "pipeline \<Rightarrow> pipe_op \<Rightarrow> pipeline" where
  "pipe_step p op =
     (case op of
        OpReceive ctx packet \<Rightarrow> receive_step ctx packet p
      | OpTake \<Rightarrow> take_unit p
      | OpEnter \<Rightarrow> enter_step p
      | OpPrepare reset \<Rightarrow> prepare_step reset p
      | OpPublish a \<Rightarrow> publish_step a p
      | OpLiveDone \<Rightarrow> done_step p
      | OpLiveExit \<Rightarrow> exit_step p
      | OpAwait rq ctx now pli \<Rightarrow> snd (snd (await_round rq ctx now pli p))
      | OpIdle now later \<Rightarrow> idle_step now later p
      | OpStartLive ctx \<Rightarrow> if pl_worker p = Idle \<and> \<not> pl_resetting p then snd (start_live ctx p) else p
      | OpStreamEnds e \<Rightarrow> over_step e p
      | OpResetBegin g \<Rightarrow> if pl_resetting p then p else snd (reset_begin g p)
      | OpResetEnd decoder \<Rightarrow> reset_end_step decoder p
      | OpClosePipeline \<Rightarrow> if pl_resetting p then p else pipeline_close p)"

section \<open>The notification channel\<close>

text \<open>It is closed for good exactly by the close of the pipeline, and never twice.\<close>

definition notify_ok :: "pipeline \<Rightarrow> bool" where
  "notify_ok p \<longleftrightarrow> (pl_notify p \<longleftrightarrow> \<not> pl_closed p) \<and> \<not> pl_panicked p \<and> (pl_resetting p \<longrightarrow> \<not> pl_closed p)"

lemma renew_simps [simp]:
  "pl_worker (renew_notify p) = pl_worker p" "pl_resetting (renew_notify p) = pl_resetting p"
  "pl_target (renew_notify p) = pl_target p" "pl_live (renew_notify p) = pl_live p" "pl_over (renew_notify p) = pl_over p"
  "pl_pending (renew_notify p) = pl_pending p" "pl_pending_bytes (renew_notify p) = pl_pending_bytes p"
  "pl_chain (renew_notify p) = pl_chain p" "pl_synced (renew_notify p) = pl_synced p"
  "pl_generation (renew_notify p) = pl_generation p" "pl_limits (renew_notify p) = pl_limits p"
  "pl_depacketizer (renew_notify p) = pl_depacketizer p" "pl_latest (renew_notify p) = pl_latest p"
  "pl_closed (renew_notify p) = pl_closed p" "pl_frame_id (renew_notify p) = pl_frame_id p"
  "pl_last_pli (renew_notify p) = pl_last_pli p" "pl_accepted (renew_notify p) = pl_accepted p"
  "pl_fed (renew_notify p) = pl_fed p" "pl_decoder_chain (renew_notify p) = pl_decoder_chain p"
  "pl_notify (renew_notify p)" "pl_panicked (renew_notify p) = (pl_panicked p \<or> \<not> pl_notify p)"
  by (auto simp: renew_notify_def close_notify_def)

lemma break_simps [simp]:
  "pl_worker (breakChain p) = pl_worker p" "pl_resetting (breakChain p) = pl_resetting p"
  "pl_target (breakChain p) = pl_target p" "pl_live (breakChain p) = pl_live p" "pl_over (breakChain p) = pl_over p"
  "pl_pending (breakChain p) = []" "pl_pending_bytes (breakChain p) = 0" "pl_chain (breakChain p) = pl_chain p + 1"
  "\<not> pl_synced (breakChain p)" "pl_generation (breakChain p) = pl_generation p" "pl_limits (breakChain p) = pl_limits p"
  "pl_depacketizer (breakChain p) = pl_depacketizer p" "pl_latest (breakChain p) = None"
  "pl_closed (breakChain p) = pl_closed p" "pl_frame_id (breakChain p) = pl_frame_id p"
  "pl_last_pli (breakChain p) = pl_last_pli p" "pl_accepted (breakChain p) = []" "pl_fed (breakChain p) = []"
  "pl_notify (breakChain p)" "pl_panicked (breakChain p) = (pl_panicked p \<or> \<not> pl_notify p)"
  by (simp_all add: breakChain_def)

lemma await_rest_frame: "snd (snd (await_rest rq now pli freshness p)) \<in> {p, p\<lparr>pl_last_pli := now\<rparr>}"
  by (simp add: await_rest_def Let_def)

lemma await_frame: "snd (snd (await_round rq ctx now pli p)) \<in> {p, p\<lparr>pl_last_pli := now\<rparr>}"
proof (cases "pl_latest p")
  case None
  then show ?thesis using await_rest_frame [of rq now pli _ p] by (simp add: await_round_def Let_def)
next
  case (Some f)
  then show ?thesis using await_rest_frame [of rq now pli _ p] by (simp add: await_round_def Let_def)
qed

lemma idle_frame: "idle_step now later p \<in> {p, p\<lparr>pl_last_pli := later\<rparr>}"
  by (auto simp: idle_step_def idle_round_def Let_def)

text \<open>
  Every step is one of a few changes: this is the rule by which a predicate on pipelines is shown of all of
  them.
\<close>

lemma enter_cases:
  obtains "enter_step p = p" | q where "pl_worker p = Taken q" "\<exists>e. decode_enter q p = Inl e \<and> enter_step p = worker_back q (Some e) p"
  | q where "pl_worker p = Taken q" "decode_enter q p = Inr (pl_chain p)" "enter_step p = p\<lparr>pl_worker := Entered q (pl_chain p)\<rparr>"
proof (cases "pl_worker p")
  case (Taken q)
  show thesis
  proof (cases "decode_enter q p")
    case (Inl e)
    then show thesis using that(2) [OF Taken] Taken by (simp add: enter_step_def)
  next
    case (Inr c)
    then have "c = pl_chain p" by (simp add: decode_enter_def split: if_splits)
    then show thesis using that(3) [OF Taken] Inr Taken by (simp add: enter_step_def)
  qed
qed (use that(1) in \<open>simp_all add: enter_step_def\<close>)

lemma prepare_cases:
  obtains "prepare_step reset p = p"
  | q c e where "pl_worker p = Entered q c" "prepare_step reset p = worker_back q (Some e) p"
  | q c where "pl_worker p = Entered q c" "prepare_step reset p = feed q c (p\<lparr>pl_decoder_chain := c\<rparr>)"
proof (cases "pl_worker p")
  case (Entered q c)
  have same: "pl_decoder_chain p = c \<Longrightarrow> p\<lparr>pl_decoder_chain := c\<rparr> = p" by simp
  show thesis
  proof (cases "pl_decoder_chain p = c")
    case True
    then show thesis using that(3) [OF Entered] Entered same by (simp add: prepare_step_def decode_prepare_def)
  next
    case False
    then show thesis using that(2,3) Entered by (cases reset) (auto simp: prepare_step_def decode_prepare_def)
  qed
qed (use that(1) in \<open>simp_all add: prepare_step_def\<close>)

lemma notify_ok_enqueue: "notify_ok p \<Longrightarrow> \<not> pl_closed p \<Longrightarrow> notify_ok (snd (enqueue live u p))"
  by (auto simp: enqueue_def notify_ok_def Let_def)

lemma notify_ok_break: "notify_ok p \<Longrightarrow> \<not> pl_closed p \<Longrightarrow> notify_ok (breakChain p)"
  by (simp add: notify_ok_def)

lemma notify_ok_fields [simp]:
  "notify_ok (p\<lparr>pl_worker := w\<rparr>) = notify_ok p" "notify_ok (p\<lparr>pl_last_pli := t\<rparr>) = notify_ok p"
  "notify_ok (p\<lparr>pl_depacketizer := d\<rparr>) = notify_ok p" "notify_ok (p\<lparr>pl_over := v\<rparr>) = notify_ok p"
  "notify_ok (p\<lparr>pl_decoder_chain := c\<rparr>) = notify_ok p" "notify_ok (p\<lparr>pl_fed := us\<rparr>) = notify_ok p"
  "notify_ok (p\<lparr>pl_live := b\<rparr>) = notify_ok p"
  by (simp_all add: notify_ok_def)

lemma notify_ok_accept: "notify_ok p \<Longrightarrow> \<not> pl_closed p \<Longrightarrow> notify_ok (snd (accept_unit live u p))"
  using notify_ok_enqueue [of "breakChain p"] notify_ok_enqueue [of p] notify_ok_break [of p]
  by (simp add: accept_unit_def Let_def)

lemma notify_ok_receive: "notify_ok p \<Longrightarrow> notify_ok (snd (receive live ctx packet p))"
  using notify_ok_break [of "p\<lparr>pl_depacketizer := d\<rparr>" for d] notify_ok_accept [of "p\<lparr>pl_depacketizer := d\<rparr>" live for d]
  by (auto simp: receive_def Let_def split: prod.splits sum.splits option.splits)

lemma notify_ok_receive_step: "notify_ok p \<Longrightarrow> notify_ok (receive_step ctx packet p)"
  using notify_ok_receive [of p True ctx packet] notify_ok_receive [of p False ctx packet]
  by (auto simp: receive_step_def split: prod.splits sum.splits option.splits)

lemma publish_frame:
  assumes "decode_publish a q c p = (r, p')"
  shows "p' = p \<or> (\<exists>n. p' = p\<lparr>pl_frame_id := n\<rparr>) \<or>
    (\<exists>u pic i. \<not> pl_closed p \<and> \<not> pl_resetting p \<and> c = pl_chain p \<and> au_generation u = pl_generation p \<and>
       au_generation (qu_unit q) = pl_generation p \<and>
       bounded_dimensions (pc_width pic) (pc_height pic) (pl_limits p) = None \<and>
       (\<forall>f. pl_latest p = Some f \<longrightarrow> 0 \<le> sint (au_rtp_time u - fr_rtp_time f)) \<and>
       p' = renew_notify (p\<lparr>pl_frame_id := pl_frame_id p + 1, pl_latest := Some (make_frame i (pa_now a) u pic p)\<rparr>) \<and>
       r = Inr (Some (make_frame i (pa_now a) u pic p)))"
  using assms
  by (auto simp: decode_publish_def Let_def make_frame_def not_less split: if_splits sum.splits option.splits)

lemma notify_ok_publish_step: "notify_ok p \<Longrightarrow> notify_ok (publish_step a p)"
  using publish_frame [of a]
  by (fastforce simp: publish_step_def worker_back_def notify_ok_def split: worker.splits prod.splits)

lemma notify_ok_done_step: "notify_ok p \<Longrightarrow> notify_ok (done_step p)"
  by (auto simp: done_step_def live_done_def notify_ok_def Let_def split: worker.splits option.splits)

lemma notify_ok_step: "notify_ok p \<Longrightarrow> notify_ok (pipe_step p op)"
proof (cases op)
  case OpEnter
  then show "notify_ok p \<Longrightarrow> ?thesis"
    by (cases rule: enter_cases [of p]) (auto simp: pipe_step_def worker_back_def)
next
  case (OpPrepare reset)
  then show "notify_ok p \<Longrightarrow> ?thesis"
    by (cases rule: prepare_cases [of reset p]) (auto simp: pipe_step_def worker_back_def feed_def)
next
  case (OpAwait rq ctx now pli)
  then show "notify_ok p \<Longrightarrow> ?thesis" using await_frame [of rq ctx now pli p] by (auto simp: pipe_step_def)
next
  case (OpIdle now later)
  then show "notify_ok p \<Longrightarrow> ?thesis" using idle_frame [of now later p] by (auto simp: pipe_step_def)
next
  case (OpResetEnd decoder)
  then show "notify_ok p \<Longrightarrow> ?thesis"
    by (auto simp: pipe_step_def reset_end_step_def reset_end_def notify_ok_def Let_def split: option.splits prod.splits)
next
  case (OpResetBegin g)
  then show "notify_ok p \<Longrightarrow> ?thesis" by (auto simp: pipe_step_def reset_begin_def notify_ok_def)
next
  case OpClosePipeline
  then show "notify_ok p \<Longrightarrow> ?thesis" by (auto simp: pipe_step_def pipeline_close_def close_notify_def notify_ok_def)
next
  case OpLiveExit
  then show "notify_ok p \<Longrightarrow> ?thesis" by (auto simp: pipe_step_def exit_step_def live_exit_def notify_ok_def Let_def)
next
  case OpTake
  then show "notify_ok p \<Longrightarrow> ?thesis" by (auto simp: pipe_step_def take_unit_def notify_ok_def split: list.splits)
next
  case (OpStartLive ctx)
  then show "notify_ok p \<Longrightarrow> ?thesis" by (auto simp: pipe_step_def start_live_def)
qed (simp_all add: pipe_step_def notify_ok_receive_step notify_ok_publish_step notify_ok_done_step over_step_def)

interpretation notify_runs: guarded_machine pipe_step notify_ok
  by unfold_locales (rule notify_ok_step)

section \<open>The queue\<close>

definition latest_ok :: "u64 \<Rightarrow> video_limits \<Rightarrow> frame option \<Rightarrow> bool" where
  "latest_ok g l latest \<longleftrightarrow>
     (case latest of None \<Rightarrow> True
      | Some f \<Rightarrow> fr_generation f = g \<and> 0 < fr_width f \<and> fr_width f \<le> vl_width l \<and> 0 < fr_height f \<and> fr_height f \<le> vl_height l)"

lemma latest_ok_None [simp]: "latest_ok g l None"
  by (simp add: latest_ok_def)

definition queue_ok :: "pipeline \<Rightarrow> bool" where
  "queue_ok p \<longleftrightarrow>
     pl_pending_bytes p = sum_list (map (\<lambda>q. int (length (au_annexb (qu_unit q)))) (pl_pending p)) \<and>
     pl_pending_bytes p \<le> vl_unit_bytes (pl_limits p) \<and> length (pl_pending p) \<le> 32 \<and>
     list_all (\<lambda>q. qu_chain q = pl_chain p \<and> au_generation (qu_unit q) = pl_generation p) (pl_pending p) \<and>
     (pl_pending p \<noteq> [] \<longrightarrow> pl_synced p) \<and> (pl_resetting p \<longrightarrow> pl_pending p = [] \<and> pl_latest p = None) \<and>
     depack_inv (pl_depacketizer p) \<and> dp_generation (pl_depacketizer p) = pl_generation p \<and>
     dp_limits (pl_depacketizer p) = pl_limits p \<and>
     latest_ok (pl_generation p) (pl_limits p) (pl_latest p)"

lemma queue_limits: "queue_ok p \<Longrightarrow> 0 \<le> vl_unit_bytes (pl_limits p)"
  using limits_pos by (fastforce simp: queue_ok_def)

lemma queue_ok_break: "queue_ok p \<Longrightarrow> queue_ok (breakChain p)"
  using queue_limits [of p] by (simp add: queue_ok_def)

lemma queue_ok_fields [simp]:
  "queue_ok (p\<lparr>pl_worker := w\<rparr>) = queue_ok p" "queue_ok (p\<lparr>pl_last_pli := t\<rparr>) = queue_ok p"
  "queue_ok (p\<lparr>pl_over := v\<rparr>) = queue_ok p" "queue_ok (p\<lparr>pl_live := b\<rparr>) = queue_ok p"
  "queue_ok (renew_notify p) = queue_ok p" "queue_ok (p\<lparr>pl_live_error := e\<rparr>) = queue_ok p"
  "queue_ok (p\<lparr>pl_live_error_at := t\<rparr>) = queue_ok p" "queue_ok (p\<lparr>pl_target := g\<rparr>) = queue_ok p"
  "queue_ok (p\<lparr>pl_decoder_chain := c\<rparr>) = queue_ok p" "queue_ok (p\<lparr>pl_frame_id := n\<rparr>) = queue_ok p"
  "queue_ok (p\<lparr>pl_accepted := us\<rparr>) = queue_ok p" "queue_ok (p\<lparr>pl_fed := us\<rparr>) = queue_ok p"
  by (simp_all add: queue_ok_def)

lemma queue_ok_empty: "queue_ok p \<Longrightarrow> queue_ok (p\<lparr>pl_pending := [], pl_pending_bytes := 0\<rparr>)"
  using queue_limits [of p] by (simp add: queue_ok_def)

lemma queue_ok_key: "queue_ok p \<Longrightarrow> queue_ok (p\<lparr>pl_pending := [], pl_pending_bytes := 0, pl_synced := True\<rparr>)"
  using queue_ok_empty [of p] by (simp add: queue_ok_def)

lemma queue_ok_append:
  assumes "queue_ok p" "au_generation u = pl_generation p" "pl_synced p" "length (pl_pending p) < 32" "\<not> pl_resetting p"
    "pl_pending_bytes p + int (length (au_annexb u)) \<le> vl_unit_bytes (pl_limits p)"
  shows "queue_ok (p\<lparr>pl_accepted := us, pl_pending := pl_pending p @ [\<lparr>qu_chain = pl_chain p, qu_unit = u\<rparr>],
    pl_pending_bytes := pl_pending_bytes p + int (length (au_annexb u))\<rparr>)"
  using assms by (simp add: queue_ok_def)

definition queue_key :: "access_unit \<Rightarrow> pipeline \<Rightarrow> pipeline" where
  "queue_key u p = (if au_keyframe u then p\<lparr>pl_pending := [], pl_pending_bytes := 0, pl_synced := True\<rparr> else p)"

lemma enqueue_eq:
  "enqueue live u p = (let p2 = queue_key u p; q = \<lparr>qu_chain = pl_chain p, qu_unit = u\<rparr> in
     if \<not> live then (Inr (Some q), p2\<lparr>pl_accepted := pl_accepted p @ [u]\<rparr>)
     else if length (pl_pending p2) \<ge> 32 \<or> pl_pending_bytes p2 + int (length (au_annexb u)) > vl_unit_bytes (pl_limits p)
     then (Inl [ErrVideoUnavailable], breakChain p2)
     else (Inr (Some q), p2\<lparr>pl_accepted := pl_accepted p @ [u], pl_pending := pl_pending p2 @ [q],
            pl_pending_bytes := pl_pending_bytes p2 + int (length (au_annexb u))\<rparr>))"
  by (simp add: enqueue_def queue_key_def Let_def)

lemma queue_key_simps [simp]:
  "pl_chain (queue_key u p) = pl_chain p" "pl_generation (queue_key u p) = pl_generation p"
  "pl_limits (queue_key u p) = pl_limits p" "pl_accepted (queue_key u p) = pl_accepted p"
  "pl_resetting (queue_key u p) = pl_resetting p" "pl_synced (queue_key u p) = (au_keyframe u \<or> pl_synced p)"
  by (simp_all add: queue_key_def)

lemma queue_ok_enqueue:
  assumes "queue_ok p" "au_generation u = pl_generation p" "au_keyframe u \<or> pl_synced p" "\<not> pl_resetting p"
  shows "queue_ok (snd (enqueue live u p))"
proof -
  have k: "queue_ok (queue_key u p)" using queue_ok_key [OF assms(1)] assms(1) by (simp add: queue_key_def)
  show ?thesis
    using queue_ok_append [OF k, of u "pl_accepted p @ [u]"] queue_ok_break [OF k] k assms(2-4)
    by (simp add: enqueue_eq Let_def not_le not_less)
qed

lemma queue_ok_accept:
  assumes "queue_ok p" "au_generation u = pl_generation p" "\<not> pl_resetting p"
  shows "queue_ok (snd (accept_unit live u p))"
  using assms queue_ok_break [OF assms(1)] queue_ok_enqueue [of p u live] queue_ok_enqueue [of "breakChain p" u live]
  by (simp add: accept_unit_def Let_def)

text \<open>What the depacketizer hands over keeps the pipeline's view of it.\<close>

lemma push_keeps:
  assumes "depack_inv d" "push packet d = (r, d')"
  shows "depack_inv d' \<and> dp_generation d' = dp_generation d \<and> dp_limits d' = dp_limits d \<and>
    (\<forall>u. r = Inr (Some u) \<longrightarrow> au_generation u = dp_generation d)"
proof (cases "\<exists>u. r = Inr (Some u)")
  case True
  then obtain u where "r = Inr (Some u)" ..
  then show ?thesis
    using push_inv [OF assms(1), of packet] push_emits(1,9,10) [OF assms(1), of packet u d'] assms(2) by simp
next
  case False
  then show ?thesis
    using push_inv [OF assms(1), of packet] push_silent(4,5) [of packet d] assms(2) by simp
qed

lemma queue_ok_receive:
  assumes "queue_ok p"
  shows "queue_ok (snd (receive live ctx packet p))"
proof -
  obtain r d where r: "push packet (pl_depacketizer p) = (r, d)" by fastforce
  have d: "depack_inv d \<and> dp_generation d = pl_generation p \<and> dp_limits d = pl_limits p \<and>
      (\<forall>u. r = Inr (Some u) \<longrightarrow> au_generation u = pl_generation p)"
    using push_keeps [OF _ r] assms by (simp add: queue_ok_def)
  then have p1: "queue_ok (p\<lparr>pl_depacketizer := d\<rparr>)" using assms by (simp add: queue_ok_def)
  show ?thesis
    using assms d p1 queue_ok_break [OF p1] queue_ok_accept [OF p1]
    by (auto simp: receive_def r Let_def split: sum.splits option.splits)
qed

lemma queue_ok_receive_step: "queue_ok p \<Longrightarrow> queue_ok (receive_step ctx packet p)"
  using queue_ok_receive [of p True ctx packet] queue_ok_receive [of p False ctx packet]
  by (auto simp: receive_step_def split: prod.splits sum.splits option.splits)

lemma queue_ok_publish:
  assumes "queue_ok p" "decode_publish a q c p = (r, p')"
  shows "queue_ok p'"
  using publish_frame [OF assms(2)]
proof (elim disjE exE conjE)
  fix u pic i
  assume "\<not> pl_resetting p" "au_generation u = pl_generation p"
    and size: "bounded_dimensions (pc_width pic) (pc_height pic) (pl_limits p) = None"
    and p': "p' = renew_notify (p\<lparr>pl_frame_id := pl_frame_id p + 1, pl_latest := Some (make_frame i (pa_now a) u pic p)\<rparr>)"
  moreover have "latest_ok (pl_generation p) (pl_limits p) (Some (make_frame i (pa_now a) u pic p))"
    using size \<open>au_generation u = pl_generation p\<close>
    by (simp add: latest_ok_def make_frame_def bounded_dimensions_def split: if_splits)
  ultimately show "queue_ok p'" using assms(1) by (simp add: queue_ok_def)
qed (use assms(1) in simp_all)

lemma queue_ok_done: "queue_ok p \<Longrightarrow> queue_ok (done_step p)"
  using queue_ok_break [of "p\<lparr>pl_live_error := e\<rparr>" for e]
  by (auto simp: done_step_def live_done_def Let_def split: worker.splits option.splits)

lemma queue_ok_take: "queue_ok p \<Longrightarrow> queue_ok (take_unit p)"
  by (auto simp: take_unit_def queue_ok_def split: list.splits)

lemma queue_ok_reset_end: "queue_ok p \<Longrightarrow> queue_ok (reset_end_step decoder p)"
  using reset_inv [of "pl_depacketizer p" "pl_target p"]
  by (auto simp: reset_end_step_def reset_end_def depacketizer_reset_def Let_def queue_ok_def split: option.splits)

lemma queue_ok_reset_begin: "queue_ok p \<Longrightarrow> queue_ok (snd (reset_begin g p))"
  using queue_limits [of p] by (simp add: reset_begin_def queue_ok_def)

lemma queue_ok_close: "queue_ok p \<Longrightarrow> queue_ok (pipeline_close p)"
  using queue_limits [of p] by (simp add: pipeline_close_def close_notify_def queue_ok_def)

lemma queue_ok_exit: "queue_ok p \<Longrightarrow> queue_ok (exit_step p)"
  using queue_ok_empty [of p] by (simp add: exit_step_def live_exit_def Let_def)

lemma queue_ok_publish_step: "queue_ok p \<Longrightarrow> queue_ok (publish_step a p)"
  using queue_ok_publish [of p a]
  by (auto simp: publish_step_def worker_back_def split: worker.splits prod.splits)

lemma queue_ok_step: "queue_ok p \<Longrightarrow> queue_ok (pipe_step p op)"
proof (cases op)
  case OpEnter
  then show "queue_ok p \<Longrightarrow> ?thesis"
    by (cases rule: enter_cases [of p]) (auto simp: pipe_step_def worker_back_def)
next
  case (OpPrepare reset)
  then show "queue_ok p \<Longrightarrow> ?thesis"
    by (cases rule: prepare_cases [of reset p]) (auto simp: pipe_step_def worker_back_def feed_def)
next
  case (OpAwait rq ctx now pli)
  then show "queue_ok p \<Longrightarrow> ?thesis" using await_frame [of rq ctx now pli p] by (auto simp: pipe_step_def)
next
  case (OpIdle now later)
  then show "queue_ok p \<Longrightarrow> ?thesis" using idle_frame [of now later p] by (auto simp: pipe_step_def)
qed (simp_all add: pipe_step_def queue_ok_receive_step queue_ok_publish_step queue_ok_done queue_ok_take queue_ok_exit
      queue_ok_reset_end queue_ok_reset_begin queue_ok_close start_live_def over_step_def)

interpretation queue_runs: guarded_machine pipe_step queue_ok
  by unfold_locales (rule queue_ok_step)

section \<open>The chain of units\<close>

text \<open>
  Which order of units is safe to decode: each is the successor of the one before it, except that a unit that
  decodes on its own may follow anything. \<open>fed_from E S\<close> says that \<open>S\<close> is such an order made
  of the accepted units \<open>E\<close>.
\<close>

inductive fed_from :: "access_unit list \<Rightarrow> access_unit list \<Rightarrow> bool" where
  fed_Nil: "fed_from [] []"
| fed_Next: "fed_from E S \<Longrightarrow> au_keyframe u \<or> E \<noteq> [] \<Longrightarrow> fed_from (E @ [u]) (S @ [u])"
| fed_Key: "fed_from E (S @ T) \<Longrightarrow> au_keyframe u \<Longrightarrow> fed_from (E @ [u]) (S @ [u])"

lemma fed_last: "fed_from E S \<Longrightarrow> E \<noteq> [] \<Longrightarrow> S \<noteq> [] \<and> last S = last E"
  by (cases rule: fed_from.cases) auto

definition needs_predecessor :: "access_unit list \<Rightarrow> access_unit list \<Rightarrow> bool" where
  "needs_predecessor E S \<longleftrightarrow>
     (\<forall>pre u post. S = pre @ u # post \<longrightarrow> \<not> au_keyframe u \<longrightarrow>
        (\<exists>v pre' before after. pre = pre' @ [v] \<and> E = before @ v # u # after))"

lemma predecessor_prefix: "needs_predecessor E (S @ T) \<Longrightarrow> needs_predecessor E S"
  unfolding needs_predecessor_def by (metis append_Cons append_assoc)

lemma predecessor_snoc:
  assumes "needs_predecessor E S" "au_keyframe u \<or> (\<exists>v pre' before. S = pre' @ [v] \<and> E = before @ [v])"
  shows "needs_predecessor (E @ [u]) (S @ [u])"
  unfolding needs_predecessor_def
proof (intro allI impI)
  fix pre x post
  assume split: "S @ [u] = pre @ x # post" and inter: "\<not> au_keyframe x"
  show "\<exists>v pre' before after. pre = pre' @ [v] \<and> E @ [u] = before @ v # x # after"
  proof (cases post rule: rev_cases)
    case Nil
    then have "x = u" "pre = S" using split by simp_all
    then obtain v pre' before where "S = pre' @ [v]" "E = before @ [v]" using assms(2) inter by blast
    then have "pre = pre' @ [v] \<and> E @ [u] = before @ v # x # []" using \<open>x = u\<close> \<open>pre = S\<close> by simp
    then show ?thesis by blast
  next
    case (snoc post' y)
    then have "S = pre @ x # post'" using split by simp
    then show ?thesis using assms(1) inter unfolding needs_predecessor_def by (metis append_Cons append_assoc)
  qed
qed

lemma fed_from_predecessor: "fed_from E S \<Longrightarrow> needs_predecessor E S"
proof (induction rule: fed_from.induct)
  case fed_Nil
  show ?case by (simp add: needs_predecessor_def)
next
  case (fed_Next E S u)
  have "au_keyframe u \<or> (\<exists>v pre' before. S = pre' @ [v] \<and> E = before @ [v])"
    using fed_Next.hyps fed_last [OF fed_Next.hyps(1)] by (metis append_butlast_last_id)
  then show ?case using predecessor_snoc [OF fed_Next.IH] by blast
next
  case (fed_Key E S T u)
  then show ?case using predecessor_snoc predecessor_prefix by blast
qed

text \<open>The unit the worker has not handed over yet, while it belongs to the current chain.\<close>

fun worker_unit :: "worker \<Rightarrow> queued option" where
  "worker_unit Idle = None"
| "worker_unit (Taken q) = Some q"
| "worker_unit (Entered q c) = Some q"
| "worker_unit (Decoding q c) = Some q"
| "worker_unit (Finished q e) = Some q"

fun held_unit :: "u64 \<Rightarrow> worker \<Rightarrow> access_unit list" where
  "held_unit c (Taken q) = (if qu_chain q = c then [qu_unit q] else [])"
| "held_unit c (Entered q d) = (if qu_chain q = c then [qu_unit q] else [])"
| "held_unit c w = []"

fun failed_on :: "u64 \<Rightarrow> worker \<Rightarrow> bool" where
  "failed_on c (Finished q (Some e)) = (qu_chain q = c)"
| "failed_on c w = False"

definition worker_ok :: "pipeline \<Rightarrow> bool" where
  "worker_ok p \<longleftrightarrow>
     (\<forall>q. worker_unit (pl_worker p) = Some q \<longrightarrow>
        qu_chain q \<noteq> 0 \<and> qu_chain q \<le> pl_chain p \<and>
        (qu_chain q = pl_chain p \<longrightarrow> au_generation (qu_unit q) = pl_generation p \<and> \<not> pl_resetting p)) \<and>
     (\<forall>q c. pl_worker p = Entered q c \<or> pl_worker p = Decoding q c \<longrightarrow> c = qu_chain q)"

definition chain_ok :: "pipeline \<Rightarrow> bool" where
  "chain_ok p \<longleftrightarrow>
     pl_live p \<and> pl_chain p \<noteq> 0 \<and> worker_ok p \<and>
     (pl_synced p \<longrightarrow> pl_accepted p \<noteq> []) \<and> (pl_resetting p \<longrightarrow> pl_accepted p = []) \<and>
     (\<exists>rest. fed_from (pl_accepted p) (pl_fed p @ held_unit (pl_chain p) (pl_worker p) @ rest) \<and>
        (pl_closed p \<or> failed_on (pl_chain p) (pl_worker p) \<or> pl_over p \<noteq> None \<or> rest = map qu_unit (pl_pending p)))"

lemma later_chain: "c + 1 \<noteq> 0 \<Longrightarrow> q \<le> c \<Longrightarrow> q < c + (1 :: u64)"
  by uint_arith

lemma held_stale: "(\<And>q. worker_unit w = Some q \<Longrightarrow> qu_chain q \<noteq> c) \<Longrightarrow> held_unit c w = []"
  by (cases w) auto

lemma chain_ok_fields [simp]:
  "chain_ok (p\<lparr>pl_last_pli := t\<rparr>) = chain_ok p" "chain_ok (p\<lparr>pl_depacketizer := d\<rparr>) = chain_ok p"
  "chain_ok (p\<lparr>pl_live_error := e\<rparr>) = chain_ok p" "chain_ok (p\<lparr>pl_live_error_at := t\<rparr>) = chain_ok p"
  "chain_ok (renew_notify p) = chain_ok p" "chain_ok (p\<lparr>pl_frame_id := n\<rparr>) = chain_ok p"
  "chain_ok (p\<lparr>pl_latest := l\<rparr>) = chain_ok p" "chain_ok (p\<lparr>pl_decoder_chain := c\<rparr>) = chain_ok p"
  "chain_ok (p\<lparr>pl_target := g\<rparr>) = chain_ok p"
  by (simp_all add: chain_ok_def worker_ok_def)

lemma chain_ok_broken:
  assumes "worker_ok p" "pl_live p" "pl_chain p + 1 \<noteq> 0"
  shows "chain_ok (breakChain p)"
proof -
  have later: "qu_chain q < pl_chain p + 1" if "worker_unit (pl_worker p) = Some q" for q
    using assms(1) later_chain [OF assms(3)] that by (simp add: worker_ok_def)
  have "worker_ok (breakChain p)"
    using assms(1) later by (auto simp: worker_ok_def intro: less_imp_le)
  moreover have "held_unit (pl_chain p + 1) (pl_worker p) = []"
    using later by (intro held_stale) auto
  ultimately show ?thesis using assms(2,3) by (auto simp: chain_ok_def intro: fed_Nil)
qed

lemma chain_ok_break: "chain_ok p \<Longrightarrow> pl_chain p + 1 \<noteq> 0 \<Longrightarrow> chain_ok (breakChain p)"
  using chain_ok_broken by (simp add: chain_ok_def)

lemma fed_key_unit:
  assumes "fed_from E (S @ rest)" "au_keyframe u \<or> E \<noteq> []"
  shows "fed_from (E @ [u]) (S @ (if au_keyframe u then [] else rest) @ [u])"
  using fed_Key [OF assms(1), of u] fed_Next [OF assms(1), of u] assms(2) by (cases "au_keyframe u") simp_all

lemma chain_ok_enqueue:
  assumes "chain_ok p" "au_keyframe u \<or> pl_synced p" "\<not> pl_resetting p" "pl_chain p + 1 \<noteq> 0"
  shows "chain_ok (snd (enqueue True u p))"
proof -
  let ?q = "\<lparr>qu_chain = pl_chain p, qu_unit = u\<rparr>"
  have ok: "worker_ok p" "pl_live p" using assms(1) by (simp_all add: chain_ok_def)
  then have "chain_ok (breakChain (queue_key u p))"
    using assms(4) by (intro chain_ok_broken) (simp_all add: queue_key_def worker_ok_def)
  moreover have "chain_ok (queue_key u p\<lparr>pl_accepted := pl_accepted p @ [u], pl_pending := pl_pending (queue_key u p) @ [?q],
      pl_pending_bytes := n\<rparr>)" for n
  proof -
    obtain rest where rest: "fed_from (pl_accepted p) ((pl_fed p @ held_unit (pl_chain p) (pl_worker p)) @ rest)"
      "pl_closed p \<or> failed_on (pl_chain p) (pl_worker p) \<or> pl_over p \<noteq> None \<or> rest = map qu_unit (pl_pending p)"
      using assms(1) by (auto simp: chain_ok_def)
    have "au_keyframe u \<or> pl_accepted p \<noteq> []" using assms(1,2) by (auto simp: chain_ok_def)
    from fed_key_unit [OF rest(1) this] rest(2) show ?thesis
      using assms(1,3) unfolding chain_ok_def worker_ok_def
      by (intro conjI exI [of _ "(if au_keyframe u then [] else rest) @ [u]"]) (auto simp: queue_key_def)
  qed
  ultimately show ?thesis by (simp add: enqueue_eq Let_def)
qed

lemma chain_ok_accept:
  assumes "chain_ok p" "\<not> pl_resetting p" "pl_chain p + 1 \<noteq> 0" "pl_chain p + 1 + 1 \<noteq> 0"
  shows "chain_ok (snd (accept_unit True u p))"
  using assms chain_ok_break [OF assms(1,3)] chain_ok_enqueue [of p u] chain_ok_enqueue [of "breakChain p" u]
  by (simp add: accept_unit_def Let_def)

lemma chain_ok_receive:
  assumes "chain_ok p" "pl_chain p + 1 \<noteq> 0" "pl_chain p + 1 + 1 \<noteq> 0"
  shows "chain_ok (snd (receive True ctx packet p))"
  using assms chain_ok_break [of "p\<lparr>pl_depacketizer := d\<rparr>" for d] chain_ok_accept [of "p\<lparr>pl_depacketizer := d\<rparr>" for d]
  by (auto simp: receive_def Let_def split: prod.splits sum.splits option.splits)

text \<open>The worker's steps.\<close>

lemma chain_ok_take:
  assumes "queue_ok p" "chain_ok p"
  shows "chain_ok (take_unit p)"
proof (cases "pl_pending p \<noteq> [] \<and> pl_worker p = Idle \<and> pl_live p \<and> \<not> pl_closed p \<and> pl_over p = None \<and> \<not> pl_resetting p")
  case True
  then obtain q qs where pend: "pl_pending p = q # qs" by (cases "pl_pending p") auto
  have q: "qu_chain q = pl_chain p" "au_generation (qu_unit q) = pl_generation p"
    using assms(1) pend by (simp_all add: queue_ok_def)
  show ?thesis
    using assms(2) True q pend unfolding chain_ok_def worker_ok_def take_unit_def by auto
next
  case False
  then have "take_unit p = p" by (auto simp: take_unit_def split: list.splits)
  then show ?thesis using assms(2) by simp
qed

lemma chain_ok_enter: "chain_ok p \<Longrightarrow> chain_ok (enter_step p)"
proof (cases rule: enter_cases [of p])
  case (2 q)
  assume ok: "chain_ok p"
  from 2 obtain e where e: "enter_step p = worker_back q (Some e) p" by blast
  obtain rest where "fed_from (pl_accepted p) (pl_fed p @ held_unit (pl_chain p) (pl_worker p) @ rest)"
    using ok by (auto simp: chain_ok_def)
  then show ?thesis unfolding e using ok 2(1)
    by (auto simp: chain_ok_def worker_back_def worker_ok_def)
next
  case (3 q)
  assume ok: "chain_ok p"
  have "qu_chain q = pl_chain p" using 3 ok by (auto simp: decode_enter_def chain_ok_def worker_ok_def split: if_splits)
  then show ?thesis using ok 3 by (simp add: chain_ok_def worker_ok_def)
qed simp

lemma chain_ok_prepare: "chain_ok p \<Longrightarrow> chain_ok (prepare_step reset p)"
proof (cases rule: prepare_cases [of reset p])
  case (2 q c e)
  assume ok: "chain_ok p"
  then show ?thesis unfolding 2(2) using 2(1) by (auto simp: chain_ok_def worker_back_def worker_ok_def)
next
  case (3 q c)
  assume ok: "chain_ok p"
  then show ?thesis unfolding 3(2) using 3(1) by (auto simp: chain_ok_def feed_def worker_ok_def)
qed simp

lemma chain_ok_publish: "chain_ok p \<Longrightarrow> chain_ok (publish_step a p)"
proof (cases "pl_worker p")
  case (Decoding q c)
  assume ok: "chain_ok p"
  obtain r p' where r: "decode_publish a q c p = (r, p')" by fastforce
  have same: "chain_ok (p'\<lparr>pl_worker := w\<rparr>) = chain_ok (p\<lparr>pl_worker := w\<rparr>)" "pl_live p' = pl_live p" for w
    using publish_frame [OF r] by (auto simp: chain_ok_def worker_ok_def)
  have "chain_ok (p\<lparr>pl_worker := Finished q e\<rparr>)" for e
    using ok Decoding by (auto simp: chain_ok_def worker_ok_def)
  moreover have "pl_live p" using ok by (simp add: chain_ok_def)
  ultimately show ?thesis using same Decoding r by (simp add: publish_step_def worker_back_def)
qed (simp_all add: publish_step_def)

lemma chain_ok_done:
  assumes "chain_ok p" "pl_chain p + 1 \<noteq> 0"
  shows "chain_ok (done_step p)"
proof (cases "pl_worker p")
  case (Finished q e)
  have idle: "chain_ok (p'\<lparr>pl_worker := Idle\<rparr>)" if "chain_ok p'" "\<not> failed_on (pl_chain p') (pl_worker p') \<or> pl_closed p'"
    "held_unit (pl_chain p') (pl_worker p') = []" for p'
    using that by (auto simp: chain_ok_def worker_ok_def)
  have broken: "chain_ok (breakChain (p\<lparr>pl_live_error := l\<rparr>))" for l
    using assms by (intro chain_ok_break) simp_all
  have q: "qu_chain q < pl_chain p + 1" "qu_chain q = pl_chain p \<Longrightarrow> au_generation (qu_unit q) = pl_generation p \<and> \<not> pl_resetting p"
    using assms(1) later_chain [OF assms(2)] Finished by (auto simp: chain_ok_def worker_ok_def)
  show ?thesis
  proof (cases "\<not> pl_closed p \<and> \<not> pl_resetting p \<and> au_generation (qu_unit q) = pl_generation p \<and> qu_chain q = pl_chain p")
    case True
    have "chain_ok (live_done q e p)"
      using broken assms(1) True by (cases e) (simp_all add: live_done_def Let_def)
    moreover have "\<not> failed_on (pl_chain (live_done q e p)) (Finished q e)"
      using True q(1) by (cases e) (simp_all add: live_done_def Let_def)
    moreover have "pl_worker (live_done q e p) = Finished q e"
      using Finished by (simp add: live_done_def Let_def split: option.splits)
    ultimately show ?thesis using idle [of "live_done q e p"] Finished by (simp add: done_step_def)
  next
    case False
    then have "\<not> failed_on (pl_chain p) (pl_worker p) \<or> pl_closed p"
      using Finished q(2) by (cases e) auto
    moreover have "live_done q e p = p" unfolding live_done_def if_not_P [OF False] ..
    ultimately show ?thesis using idle [of p] assms(1) Finished by (simp add: done_step_def)
  qed
qed (use assms(1) in \<open>simp_all add: done_step_def\<close>)

lemma chain_ok_exit: "chain_ok p \<Longrightarrow> chain_ok (exit_step p)"
  by (auto simp: exit_step_def live_exit_def Let_def chain_ok_def worker_ok_def)

lemma chain_ok_over: "chain_ok p \<Longrightarrow> chain_ok (over_step e p)"
  by (auto simp: over_step_def chain_ok_def worker_ok_def)

lemma chain_ok_close: "chain_ok p \<Longrightarrow> chain_ok (pipeline_close p)"
  by (auto simp: pipeline_close_def close_notify_def chain_ok_def worker_ok_def)

lemma chain_ok_reset_begin:
  assumes "chain_ok p" "pl_chain p + 1 \<noteq> 0"
  shows "chain_ok (snd (reset_begin g p))"
proof -
  let ?b = "breakChain p"
  have later: "qu_chain q < pl_chain p + 1" if "worker_unit (pl_worker p) = Some q" for q
    using assms(1) later_chain [OF assms(2)] that by (simp add: chain_ok_def worker_ok_def)
  have "chain_ok (?b\<lparr>pl_resetting := True\<rparr>)"
    using chain_ok_break [OF assms] later by (auto simp: chain_ok_def worker_ok_def)
  moreover have "breakChain (p\<lparr>pl_resetting := True, pl_target := g, pl_latest := None\<rparr>) =
      ?b\<lparr>pl_resetting := True, pl_target := g\<rparr>"
    by (simp add: breakChain_def renew_notify_def close_notify_def)
  moreover have "chain_ok (?b\<lparr>pl_resetting := True, pl_target := g\<rparr>) = chain_ok (?b\<lparr>pl_resetting := True\<rparr>)"
    by (simp add: chain_ok_def worker_ok_def)
  ultimately show ?thesis using assms(1) by (simp add: reset_begin_def)
qed

lemma chain_ok_reset_end: "chain_ok p \<Longrightarrow> chain_ok (reset_end_step decoder p)"
proof -
  assume ok: "chain_ok p"
  have "chain_ok (p\<lparr>pl_generation := g, pl_resetting := False\<rparr>)" "chain_ok (p\<lparr>pl_resetting := False\<rparr>)" if "pl_resetting p" for g
    using ok that by (auto simp: chain_ok_def worker_ok_def)
  moreover have "chain_ok (p\<lparr>pl_depacketizer := d, pl_generation := g, pl_latest := None, pl_last_pli := 0, pl_resetting := False\<rparr>) =
      chain_ok (p\<lparr>pl_generation := g, pl_resetting := False\<rparr>)"
    "chain_ok (p\<lparr>pl_depacketizer := d, pl_resetting := False\<rparr>) = chain_ok (p\<lparr>pl_resetting := False\<rparr>)" for d g
    by (simp_all add: chain_ok_def worker_ok_def)
  ultimately show ?thesis
    using ok by (auto simp: reset_end_step_def reset_end_def Let_def split: option.splits prod.splits)
qed

lemma chain_ok_receive_step:
  assumes "chain_ok p" "pl_chain p + 1 \<noteq> 0" "pl_chain p + 1 + 1 \<noteq> 0"
  shows "chain_ok (receive_step ctx packet p)"
  using chain_ok_receive [OF assms] assms(1) by (simp add: receive_step_def chain_ok_def)

lemma chain_ok_step:
  assumes "queue_ok p" "chain_ok p" "pl_chain p + 1 \<noteq> 0" "pl_chain p + 1 + 1 \<noteq> 0"
  shows "chain_ok (pipe_step p op)"
proof (cases op)
  case (OpAwait rq ctx now pli)
  then show ?thesis using await_frame [of rq ctx now pli p] assms(2) by (auto simp: pipe_step_def)
next
  case (OpIdle now later)
  then show ?thesis using idle_frame [of now later p] assms(2) by (auto simp: pipe_step_def)
next
  case (OpStartLive ctx)
  moreover have "pl_live p" using assms(2) by (simp add: chain_ok_def)
  ultimately show ?thesis using assms(2) by (simp add: pipe_step_def start_live_def)
qed (simp_all add: pipe_step_def assms chain_ok_receive_step [OF assms(2-4)] chain_ok_take chain_ok_enter chain_ok_prepare chain_ok_publish
      chain_ok_done chain_ok_exit chain_ok_over chain_ok_reset_begin chain_ok_reset_end chain_ok_close)

text \<open>A step breaks the chain twice at most.\<close>

lemma accept_chain: "pl_chain (snd (accept_unit live u p)) \<in> {pl_chain p, pl_chain p + 1, pl_chain p + 1 + 1}"
  by (auto simp: accept_unit_def enqueue_eq Let_def)

lemma receive_chain: "pl_chain (receive_step ctx packet p) \<in> {pl_chain p, pl_chain p + 1, pl_chain p + 1 + 1}"
proof -
  have "pl_chain (snd (receive live ctx packet p)) \<in> {pl_chain p, pl_chain p + 1, pl_chain p + 1 + 1}" for live
    using accept_chain [of live _ "p\<lparr>pl_depacketizer := d\<rparr>" for d]
    by (auto simp: receive_def Let_def split: prod.splits sum.splits option.splits)
  from this [of True] this [of False] show ?thesis
    by (auto simp: receive_step_def split: prod.splits sum.splits option.splits)
qed

lemma step_chain: "pl_chain (pipe_step p op) \<in> {pl_chain p, pl_chain p + 1, pl_chain p + 1 + 1}"
proof (cases op)
  case OpEnter
  then show ?thesis by (cases rule: enter_cases [of p]) (auto simp: pipe_step_def worker_back_def)
next
  case (OpPrepare reset)
  then show ?thesis by (cases rule: prepare_cases [of reset p]) (auto simp: pipe_step_def worker_back_def feed_def)
next
  case (OpAwait rq ctx now pli)
  then show ?thesis using await_frame [of rq ctx now pli p] by (auto simp: pipe_step_def)
next
  case (OpIdle now later)
  then show ?thesis using idle_frame [of now later p] by (auto simp: pipe_step_def)
next
  case (OpPublish a)
  have "pl_chain p' = pl_chain p" if "decode_publish a q c p = (r, p')" for q c r p'
    using publish_frame [OF that] by auto
  then show ?thesis using OpPublish
    by (auto simp: pipe_step_def publish_step_def worker_back_def split: worker.splits prod.splits)
next
  case (OpReceive ctx packet)
  then show ?thesis using receive_chain by (simp add: pipe_step_def)
qed (auto simp: pipe_step_def take_unit_def done_step_def live_done_def exit_step_def live_exit_def start_live_def
      over_step_def reset_begin_def reset_end_step_def reset_end_def pipeline_close_def close_notify_def Let_def
      split: list.splits worker.splits option.splits prod.splits)

lemma chain_growth: "unat (pl_chain (pipe_step p op)) \<le> unat (pl_chain p) + 2"
proof -
  have "unat (c + 1) \<le> unat c + 1" for c :: u64 by (cases "c + 1 = 0") (simp_all add: unatSuc add.commute)
  from this [of "pl_chain p"] this [of "pl_chain p + 1"] show ?thesis using step_chain [of p op] by auto
qed

lemma chain_room: "unat c + 2 < 2 ^ 64 \<Longrightarrow> c + 1 \<noteq> 0 \<and> c + 1 + 1 \<noteq> (0 :: u64)"
  by (simp add: unat_eq_0 [symmetric] unat_word_ariths)

lemma chain_run:
  assumes "queue_ok p" "chain_ok p" "unat (pl_chain p) + 2 * length ops < 2 ^ 64"
  shows "chain_ok (foldl pipe_step p ops)"
  using assms
proof (induction ops arbitrary: p)
  case (Cons op ops)
  have "unat (pl_chain p) + 2 < 2 ^ 64" using Cons.prems(3) by simp
  then have "chain_ok (pipe_step p op)" using chain_ok_step Cons.prems(1,2) chain_room by blast
  moreover have "unat (pl_chain (pipe_step p op)) + 2 * length ops < 2 ^ 64"
    using chain_growth [of p op] Cons.prems(3) by simp
  ultimately show ?case using Cons.IH [OF queue_ok_step [OF Cons.prems(1)]] by simp
qed simp

section \<open>The decoder's chain\<close>

text \<open>The decoder has been reset since the last break before it is given a unit.\<close>

definition decoder_ok :: "pipeline \<Rightarrow> bool" where
  "decoder_ok p \<longleftrightarrow>
     (pl_fed p \<noteq> [] \<longrightarrow> pl_decoder_chain p = pl_chain p) \<and>
     (\<forall>q c. pl_worker p = Entered q c \<longrightarrow> c \<noteq> pl_chain p \<longrightarrow> pl_fed p = [])"

lemma decoder_ok_step: "decoder_ok p \<Longrightarrow> decoder_ok (pipe_step p op)"
proof (cases op)
  case OpEnter
  then show "decoder_ok p \<Longrightarrow> ?thesis"
    by (cases rule: enter_cases [of p]) (auto simp: pipe_step_def worker_back_def decoder_ok_def split: if_splits)
next
  case (OpPrepare reset)
  then show "decoder_ok p \<Longrightarrow> ?thesis"
    by (cases rule: prepare_cases [of reset p]) (auto simp: pipe_step_def worker_back_def feed_def decoder_ok_def split: if_splits)
next
  case (OpAwait rq ctx now pli)
  then show "decoder_ok p \<Longrightarrow> ?thesis" using await_frame [of rq ctx now pli p] by (auto simp: pipe_step_def decoder_ok_def)
next
  case (OpIdle now later)
  then show "decoder_ok p \<Longrightarrow> ?thesis" using idle_frame [of now later p] by (auto simp: pipe_step_def decoder_ok_def)
next
  case (OpPublish a)
  have "pl_chain p' = pl_chain p \<and> pl_fed p' = pl_fed p \<and> pl_decoder_chain p' = pl_decoder_chain p"
    if "decode_publish a q c p = (r, p')" for q c r p'
    using publish_frame [OF that] by auto
  then show "decoder_ok p \<Longrightarrow> ?thesis" using OpPublish
    by (auto simp: pipe_step_def publish_step_def worker_back_def decoder_ok_def split: worker.splits prod.splits)
next
  case (OpReceive ctx packet)
  have "decoder_ok p \<Longrightarrow> decoder_ok (snd (receive live ctx packet p))" for live
    by (auto simp: receive_def accept_unit_def enqueue_eq queue_key_def decoder_ok_def Let_def split: prod.splits sum.splits option.splits)
  from this [of True] this [of False] show "decoder_ok p \<Longrightarrow> ?thesis" using OpReceive
    by (auto simp: pipe_step_def receive_step_def decoder_ok_def split: prod.splits sum.splits option.splits)
qed (auto simp: decoder_ok_def pipe_step_def take_unit_def done_step_def live_done_def exit_step_def live_exit_def start_live_def
      over_step_def reset_begin_def reset_end_step_def reset_end_def pipeline_close_def close_notify_def Let_def
      split: list.splits worker.splits option.splits prod.splits)

interpretation decoder_runs: guarded_machine pipe_step decoder_ok
  by unfold_locales (rule decoder_ok_step)

section \<open>Properties\<close>

lemma with_defaults_again: "with_defaults (with_defaults l) = with_defaults l"
  by (simp add: with_defaults_def Let_def defaultMaxPacket_def defaultMaxAU_def defaultMaxPackets_def
      defaultMaxWidth_def defaultMaxHeight_def defaultMaxPixels_def)

lemma new_pipeline_shape:
  assumes "new_pipeline dev g l dec rq = Inr p"
  shows "notify_ok p" "queue_ok p" "decoder_ok p" "pl_worker p = Idle" "pl_chain p = 1" "pl_accepted p = []"
    "pl_fed p = []" "pl_pending p = []" "\<not> pl_synced p" "\<not> pl_resetting p" "pl_limits p = with_defaults l"
proof -
  obtain d where d: "new_depacketizer g (with_defaults l) = Inr d"
    using assms by (auto simp: new_pipeline_def Let_def split: if_splits sum.splits)
  have shape: "depack_inv d" "dp_generation d = g" "dp_limits d = with_defaults l"
    using new_depacketizer_inv [OF d] new_depacketizer_untouched [OF d] d
    by (auto simp: with_defaults_again new_depacketizer_def Let_def split: if_splits)
  have p: "pl_depacketizer p = d" "pl_generation p = g" "pl_limits p = with_defaults l" "pl_pending p = []" "pl_pending_bytes p = 0"
    "pl_latest p = None"
    using assms d by (auto simp: new_pipeline_def Let_def split: if_splits)
  show "queue_ok p" using shape p limits_pos [OF shape(1)] by (simp add: queue_ok_def)
  show "notify_ok p" "decoder_ok p" "pl_worker p = Idle" "pl_chain p = 1" "pl_accepted p = []"
    "pl_fed p = []" "pl_pending p = []" "\<not> pl_synced p" "\<not> pl_resetting p" "pl_limits p = with_defaults l"
    using assms d by (auto simp: new_pipeline_def notify_ok_def decoder_ok_def Let_def split: if_splits)
qed

lemma new_chain_ok:
  assumes "new_pipeline dev g l dec rq = Inr p0" "start_live None p0 = (None, p1)"
  shows "queue_ok p1" "chain_ok p1" "decoder_ok p1" "pl_chain p1 = 1"
proof -
  note new = new_pipeline_shape [OF assms(1)]
  have p1: "p1 = p0\<lparr>pl_live := True\<rparr>" using assms(2) by (simp add: start_live_def split: if_splits)
  show "queue_ok p1" "decoder_ok p1" "pl_chain p1 = 1" using new by (simp_all add: p1 decoder_ok_def)
  show "chain_ok p1" using new fed_Nil by (auto simp: p1 chain_ok_def worker_ok_def)
qed

text \<open>
  C38: whatever packets arrive, observers wait, decodes end, resets and closes happen, in whatever order, the
  notification channel of a pipeline is never closed twice (which would crash the process), and it is closed
  for good, so that every waiter wakes up, exactly when the pipeline is.
\<close>

theorem waiters_wake_exactly_on_close:
  assumes "new_pipeline dev g l dec rq = Inr p0"
  shows "\<not> pl_panicked (foldl pipe_step p0 ops) \<and>
    (pl_notify (foldl pipe_step p0 ops) \<longleftrightarrow> \<not> pl_closed (foldl pipe_step p0 ops))"
  using notify_runs.run_inv [OF new_pipeline_shape(1) [OF assms], of ops] by (simp add: notify_ok_def)

text \<open>
  C32: the queue of units that wait for the decoder never holds more than 32 units nor more bytes than one
  access unit may have, its byte counter is exact, and every queued unit is of the current chain and
  generation; the latest frame is of the current generation and within the configured dimensions.
\<close>

theorem decode_queue_is_bounded:
  assumes "new_pipeline dev g l dec rq = Inr p0" "p = foldl pipe_step p0 ops"
  shows "length (pl_pending p) \<le> 32 \<and>
    pl_pending_bytes p = sum_list (map (\<lambda>q. int (length (au_annexb (qu_unit q)))) (pl_pending p)) \<and>
    pl_pending_bytes p \<le> vl_unit_bytes (pl_limits p) \<and>
    list_all (\<lambda>q. qu_chain q = pl_chain p \<and> au_generation (qu_unit q) = pl_generation p) (pl_pending p) \<and>
    latest_ok (pl_generation p) (pl_limits p) (pl_latest p)"
  using queue_runs.run_inv [OF new_pipeline_shape(2) [OF assms(1)], of ops] assms(2) by (simp add: queue_ok_def)

text \<open>
  C26: on a live pipeline, after any interleaving of packets, losses, overload, decoder failures and resets,
  a unit that needs its predecessor is handed to the decoder only directly after the unit that was accepted
  directly before it, on a decoder that was reset since the reference chain was last broken.
\<close>

theorem no_unit_without_its_predecessor:
  assumes "new_pipeline dev g l dec rq = Inr p0" "start_live None p0 = (None, p1)" "2 * length ops + 1 < 2 ^ 64"
    "p = foldl pipe_step p1 ops" "pl_fed p = pre @ u # post" "\<not> au_keyframe u"
  shows "(\<exists>v pre' before after. pre = pre' @ [v] \<and> pl_accepted p = before @ v # u # after) \<and>
    pl_decoder_chain p = pl_chain p"
proof
  note new = new_chain_ok [OF assms(1,2)]
  have "chain_ok p" using chain_run [OF new(1,2)] new(4) assms(3,4) by simp
  then obtain rest where "fed_from (pl_accepted p) (pl_fed p @ rest)" by (auto simp: chain_ok_def)
  from predecessor_prefix [OF fed_from_predecessor [OF this]]
  show "\<exists>v pre' before after. pre = pre' @ [v] \<and> pl_accepted p = before @ v # u # after"
    using assms(5,6) by (simp add: needs_predecessor_def)
  show "pl_decoder_chain p = pl_chain p"
    using decoder_runs.run_inv [OF new(3), of ops] assms(4,5) by (simp add: decoder_ok_def)
qed

text \<open>
  C31: what a waiter gets is the latest frame of a pipeline that is open and on the generation it asked for; it
  is of that generation, no older than the limit, not before the instant it asked for, and not from the
  future. A keyframe is requested only when the minimum interval since the last request is over.
\<close>

theorem observation_is_current:
  assumes "new_pipeline dev g l dec rq = Inr p0" "p = foldl pipe_step p0 ops"
    "await_round req ctx now pli p = (out, requested, p')"
  shows "(\<forall>f. out = AwaitReturns (Inr f) \<longrightarrow>
      pl_latest p = Some f \<and> fr_generation f = or_generation req \<and> pl_generation p = or_generation req \<and> \<not> pl_closed p \<and>
      fr_received f \<le> now \<and> (or_not_before req = 0 \<or> or_not_before req \<le> fr_received f) \<and>
      time_sub now (fr_received f) \<le> (if or_freshness req = 0 then vl_freshness (pl_limits p) else or_freshness req)) \<and>
    (requested \<longrightarrow> pl_last_pli p' = now \<and>
      (pl_last_pli p = 0 \<or> time_sub now (pl_last_pli p) \<ge> vl_pli_interval (pl_limits p)))"
proof -
  have "queue_ok p" using queue_runs.run_inv [OF new_pipeline_shape(2) [OF assms(1)]] assms(2) by simp
  then have latest: "pl_latest p = Some f \<Longrightarrow> fr_generation f = pl_generation p" for f
    by (simp add: queue_ok_def latest_ok_def)
  have rest: "(\<forall>f. out' \<noteq> AwaitReturns (Inr f)) \<and> (asked \<longrightarrow> pl_last_pli q = now \<and> pli_due now p)"
    if "await_rest req now pli freshness p = (out', asked, q)" for freshness out' asked q
    using that by (auto simp: await_rest_def Let_def split: if_splits)
  show ?thesis
  proof (cases "pl_latest p")
    case None
    then show ?thesis using assms(3) rest by (fastforce simp: await_round_def Let_def pli_due_def split: if_splits)
  next
    case (Some f)
    show ?thesis
    proof (cases "\<exists>freshness. await_rest req now pli freshness p = (out, requested, p')")
      case True
      then show ?thesis using rest by (fastforce simp: pli_due_def)
    next
      case False
      then have "\<not> requested" using assms(3) Some by (auto simp: await_round_def Let_def split: if_splits)
      then show ?thesis
        using False assms(3) Some latest [OF Some]
        by (auto simp: await_round_def Let_def usable_def split: if_splits)
    qed
  qed
qed

definition ex_unit_packet :: "nat \<Rightarrow> u16 \<Rightarrow> u32 \<Rightarrow> bool \<Rightarrow> u8 \<Rightarrow> rtp_packet" where
  "ex_unit_packet now s t m b = (example_packet s t m [b, 1, 2, 3])\<lparr>rp_received := int now\<rparr>"

definition ex_pipeline :: pipeline where
  "ex_pipeline = (case new_pipeline ''dev'' 1 example_limits True True of Inr p \<Rightarrow> p | Inl _ \<Rightarrow> undefined)"

definition ex_answer :: publish_answer where
  "ex_answer = \<lparr>pa_result = Inr \<lparr>de_image = None, de_source = None, de_pending = True\<rparr>, pa_cancelled = None, pa_now = 9,
     pa_id = Inr ''obs_1''\<rparr>"

definition ex_key_ops :: "pipe_op list" where
  "ex_key_ops =
     [OpReceive None (ex_unit_packet 7 0 0 False 103), OpReceive None (ex_unit_packet 7 1 0 False 104),
      OpReceive None (ex_unit_packet 7 2 0 True 101), OpTake, OpEnter, OpPrepare None]"

definition ex_live_ops :: "pipe_op list" where
  "ex_live_ops =
     ex_key_ops @ [OpReceive None (ex_unit_packet 8 3 5 True 65), OpPublish ex_answer, OpLiveDone, OpTake, OpEnter, OpPrepare None]"

lemma ex_pipeline: "new_pipeline ''dev'' 1 example_limits True True = Inr ex_pipeline"
  by (simp add: ex_pipeline_def new_pipeline_def new_depacketizer_def example_limits_def with_defaults_def validate_video_limits_def
      defaultMaxPacket_def defaultMaxPackets_def defaultMaxWidth_def defaultMaxHeight_def defaultMaxPixels_def Let_def)

lemma ex_live: "start_live None ex_pipeline = (None, ex_pipeline\<lparr>pl_live := True\<rparr>)"
proof -
  have "\<not> pl_closed ex_pipeline \<and> \<not> pl_live ex_pipeline" by code_simp
  then show ?thesis by (simp add: start_live_def)
qed

definition ex_picture :: picture where
  "ex_picture = \<lparr>pc_width = 2, pc_height = 2, pc_planes = [], pc_color = no_color\<rparr>"

definition ex_shown :: "pipe_op list" where
  "ex_shown = ex_key_ops @
     [OpPublish (ex_answer\<lparr>pa_result := Inr \<lparr>de_image = Some ex_picture, de_source = None, de_pending = False\<rparr>\<rparr>), OpLiveDone]"

definition ex_request :: observe_request where
  "ex_request = \<lparr>or_generation = 1, or_freshness = 0, or_not_before = 0\<rparr>"

theorem waiters_wake_exactly_on_close_witness:
  "pl_closed (foldl pipe_step ex_pipeline (OpStartLive None # ex_live_ops @ [OpClosePipeline, OpLiveExit, OpClosePipeline])) \<and>
   \<not> pl_panicked (foldl pipe_step ex_pipeline (OpStartLive None # ex_live_ops @ [OpClosePipeline, OpLiveExit, OpClosePipeline]))"
proof
  show "\<not> pl_panicked (foldl pipe_step ex_pipeline (OpStartLive None # ex_live_ops @ [OpClosePipeline, OpLiveExit, OpClosePipeline]))"
    using waiters_wake_exactly_on_close [OF ex_pipeline] by blast
qed code_simp

theorem decode_queue_is_bounded_witness:
  "length (pl_pending (foldl pipe_step (ex_pipeline) (OpStartLive None # take 3 ex_key_ops))) = 1 \<and>
   pl_pending_bytes (foldl pipe_step ex_pipeline (OpStartLive None # take 3 ex_key_ops)) \<le> 100"
proof
  have "vl_unit_bytes (pl_limits (foldl pipe_step ex_pipeline (OpStartLive None # take 3 ex_key_ops))) = 100" by code_simp
  then show "pl_pending_bytes (foldl pipe_step ex_pipeline (OpStartLive None # take 3 ex_key_ops)) \<le> 100"
    using decode_queue_is_bounded [OF ex_pipeline refl, of "OpStartLive None # take 3 ex_key_ops"] by linarith
qed code_simp

theorem no_unit_without_its_predecessor_witness:
  "\<exists>k u before after. pl_fed (foldl pipe_step (ex_pipeline\<lparr>pl_live := True\<rparr>) ex_live_ops) = [k, u] \<and> \<not> au_keyframe u \<and>
     pl_accepted (foldl pipe_step (ex_pipeline\<lparr>pl_live := True\<rparr>) ex_live_ops) = before @ k # u # after"
proof -
  let ?p = "foldl pipe_step (ex_pipeline\<lparr>pl_live := True\<rparr>) ex_live_ops"
  have "map au_keyframe (pl_fed ?p) = [True, False]" by code_simp
  then obtain k u where fed: "pl_fed ?p = [k] @ u # []" "\<not> au_keyframe u" by (auto simp: map_eq_Cons_conv)
  have "2 * length ex_live_ops + 1 < 2 ^ 64" by (simp add: ex_live_ops_def ex_key_ops_def)
  from no_unit_without_its_predecessor [OF ex_pipeline ex_live this refl fed] fed show ?thesis by auto
qed

theorem observation_is_current_witness:
  "\<exists>f. fst (await_round ex_request None 10 None (foldl pipe_step ex_pipeline (OpStartLive None # ex_shown))) = AwaitReturns (Inr f) \<and>
     fr_generation f = 1 \<and> fr_received f \<le> 10"
proof -
  let ?p = "foldl pipe_step ex_pipeline (OpStartLive None # ex_shown)"
  obtain out asked q where r: "await_round ex_request None 10 None ?p = (out, asked, q)" using prod_cases3 by blast
  have "(case fst (await_round ex_request None 10 None ?p) of AwaitReturns (Inr f) \<Rightarrow> True | _ \<Rightarrow> False)" by code_simp
  then have "case out of AwaitReturns (Inr f) \<Rightarrow> True | _ \<Rightarrow> False" unfolding r fst_conv .
  then obtain f where f: "out = AwaitReturns (Inr f)" by (auto split: await_outcome.splits sum.splits)
  have "fr_generation f = 1 \<and> fr_received f \<le> 10"
    using observation_is_current [OF ex_pipeline refl r] f by (simp add: ex_request_def)
  then show ?thesis unfolding r fst_conv using f by blast
qed

end
