(* ===== verification/Updater.thy ===== *)
theory Updater
  imports Operation Keys
begin

text \<open>
  The self-update (\<open>internal/update\<close>): the request, the release and its assets, the verified download,
  the replacement of the executable with its rollback, and the install receipts. Outside are: semantic
  versions, SHA-256, the signature bundle's verification, archive formats, URLs and paths, the JSON form of
  a receipt, and the library that swaps an executable; they are the fields of \<open>host\<close>. What a call to
  the network, the file system, the lock or the clock answers is \<open>env\<close>, indexed by the calls made.
\<close>

section \<open>Values\<close>

datatype update_kind =
    UpInvalidRequest | UpInvalidReceipt | UpReceiptMismatch | UpUnsupportedOwner | UpReleaseNotFound
  | UpReleaseResolution | UpInProgress | UpChecksumMismatch | UpSignature | UpApplyFailed
  | UpRollbackUnavailable | UpRollbackFailed

text \<open>
  An \<open>Error\<close> is its kind followed by the chain of its cause; \<open>UpNotExist\<close> is
  \<open>os.ErrNotExist\<close>, \<open>UpMissing\<close> GitHub's answer with status 404.
\<close>

datatype update_error = Up update_kind | UpNotExist | UpMissing | UpOutside nat

type_synonym update_errors = "update_error list"

datatype owner =
    OwnerStandalone | OwnerHomebrew | OwnerWinget | OwnerScoop | OwnerDeb | OwnerRPM | OwnerSource
  | OwnerUnmanaged | OwnerUnknown | OwnerOther string


datatype channel = ChannelStable | ChannelPrerelease | ChannelOther string


record installation =
  in_id :: string
  in_owner :: owner
  in_executable :: string
  in_version :: string
  in_repository :: string
  in_channel :: channel
  in_installed :: time

record install_receipt =
  rt_schema :: int
  rt_id :: string
  rt_owner :: owner
  rt_executable :: string
  rt_version :: string
  rt_repository :: string
  rt_channel :: channel
  rt_installed :: time

definition receipt_installation :: "install_receipt \<Rightarrow> installation" where
  "receipt_installation r =
     \<lparr>in_id = rt_id r, in_owner = rt_owner r, in_executable = rt_executable r, in_version = rt_version r,
      in_repository = rt_repository r, in_channel = rt_channel r, in_installed = rt_installed r\<rparr>"

record release_assets =
  ra_archive :: string
  ra_checksums :: string
  ra_bundle :: string

text \<open>\<open>rl_native\<close> is the release of this backend, \<open>None\<close> for another one's.\<close>

record release =
  rl_version :: string
  rl_prerelease :: bool
  rl_asset :: string
  rl_url :: string
  rl_published :: time
  rl_native :: "release_assets option"



datatype plan_action = ActionNone | ActionSelfReplace | ActionRequired

record update_plan =
  pn_action :: plan_action
  pn_owner :: owner
  pn_current :: string
  pn_target :: string
  pn_executable :: string
  pn_channel :: channel
  pn_command :: "string list"
  pn_release :: release
  pn_id :: string

datatype update_status = StatusUpToDate | StatusActionRequired | StatusApplied | StatusRolledBack

record update_result =
  us_status :: update_status
  us_owner :: owner
  us_previous :: string
  us_current :: string
  us_verified :: bool
  us_rollback :: bool
  us_command :: "string list"

section \<open>Outside\<close>

type_synonym files = "string \<Rightarrow> bytes option"

record tar_entry =
  te_name :: string
  te_regular :: bool
  te_size :: int
  te_data :: bytes
  te_failed :: bool

datatype tar_item = TarEntry tar_entry | TarBad

text \<open>\<open>ze_failed\<close> says that opening, reading or closing the entry fails.\<close>

record zip_entry =
  ze_name :: string
  ze_regular :: bool
  ze_size :: int
  ze_data :: bytes
  ze_failed :: bool

record 'v host =
  up_semver :: "string \<Rightarrow> 'v option"
  up_compare :: "'v \<Rightarrow> 'v \<Rightarrow> int"
  up_show :: "'v \<Rightarrow> string"
  up_pre :: "'v \<Rightarrow> string"
  up_sha :: "bytes \<Rightarrow> bytes"
  up_verify :: "bytes \<Rightarrow> bytes \<Rightarrow> bool"
  up_tar :: "bytes \<Rightarrow> tar_item list option"
  up_zip :: "bytes \<Rightarrow> zip_entry list option"
  up_scheme :: "string \<Rightarrow> string option"
  up_clean :: "string \<Rightarrow> string"
  up_dir :: "string \<Rightarrow> string"
  up_join :: "string \<Rightarrow> string \<Rightarrow> string"
  up_abs :: "string \<Rightarrow> string option"
  up_is_abs :: "string \<Rightarrow> bool"
  up_uuid :: "string \<Rightarrow> bool"
  up_decode :: "bytes \<Rightarrow> install_receipt option"
  up_encode :: "install_receipt \<Rightarrow> bytes option"
  up_replace :: "nat \<Rightarrow> bytes \<Rightarrow> string \<Rightarrow> string \<Rightarrow> files \<Rightarrow> update_errors option \<times> files"
  up_os :: string
  up_arch :: string
  up_http :: bool

text \<open>What the new executable prints about itself.\<close>

record identity_report =
  id_schema :: string
  id_command :: string
  id_version :: string
  id_commit :: string
  id_os :: string
  id_arch :: string

record gh_asset =
  ga_name :: string
  ga_url :: string

record gh_release =
  gr_tag :: string
  gr_draft :: bool
  gr_prerelease :: bool
  gr_published :: time
  gr_assets :: "gh_asset list"

record up_answer =
  ua_error :: "update_errors option"
  ua_status :: int
  ua_length :: int
  ua_body :: bytes
  ua_now :: time
  ua_report :: "identity_report option"
  ua_release :: "gh_release option"
  ua_page :: "gh_release list"
  ua_next :: bool

type_synonym up_env = "nat \<Rightarrow> up_answer"

record up_world =
  uw_files :: files
  uw_tick :: nat
  uw_locked :: bool

type_synonym 'a up = "(update_errors + 'a) \<times> up_world"

definition ask_up :: "up_env \<Rightarrow> up_world \<Rightarrow> up_answer \<times> up_world" where
  "ask_up env w = (env (uw_tick w), w\<lparr>uw_tick := Suc (uw_tick w)\<rparr>)"

definition up_then :: "'a up \<Rightarrow> ('a \<Rightarrow> up_world \<Rightarrow> 'b up) \<Rightarrow> 'b up" where
  "up_then r k = (case r of (Inl e, w) \<Rightarrow> (Inl e, w) | (Inr x, w) \<Rightarrow> k x w)"

text \<open>A call that only succeeds or fails.\<close>

definition up_call :: "up_env \<Rightarrow> up_world \<Rightarrow> unit up" where
  "up_call env w = (let (a, w1) = ask_up env w in (case ua_error a of Some e \<Rightarrow> (Inl e, w1) | None \<Rightarrow> (Inr (), w1)))"

section \<open>Receipts\<close>

definition Repository :: string where
  "Repository = ''kaaanata/jetkvm-cli''"

definition ReceiptPath :: "'v host \<Rightarrow> string \<Rightarrow> string" where
  "ReceiptPath h exe = up_join h (up_dir h (up_clean h exe)) ''.jetkvm-install.json''"

definition previous_receipt_path :: "'v host \<Rightarrow> string \<Rightarrow> string" where
  "previous_receipt_path h exe = up_join h (up_dir h (up_clean h exe)) ''.jetkvm-install.previous.json''"

text \<open>\<open>strings.HasPrefix(s, "v")\<close> and \<open>strings.TrimPrefix(s, "v")\<close>.\<close>

definition trim_v :: "string \<Rightarrow> string" where
  "trim_v s = (case s of c # r \<Rightarrow> if c = CHR ''v'' then r else s | [] \<Rightarrow> [])"

definition validate_receipt :: "'v host \<Rightarrow> string \<Rightarrow> install_receipt \<Rightarrow> update_errors option" where
  "validate_receipt h current r =
     (let bad = Some [Up UpInvalidReceipt]
      in if rt_schema r \<noteq> 1 then bad
         else if \<not> up_uuid h (rt_id r) then bad
         else if rt_owner r \<noteq> OwnerStandalone \<and> rt_owner r \<noteq> OwnerUnmanaged then bad
         else if \<not> up_is_abs h (rt_executable r) \<or> up_clean h (rt_executable r) \<noteq> rt_executable r then bad
         else
           (case up_abs h current of
              None \<Rightarrow> Some [Up UpReceiptMismatch]
            | Some path \<Rightarrow>
                if up_clean h path \<noteq> rt_executable r then Some [Up UpReceiptMismatch]
                else if take 1 (rt_version r) = ''v'' then bad
                else if up_semver h (rt_version r) = None then bad
                else if rt_repository r \<noteq> Repository then bad
                else if rt_channel r \<noteq> ChannelStable \<and> rt_channel r \<noteq> ChannelPrerelease then bad
                else if rt_installed r = 0 then bad
                else None))"

definition load_receipt :: "'v host \<Rightarrow> up_env \<Rightarrow> string \<Rightarrow> string \<Rightarrow> up_world \<Rightarrow> install_receipt up" where
  "load_receipt h env path exe w =
     up_then (up_call env w) (\<lambda>_ w1.
       (case uw_files w1 path of
          None \<Rightarrow> (Inl [UpNotExist], w1)
        | Some data \<Rightarrow>
            (case up_decode h data of
               None \<Rightarrow> (Inl [Up UpInvalidReceipt], w1)
             | Some r \<Rightarrow> (case validate_receipt h exe r of Some e \<Rightarrow> (Inl e, w1) | None \<Rightarrow> (Inr r, w1)))))"

text \<open>The temporary file that is renamed over the receipt: one of its calls fails, or the receipt is new.\<close>

definition save_receipt :: "'v host \<Rightarrow> up_env \<Rightarrow> string \<Rightarrow> install_receipt \<Rightarrow> up_world \<Rightarrow> unit up" where
  "save_receipt h env path r w =
     (case validate_receipt h (rt_executable r) r of
        Some e \<Rightarrow> (Inl e, w)
      | None \<Rightarrow>
          (case up_encode h r of
             None \<Rightarrow> (Inl [UpOutside 0], w)
           | Some data \<Rightarrow>
               up_then (up_call env w) (\<lambda>_ w1. (Inr (), w1\<lparr>uw_files := (uw_files w1)(path \<mapsto> data @ [10])\<rparr>))))"

definition receipts_load :: "'v host \<Rightarrow> up_env \<Rightarrow> string \<Rightarrow> up_world \<Rightarrow> install_receipt up" where
  "receipts_load h env exe w = load_receipt h env (ReceiptPath h exe) exe w"

definition receipts_save :: "'v host \<Rightarrow> up_env \<Rightarrow> install_receipt \<Rightarrow> up_world \<Rightarrow> unit up" where
  "receipts_save h env r w =
     (if rt_owner r = OwnerUnmanaged then (Inl [Up UpInvalidReceipt], w)
      else save_receipt h env (ReceiptPath h (rt_executable r)) r w)"

definition receipts_load_previous :: "'v host \<Rightarrow> up_env \<Rightarrow> string \<Rightarrow> up_world \<Rightarrow> install_receipt up" where
  "receipts_load_previous h env exe w = load_receipt h env (previous_receipt_path h exe) exe w"

definition receipts_save_previous :: "'v host \<Rightarrow> up_env \<Rightarrow> install_receipt \<Rightarrow> up_world \<Rightarrow> unit up" where
  "receipts_save_previous h env r w =
     (if rt_owner r \<noteq> OwnerStandalone then (Inl [Up UpInvalidReceipt], w)
      else save_receipt h env (previous_receipt_path h (rt_executable r)) r w)"

text \<open>\<open>os.Remove\<close>, whose error the callers here drop.\<close>

definition remove_file :: "up_env \<Rightarrow> string \<Rightarrow> up_world \<Rightarrow> up_world" where
  "remove_file env path w =
     (let (a, w1) = ask_up env w in if ua_error a = None then w1\<lparr>uw_files := (uw_files w1)(path := None)\<rparr> else w1)"

definition receipts_remove_previous :: "'v host \<Rightarrow> up_env \<Rightarrow> string \<Rightarrow> up_world \<Rightarrow> up_world" where
  "receipts_remove_previous h env exe w = remove_file env (previous_receipt_path h exe) w"

definition new_standalone_receipt ::
    "'v host \<Rightarrow> string \<Rightarrow> string \<Rightarrow> string \<Rightarrow> channel \<Rightarrow> time \<Rightarrow> update_errors + install_receipt" where
  "new_standalone_receipt h uuid exe version ch at =
     (case up_abs h exe of
        None \<Rightarrow> Inl [UpOutside 1]
      | Some path \<Rightarrow>
          let r = \<lparr>rt_schema = 1, rt_id = uuid, rt_owner = OwnerStandalone, rt_executable = up_clean h path,
                   rt_version = trim_v version, rt_repository = Repository, rt_channel = ch, rt_installed = at\<rparr>
          in (case validate_receipt h (rt_executable r) r of Some e \<Rightarrow> Inl e | None \<Rightarrow> Inr r))"

definition resolve_installation ::
    "'v host \<Rightarrow> up_env \<Rightarrow> string \<Rightarrow> owner \<Rightarrow> string \<Rightarrow> channel \<Rightarrow> up_world \<Rightarrow> installation up" where
  "resolve_installation h env exe missing version ch w =
     (case receipts_load h env exe w of
        (Inr r, w1) \<Rightarrow> (Inr (receipt_installation r), w1)
      | (Inl e, w1) \<Rightarrow>
          if UpNotExist \<notin> set e then (Inl e, w1)
          else
            (case up_abs h exe of
               None \<Rightarrow> (Inl [UpOutside 1], w1)
             | Some path \<Rightarrow>
                 (Inr \<lparr>in_id = [], in_owner = (if missing = OwnerOther [] then OwnerUnknown else missing),
                       in_executable = up_clean h path, in_version = trim_v version, in_repository = Repository,
                       in_channel = ch, in_installed = 0\<rparr>, w1)))"

section \<open>Releases\<close>

definition maxReleaseArchiveBytes :: int where "maxReleaseArchiveBytes = 134217728"
definition maxReleaseBinaryBytes :: int where "maxReleaseBinaryBytes = 67108864"
definition maxMetadataBytes :: int where "maxMetadataBytes = 4194304"











section \<open>Download and verification\<close>

definition download_asset :: "'v host \<Rightarrow> up_env \<Rightarrow> string \<Rightarrow> int \<Rightarrow> up_world \<Rightarrow> bytes up" where
  "download_asset h env url limit w =
     (if \<not> (up_scheme h url = Some ''https'' \<or> up_http h \<and> up_scheme h url = Some ''http'')
      then (Inl [Up UpReleaseResolution], w)
      else
        up_then (up_call env w) (\<lambda>_ w1.
          let (a, w2) = ask_up env w1
          in (case ua_error a of
                Some e \<Rightarrow> (Inl (Up UpReleaseResolution # e), w2)
              | None \<Rightarrow>
                  if ua_status a \<noteq> 200 then (Inl [Up UpReleaseResolution], w2)
                  else if ua_length a > limit then (Inl [Up UpReleaseResolution], w2)
                  else
                    up_then (up_call env w2) (\<lambda>_ w3.
                      if int (length (ua_body a)) > limit then (Inl [Up UpReleaseResolution], w3)
                      else (Inr (ua_body a), w3)))))"

definition hex_value :: "u8 \<Rightarrow> u8 option" where
  "hex_value c =
     (if 48 \<le> c \<and> c \<le> 57 then Some (c - 48)
      else if 97 \<le> c \<and> c \<le> 102 then Some (c - 87)
      else if 65 \<le> c \<and> c \<le> 70 then Some (c - 55)
      else None)"

fun hex_decode :: "bytes \<Rightarrow> bytes option" where
  "hex_decode [] = Some []"
| "hex_decode [a] = None"
| "hex_decode (a # b # r) =
     (case (hex_value a, hex_value b, hex_decode r) of
        (Some x, Some y, Some bs) \<Rightarrow> Some ((16 * x + y) # bs)
      | _ \<Rightarrow> None)"

text \<open>\<open>strings.Lines\<close>; the line end stays with its line and is a space to \<open>strings.Fields\<close>.\<close>

fun text_lines :: "bytes \<Rightarrow> bytes \<Rightarrow> bytes list" where
  "text_lines [] cur = (if cur = [] then [] else [cur])"
| "text_lines (b # bs) cur = (if b = 10 then (cur @ [b]) # text_lines bs [] else text_lines bs (cur @ [b]))"

lemma is_space_code [code]:
  "is_space r \<longleftrightarrow>
     (if r < 128 then r \<in> {9, 10, 11, 12, 13, 32}
      else r \<in> {133, 160, 5760, 8232, 8233, 8239, 8287, 12288} \<or> (8192 \<le> r \<and> r \<le> 8202))"
  by (auto simp: is_space_def)

text \<open>\<open>strings.Fields\<close>: the maximal runs of runes that are not spaces.\<close>

function rune_chunks :: "bytes \<Rightarrow> (rune \<times> bytes) list" where
  "rune_chunks [] = []"
| "rune_chunks (b # s) =
     (case utf8_head (map unat (take 4 (b # s))) of
        Some (r, width) \<Rightarrow> (r, take width (b # s)) # rune_chunks (drop (width - 1) s)
      | None \<Rightarrow> (65533, [b]) # rune_chunks s)"
  by pat_completeness auto
termination by (relation "measure length") auto

fun field_groups :: "(rune \<times> bytes) list \<Rightarrow> bytes \<Rightarrow> bytes list" where
  "field_groups [] cur = (if cur = [] then [] else [cur])"
| "field_groups ((r, bs) # cs) cur =
     (if is_space r then (if cur = [] then field_groups cs [] else cur # field_groups cs [])
      else field_groups cs (cur @ bs))"

definition text_fields :: "bytes \<Rightarrow> bytes list" where
  "text_fields line = field_groups (rune_chunks line) []"

definition trim_star :: "bytes \<Rightarrow> bytes" where
  "trim_star s = (case s of c # r \<Rightarrow> if c = 42 then r else s | [] \<Rightarrow> [])"

fun checksum_loop :: "bytes \<Rightarrow> bytes list \<Rightarrow> bytes \<Rightarrow> nat \<Rightarrow> update_errors + bytes \<times> nat" where
  "checksum_loop name [] expected count = Inr (expected, count)"
| "checksum_loop name (line # lines) expected count =
     (case text_fields line of
        [digest, file] \<Rightarrow>
          if trim_star file \<noteq> name then checksum_loop name lines expected count
          else
            (case hex_decode digest of
               None \<Rightarrow> Inl [Up UpChecksumMismatch]
             | Some d \<Rightarrow>
                 if length d \<noteq> 32 then Inl [Up UpChecksumMismatch] else checksum_loop name lines d (Suc count))
      | _ \<Rightarrow> checksum_loop name lines expected count)"

definition verify_archive_checksum :: "'v host \<Rightarrow> string \<Rightarrow> bytes \<Rightarrow> bytes \<Rightarrow> update_errors option" where
  "verify_archive_checksum h name archive checksums =
     (case checksum_loop (text_bytes name) (text_lines checksums []) [] 0 of
        Inl e \<Rightarrow> Some e
      | Inr (expected, count) \<Rightarrow>
          if count \<noteq> 1 then Some [Up UpChecksumMismatch]
          else if up_sha h archive \<noteq> expected then Some [Up UpChecksumMismatch]
          else None)"

section \<open>Extraction\<close>

definition validate_extracted :: "bytes \<Rightarrow> update_errors + bytes" where
  "validate_extracted binary =
     (if binary = [] \<or> int (length binary) > maxReleaseBinaryBytes then Inl [Up UpApplyFailed] else Inr binary)"

text \<open>\<open>io.ReadAll(io.LimitReader(r, maxReleaseBinaryBytes+1))\<close>.\<close>

definition limited_read :: "bytes \<Rightarrow> bytes" where
  "limited_read data =
     (if int (length data) \<le> maxReleaseBinaryBytes + 1 then data else take (nat (maxReleaseBinaryBytes + 1)) data)"

definition tar_names :: "string list" where
  "tar_names = [''jetkvm'', ''LICENSE'', ''NOTICE'', ''README.md'']"

fun tar_loop :: "tar_item list \<Rightarrow> string list \<Rightarrow> int \<Rightarrow> bytes \<Rightarrow> update_errors + string list \<times> bytes" where
  "tar_loop [] seen expanded binary = Inr (seen, binary)"
| "tar_loop (TarBad # items) seen expanded binary = Inl [Up UpApplyFailed]"
| "tar_loop (TarEntry t # items) seen expanded binary =
     (if te_name t \<notin> set tar_names \<or> te_name t \<in> set seen \<or> \<not> te_regular t \<or> te_size t < 0
      then Inl [Up UpApplyFailed]
      else if i64 (expanded + te_size t) > maxReleaseArchiveBytes \<or> (te_name t = ''jetkvm'' \<and> te_size t > maxReleaseBinaryBytes)
      then Inl [Up UpApplyFailed]
      else if te_failed t then Inl [UpOutside 2]
      else tar_loop items (te_name t # seen) (i64 (expanded + te_size t))
             (if te_name t = ''jetkvm'' then limited_read (te_data t) else binary))"

definition extract_tar :: "'v host \<Rightarrow> bytes \<Rightarrow> update_errors + bytes" where
  "extract_tar h archive =
     (case up_tar h archive of
        None \<Rightarrow> Inl [Up UpApplyFailed]
      | Some items \<Rightarrow>
          (case tar_loop items [] 0 [] of
             Inl e \<Rightarrow> Inl e
           | Inr (seen, binary) \<Rightarrow> if length seen \<noteq> 4 then Inl [Up UpApplyFailed] else validate_extracted binary))"

fun zip_loop :: "zip_entry list \<Rightarrow> string list \<Rightarrow> bytes \<Rightarrow> update_errors + bytes" where
  "zip_loop [] seen binary = Inr binary"
| "zip_loop (z # zs) seen binary =
     (if ze_name z \<notin> {''jetkvm.exe'', ''LICENSE'', ''NOTICE'', ''README.md''} \<or> ze_name z \<in> set seen \<or> \<not> ze_regular z
      then Inl [Up UpApplyFailed]
      else if ze_name z \<noteq> ''jetkvm.exe'' then zip_loop zs (ze_name z # seen) binary
      else if ze_size z > maxReleaseBinaryBytes then Inl [Up UpApplyFailed]
      else if ze_failed z then Inl [UpOutside 2]
      else zip_loop zs (ze_name z # seen) (limited_read (ze_data z)))"

definition extract_zip :: "'v host \<Rightarrow> bytes \<Rightarrow> update_errors + bytes" where
  "extract_zip h archive =
     (case up_zip h archive of
        None \<Rightarrow> Inl [Up UpApplyFailed]
      | Some zs \<Rightarrow>
          if length zs \<noteq> 4 then Inl [Up UpApplyFailed]
          else (case zip_loop zs [] [] of Inl e \<Rightarrow> Inl e | Inr binary \<Rightarrow> validate_extracted binary))"

definition ends_with :: "string \<Rightarrow> string \<Rightarrow> bool" where
  "ends_with s suffix \<longleftrightarrow> length suffix \<le> length s \<and> drop (length s - length suffix) s = suffix"

definition extract_binary :: "'v host \<Rightarrow> string \<Rightarrow> bytes \<Rightarrow> update_errors + bytes" where
  "extract_binary h name archive =
     (if ends_with name ''.zip'' then extract_zip h archive
      else if ends_with name ''.tar.gz'' then extract_tar h archive
      else Inl [Up UpApplyFailed])"

section \<open>Replacement\<close>

definition swap_executable :: "'v host \<Rightarrow> bytes \<Rightarrow> string \<Rightarrow> string \<Rightarrow> up_world \<Rightarrow> unit up" where
  "swap_executable h content target backup w =
     (case up_replace h (uw_tick w) content target backup (uw_files w) of
        (e, fs) \<Rightarrow>
          let w1 = w\<lparr>uw_files := fs, uw_tick := Suc (uw_tick w)\<rparr>
          in (case e of Some x \<Rightarrow> (Inl x, w1) | None \<Rightarrow> (Inr (), w1)))"

definition self_check :: "'v host \<Rightarrow> up_env \<Rightarrow> string \<Rightarrow> up_world \<Rightarrow> unit up" where
  "self_check h env version w =
     (let (a, w1) = ask_up env w
      in (case ua_error a of
            Some e \<Rightarrow> (Inl e, w1)
          | None \<Rightarrow>
              (case ua_report a of
                 None \<Rightarrow> (Inl [UpOutside 3], w1)
               | Some i \<Rightarrow>
                   if id_schema i \<noteq> ''v1'' \<or> id_command i \<noteq> ''version'' \<or> id_version i \<noteq> trim_v version \<or> id_commit i = [] \<or>
                      id_os i \<noteq> up_os h \<or> id_arch i \<noteq> up_arch h
                   then (Inl [UpOutside 4], w1) else (Inr (), w1))))"

text \<open>The archive of a release, verified against the signed checksums, and the executable in it.\<close>

definition fetch_verified :: "'v host \<Rightarrow> up_env \<Rightarrow> release \<Rightarrow> release_assets \<Rightarrow> up_world \<Rightarrow> bytes up" where
  "fetch_verified h env rl assets w =
     up_then (download_asset h env (ra_checksums assets) maxMetadataBytes w) (\<lambda>checksums w1.
       up_then (download_asset h env (ra_bundle assets) maxMetadataBytes w1) (\<lambda>bundle w2.
         if \<not> up_verify h checksums bundle then (Inl [Up UpSignature], w2)
         else
           up_then (download_asset h env (ra_archive assets) maxReleaseArchiveBytes w2) (\<lambda>archive w3.
             (case verify_archive_checksum h (rl_asset rl) archive checksums of
                Some e \<Rightarrow> (Inl e, w3)
              | None \<Rightarrow> (extract_binary h (rl_asset rl) archive, w3)))))"

definition backend_apply :: "'v host \<Rightarrow> up_env \<Rightarrow> release \<Rightarrow> string \<Rightarrow> string \<Rightarrow> up_world \<Rightarrow> unit up" where
  "backend_apply h env rl target backup w =
     (case rl_native rl of
        None \<Rightarrow> (Inl [Up UpApplyFailed], w)
      | Some assets \<Rightarrow>
          up_then (fetch_verified h env rl assets w) (\<lambda>binary w1.
            up_then (swap_executable h binary target backup w1) (\<lambda>_ w2. self_check h env (rl_version rl) w2)))"

definition replace_from_file :: "'v host \<Rightarrow> up_env \<Rightarrow> string \<Rightarrow> string \<Rightarrow> string \<Rightarrow> up_world \<Rightarrow> unit up" where
  "replace_from_file h env source target backup w =
     up_then (up_call env w) (\<lambda>_ w1.
       up_then (up_call env w1) (\<lambda>_ w2.
         (case uw_files w2 source of
            None \<Rightarrow> (Inl [UpNotExist], w2)
          | Some content \<Rightarrow> swap_executable h content target backup w2)))"

section \<open>The service\<close>







definition previous_binary_path :: "string \<Rightarrow> string" where "previous_binary_path exe = exe @ ''.previous''"
definition failed_binary_path :: "string \<Rightarrow> string" where "failed_binary_path exe = exe @ ''.failed''"

text \<open>The lock is held for the body and given back whatever it returns.\<close>

definition with_lock :: "up_env \<Rightarrow> (up_world \<Rightarrow> 'a up) \<Rightarrow> up_world \<Rightarrow> 'a up" where
  "with_lock env body w =
     (let (a, w1) = ask_up env w
      in (case ua_error a of
            Some e \<Rightarrow> (Inl (Up UpInProgress # e), w1)
          | None \<Rightarrow> (case body (w1\<lparr>uw_locked := True\<rparr>) of (r, w2) \<Rightarrow> (r, w2\<lparr>uw_locked := False\<rparr>))))"

text \<open>The executable goes back to its backup after a failed activation.\<close>

definition undo_activation :: "'v host \<Rightarrow> up_env \<Rightarrow> string \<Rightarrow> update_errors \<Rightarrow> up_world \<Rightarrow> unit up" where
  "undo_activation h env exe cause w =
     (case replace_from_file h env (previous_binary_path exe) exe (failed_binary_path exe) w of
        (Inl e, w1) \<Rightarrow> (Inl (Up UpRollbackFailed # cause @ e), w1)
      | (Inr _, w1) \<Rightarrow>
          (Inr (), remove_file env (previous_binary_path exe) (remove_file env (failed_binary_path exe) w1)))"

fun first_kind :: "update_errors \<Rightarrow> update_errors" where
  "first_kind [] = []"
| "first_kind (Up k # e) = Up k # e"
| "first_kind (_ # e) = first_kind e"

definition apply_failure :: "update_errors \<Rightarrow> update_errors" where
  "apply_failure e =
     (case first_kind e of
        Up k # rest \<Rightarrow> if k = UpChecksumMismatch \<or> k = UpSignature then Up k # rest else Up UpApplyFailed # e
      | _ \<Rightarrow> Up UpApplyFailed # e)"

text \<open>The receipt of an activated release, or the way back.\<close>

definition commit_update :: "'v host \<Rightarrow> up_env \<Rightarrow> update_plan \<Rightarrow> install_receipt \<Rightarrow> up_world \<Rightarrow> update_result up" where
  "commit_update h env pn current w =
     (let (a, w1) = ask_up env w;
          next_receipt = current\<lparr>rt_version := pn_target pn, rt_channel := pn_channel pn, rt_installed := ua_now a\<rparr>
      in (case receipts_save h env next_receipt w1 of
            (Inr _, w2) \<Rightarrow>
              (Inr \<lparr>us_status = StatusApplied, us_owner = OwnerStandalone, us_previous = rt_version current,
                    us_current = pn_target pn, us_verified = True, us_rollback = True, us_command = []\<rparr>, w2)
          | (Inl e, w2) \<Rightarrow>
              (case undo_activation h env (pn_executable pn) e w2 of
                 (Inl e2, w3) \<Rightarrow> (Inl e2, w3)
               | (Inr _, w3) \<Rightarrow> (Inl (Up UpApplyFailed # e), receipts_remove_previous h env (pn_executable pn) w3))))"

definition install_update :: "'v host \<Rightarrow> up_env \<Rightarrow> update_plan \<Rightarrow> up_world \<Rightarrow> update_result up" where
  "install_update h env pn w =
     (let exe = pn_executable pn; backup = previous_binary_path exe
      in up_then (receipts_load h env exe w) (\<lambda>current w1.
           if rt_owner current \<noteq> OwnerStandalone \<or> rt_id current \<noteq> pn_id pn \<or> rt_version current \<noteq> pn_current pn
           then (Inl [Up UpReceiptMismatch], w1)
           else
             up_then (receipts_save_previous h env current w1) (\<lambda>_ w2.
               (case backend_apply h env (pn_release pn) exe backup w2 of
                  (Inr _, w3) \<Rightarrow> commit_update h env pn current w3
                | (Inl e, w3) \<Rightarrow>
                    (case (if uw_files w3 backup \<noteq> None then undo_activation h env exe e w3 else (Inr (), w3)) of
                       (Inl e2, w4) \<Rightarrow> (Inl e2, w4)
                     | (Inr _, w4) \<Rightarrow> (Inl (apply_failure e), receipts_remove_previous h env exe w4))))))"

definition service_apply :: "'v host \<Rightarrow> up_env \<Rightarrow> update_plan \<Rightarrow> up_world \<Rightarrow> update_result up" where
  "service_apply h env pn w =
     (let idle = \<lparr>us_status = StatusUpToDate, us_owner = pn_owner pn, us_previous = [], us_current = pn_current pn,
                  us_verified = False, us_rollback = False, us_command = []\<rparr>
      in if pn_action pn = ActionNone then (Inr idle, w)
         else if pn_action pn = ActionRequired
         then (Inr (idle\<lparr>us_status := StatusActionRequired, us_command := pn_command pn\<rparr>), w)
         else if pn_owner pn \<noteq> OwnerStandalone then (Inl [Up UpUnsupportedOwner], w)
         else with_lock env (install_update h env pn) w)"

definition restore_previous :: "'v host \<Rightarrow> up_env \<Rightarrow> string \<Rightarrow> up_world \<Rightarrow> update_result up" where
  "restore_previous h env exe w =
     (let backup = previous_binary_path exe; failed = failed_binary_path exe
      in up_then (receipts_load h env exe w) (\<lambda>current w1.
           (case receipts_load_previous h env exe w1 of
              (Inl e, w2) \<Rightarrow> (Inl (if UpNotExist \<in> set e then [Up UpRollbackUnavailable] else e), w2)
            | (Inr previous, w2) \<Rightarrow>
                if rt_id current \<noteq> rt_id previous \<or> rt_executable current \<noteq> rt_executable previous \<or>
                   rt_owner previous \<noteq> OwnerStandalone
                then (Inl [Up UpReceiptMismatch], w2)
                else
                  (case replace_from_file h env backup exe failed w2 of
                     (Inl e, w3) \<Rightarrow> (Inl (Up UpRollbackFailed # e), w3)
                   | (Inr _, w3) \<Rightarrow>
                       (case receipts_save h env previous w3 of
                          (Inl e, w4) \<Rightarrow>
                            (case replace_from_file h env failed exe backup w4 of
                               (Inl e2, w5) \<Rightarrow> (Inl (Up UpRollbackFailed # e @ e2), w5)
                             | (Inr _, w5) \<Rightarrow> (Inl (Up UpRollbackFailed # e), w5))
                        | (Inr _, w4) \<Rightarrow>
                            (Inr \<lparr>us_status = StatusRolledBack, us_owner = OwnerStandalone, us_previous = rt_version current,
                                  us_current = rt_version previous, us_verified = True, us_rollback = False, us_command = []\<rparr>,
                             receipts_remove_previous h env exe (remove_file env failed (remove_file env backup w4))))))))"

definition service_rollback :: "'v host \<Rightarrow> up_env \<Rightarrow> (up_world \<Rightarrow> installation up) \<Rightarrow> up_world \<Rightarrow> update_result up" where
  "service_rollback h env locate w =
     up_then (locate w) (\<lambda>i w1.
       if in_owner i \<noteq> OwnerStandalone then (Inl [Up UpUnsupportedOwner], w1)
       else with_lock env (restore_previous h env (in_executable i)) w1)"

section \<open>What the parts do to the files\<close>

text \<open>
  The library that swaps an executable, as its documentation states it: success puts the new content at the
  target and the old one at the backup; failure leaves the target as it was, or missing with its content at
  the backup. It touches no other file.
\<close>

definition replace_ok :: "'v host \<Rightarrow> bool" where
  "replace_ok h \<longleftrightarrow>
     (\<forall>t content target backup fs e fs'. target \<noteq> backup \<longrightarrow> up_replace h t content target backup fs = (e, fs') \<longrightarrow>
        (\<forall>p. p \<noteq> target \<longrightarrow> p \<noteq> backup \<longrightarrow> fs' p = fs p) \<and>
        (e = None \<longrightarrow> fs' target = Some content \<and> fs' backup = fs target) \<and>
        (e \<noteq> None \<longrightarrow> fs' target = fs target \<and> (fs' backup = fs backup \<or> fs' backup = None) \<or>
                     fs' target = None \<and> fs' backup = fs target))"

text \<open>The JSON form of a receipt, with the line end that is written after it, reads back.\<close>

definition codec_ok :: "'v host \<Rightarrow> bool" where
  "codec_ok h \<longleftrightarrow> (\<forall>r d. up_encode h r = Some d \<longrightarrow> up_decode h (d @ [10]) = Some r)"

text \<open>The path of the executable is clean and absolute, and its receipts are other files.\<close>

definition settled :: "'v host \<Rightarrow> string \<Rightarrow> bool" where
  "settled h exe \<longleftrightarrow>
     up_abs h exe = Some exe \<and> up_clean h exe = exe \<and>
     ReceiptPath h exe \<notin> {exe, previous_binary_path exe, failed_binary_path exe, previous_receipt_path h exe} \<and>
     previous_receipt_path h exe \<notin> {exe, previous_binary_path exe, failed_binary_path exe}"

lemma binary_paths [simp]:
  "previous_binary_path exe \<noteq> exe" "failed_binary_path exe \<noteq> exe" "previous_binary_path exe \<noteq> failed_binary_path exe"
  "exe \<noteq> previous_binary_path exe" "exe \<noteq> failed_binary_path exe" "failed_binary_path exe \<noteq> previous_binary_path exe"
  by (simp_all add: previous_binary_path_def failed_binary_path_def)

named_theorems up_elims "how a call of the updater came to its result"

lemma up_then_Inr: "up_then r k = (Inr x, w') \<longleftrightarrow> (\<exists>y w1. r = (Inr y, w1) \<and> k y w1 = (Inr x, w'))"
  by (auto simp: up_then_def split: prod.splits sum.splits)


lemma up_call_files [up_elims]: "up_call env w = (r, w') \<Longrightarrow> uw_files w' = uw_files w"
  by (auto simp: up_call_def ask_up_def Let_def split: option.splits)

lemma ask_files [up_elims]: "ask_up env w = (a, w') \<Longrightarrow> uw_files w' = uw_files w"
  by (auto simp: ask_up_def)

lemma download_files [up_elims]: "download_asset h env url limit w = (r, w') \<Longrightarrow> uw_files w' = uw_files w"
  by (auto simp: download_asset_def up_then_def Let_def split: if_splits prod.splits sum.splits option.splits dest!: up_elims)

lemma fetch_files [up_elims]: "fetch_verified h env rl assets w = (r, w') \<Longrightarrow> uw_files w' = uw_files w"
  by (auto simp: fetch_verified_def up_then_def split: if_splits prod.splits sum.splits option.splits dest!: download_files)

lemma check_files [up_elims]: "self_check h env v w = (r, w') \<Longrightarrow> uw_files w' = uw_files w"
  by (auto simp: self_check_def ask_up_def Let_def split: if_splits option.splits)

lemma load_files [up_elims]: "load_receipt h env path exe w = (r, w') \<Longrightarrow> uw_files w' = uw_files w"
  by (auto simp: load_receipt_def up_then_def split: prod.splits sum.splits option.splits dest!: up_call_files)

lemma load_result:
  "load_receipt h env path exe w = (Inr r, w') \<Longrightarrow>
     validate_receipt h exe r = None \<and> (\<exists>d. uw_files w path = Some d \<and> up_decode h d = Some r)"
  by (auto simp: load_receipt_def up_then_def split: prod.splits sum.splits option.splits dest!: up_call_files)

lemma valid_executable: "settled h exe \<Longrightarrow> validate_receipt h exe r = None \<Longrightarrow> rt_executable r = exe"
  by (simp add: settled_def validate_receipt_def Let_def split: if_splits)

lemma save_refused: "save_receipt h env path r w = (Inl e, w') \<Longrightarrow> uw_files w' = uw_files w"
  by (auto simp: save_receipt_def up_then_def split: prod.splits sum.splits option.splits dest!: up_call_files)

lemma save_result:
  "save_receipt h env path r w = (Inr u, w') \<Longrightarrow>
     \<exists>d. up_encode h r = Some d \<and> uw_files w' = (uw_files w)(path \<mapsto> d @ [10])"
  by (auto simp: save_receipt_def up_then_def split: prod.splits sum.splits option.splits dest!: up_call_files)

lemma remove_files: "uw_files (remove_file env p w) = uw_files w \<or> uw_files (remove_file env p w) = (uw_files w)(p := None)"
  by (simp add: remove_file_def ask_up_def Let_def)

lemma removed_other: "p \<noteq> q \<Longrightarrow> uw_files (remove_file env q w) p = uw_files w p"
  using remove_files [of env q w] by auto

lemma swap_result:
  assumes "replace_ok h" "target \<noteq> backup" "swap_executable h content target backup w = (r, w')"
  shows "(\<forall>p. p \<noteq> target \<longrightarrow> p \<noteq> backup \<longrightarrow> uw_files w' p = uw_files w p)"
    "r = Inr () \<Longrightarrow> uw_files w' target = Some content \<and> uw_files w' backup = uw_files w target"
    "r = Inl e \<Longrightarrow> uw_files w' target = uw_files w target \<and> (uw_files w' backup = uw_files w backup \<or> uw_files w' backup = None) \<or>
       uw_files w' backup = uw_files w target"
proof -
  obtain x fs where x: "up_replace h (uw_tick w) content target backup (uw_files w) = (x, fs)" by fastforce
  have fs: "(\<forall>p. p \<noteq> target \<longrightarrow> p \<noteq> backup \<longrightarrow> fs p = uw_files w p) \<and>
      (x = None \<longrightarrow> fs target = Some content \<and> fs backup = uw_files w target) \<and>
      (x \<noteq> None \<longrightarrow> fs target = uw_files w target \<and> (fs backup = uw_files w backup \<or> fs backup = None) \<or>
        fs target = None \<and> fs backup = uw_files w target)"
    by (rule assms(1) [unfolded replace_ok_def, THEN spec, THEN spec, THEN spec, THEN spec, THEN spec, THEN spec, THEN spec,
          THEN mp, THEN mp, OF assms(2) x])
  have r: "uw_files w' = fs" "r = (case x of Some e \<Rightarrow> Inl e | None \<Rightarrow> Inr ())"
    using assms(3) x by (auto simp: swap_executable_def Let_def split: option.splits)
  show "\<forall>p. p \<noteq> target \<longrightarrow> p \<noteq> backup \<longrightarrow> uw_files w' p = uw_files w p" using fs r by simp
  show "r = Inr () \<Longrightarrow> uw_files w' target = Some content \<and> uw_files w' backup = uw_files w target"
    using fs r by (cases x) simp_all
  show "r = Inl e \<Longrightarrow> uw_files w' target = uw_files w target \<and> (uw_files w' backup = uw_files w backup \<or> uw_files w' backup = None) \<or>
       uw_files w' backup = uw_files w target"
    using fs r by (cases x) auto
qed

lemma restored:
  assumes "replace_ok h" "target \<noteq> backup" "replace_from_file h env source target backup w = (Inr u, w')"
  shows "uw_files w source \<noteq> None" "uw_files w' target = uw_files w source" "uw_files w' backup = uw_files w target"
    "\<forall>p. p \<noteq> target \<longrightarrow> p \<noteq> backup \<longrightarrow> uw_files w' p = uw_files w p"
proof -
  obtain w1 content where w1: "uw_files w1 = uw_files w" "uw_files w source = Some content"
      "swap_executable h content target backup w1 = (Inr (), w')"
    using assms(3) by (auto simp: replace_from_file_def up_then_Inr split: option.splits dest!: up_call_files)
  note swapped = swap_result(2) [OF assms(1,2) w1(3) refl]
  show "uw_files w source \<noteq> None" by (simp only: w1(2)) simp
  show "uw_files w' target = uw_files w source" by (simp only: w1(2) swapped)
  show "uw_files w' backup = uw_files w target" by (simp only: w1(1) swapped)
  show "\<forall>p. p \<noteq> target \<longrightarrow> p \<noteq> backup \<longrightarrow> uw_files w' p = uw_files w p"
    using swap_result(1) [OF assms(1,2) w1(3)] by (simp only: w1(1))
qed


lemma backend_applied:
  assumes "replace_ok h" "target \<noteq> backup" "backend_apply h env rl target backup w = (Inr u, w')"
  shows "\<exists>assets binary w1. rl_native rl = Some assets \<and> fetch_verified h env rl assets w = (Inr binary, w1) \<and>
    uw_files w' target = Some binary \<and> uw_files w' backup = uw_files w target \<and>
    (\<forall>p. p \<noteq> target \<longrightarrow> p \<noteq> backup \<longrightarrow> uw_files w' p = uw_files w p)"
proof -
  obtain assets binary w1 w2 where s: "rl_native rl = Some assets" "fetch_verified h env rl assets w = (Inr binary, w1)"
      "swap_executable h binary target backup w1 = (Inr (), w2)" "self_check h env (rl_version rl) w2 = (Inr u, w')"
    using assms(3) by (auto simp: backend_apply_def up_then_Inr split: option.splits)
  have "uw_files w1 = uw_files w" "uw_files w' = uw_files w2" using fetch_files [OF s(2)] check_files [OF s(4)] .
  then show ?thesis
    using swap_result(1) [OF assms(1,2) s(3)] swap_result(2) [OF assms(1,2) s(3) refl] s(1,2) by simp
qed


lemma locked_result:
  assumes "with_lock env body w = (r, w')"
  shows "(\<exists>e. r = Inl e \<and> uw_files w' = uw_files w) \<or>
    (\<exists>w1 w2. uw_files w1 = uw_files w \<and> body w1 = (r, w2) \<and> uw_files w' = uw_files w2)"
proof -
  obtain a w1 where a: "ask_up env w = (a, w1)" by fastforce
  obtain r1 w2 where b: "body (w1\<lparr>uw_locked := True\<rparr>) = (r1, w2)" by fastforce
  have fs: "uw_files (w1\<lparr>uw_locked := True\<rparr>) = uw_files w" using ask_files [OF a] by simp
  show ?thesis
  proof (cases "ua_error a")
    case None
    then have "r1 = r" "w' = w2\<lparr>uw_locked := False\<rparr>" using assms a b by (simp_all add: with_lock_def)
    then have "uw_files w' = uw_files w2" by simp
    then show ?thesis using fs b \<open>r1 = r\<close> by blast
  next
    case (Some e)
    then show ?thesis using assms a ask_files [OF a] by (auto simp: with_lock_def)
  qed
qed

text \<open>How an installation under the lock ends.\<close>

lemma install_cases:
  assumes "install_update h env pn w = (r, w')"
  obtains (early) e where "r = Inl e" "uw_files w' = uw_files w"
  | (refused) current e w2 w3 w4 where "\<And>p. p \<noteq> previous_receipt_path h (rt_executable current) \<Longrightarrow> uw_files w2 p = uw_files w p"
      "validate_receipt h (pn_executable pn) current = None"
      "backend_apply h env (pn_release pn) (pn_executable pn) (previous_binary_path (pn_executable pn)) w2 = (Inl e, w3)"
      "(if uw_files w3 (previous_binary_path (pn_executable pn)) \<noteq> None then undo_activation h env (pn_executable pn) e w3
        else (Inr (), w3)) = (Inr (), w4)"
      "r = Inl (apply_failure e)" "w' = receipts_remove_previous h env (pn_executable pn) w4"
  | (stuck) e where "r = Inl (Up UpRollbackFailed # e)"
  | (activated) current d w2 w3 where "validate_receipt h (pn_executable pn) current = None"
      "\<exists>d. uw_files w (ReceiptPath h (pn_executable pn)) = Some d \<and> up_decode h d = Some current"
      "up_encode h current = Some d"
      "uw_files w2 = (uw_files w)(previous_receipt_path h (rt_executable current) \<mapsto> d @ [10])"
      "backend_apply h env (pn_release pn) (pn_executable pn) (previous_binary_path (pn_executable pn)) w2 = (Inr (), w3)"
      "commit_update h env pn current w3 = (r, w')"
proof -
  let ?exe = "pn_executable pn"
  obtain r1 w1 where load: "receipts_load h env ?exe w = (r1, w1)" by fastforce
  have f1: "uw_files w1 = uw_files w" using load_files load by (auto simp: receipts_load_def)
  show thesis
  proof (cases r1)
    case (Inl e)
    then show thesis using early [of e] assms f1 load by (simp add: install_update_def up_then_def Let_def)
  next
    case (Inr current)
    have valid: "validate_receipt h ?exe current = None \<and>
        (\<exists>d. uw_files w (ReceiptPath h ?exe) = Some d \<and> up_decode h d = Some current)"
      using load_result load Inr unfolding receipts_load_def by blast
    show thesis
    proof (cases "rt_owner current \<noteq> OwnerStandalone \<or> rt_id current \<noteq> pn_id pn \<or> rt_version current \<noteq> pn_current pn")
      case True
      then show thesis using early [of "[Up UpReceiptMismatch]"] assms f1 load Inr
        by (simp add: install_update_def up_then_def Let_def)
    next
      case False
      obtain r2 w2 where save: "receipts_save_previous h env current w1 = (r2, w2)" by fastforce
      have save': "save_receipt h env (previous_receipt_path h (rt_executable current)) current w1 = (r2, w2)"
        using save False by (simp add: receipts_save_previous_def)
      show thesis
      proof (cases r2)
        case (Inl e)
        then have "uw_files w2 = uw_files w" using save_refused save' f1 by fastforce
        then show thesis using early [of e] assms load \<open>r1 = Inr current\<close> False save Inl
          by (simp add: install_update_def up_then_def Let_def)
      next
        case r2: (Inr u)
        obtain d where d: "up_encode h current = Some d" "uw_files w2 = (uw_files w)(previous_receipt_path h (rt_executable current) \<mapsto> d @ [10])"
          using save_result save' r2 f1 by fastforce
        obtain r3 w3 where b: "backend_apply h env (pn_release pn) ?exe (previous_binary_path ?exe) w2 = (r3, w3)" by fastforce
        show thesis
        proof (cases r3)
          case r3: (Inr u')
          then show thesis
            using activated [of current d w2 w3] valid d assms load Inr False save r2 b
            by (simp add: install_update_def up_then_def Let_def)
        next
          case r3: (Inl e)
          obtain r4 w4 where u: "(if uw_files w3 (previous_binary_path ?exe) \<noteq> None then undo_activation h env ?exe e w3
              else (Inr (), w3)) = (r4, w4)" by fastforce
          have res: "(case r4 of Inl e2 \<Rightarrow> (Inl e2, w4) | Inr _ \<Rightarrow> (Inl (apply_failure e), receipts_remove_previous h env ?exe w4)) = (r, w')"
            using assms load Inr False save r2 b r3 u by (simp add: install_update_def up_then_def Let_def cong: sum.case_cong)
          show thesis
          proof (cases r4)
            case r4: (Inr u')
            then show thesis using refused [of current w2 e w3 w4] d valid b r3 u res by simp
          next
            case r4: (Inl e2)
            have "\<exists>e'. e2 = Up UpRollbackFailed # e'"
              using u r4 by (auto simp: undo_activation_def split: if_splits prod.splits sum.splits)
            then show thesis using stuck res r4 by auto
          qed
        qed
      qed
    qed
  qed
qed

lemma committed:
  assumes "commit_update h env pn current w = (Inr r, w')"
  shows "us_status r = StatusApplied \<and> (\<exists>t d. up_encode h (current\<lparr>rt_version := pn_target pn, rt_channel := pn_channel pn, rt_installed := t\<rparr>) = Some d \<and>
    uw_files w' = (uw_files w)(ReceiptPath h (rt_executable current) \<mapsto> d @ [10]))"
proof -
  obtain a w1 where a: "ask_up env w = (a, w1)" by fastforce
  let ?n = "current\<lparr>rt_version := pn_target pn, rt_channel := pn_channel pn, rt_installed := ua_now a\<rparr>"
  obtain r1 w2 where s: "receipts_save h env ?n w1 = (r1, w2)" by fastforce
  show ?thesis
  proof (cases r1)
    case (Inl e)
    obtain r3 w3 where "undo_activation h env (pn_executable pn) e w2 = (r3, w3)" by fastforce
    then show ?thesis using assms a s Inl by (cases r3) (simp_all add: commit_update_def Let_def)
  next
    case (Inr u)
    then have r: "us_status r = StatusApplied" "w' = w2" using assms a s by (auto simp: commit_update_def Let_def)
    have "save_receipt h env (ReceiptPath h (rt_executable current)) ?n w1 = (Inr u, w2)"
      using s Inr by (simp add: receipts_save_def split: if_splits)
    from save_result [OF this] show ?thesis using r ask_files [OF a] by auto
  qed
qed


text \<open>The digests a checksum file lists for a name.\<close>

definition entry_of :: "bytes \<Rightarrow> bytes \<Rightarrow> bytes option list" where
  "entry_of name line = (case text_fields line of [digest, file] \<Rightarrow> if trim_star file = name then [hex_decode digest] else [] | _ \<Rightarrow> [])"

definition checksum_entries :: "string \<Rightarrow> bytes \<Rightarrow> bytes option list" where
  "checksum_entries name checksums = concat (map (entry_of (text_bytes name)) (text_lines checksums []))"

lemma checksum_loop_result:
  "checksum_loop name lines e c = Inr (e', c') \<Longrightarrow>
     c' = c + length (concat (map (entry_of name) lines)) \<and>
     (if concat (map (entry_of name) lines) = [] then e' = e else last (concat (map (entry_of name) lines)) = Some e')"
proof (induction lines arbitrary: e c)
  case (Cons line lines)
  show ?case
  proof (cases "entry_of name line")
    case Nil
    then have "checksum_loop name (line # lines) e c = checksum_loop name lines e c"
      by (auto simp: entry_of_def split: list.splits if_splits)
    then show ?thesis using Cons.IH [of e c] Cons.prems Nil by simp
  next
    case entry: (Cons x xs)
    then obtain digest listed where f: "text_fields line = [digest, listed]" "trim_star listed = name" "x = hex_decode digest" "xs = []"
      by (auto simp: entry_of_def split: list.splits if_splits)
    then obtain d where d: "hex_decode digest = Some d" "length d = 32"
      using Cons.prems by (auto split: option.splits if_splits)
    then have "checksum_loop name lines d (Suc c) = Inr (e', c')" using Cons.prems f by simp
    from Cons.IH [OF this] d entry f(3,4) show ?thesis by (auto split: if_splits)
  qed
qed simp

lemma checksum_verified:
  "verify_archive_checksum h name archive checksums = None \<Longrightarrow> checksum_entries name checksums = [Some (up_sha h archive)]"
proof -
  assume "verify_archive_checksum h name archive checksums = None"
  then have "checksum_loop (text_bytes name) (text_lines checksums []) [] 0 = Inr (up_sha h archive, 1)"
    by (auto simp: verify_archive_checksum_def split: sum.splits prod.splits if_splits)
  from checksum_loop_result [OF this]
  have es: "length (checksum_entries name checksums) = 1"
    "checksum_entries name checksums \<noteq> [] \<longrightarrow> last (checksum_entries name checksums) = Some (up_sha h archive)"
    by (simp_all add: checksum_entries_def)
  then obtain x where "checksum_entries name checksums = [x]" by (auto simp: length_Suc_conv)
  then show ?thesis using es(2) by simp
qed

lemma fetch_result:
  assumes "fetch_verified h env rl assets w = (Inr binary, w')"
  shows "\<exists>checksums bundle archive. up_verify h checksums bundle \<and>
    checksum_entries (rl_asset rl) checksums = [Some (up_sha h archive)] \<and> extract_binary h (rl_asset rl) archive = Inr binary"
proof -
  obtain checksums w1 signed w2 archive w3 where "up_verify h checksums signed"
      "(case verify_archive_checksum h (rl_asset rl) archive checksums of
          Some e \<Rightarrow> (Inl e, w3) | None \<Rightarrow> (extract_binary h (rl_asset rl) archive, w3)) = (Inr binary, w')"
    using assms by (auto simp: fetch_verified_def up_then_Inr split: if_splits)
  then show ?thesis
    using checksum_verified [of h "rl_asset rl" archive checksums]
    by (cases "verify_archive_checksum h (rl_asset rl) archive checksums") auto
qed

section \<open>Properties\<close>


lemma applied_result:
  assumes "replace_ok h" "codec_ok h" "settled h (pn_executable pn)" "service_apply h env pn w = (Inr r, w')"
    "us_status r = StatusApplied"
  shows "(\<exists>checksums bundle archive binary. up_verify h checksums bundle \<and>
      checksum_entries (rl_asset (pn_release pn)) checksums = [Some (up_sha h archive)] \<and>
      extract_binary h (rl_asset (pn_release pn)) archive = Inr binary \<and>
      uw_files w' (pn_executable pn) = Some binary) \<and>
    uw_files w' (previous_binary_path (pn_executable pn)) = uw_files w (pn_executable pn) \<and>
    (\<exists>old t. (\<exists>d. uw_files w (ReceiptPath h (pn_executable pn)) = Some d \<and> up_decode h d = Some old) \<and>
      (\<exists>d. uw_files w' (ReceiptPath h (pn_executable pn)) = Some d \<and>
           up_decode h d = Some (old\<lparr>rt_version := pn_target pn, rt_channel := pn_channel pn, rt_installed := t\<rparr>)) \<and>
      (\<exists>d. uw_files w' (previous_receipt_path h (pn_executable pn)) = Some d \<and> up_decode h d = Some old))"
proof -
  let ?exe = "pn_executable pn"
  have "with_lock env (install_update h env pn) w = (Inr r, w')"
    using assms(4,5) by (auto simp: service_apply_def Let_def split: if_splits)
  from locked_result [OF this] obtain w1 w2 where fs: "uw_files w1 = uw_files w" "uw_files w' = uw_files w2"
    and run: "install_update h env pn w1 = (Inr r, w2)" by auto
  from run show ?thesis
  proof (cases rule: install_cases)
    case (activated current d v2 v3)
    have current: "rt_executable current = ?exe" using valid_executable [OF assms(3) activated(1)] .
    obtain t d' where new: "up_encode h (current\<lparr>rt_version := pn_target pn, rt_channel := pn_channel pn, rt_installed := t\<rparr>) = Some d'"
        "uw_files w2 = (uw_files v3)(ReceiptPath h ?exe \<mapsto> d' @ [10])"
      using committed [OF activated(6)] unfolding current by blast
    obtain assets binary u1 where b: "fetch_verified h env (pn_release pn) assets v2 = (Inr binary, u1)" "uw_files v3 ?exe = Some binary"
        "uw_files v3 (previous_binary_path ?exe) = uw_files v2 ?exe"
        "\<forall>p. p \<noteq> ?exe \<longrightarrow> p \<noteq> previous_binary_path ?exe \<longrightarrow> uw_files v3 p = uw_files v2 p"
      using backend_applied [OF assms(1) binary_paths(4) activated(5)] by blast
    have paths: "previous_receipt_path h ?exe \<notin> {?exe, previous_binary_path ?exe}" "previous_receipt_path h ?exe \<noteq> ReceiptPath h ?exe"
      "ReceiptPath h ?exe \<notin> {?exe, previous_binary_path ?exe}" using assms(3) by (auto simp: settled_def)
    have reads: "up_decode h (d @ [10]) = Some current"
      "up_decode h (d' @ [10]) = Some (current\<lparr>rt_version := pn_target pn, rt_channel := pn_channel pn, rt_installed := t\<rparr>)"
      using assms(2) activated(3) new(1) by (simp_all add: codec_ok_def)
    have "uw_files w' ?exe = Some binary" "uw_files w' (previous_binary_path ?exe) = uw_files w ?exe"
      "uw_files w' (ReceiptPath h ?exe) = Some (d' @ [10])" "uw_files w' (previous_receipt_path h ?exe) = Some (d @ [10])"
      using b(2-4) fs paths activated(4) new(2) unfolding current by auto
    then show ?thesis using fetch_result [OF b(1)] activated(2) fs(1) reads by metis
  qed simp_all
qed

lemma rolled_back:
  assumes "replace_ok h" "restore_previous h env exe w = (Inr r, w')" "settled h exe"
  shows "\<exists>previous. uw_files w' exe = uw_files w (previous_binary_path exe) \<and>
    (\<exists>d. uw_files w (previous_receipt_path h exe) = Some d \<and> up_decode h d = Some previous) \<and>
    (\<exists>d. up_encode h previous = Some d \<and> uw_files w' (ReceiptPath h exe) = Some (d @ [10]))"
proof -
  obtain current w1 where load: "receipts_load h env exe w = (Inr current, w1)"
    using assms(2) by (auto simp: restore_previous_def up_then_Inr Let_def)
  obtain rp w2 where prev: "receipts_load_previous h env exe w1 = (rp, w2)" by fastforce
  obtain previous where previous: "rp = Inr previous"
    using assms(2) load prev by (cases rp) (auto simp: restore_previous_def up_then_def Let_def)
  have same: "\<not> (rt_id current \<noteq> rt_id previous \<or> rt_executable current \<noteq> rt_executable previous \<or> rt_owner previous \<noteq> OwnerStandalone)"
    using assms(2) load prev previous by (auto simp: restore_previous_def up_then_def Let_def split: if_splits)
  obtain r3 w3 where r3: "replace_from_file h env (previous_binary_path exe) exe (failed_binary_path exe) w2 = (r3, w3)" by fastforce
  obtain u3 where u3: "r3 = Inr u3"
    using assms(2) load prev previous same r3 by (cases r3) (auto simp: restore_previous_def up_then_def Let_def)
  obtain r4 w4 where r4: "receipts_save h env previous w3 = (r4, w4)" by fastforce
  have ends: "\<exists>u4. r4 = Inr u4 \<and>
      w' = receipts_remove_previous h env exe (remove_file env (failed_binary_path exe) (remove_file env (previous_binary_path exe) w4))"
  proof (cases r4)
    case (Inl e)
    obtain r5 w5 where "replace_from_file h env (failed_binary_path exe) exe (previous_binary_path exe) w4 = (r5, w5)" by fastforce
    then show ?thesis using assms(2) load prev previous same r3 u3 r4 Inl
      by (cases r5) (simp_all add: restore_previous_def up_then_def Let_def)
  next
    case (Inr u)
    then show ?thesis using assms(2) load prev previous same r3 u3 r4
      by (simp add: restore_previous_def up_then_def Let_def)
  qed
  have fs1: "uw_files w1 = uw_files w" using load_files load unfolding receipts_load_def by blast
  moreover have "uw_files w2 = uw_files w1" using load_files prev unfolding receipts_load_previous_def by blast
  ultimately have fs: "uw_files w1 = uw_files w" "uw_files w2 = uw_files w" by simp_all
  have valid: "validate_receipt h exe previous = None" "\<exists>d. uw_files w (previous_receipt_path h exe) = Some d \<and> up_decode h d = Some previous"
    using load_result [of h env "previous_receipt_path h exe" exe w1 previous w2] prev previous fs(1)
    by (auto simp: receipts_load_previous_def)
  have exe: "rt_executable previous = exe" using valid_executable [OF assms(3) valid(1)] .
  obtain u4 where "save_receipt h env (ReceiptPath h exe) previous w3 = (Inr u4, w4)"
    using r4 ends exe by (auto simp: receipts_save_def split: if_splits)
  from save_result [OF this] obtain d where d: "up_encode h previous = Some d" "uw_files w4 = (uw_files w3)(ReceiptPath h exe \<mapsto> d @ [10])" by blast
  have "uw_files w3 exe = uw_files w (previous_binary_path exe)"
    using restored(2) [OF assms(1) binary_paths(5)] r3 u3 fs(2) by fastforce
  then have "uw_files w' exe = uw_files w (previous_binary_path exe)" "uw_files w' (ReceiptPath h exe) = Some (d @ [10])"
    using ends d(2) assms(3) by (auto simp: receipts_remove_previous_def removed_other settled_def)
  then show ?thesis using valid(2) d(1) by blast
qed

text \<open>
  C22: after an update that reports success, the executable is the one found in an archive whose digest is the
  only entry for it in checksums with a verified signature, the old executable is the backup, and the receipt
  is the old one with the new version and channel, the old one being kept as the previous receipt.
\<close>

theorem applied_update_is_verified:
  assumes "replace_ok h" "codec_ok h" "settled h (pn_executable pn)" "service_apply h env pn w = (Inr r, w')"
    "us_status r = StatusApplied"
  shows "(\<exists>checksums bundle archive binary. up_verify h checksums bundle \<and>
      checksum_entries (rl_asset (pn_release pn)) checksums = [Some (up_sha h archive)] \<and>
      extract_binary h (rl_asset (pn_release pn)) archive = Inr binary \<and>
      uw_files w' (pn_executable pn) = Some binary) \<and>
    uw_files w' (previous_binary_path (pn_executable pn)) = uw_files w (pn_executable pn) \<and>
    (\<exists>old t. (\<exists>d. uw_files w (ReceiptPath h (pn_executable pn)) = Some d \<and> up_decode h d = Some old) \<and>
      (\<exists>d. uw_files w' (ReceiptPath h (pn_executable pn)) = Some d \<and>
           up_decode h d = Some (old\<lparr>rt_version := pn_target pn, rt_channel := pn_channel pn, rt_installed := t\<rparr>)) \<and>
      (\<exists>d. uw_files w' (previous_receipt_path h (pn_executable pn)) = Some d \<and> up_decode h d = Some old))"
  using assms by (rule applied_result)

text \<open>
  C23: a rollback after a successful update brings back the executable and the receipt that were installed
  before it.
\<close>

theorem rollback_undoes_the_update:
  assumes "replace_ok h" "codec_ok h" "settled h (pn_executable pn)" "service_apply h env pn w = (Inr r, w1)"
    "us_status r = StatusApplied" "service_rollback h env' (resolve_installation h env' (pn_executable pn) missing version ch) w1 = (Inr r', w2)"
  shows "uw_files w2 (pn_executable pn) = uw_files w (pn_executable pn) \<and>
    Option.bind (uw_files w2 (ReceiptPath h (pn_executable pn))) (up_decode h) =
    Option.bind (uw_files w (ReceiptPath h (pn_executable pn))) (up_decode h)"
proof -
  let ?exe = "pn_executable pn"
  obtain old d where applied: "uw_files w1 (previous_binary_path ?exe) = uw_files w ?exe"
      "Option.bind (uw_files w (ReceiptPath h ?exe)) (up_decode h) = Some old"
      "uw_files w1 (previous_receipt_path h ?exe) = Some d" "up_decode h d = Some old"
    using applied_result [OF assms(1-5)] by auto
  obtain i v1 where i: "resolve_installation h env' ?exe missing version ch w1 = (Inr i, v1)" "in_owner i = OwnerStandalone"
      "with_lock env' (restore_previous h env' (in_executable i)) v1 = (Inr r', w2)"
    using assms(6) by (auto simp: service_rollback_def up_then_Inr split: if_splits)
  obtain r1 u1 where load: "receipts_load h env' ?exe w1 = (r1, u1)" by fastforce
  have v1: "v1 = u1" "in_executable i = ?exe"
  proof -
    have "v1 = u1 \<and> in_executable i = ?exe"
    proof (cases r1)
      case (Inl e)
      then show ?thesis using i(1) load assms(3)
        by (auto simp: resolve_installation_def settled_def split: if_splits)
    next
      case (Inr c)
      then have "validate_receipt h ?exe c = None" using load load_result unfolding receipts_load_def by blast
      then show ?thesis using i(1) load Inr valid_executable [OF assms(3)]
        by (auto simp: resolve_installation_def receipt_installation_def)
    qed
    then show "v1 = u1" "in_executable i = ?exe" by simp_all
  qed
  have fs: "uw_files v1 = uw_files w1" using v1(1) load load_files unfolding receipts_load_def by blast
  from locked_result [OF i(3)] obtain x1 x2 where x: "uw_files x1 = uw_files w1" "uw_files w2 = uw_files x2"
      "restore_previous h env' ?exe x1 = (Inr r', x2)" using fs v1(2) by auto
  obtain previous d' where p: "uw_files x2 ?exe = uw_files x1 (previous_binary_path ?exe)"
      "\<exists>d. uw_files x1 (previous_receipt_path h ?exe) = Some d \<and> up_decode h d = Some previous"
      "up_encode h previous = Some d'" "uw_files x2 (ReceiptPath h ?exe) = Some (d' @ [10])"
    using rolled_back [OF assms(1) x(3) assms(3)] by blast
  have "previous = old" "up_decode h (d' @ [10]) = Some previous"
    using p(2,3) applied(3,4) x(1) assms(2) by (auto simp: codec_ok_def)
  then show ?thesis using p(1,4) applied(1,2) x(1,2) by simp
qed


definition last_binary :: "bytes \<Rightarrow> tar_entry list \<Rightarrow> bytes" where
  "last_binary = foldl (\<lambda>b t. if te_name t = ''jetkvm'' then limited_read (te_data t) else b)"

lemma last_binary_cases:
  "(\<exists>t \<in> set ts. te_name t = ''jetkvm'' \<and> last_binary b ts = limited_read (te_data t)) \<or>
   ''jetkvm'' \<notin> te_name ` set ts \<and> last_binary b ts = b"
  by (induction ts rule: rev_induct) (auto simp: last_binary_def)

lemma tar_loop_result:
  "tar_loop items seen n b = Inr (seen', b') \<Longrightarrow> distinct seen \<Longrightarrow>
     \<exists>ts. items = map TarEntry ts \<and> seen' = rev (map te_name ts) @ seen \<and> distinct seen' \<and>
       list_all (\<lambda>t. te_regular t \<and> te_name t \<in> set tar_names) ts \<and> b' = last_binary b ts"
proof (induction items arbitrary: seen n b)
  case Nil
  then show ?case by (simp add: last_binary_def)
next
  case (Cons item items)
  obtain t where t: "item = TarEntry t" using Cons.prems(1) by (cases item) auto
  let ?b = "if te_name t = ''jetkvm'' then limited_read (te_data t) else b"
  have ok: "te_name t \<in> set tar_names" "te_name t \<notin> set seen" "te_regular t"
    "tar_loop items (te_name t # seen) (i64 (n + te_size t)) ?b = Inr (seen', b')"
    using Cons.prems(1) unfolding t by (simp_all split: if_splits del: i64_id)
  have "distinct (te_name t # seen)" using ok(2) Cons.prems(2) by simp
  from Cons.IH [OF ok(4) this] obtain ts where "items = map TarEntry ts" "seen' = rev (map te_name ts) @ te_name t # seen"
      "distinct seen'" "list_all (\<lambda>t. te_regular t \<and> te_name t \<in> set tar_names) ts" "b' = last_binary ?b ts" by blast
  then show ?case using ok(1,3) by (intro exI [of _ "t # ts"]) (simp add: t last_binary_def)
qed

text \<open>
  C37: an executable extracted from a tarball comes from an archive that holds exactly the four expected
  regular files, each once; it is the content of the one named jetkvm, not empty and within the size limit.
\<close>

theorem extracted_executable_is_the_expected_entry:
  assumes "extract_tar h archive = Inr binary"
  shows "\<exists>ts. up_tar h archive = Some (map TarEntry ts) \<and> distinct (map te_name ts) \<and>
    set (map te_name ts) = {''jetkvm'', ''LICENSE'', ''NOTICE'', ''README.md''} \<and> list_all te_regular ts \<and>
    (\<exists>t \<in> set ts. te_name t = ''jetkvm'' \<and> binary = te_data t) \<and>
    binary \<noteq> [] \<and> int (length binary) \<le> maxReleaseBinaryBytes"
proof -
  obtain items seen where loop: "up_tar h archive = Some items" "tar_loop items [] 0 [] = Inr (seen, binary)" "length seen = 4"
      "binary \<noteq> []" "int (length binary) \<le> maxReleaseBinaryBytes"
    using assms by (auto simp: extract_tar_def validate_extracted_def split: option.splits sum.splits prod.splits if_splits)
  obtain ts where ts: "items = map TarEntry ts" "seen = rev (map te_name ts)" "distinct seen"
      "list_all (\<lambda>t. te_regular t \<and> te_name t \<in> set tar_names) ts" "binary = last_binary [] ts"
    using tar_loop_result [OF loop(2)] by auto
  have "set (map te_name ts) \<subseteq> set tar_names" using ts(4) by (auto simp: list_all_iff)
  moreover have "card (set (map te_name ts)) = card (set tar_names)"
    using distinct_card [of "map te_name ts"] ts(2,3) loop(3) by (simp add: tar_names_def)
  ultimately have names: "set (map te_name ts) = set tar_names" by (intro card_subset_eq) simp_all
  obtain t where t: "t \<in> set ts" "te_name t = ''jetkvm''" "binary = limited_read (te_data t)"
    using last_binary_cases [of ts "[]"] ts(5) loop(4) by auto
  have "binary = te_data t"
    using t(3) loop(5) by (auto simp: limited_read_def maxReleaseBinaryBytes_def split: if_splits)
  then show ?thesis using loop(1,4,5) ts names t(1,2) by (auto simp: list_all_iff tar_names_def)
qed

section \<open>An installation\<close>

definition ex_receipt :: "string \<Rightarrow> time \<Rightarrow> install_receipt" where
  "ex_receipt version at =
     \<lparr>rt_schema = 1, rt_id = ''u'', rt_owner = OwnerStandalone, rt_executable = ''/b/jetkvm'', rt_version = version,
      rt_repository = Repository, rt_channel = ChannelStable, rt_installed = at\<rparr>"

definition ex_replace :: "nat \<Rightarrow> bytes \<Rightarrow> string \<Rightarrow> string \<Rightarrow> files \<Rightarrow> update_errors option \<times> files" where
  "ex_replace t content target backup fs = (None, fs(backup := fs target, target := Some content))"

definition ex_entry :: "string \<Rightarrow> tar_item" where
  "ex_entry name = TarEntry \<lparr>te_name = name, te_regular = True, te_size = 1, te_data = [9], te_failed = False\<rparr>"

definition ex_encode :: "install_receipt \<Rightarrow> bytes option" where
  "ex_encode r = (if r = ex_receipt ''1'' 5 then Some [1] else if r = ex_receipt ''2'' 5 then Some [2] else None)"

definition ex_decode_receipt :: "bytes \<Rightarrow> install_receipt option" where
  "ex_decode_receipt d = (if d = [1, 10] then Some (ex_receipt ''1'' 5) else if d = [2, 10] then Some (ex_receipt ''2'' 5) else None)"

definition ex_host :: "nat host" where
  "ex_host =
     \<lparr>up_semver = (\<lambda>s. if s = ''1'' then Some 1 else if s = ''2'' then Some 2 else None),
      up_compare = (\<lambda>a b. int a - int b), up_show = (\<lambda>v. if v = 1 then ''1'' else ''2''), up_pre = (\<lambda>_. []),
      up_sha = (\<lambda>_. replicate 32 7), up_verify = (\<lambda>_ _. True),
      up_tar = (\<lambda>_. Some (map ex_entry [''jetkvm'', ''LICENSE'', ''NOTICE'', ''README.md''])), up_zip = (\<lambda>_. None),
      up_scheme = (\<lambda>_. Some ''https''), up_clean = (\<lambda>p. p), up_dir = (\<lambda>_. ''/b''), up_join = (\<lambda>d n. d @ ''/'' @ n),
      up_abs = Some, up_is_abs = (\<lambda>_. True), up_uuid = (\<lambda>_. True), up_decode = ex_decode_receipt, up_encode = ex_encode,
      up_replace = ex_replace, up_os = ''linux'', up_arch = ''amd64'', up_http = False\<rparr>"

definition ex_asset :: string where "ex_asset = ''jetkvm_2_linux_amd64.tar.gz''"

definition ex_checksums :: bytes where
  "ex_checksums = concat (replicate 32 [48, 55]) @ [32, 32] @ text_bytes ex_asset @ [10]"

definition ex_up_answer :: up_answer where
  "ex_up_answer =
     \<lparr>ua_error = None, ua_status = 200, ua_length = 0, ua_body = ex_checksums, ua_now = 5,
      ua_report = Some \<lparr>id_schema = ''v1'', id_command = ''version'', id_version = ''2'', id_commit = ''c'', id_os = ''linux'',
                        id_arch = ''amd64''\<rparr>,
      ua_release = Some \<lparr>gr_tag = ''v2'', gr_draft = False, gr_prerelease = False, gr_published = 3,
        gr_assets = [\<lparr>ga_name = ex_asset, ga_url = ''a''\<rparr>, \<lparr>ga_name = ''checksums.txt'', ga_url = ''c''\<rparr>,
                     \<lparr>ga_name = ''checksums.txt.sigstore.json'', ga_url = ''s''\<rparr>]\<rparr>,
      ua_page = [], ua_next = False\<rparr>"

text \<open>Every call succeeds but those of \<open>broken\<close>.\<close>

definition ex_up_env :: "nat list \<Rightarrow> up_env" where
  "ex_up_env broken n = (if n \<in> set broken then ex_up_answer\<lparr>ua_error := Some [UpOutside 7]\<rparr> else ex_up_answer)"

definition ex_release :: release where
  "ex_release =
     \<lparr>rl_version = ''2'', rl_prerelease = False, rl_asset = ex_asset, rl_url = ''a'', rl_published = 3,
      rl_native = Some \<lparr>ra_archive = ''a'', ra_checksums = ''c'', ra_bundle = ''s''\<rparr>\<rparr>"

definition ex_plan :: update_plan where
  "ex_plan =
     \<lparr>pn_action = ActionSelfReplace, pn_owner = OwnerStandalone, pn_current = ''1'', pn_target = ''2'',
      pn_executable = ''/b/jetkvm'', pn_channel = ChannelStable, pn_command = [], pn_release = ex_release, pn_id = ''u''\<rparr>"

definition ex_disk :: "bytes option \<Rightarrow> up_world" where
  "ex_disk backup =
     \<lparr>uw_files = (\<lambda>p. if p = ''/b/jetkvm'' then Some [8] else if p = ''/b/.jetkvm-install.json'' then Some [1, 10]
                    else if p = ''/b/jetkvm.previous'' then backup else None),
      uw_tick = 0, uw_locked = False\<rparr>"

lemma ex_host_ok: "replace_ok ex_host" "codec_ok ex_host" "settled ex_host ''/b/jetkvm''"
proof -
  show "replace_ok ex_host" by (auto simp: replace_ok_def ex_host_def ex_replace_def)
  show "codec_ok ex_host" by (auto simp: codec_ok_def ex_host_def ex_encode_def ex_decode_receipt_def)
  show "settled ex_host ''/b/jetkvm''"
    by (simp add: settled_def ex_host_def ReceiptPath_def previous_receipt_path_def previous_binary_path_def failed_binary_path_def)
qed


lemma ex_applied: "map_sum hd us_status (fst (service_apply ex_host (ex_up_env []) ex_plan (ex_disk None))) = Inr StatusApplied"
  by code_simp

theorem applied_update_is_verified_witness:
  "\<exists>checksums bundle archive binary. up_verify ex_host checksums bundle \<and>
     checksum_entries ex_asset checksums = [Some (up_sha ex_host archive)] \<and> extract_binary ex_host ex_asset archive = Inr binary \<and>
     uw_files (snd (service_apply ex_host (ex_up_env []) ex_plan (ex_disk None))) ''/b/jetkvm'' = Some binary"
proof -
  obtain r w' where r: "service_apply ex_host (ex_up_env []) ex_plan (ex_disk None) = (r, w')" by fastforce
  then obtain x where x: "r = Inr x" "us_status x = StatusApplied" using ex_applied by (cases r) simp_all
  show ?thesis
    using applied_update_is_verified [of ex_host ex_plan "ex_up_env []" "ex_disk None" x w'] ex_host_ok r x
    by (simp add: ex_plan_def ex_release_def)
qed

definition ex_found :: "up_world \<Rightarrow> installation up" where
  "ex_found = resolve_installation ex_host (ex_up_env []) ''/b/jetkvm'' OwnerUnknown ''1'' ChannelStable"

lemma ex_decoded: "ex_decode_receipt d = Some r \<longleftrightarrow> d = [1, 10] \<and> r = ex_receipt ''1'' 5 \<or> d = [2, 10] \<and> r = ex_receipt ''2'' 5"
  by (auto simp: ex_decode_receipt_def)

lemma ex_paths:
  "ReceiptPath ex_host ''/b/jetkvm'' = ''/b/.jetkvm-install.json''"
  "previous_receipt_path ex_host ''/b/jetkvm'' = ''/b/.jetkvm-install.previous.json''"
  "previous_binary_path ''/b/jetkvm'' = ''/b/jetkvm.previous''" "failed_binary_path ''/b/jetkvm'' = ''/b/jetkvm.failed''"
  by code_simp+

lemma ex_applied_files:
  assumes "service_apply ex_host (ex_up_env []) ex_plan (ex_disk None) = (Inr x, w)" "us_status x = StatusApplied"
  shows "uw_files w ''/b/jetkvm.previous'' = Some [8] \<and> uw_files w ''/b/.jetkvm-install.json'' = Some [2, 10] \<and>
    uw_files w ''/b/.jetkvm-install.previous.json'' = Some [1, 10]"
proof -
  have plan: "pn_executable ex_plan = ''/b/jetkvm''" "pn_target ex_plan = ''2''" by (simp_all add: ex_plan_def)
  have decode: "up_decode ex_host = ex_decode_receipt" by (simp add: ex_host_def)
  have disk: "uw_files (ex_disk None) ''/b/jetkvm'' = Some [8]" "uw_files (ex_disk None) ''/b/.jetkvm-install.json'' = Some [1, 10]"
    by (simp_all add: ex_disk_def)
  have version: "rt_version (ex_receipt v t) = v" for v t by (simp add: ex_receipt_def)
  have prev: "uw_files w ''/b/jetkvm.previous'' = Some [8]"
    using applied_result [OF ex_host_ok(1,2) _ assms] ex_host_ok(3) by (simp add: plan ex_paths disk)
  obtain old t where old: "ex_decode_receipt [1, 10] = Some old"
      "\<exists>d. uw_files w ''/b/.jetkvm-install.json'' = Some d \<and> ex_decode_receipt d = Some (old\<lparr>rt_version := ''2'', rt_channel := pn_channel ex_plan, rt_installed := t\<rparr>)"
      "\<exists>d. uw_files w ''/b/.jetkvm-install.previous.json'' = Some d \<and> ex_decode_receipt d = Some old"
    using applied_result [OF ex_host_ok(1,2) _ assms] ex_host_ok(3) unfolding plan ex_paths disk decode by auto
  have one: "old = ex_receipt ''1'' 5" using old(1) by (simp add: ex_decode_receipt_def)
  obtain d where d: "uw_files w ''/b/.jetkvm-install.json'' = Some d" "ex_decode_receipt d = Some (old\<lparr>rt_version := ''2'', rt_channel := pn_channel ex_plan, rt_installed := t\<rparr>)"
    using old(2) by blast
  have "d \<noteq> [1, 10]"
  proof
    assume "d = [1, 10]"
    then have "old\<lparr>rt_version := ''2'', rt_channel := pn_channel ex_plan, rt_installed := t\<rparr> = ex_receipt ''1'' 5"
      using d(2) by (simp add: ex_decode_receipt_def)
    from arg_cong [OF this, of rt_version] show False by (simp add: version)
  qed
  then have new: "d = [2, 10]" using d(2) by (auto simp: ex_decode_receipt_def split: if_splits)
  obtain e where e: "uw_files w ''/b/.jetkvm-install.previous.json'' = Some e" "ex_decode_receipt e = Some (ex_receipt ''1'' 5)"
    using old(3) one by blast
  have "e \<noteq> [2, 10]"
  proof
    assume "e = [2, 10]"
    then have "ex_receipt ''2'' 5 = ex_receipt ''1'' 5" using e(2) by (simp add: ex_decode_receipt_def)
    from arg_cong [OF this, of rt_version] show False by (simp add: version)
  qed
  then have "e = [1, 10]" using e(2) by (auto simp: ex_decode_receipt_def split: if_splits)
  with prev d(1) new e(1) show ?thesis by simp
qed

lemma ex_rollback:
  assumes "uw_files w ''/b/jetkvm.previous'' = Some [8] \<and> uw_files w ''/b/.jetkvm-install.json'' = Some [2, 10] \<and>
    uw_files w ''/b/.jetkvm-install.previous.json'' = Some [1, 10]"
  shows "map_sum hd us_status (fst (service_rollback ex_host (ex_up_env []) ex_found w)) = Inr StatusRolledBack"
proof -
  have env: "ex_up_env [] n = ex_up_answer" for n by (simp add: ex_up_env_def)
  have answer: "ua_error ex_up_answer = None" by (simp add: ex_up_answer_def)
  have host: "up_decode ex_host = ex_decode_receipt" "up_replace ex_host = ex_replace" "up_encode ex_host = ex_encode"
    by (simp_all add: ex_host_def)
  have valid: "validate_receipt ex_host ''/b/jetkvm'' (ex_receipt ''1'' 5) = None"
    "validate_receipt ex_host ''/b/jetkvm'' (ex_receipt ''2'' 5) = None" by code_simp+
  have decoded: "ex_decode_receipt [1, 10] = Some (ex_receipt ''1'' 5)" "ex_decode_receipt [2, 10] = Some (ex_receipt ''2'' 5)"
    "ex_encode (ex_receipt ''1'' 5) = Some [1]" by (simp_all add: ex_decode_receipt_def ex_encode_def)
  have fields: "rt_executable (ex_receipt v t) = ''/b/jetkvm''" "rt_owner (ex_receipt v t) = OwnerStandalone" "rt_id (ex_receipt v t) = ''u''"
    "rt_version (ex_receipt v t) = v" for v t by (simp_all add: ex_receipt_def)
  have call: "up_call (ex_up_env []) v = (Inr (), v\<lparr>uw_tick := Suc (uw_tick v)\<rparr>)" for v
    by (simp add: up_call_def ask_up_def env answer)
  have load: "load_receipt ex_host (ex_up_env []) p ''/b/jetkvm'' v = (Inr r, v\<lparr>uw_tick := Suc (uw_tick v)\<rparr>)"
    if "uw_files v p = Some d" "ex_decode_receipt d = Some r" "validate_receipt ex_host ''/b/jetkvm'' r = None" for p v d r
    using that by (simp add: load_receipt_def up_then_def call host)
  note loads = load [OF _ decoded(1) valid(1)] load [OF _ decoded(2) valid(2)]
  show ?thesis using assms
    by (simp add: service_rollback_def ex_found_def resolve_installation_def receipts_load_def receipts_load_previous_def loads ex_paths
        up_then_def with_lock_def ask_up_def env answer restore_previous_def receipt_installation_def fields call valid decoded host
        replace_from_file_def swap_executable_def ex_replace_def receipts_save_def save_receipt_def Let_def)
qed

theorem rollback_undoes_the_update_witness:
  "uw_files (snd (service_rollback ex_host (ex_up_env []) ex_found
       (snd (service_apply ex_host (ex_up_env []) ex_plan (ex_disk None))))) ''/b/jetkvm'' = Some [8]"
proof -
  obtain r w1 where r: "service_apply ex_host (ex_up_env []) ex_plan (ex_disk None) = (r, w1)" by fastforce
  then obtain x where x: "r = Inr x" "us_status x = StatusApplied" using ex_applied by (cases r) simp_all
  obtain r' w2 where r': "service_rollback ex_host (ex_up_env []) ex_found w1 = (r', w2)" by fastforce
  have "map_sum hd us_status (fst (service_rollback ex_host (ex_up_env []) ex_found w1)) = Inr StatusRolledBack"
    by (rule ex_rollback) (rule ex_applied_files [OF r [unfolded x(1)] x(2)])
  then obtain y where y: "r' = Inr y" by (cases r') (simp_all add: r')
  have "uw_files w2 ''/b/jetkvm'' = Some [8]"
    using rollback_undoes_the_update [of ex_host ex_plan "ex_up_env []" "ex_disk None" x w1 "ex_up_env []" OwnerUnknown "''1''" ChannelStable y w2]
      ex_host_ok r x r' y by (simp add: ex_found_def ex_plan_def ex_disk_def)
  then show ?thesis by (simp add: r r')
qed



theorem extracted_executable_is_the_expected_entry_witness:
  "\<exists>binary. extract_tar ex_host [0] = Inr binary \<and> binary \<noteq> [] \<and> int (length binary) \<le> 67108864"
proof -
  have "extract_tar ex_host [0] = Inr [9]" by code_simp
  from this extracted_executable_is_the_expected_entry [OF this] show ?thesis by (auto simp: maxReleaseBinaryBytes_def)
qed

text \<open>
  With the backup of an earlier update in place, an update that fails before it replaced anything puts that
  older executable in place, while the receipt keeps the version that was installed.
\<close>

theorem failed_update_reinstalls_leftover_backup:
  "map_sum hd us_status (fst (service_apply ex_host (ex_up_env [3]) ex_plan (ex_disk (Some [6])))) = Inl (Up UpApplyFailed) \<and>
   uw_files (snd (service_apply ex_host (ex_up_env [3]) ex_plan (ex_disk (Some [6])))) ''/b/jetkvm'' = Some [6] \<and>
   uw_files (snd (service_apply ex_host (ex_up_env [3]) ex_plan (ex_disk (Some [6])))) ''/b/.jetkvm-install.json'' = Some [1, 10]"
  by code_simp

text \<open>A cancellation during the self-check also stops the rollback: the unchecked executable stays.\<close>

theorem cancelled_check_keeps_unchecked_executable:
  "map_sum hd us_status (fst (service_apply ex_host (ex_up_env [13, 14]) ex_plan (ex_disk None))) = Inl (Up UpRollbackFailed) \<and>
   uw_files (snd (service_apply ex_host (ex_up_env [13, 14]) ex_plan (ex_disk None))) ''/b/jetkvm'' = Some [9] \<and>
   uw_files (snd (service_apply ex_host (ex_up_env [13, 14]) ex_plan (ex_disk None))) ''/b/.jetkvm-install.json'' = Some [1, 10]"
  by code_simp

end
