(* ===== verification/Spec2Isabelle.thy ===== *)
theory Spec2Isabelle
  imports Policy Executor Control_Registry Automation Session_Adapter Ledger Confirmation Pipeline Updater
begin

text \<open>
  A verification library for \<open>jetkvm-cli\<close>: one Go program that controls JetKVM devices (network
  keyboard-video-mouse switches) from a command line and as an MCP server. This theory imports the whole
  library; it holds no definitions of its own.

  \<^bold>\<open>The program and how its parts interact.\<close>

  A command line or an MCP client asks for an operation by the name of a tool. The tool inventory says what a
  tool does to a device (its effect class) and how its receipts behave. The deployment configuration, narrowed
  by flags of the process, is compiled into a policy. The automation service decides each call: policy,
  confirmation, plan; it records the operation in the ledger, and hands it to the session of the device that
  the control registry keeps. The registry has one actor per device, which owns the device lock of the
  process, one live handle and the history of the old ones. The session adapter puts a send barrier between
  the input manager and the device protocol: an operation is recorded as started before its first frame goes
  out. The input manager holds a single-use lease, runs a compiled batch of key and pointer actions as HID-RPC
  frames and neutralizes the device afterwards. Recovery of the ledger marks the operations of dead processes
  as ambiguous. Beside that the video track of the session is depacketized into H.264 access units, queued,
  decoded by an embedded decoder and published as observations, which pointer actions are bound to. The
  self-update replaces the executable with a verified release and can roll it back.

  \<^bold>\<open>Theories and the code they model\<close> (paths under \<open>src/\<close>).

  \<^item> \<open>Jk_Prelude\<close>: machine types, Go's \<open>int64\<close> arithmetic and time, error chains, runs of state machines
    and the locales that lift facts on one step to all runs.
  \<^item> \<open>Domain\<close>, \<open>Inventory\<close> (\<open>internal/domain\<close>, \<open>internal/inventory\<close>): effect classes, the catalog of
    tools, its validation and its sorted enumeration; the built-in table is computed from it.
  \<^item> \<open>Config\<close>, \<open>Policy\<close> (\<open>internal/config\<close>, \<open>internal/policy\<close>): validation and narrowing of the
    configuration; compilation and \<open>Evaluate\<close>, refined to the intersection of four independent conditions.
  \<^item> \<open>Hid_Protocol\<close>, \<open>Keys\<close>, \<open>Actions\<close>, \<open>Lease\<close>, \<open>Executor\<close> (\<open>internal/input\<close>): frames, key tables
    and text, the compiler of batches, the manager with its lease and fence, and the run of a batch. A
    \<open>world\<close> is a manager with the trace of its transport calls and the places where another goroutine may
    set a fence.
  \<^item> \<open>Control_Actor\<close>, \<open>Control_Registry\<close> (\<open>internal/control\<close>): the actor's commands, with handles, expiry,
    reconnect, close and shutdown; the registry, its sweep and its drain.
  \<^item> \<open>Operation\<close>, \<open>Ledger\<close> (\<open>internal/operation\<close>, \<open>internal/store\<close>): the stages of an operation with
    the permitted transitions and the update they make; the tables of \<open>store.go\<close> and the schema of
    \<open>migrate.go\<close>, with the transactions of several processes interleaved and any statement failing.
  \<^item> \<open>Confirmation\<close> (\<open>internal/confirmation\<close>): proofs, sealing and verification, the store of used nonces.
  \<^item> \<open>Automation_Rules\<close>, \<open>Automation\<close>, \<open>Session_Adapter\<close> (\<open>internal/automation\<close>): the decisions that
    need no state; every operation of the service on a world of ledger, registry, nonces and devices; the
    session with its barrier, observations and close.
  \<^item> \<open>Depacketizer\<close>, \<open>Sps\<close>, \<open>Decoder\<close>, \<open>Pipeline\<close> (\<open>internal/video\<close>): reassembly of RTP packets; the
    parser of parameter sets; admission of access units, the driver of the codec instance and the decoded
    picture; the pipeline, whose critical sections are steps of one state machine that interleave freely.
  \<^item> \<open>Updater\<close> (\<open>internal/update\<close>): receipts and their files, release lookup, checksum, archive, activation,
    rollback.

  Definitions carry the name of the Go function they translate where Isabelle allows it; a method of a type is
  a function on the record of that type, and the fields of a record follow those of the struct. The manifest
  maps each definition to its lines.

  \<^bold>\<open>Conventions.\<close>

  A Go error is the list of the sentinels its chain wraps, so that \<open>errors.Is\<close> is membership; message texts
  are not kept. A function with a result and an error returns a sum. Integers keep their width where the code
  can reach its ends: counters and generations are words, durations are \<open>int\<close> wrapped by \<open>i64\<close>, sizes of
  slices are \<open>nat\<close> or \<open>int\<close> where the code compares them with limits. Strings are lists of characters where
  they are only compared and concatenated, and lists of bytes where the code reads their bytes.

  What is not under \<open>src/\<close>, or is an effect, is an argument. \<open>env\<close> gives the answers of the outside, one for
  each tick of the counter in the world: clock, random numbers, network, database statements, device,
  cancelled contexts. A theorem that is stated for every \<open>env\<close> therefore holds for every behaviour of the
  outside, failures at any point included. A script (in \<open>Executor\<close>) lists the answers of the transport. Where
  a parameter has to behave as documented (\<open>codec_ok\<close>, \<open>replace_ok\<close> in \<open>Updater\<close>, the seal in
  \<open>Confirmation\<close>), the hypothesis is named and a witness instantiates it. Concurrency is interleaving: each
  critical section of a mutex is one function, and a run is a list of such steps of all goroutines.

  \<^bold>\<open>What the lemmas show.\<close>

  Sending: at most one command of an operation is handed to a device, only for a call that policy and
  confirmation justify, only after its record says so, and an operation reported as safe to retry was never
  sent. Recovery, purge and foreign calls change nothing about a send in progress, and mark exactly the
  abandoned ones. Terminal receipts are final. Every run of the input manager ends with the neutral frames,
  whatever fails. Handles: a call reaches a session only under a live handle, a refused reference stays
  refused, a drained registry is quiet. Policy: narrowing never grants. Proofs are single-use and bound to
  their operation. Video: fragments reassemble in any order, what the parsers accept is bounded, only
  decodable units reach the codec, a unit is decoded only after its predecessor, observations are current,
  queues are bounded and waiters are woken. Update: failure changes nothing, success is what was signed, and
  rollback undoes it. Each component's invariant is proved for one step and lifted to all runs by the
  locales \<open>guarded_machine\<close>, \<open>ranked_machine\<close> and \<open>latched_machine\<close>, interpreted on the components'
  own steps; \<open>stage_ledger\<close>, \<open>nonce_store\<close>, \<open>tool_catalog\<close> and \<open>world_invariant\<close> are the contracts of
  the ledger, the nonce store, the catalog and the service's world.

  Some theorems state what the code does against its comments or its intention, for instance
  \<open>release_exempts_later_input\<close>, \<open>drag_carries_no_expiry\<close>, \<open>failed_update_reinstalls_leftover_backup\<close>.

  \<^bold>\<open>Bounds and fuel.\<close>

  Every loop of the source that ends is a total function, with a measure where the recursion is not structural
  (the bytes or bits left). Fuel appears in one place, the pages of the release list (\<open>Updater.latest_pages\<close>),
  because the server decides how many there are; running out is \<open>None\<close>, and no theorem concludes anything
  from it. Limits of the code (32 queued units, 16 observations, sizes of archives) are the code's constants.

  \<^bold>\<open>Not modelled.\<close>

  The C decoder and its WebAssembly runtime, SQLite, the WebRTC stack, TLS, the keyring, the MCP library and
  the terminal are outside the repository's own logic and are parameters. The command line
  (\<open>internal/cli\<close>, \<open>cmd\<close>), the MCP tool handlers (\<open>internal/mcpserver\<close>), the wiring of the process
  (\<open>internal/app\<close>) and the terminal renderer translate between formats and call the services modelled here.
  Message texts, progress reports, timers as such and the encoding of pictures are not modelled. The memory
  model is that of data-race-free Go: a mutex section is atomic.
\<close>

end
